(* ===== verification/Prelude.thy ===== *)
theory Prelude
  imports Main "HOL-Library.Word"
begin

text \<open>
  Shared vocabulary of the development: bytes, \<open>size_t\<close> arithmetic, C strings and
  memory reads, string literals as bytes, and the generic lemmas on lists and bytes that the
  component theories use.

  \<^item> A byte is an \<open>8 word\<close>; C's \<open>unsigned char\<close> and the bits of C's \<open>char\<close>.
  \<^item> A \<open>size_t\<close> is a natural number, with the wrap-around of its additions written out
    (\<open>size_add\<close>) wherever the code adds sizes that come from outside.
  \<^item> A \<open>const char *\<close> is an optional list of bytes: \<open>None\<close> is \<open>NULL\<close>, and
    \<open>Some m\<close> points at the bytes \<open>m\<close> followed by a terminating zero. \<open>m\<close> may
    itself hold a zero byte, in which case the string ends there.
\<close>

unbundle bit_operations_syntax

named_theorems size_simps \<comment> \<open>sizes that do not wrap around\<close>
named_theorems mem_simps \<comment> \<open>C memory reads and string lengths\<close>
named_theorems scan_simps \<comment> \<open>the optimised scanners against their reference definitions\<close>

section \<open>Bytes, sizes and pointers\<close>

type_synonym byte = "8 word"
type_synonym size_t = nat
type_synonym cstring = "byte list option"

definition SIZE_MODULUS :: nat where
  "SIZE_MODULUS = 18446744073709551616"

text \<open>Largest size of a C object: \<open>PTRDIFF_MAX\<close>.\<close>

definition OBJECT_MAX :: nat where
  "OBJECT_MAX = 9223372036854775807"

definition size_add :: "size_t \<Rightarrow> size_t \<Rightarrow> size_t" where
  "size_add a b = (a + b) mod SIZE_MODULUS"

lemma size_add_eq [size_simps]: "a + b < SIZE_MODULUS \<Longrightarrow> size_add a b = a + b"
  by (simp add: size_add_def)

text \<open>A string literal of the source as its bytes.\<close>

definition bytes :: "string \<Rightarrow> byte list" where
  "bytes s = map of_char s"

lemma bytes_Nil [simp]: "bytes [] = []"
  and bytes_Cons [simp]: "bytes (c # cs) = of_char c # bytes cs"
  by (simp_all add: bytes_def)

lemma length_bytes [simp]: "length (bytes s) = length s"
  by (simp add: bytes_def)

section \<open>C strings and memory\<close>

text \<open>The byte at offset \<open>i\<close> of the memory a string pointer designates.\<close>

definition c_at :: "byte list \<Rightarrow> nat \<Rightarrow> byte" where
  "c_at m i = (if i < length m then m ! i else 0)"

text \<open>The text of a C string: the bytes before the first zero.\<close>

definition c_text :: "byte list \<Rightarrow> byte list" where
  "c_text m = takeWhile (\<lambda>b. b \<noteq> 0) m"

definition strlen :: "byte list \<Rightarrow> size_t" where
  "strlen m = length (c_text m)"

definition strnlen :: "byte list \<Rightarrow> size_t \<Rightarrow> size_t" where
  "strnlen m n = min n (strlen m)"

text \<open>The \<open>n\<close> bytes at \<open>m\<close>, as \<open>memcpy\<close> reads them.\<close>

definition c_mem :: "byte list \<Rightarrow> size_t \<Rightarrow> byte list" where
  "c_mem m n = take n (m @ replicate n 0)"

definition strcmp_eq :: "byte list \<Rightarrow> byte list \<Rightarrow> bool" where
  "strcmp_eq a b \<longleftrightarrow> c_text a = c_text b"

definition memcmp_eq :: "byte list \<Rightarrow> byte list \<Rightarrow> size_t \<Rightarrow> bool" where
  "memcmp_eq a b n \<longleftrightarrow> c_mem a n = c_mem b n"

lemma length_c_mem [simp]: "length (c_mem m n) = n"
  by (simp add: c_mem_def)

lemma c_mem_0 [simp]: "c_mem m 0 = []"
  by (simp add: c_mem_def)

lemma c_mem_take [mem_simps]: "n \<le> length m \<Longrightarrow> c_mem m n = take n m"
  by (simp add: c_mem_def)

lemma c_mem_full [simp]: "c_mem m (length m) = m"
  by (simp add: c_mem_def)

lemma nth_c_mem [mem_simps]: "i < n \<Longrightarrow> c_mem m n ! i = c_at m i"
  by (simp add: c_mem_def c_at_def nth_append)

lemma c_mem_eq_map: "c_mem m n = map (c_at m) [0..<n]"
  by (rule nth_equalityI) (simp_all add: nth_c_mem)

lemma set_c_mem: "set (c_mem m n) = c_at m ` {0..<n}"
  by (simp add: c_mem_eq_map)

lemma drop_c_mem: "drop i (c_mem m n) = map (c_at m) [i..<n]"
  by (simp add: c_mem_eq_map drop_map)

lemma drop_c_mem_Cons: "i < n \<Longrightarrow> drop i (c_mem m n) = c_at m i # drop (Suc i) (c_mem m n)"
  by (simp add: drop_c_mem upt_rec)

lemma take_drop_c_mem:
  "i + k \<le> n \<Longrightarrow> take k (drop i (c_mem m n)) = map (c_at m) [i..<i + k]"
  by (simp add: drop_c_mem take_map)

text \<open>Pointer arithmetic \<open>m + i\<close>: the memory from offset \<open>i\<close> on.\<close>

definition c_ptr_add :: "byte list \<Rightarrow> nat \<Rightarrow> byte list" where
  "c_ptr_add m i = drop i m"

lemma c_at_ptr_add [mem_simps]: "c_at (c_ptr_add m i) j = c_at m (i + j)"
  by (simp add: c_at_def c_ptr_add_def add.commute less_diff_conv)

lemma c_ptr_add_0 [simp]: "c_ptr_add m 0 = m"
  by (simp add: c_ptr_add_def)

lemma c_mem_ptr_add [mem_simps]: "c_mem (c_ptr_add m i) n = map (c_at m) [i..<i + n]"
  by (rule nth_equalityI) (simp_all add: nth_c_mem c_at_ptr_add)

lemma c_mem_ptr_add_drop:
  "i \<le> n \<Longrightarrow> c_mem (c_ptr_add m i) (n - i) = drop i (c_mem m n)"
  by (simp add: c_mem_ptr_add drop_c_mem)

lemma c_text_nonzero: "b \<in> set (c_text m) \<Longrightarrow> b \<noteq> 0"
  by (auto simp: c_text_def dest: set_takeWhileD)

lemma c_text_idem [simp]: "c_text (c_text m) = c_text m"
  by (simp add: c_text_def)

lemma c_text_id: "0 \<notin> set m \<Longrightarrow> c_text m = m"
  by (auto simp: c_text_def takeWhile_eq_all_conv)

lemma strlen_le [simp]: "strlen m \<le> length m"
  by (simp add: strlen_def c_text_def length_takeWhile_le)

lemma c_text_eq_take: "c_text m = take (strlen m) m"
  unfolding strlen_def c_text_def by (rule takeWhile_eq_take)

lemma c_mem_strlen [simp]: "c_mem m (strlen m) = c_text m"
  by (simp add: c_mem_take c_text_eq_take)

lemma c_at_below_strlen: "i < strlen m \<Longrightarrow> c_at m i \<noteq> 0"
proof -
  assume i: "i < strlen m"
  then have "c_at m i = c_text m ! i"
    by (simp add: c_at_def c_text_eq_take less_le_trans [OF i strlen_le])
  moreover have "c_text m ! i \<in> set (c_text m)"
    using i by (simp add: strlen_def)
  ultimately show ?thesis using c_text_nonzero by metis
qed

lemma c_at_strlen [simp]: "c_at m (strlen m) = 0"
proof (cases "strlen m < length m")
  case True
  then show ?thesis
    using nth_length_takeWhile [of "\<lambda>b. b \<noteq> 0" m] by (simp add: c_at_def strlen_def c_text_def)
next
  case False
  then show ?thesis by (simp add: c_at_def)
qed

lemma c_at_zero_iff: "i \<le> strlen m \<Longrightarrow> c_at m i = 0 \<longleftrightarrow> i = strlen m"
  using c_at_below_strlen [of i m] by (auto simp: le_less)

section \<open>Bytes by exhaustion\<close>

lemma all_byte_iff:
  "(\<forall>c :: byte. P c) \<longleftrightarrow> list_all (\<lambda>n. P (word_of_nat n)) [0..<256]"
proof
  assume *: "list_all (\<lambda>n. P (word_of_nat n)) [0..<256]"
  show "\<forall>c. P c"
  proof
    fix c :: byte
    have "unat c < 256" using unsigned_less [of c] by simp
    with * show "P c" by (auto simp: list_all_iff dest: bspec [of _ _ "unat c"])
  qed
qed (simp add: list_all_iff)

lemma unat_byte_less [simp]: "unat (c :: byte) < 256"
  using unsigned_less [of c] by simp

text \<open>The byte of a number, as C's conversion to \<open>unsigned char\<close>.\<close>

definition byte_of :: "nat \<Rightarrow> byte" where
  "byte_of n = word_of_nat n"

lemma unat_byte_of [simp]: "n < 256 \<Longrightarrow> unat (byte_of n) = n"
  by (simp add: byte_of_def unat_of_nat take_bit_nat_eq_self)

lemma byte_of_unat [simp]: "byte_of (unat c) = c"
  by (simp add: byte_of_def)

lemma byte_eqI: "unat c = n \<Longrightarrow> byte_of n = c"
  by auto

section \<open>Lists\<close>

text \<open>Index of the first element satisfying \<open>P\<close>, or the length.\<close>

definition first_index :: "('a \<Rightarrow> bool) \<Rightarrow> 'a list \<Rightarrow> nat" where
  "first_index P xs = length (takeWhile (\<lambda>x. \<not> P x) xs)"

lemma first_index_Nil [simp]: "first_index P [] = 0"
  and first_index_Cons [simp]:
    "first_index P (x # xs) = (if P x then 0 else Suc (first_index P xs))"
  by (simp_all add: first_index_def)

lemma first_index_le: "first_index P xs \<le> length xs"
  by (simp add: first_index_def length_takeWhile_le)

lemma first_index_append:
  "first_index P (xs @ ys) =
     (if \<exists>x\<in>set xs. P x then first_index P xs else length xs + first_index P ys)"
  by (induction xs) auto

lemma first_index_length_iff: "first_index P xs = length xs \<longleftrightarrow> (\<forall>x\<in>set xs. \<not> P x)"
  by (induction xs) auto

lemma first_index_nth: "first_index P xs < length xs \<Longrightarrow> P (xs ! first_index P xs)"
  by (induction xs) auto

lemma before_first_index: "i < first_index P xs \<Longrightarrow> \<not> P (xs ! i)"
  by (induction xs arbitrary: i) (auto split: if_splits simp: nth_Cons')

lemma take_first_index: "x \<in> set (take (first_index P xs) xs) \<Longrightarrow> \<not> P x"
  by (induction xs) (auto split: if_splits)

end
