(* ===== verification/Simd.thy ===== *)
theory Simd
  imports Prelude
begin

text \<open>
  The SIMD layer of \<open>src/encoders/ij_simd_dispatch.h\<close>: the processor kinds, the cached
  AVX2 probe, the choice of a back end, and the vector instructions that the AVX2 and NEON
  files use. A vector register is the list of its byte lanes, lowest address first; each
  intrinsic is a function on lanes. The lemmas reduce the two idioms of the vector loops,
  "mask is non-zero" and "index of the lowest set mask bit", to statements on the bytes.
\<close>

section \<open>Processor and dispatch\<close>

datatype arch = X86 | AARCH64 | OTHER_ARCH

text \<open>
  The machine the library runs on: the architecture it was compiled for, what
  \<open>__builtin_cpu_supports("avx2")\<close> answers, and the static cache of that answer
  (\<open>-1\<close> before the first probe).
\<close>

record cpu =
  cpu_arch :: arch
  cpu_supports_avx2 :: bool
  avx2_cached :: int

datatype ij_simd_kind_t = IJ_SIMD_KIND_SCALAR | IJ_SIMD_KIND_X86_AVX2 | IJ_SIMD_KIND_ARM_NEON

definition IJ_SIMD_JSON_ESCAPE_MIN_LEN :: size_t where
  "IJ_SIMD_JSON_ESCAPE_MIN_LEN = 32"

definition IJ_SIMD_UTF8_MIN_LEN :: size_t where
  "IJ_SIMD_UTF8_MIN_LEN = 32"

definition ij_simd_runtime_has_x86_avx2 :: "cpu \<Rightarrow> bool \<times> cpu" where
  "ij_simd_runtime_has_x86_avx2 cpu =
     (if cpu_arch cpu = X86 then
        (let value = avx2_cached cpu in
         if value \<ge> 0 then (value \<noteq> 0, cpu)
         else (let value = (if cpu_supports_avx2 cpu then 1 else 0)
               in (value \<noteq> 0, cpu\<lparr>avx2_cached := value\<rparr>)))
      else (False, cpu))"

definition ij_simd_runtime_has_arm_neon :: "cpu \<Rightarrow> bool" where
  "ij_simd_runtime_has_arm_neon cpu \<longleftrightarrow> cpu_arch cpu = AARCH64"

definition ij_simd_json_escape_kind :: "cpu \<Rightarrow> ij_simd_kind_t" where
  "ij_simd_json_escape_kind cpu =
     (if fst (ij_simd_runtime_has_x86_avx2 cpu) then IJ_SIMD_KIND_X86_AVX2
      else if ij_simd_runtime_has_arm_neon cpu then IJ_SIMD_KIND_ARM_NEON
      else IJ_SIMD_KIND_SCALAR)"

definition ij_simd_redact_match_kind :: "cpu \<Rightarrow> ij_simd_kind_t" where
  "ij_simd_redact_match_kind cpu = IJ_SIMD_KIND_SCALAR"

definition ij_simd_utf8_kind :: "cpu \<Rightarrow> ij_simd_kind_t" where
  "ij_simd_utf8_kind cpu =
     (if fst (ij_simd_runtime_has_x86_avx2 cpu) then IJ_SIMD_KIND_X86_AVX2
      else if ij_simd_runtime_has_arm_neon cpu then IJ_SIMD_KIND_ARM_NEON
      else IJ_SIMD_KIND_SCALAR)"

text \<open>
  The cache holds \<open>-1\<close> or the answer of the probe. Every probe keeps that, and under it
  the probe answers what the processor supports.
\<close>

definition avx2_cache_ok :: "cpu \<Rightarrow> bool" where
  "avx2_cache_ok cpu \<longleftrightarrow>
     avx2_cached cpu = -1 \<or> avx2_cached cpu = (if cpu_supports_avx2 cpu then 1 else 0)"

lemma avx2_probe_answer:
  "avx2_cache_ok cpu \<Longrightarrow>
     fst (ij_simd_runtime_has_x86_avx2 cpu) \<longleftrightarrow> cpu_arch cpu = X86 \<and> cpu_supports_avx2 cpu"
  by (cases "cpu_supports_avx2 cpu")
    (auto simp: avx2_cache_ok_def ij_simd_runtime_has_x86_avx2_def Let_def)

lemma avx2_probe_cache_ok:
  "avx2_cache_ok cpu \<Longrightarrow> avx2_cache_ok (snd (ij_simd_runtime_has_x86_avx2 cpu))"
  by (cases "cpu_supports_avx2 cpu")
    (auto simp: avx2_cache_ok_def ij_simd_runtime_has_x86_avx2_def Let_def)

lemma avx2_probe_stable:
  "fst (ij_simd_runtime_has_x86_avx2 (snd (ij_simd_runtime_has_x86_avx2 cpu))) =
   fst (ij_simd_runtime_has_x86_avx2 cpu)"
  by (simp add: ij_simd_runtime_has_x86_avx2_def Let_def)

section \<open>AVX2 lanes\<close>

type_synonym m256i = "byte list"

definition mm256_loadu_si256 :: "byte list \<Rightarrow> nat \<Rightarrow> m256i" where
  "mm256_loadu_si256 m i = map (c_at m) [i..<i + 32]"

definition mm256_set1_epi8 :: "byte \<Rightarrow> m256i" where
  "mm256_set1_epi8 c = replicate 32 c"

definition mm256_cmpeq_epi8 :: "m256i \<Rightarrow> m256i \<Rightarrow> m256i" where
  "mm256_cmpeq_epi8 a b = map2 (\<lambda>x y. if x = y then 0xff else 0) a b"

definition mm256_cmpgt_epi8 :: "m256i \<Rightarrow> m256i \<Rightarrow> m256i" where
  "mm256_cmpgt_epi8 a b = map2 (\<lambda>x y. if sint x > sint y then 0xff else 0) a b"

definition mm256_or_si256 :: "m256i \<Rightarrow> m256i \<Rightarrow> m256i" where
  "mm256_or_si256 a b = map2 (OR) a b"

definition mm256_and_si256 :: "m256i \<Rightarrow> m256i \<Rightarrow> m256i" where
  "mm256_and_si256 a b = map2 (AND) a b"

definition mm256_subs_epu8 :: "m256i \<Rightarrow> m256i \<Rightarrow> m256i" where
  "mm256_subs_epu8 a b = map2 (\<lambda>x y. if x \<le> y then 0 else x - y) a b"

definition mm256_movemask_epi8 :: "m256i \<Rightarrow> 32 word" where
  "mm256_movemask_epi8 v = horner_sum of_bool 2 (map (\<lambda>b. bit b 7) v)"

definition builtin_ctz :: "32 word \<Rightarrow> nat" where
  "builtin_ctz w = first_index (bit w) [0..<32]"

section \<open>NEON lanes\<close>

type_synonym uint8x16 = "byte list"

definition vld1q_u8 :: "byte list \<Rightarrow> nat \<Rightarrow> uint8x16" where
  "vld1q_u8 m i = map (c_at m) [i..<i + 16]"

definition vdupq_n_u8 :: "byte \<Rightarrow> uint8x16" where
  "vdupq_n_u8 c = replicate 16 c"

definition vceqq_u8 :: "uint8x16 \<Rightarrow> uint8x16 \<Rightarrow> uint8x16" where
  "vceqq_u8 a b = map2 (\<lambda>x y. if x = y then 0xff else 0) a b"

definition vcltq_u8 :: "uint8x16 \<Rightarrow> uint8x16 \<Rightarrow> uint8x16" where
  "vcltq_u8 a b = map2 (\<lambda>x y. if x < y then 0xff else 0) a b"

definition vcgeq_u8 :: "uint8x16 \<Rightarrow> uint8x16 \<Rightarrow> uint8x16" where
  "vcgeq_u8 a b = map2 (\<lambda>x y. if x \<ge> y then 0xff else 0) a b"

definition vcleq_u8 :: "uint8x16 \<Rightarrow> uint8x16 \<Rightarrow> uint8x16" where
  "vcleq_u8 a b = map2 (\<lambda>x y. if x \<le> y then 0xff else 0) a b"

definition vorrq_u8 :: "uint8x16 \<Rightarrow> uint8x16 \<Rightarrow> uint8x16" where
  "vorrq_u8 a b = map2 (OR) a b"

definition vandq_u8 :: "uint8x16 \<Rightarrow> uint8x16 \<Rightarrow> uint8x16" where
  "vandq_u8 a b = map2 (AND) a b"

text \<open>Lane \<open>k\<close> of the register read as two little-endian 64-bit lanes.\<close>

definition vgetq_lane_u64 :: "uint8x16 \<Rightarrow> nat \<Rightarrow> 64 word" where
  "vgetq_lane_u64 v k = word_of_nat (horner_sum unat 256 (take 8 (drop (8 * k) v)))"

section \<open>Lemmas on masks\<close>

lemmas m256_defs =
  mm256_loadu_si256_def mm256_set1_epi8_def mm256_cmpeq_epi8_def mm256_cmpgt_epi8_def
  mm256_or_si256_def mm256_and_si256_def mm256_subs_epu8_def

lemmas neon_defs =
  vld1q_u8_def vdupq_n_u8_def vceqq_u8_def vcltq_u8_def vcgeq_u8_def vcleq_u8_def
  vorrq_u8_def vandq_u8_def

lemma zip_map_replicate:
  "length xs = n \<Longrightarrow> zip (map f xs) (replicate n c) = map (\<lambda>x. (f x, c)) xs"
  "length xs = n \<Longrightarrow> zip (replicate n c) (map f xs) = map (\<lambda>x. (c, f x)) xs"
  by (induction xs arbitrary: n) auto

lemma zip_map_map_same: "zip (map f xs) (map g xs) = map (\<lambda>x. (f x, g x)) xs"
  by (induction xs) auto

lemmas lane_simps = zip_map_replicate zip_map_map_same comp_def case_prod_unfold

lemma bit_movemask:
  "length v = 32 \<Longrightarrow> bit (mm256_movemask_epi8 v) n \<longleftrightarrow> n < 32 \<and> bit (v ! n) 7"
  by (auto simp: mm256_movemask_epi8_def bit_horner_sum_bit_iff)

lemma movemask_eq_0_iff:
  assumes "length v = 32"
  shows "mm256_movemask_epi8 v = 0 \<longleftrightarrow> (\<forall>b\<in>set v. \<not> bit b 7)"
proof -
  have "mm256_movemask_epi8 v = 0 \<longleftrightarrow> (\<forall>n<32. \<not> bit (v ! n) 7)"
    by (auto simp: bit_eq_iff bit_movemask [OF assms])
  also have "\<dots> \<longleftrightarrow> (\<forall>b\<in>set v. \<not> bit b 7)"
    using assms by (simp add: all_set_conv_all_nth)
  finally show ?thesis .
qed

lemma movemask_eq_full_iff:
  assumes "length v = 32"
  shows "mm256_movemask_epi8 v = 0xffffffff \<longleftrightarrow> (\<forall>b\<in>set v. bit b 7)"
proof -
  have ones: "(0xffffffff :: 32 word) = - 1" by simp
  have "mm256_movemask_epi8 v = 0xffffffff \<longleftrightarrow> (\<forall>n<32. bit (v ! n) 7)"
    unfolding ones by (auto simp: bit_eq_iff bit_movemask [OF assms])
  also have "\<dots> \<longleftrightarrow> (\<forall>b\<in>set v. bit b 7)"
    using assms by (simp add: all_set_conv_all_nth)
  finally show ?thesis .
qed

lemma first_index_map: "first_index P (map f xs) = first_index (\<lambda>x. P (f x)) xs"
  by (induction xs) auto

lemma first_index_cong:
  "(\<And>x. x \<in> set xs \<Longrightarrow> P x = Q x) \<Longrightarrow> first_index P xs = first_index Q xs"
  by (induction xs) auto

lemma ctz_movemask:
  assumes "length v = 32"
  shows "builtin_ctz (mm256_movemask_epi8 v) = first_index (\<lambda>b. bit b 7) v"
proof -
  have "builtin_ctz (mm256_movemask_epi8 v) = first_index (\<lambda>n. bit (v ! n) 7) [0..<32]"
    unfolding builtin_ctz_def by (rule first_index_cong) (simp add: bit_movemask [OF assms])
  also have "\<dots> = first_index (\<lambda>b. bit b 7) (map ((!) v) [0..<32])"
    by (simp add: first_index_map)
  also have "map ((!) v) [0..<32] = v"
    using map_nth [of v] by (simp add: assms)
  finally show ?thesis .
qed

lemma base256_less: "x < 256 \<Longrightarrow> y < z \<Longrightarrow> x + 256 * y < 256 * (z :: nat)"
  by linarith

lemma base256_full:
  assumes "x < 256"
  shows "Suc (x + 256 * y) = 256 * z \<longleftrightarrow> x = 255 \<and> Suc y = (z :: nat)"
proof -
  consider "z \<le> y" | "z = Suc y" | "y + 2 \<le> z" by linarith
  then show ?thesis using assms by cases auto
qed

lemma horner_sum_unat_less: "horner_sum unat 256 (bs :: byte list) < 256 ^ length bs"
proof (induction bs)
  case (Cons b bs)
  then show ?case using base256_less [OF unat_byte_less] by simp
qed simp

lemma horner_sum_unat_eq_0_iff: "horner_sum unat 256 (bs :: byte list) = 0 \<longleftrightarrow> (\<forall>b\<in>set bs. b = 0)"
  by (induction bs) (auto simp: unsigned_eq_0_iff)

lemma horner_sum_unat_eq_full_iff:
  "Suc (horner_sum unat 256 (bs :: byte list)) = 256 ^ length bs \<longleftrightarrow> (\<forall>b\<in>set bs. b = 0xff)"
proof (induction bs)
  case (Cons b bs)
  have ff: "unat b = 255 \<longleftrightarrow> b = 0xff" by (simp add: word_unat_eq_iff)
  have "Suc (horner_sum unat 256 (b # bs)) = 256 ^ length (b # bs) \<longleftrightarrow>
        unat b = 255 \<and> Suc (horner_sum unat 256 bs) = 256 ^ length bs"
    using base256_full [OF unat_byte_less [of b]] by simp
  then show ?case by (simp add: Cons.IH ff)
qed simp

lemma lane_u64_unat:
  "unat (vgetq_lane_u64 v k) = horner_sum unat 256 (take 8 (drop (8 * k) v))"
proof -
  let ?bs = "take 8 (drop (8 * k) v)"
  have "(256::nat) ^ length ?bs \<le> 256 ^ 8"
    by (rule power_increasing) auto
  with horner_sum_unat_less [of ?bs] have "horner_sum unat 256 ?bs < 2 ^ 64"
    by simp
  then show ?thesis
    by (simp add: vgetq_lane_u64_def unat_of_nat take_bit_nat_eq_self)
qed

lemma lane_u64_eq_0_iff:
  "vgetq_lane_u64 v k = 0 \<longleftrightarrow> (\<forall>b\<in>set (take 8 (drop (8 * k) v)). b = 0)"
  by (simp add: unat_eq_0 [symmetric] lane_u64_unat horner_sum_unat_eq_0_iff)

lemma lane_u64_eq_max_iff:
  assumes "length (take 8 (drop (8 * k) v)) = 8"
  shows "vgetq_lane_u64 v k = 0xffffffffffffffff \<longleftrightarrow>
         (\<forall>b\<in>set (take 8 (drop (8 * k) v)). b = 0xff)"
proof -
  let ?bs = "take 8 (drop (8 * k) v)"
  have "vgetq_lane_u64 v k = 0xffffffffffffffff \<longleftrightarrow>
        Suc (horner_sum unat 256 ?bs) = 256 ^ length ?bs"
    by (simp only: word_unat_eq_iff lane_u64_unat assms) simp
  then show ?thesis by (simp only: horner_sum_unat_eq_full_iff)
qed

lemma set_u64_lanes:
  assumes "length v = 16"
  shows "set v = set (take 8 (drop (8 * 0) v)) \<union> set (take 8 (drop (8 * 1) v))"
proof -
  have "v = take 8 v @ take 8 (drop 8 v)"
    using assms by (simp add: append_take_drop_id)
  then have "set v = set (take 8 v) \<union> set (take 8 (drop 8 v))"
    by (metis set_append)
  then show ?thesis by simp
qed

lemma neon_any_nonzero:
  assumes "length v = 16"
  shows "vgetq_lane_u64 v 0 \<noteq> 0 \<or> vgetq_lane_u64 v 1 \<noteq> 0 \<longleftrightarrow> (\<exists>b\<in>set v. b \<noteq> 0)"
  unfolding lane_u64_eq_0_iff set_u64_lanes [OF assms] by auto

lemma neon_all_ones:
  assumes "length v = 16"
  shows "vgetq_lane_u64 v 0 = 0xffffffffffffffff \<and> vgetq_lane_u64 v 1 = 0xffffffffffffffff \<longleftrightarrow>
         (\<forall>b\<in>set v. b = 0xff)"
proof -
  have "length (take 8 (drop (8 * 0) v)) = 8" and "length (take 8 (drop (8 * 1) v)) = 8"
    using assms by simp_all
  note lanes = this [THEN lane_u64_eq_max_iff]
  show ?thesis unfolding lanes set_u64_lanes [OF assms] by auto
qed

section \<open>Loops over whole registers\<close>

text \<open>
  Every vector routine has the same shape: while a whole register fits below \<open>len\<close>, look at
  it, leave the loop with a result or go on to the next register, and hand the rest to a tail
  routine. The locale is the contract of such a loop against a reference function
  \<open>spec m len i\<close> of the memory from offset \<open>i\<close> on.
\<close>

locale chunked_loop =
  fixes width :: nat
    and loop :: "'m \<Rightarrow> size_t \<Rightarrow> size_t \<Rightarrow> 'r"
    and body :: "'m \<Rightarrow> size_t \<Rightarrow> size_t \<Rightarrow> 'r option"
    and tail :: "'m \<Rightarrow> size_t \<Rightarrow> size_t \<Rightarrow> 'r"
    and spec :: "'m \<Rightarrow> size_t \<Rightarrow> size_t \<Rightarrow> 'r"
  assumes width_pos: "0 < width"
    and loop_unfold:
      "loop m len i =
         (if i + width \<le> len
          then (case body m len i of None \<Rightarrow> loop m len (i + width) | Some r \<Rightarrow> r)
          else tail m len i)"
    and body_exit: "i + width \<le> len \<Longrightarrow> body m len i = Some r \<Longrightarrow> spec m len i = r"
    and body_next:
      "i + width \<le> len \<Longrightarrow> body m len i = None \<Longrightarrow> spec m len (i + width) = spec m len i"
    and tail_spec: "i \<le> len \<Longrightarrow> tail m len i = spec m len i"
begin

lemma loop_spec: "i \<le> len \<Longrightarrow> loop m len i = spec m len i"
proof (induction "len - i" arbitrary: i rule: less_induct)
  case less
  show ?case
  proof (cases "i + width \<le> len")
    case False
    with less.prems show ?thesis by (simp add: loop_unfold [of m len i] tail_spec)
  next
    case True
    note unfolded = loop_unfold [of m len i]
    show ?thesis
    proof (cases "body m len i")
      case None
      from True width_pos have "loop m len (i + width) = spec m len (i + width)"
        by (intro less.hyps) linarith+
      with True None show ?thesis by (simp add: unfolded body_next)
    next
      case (Some r)
      with True show ?thesis by (simp add: unfolded body_exit)
    qed
  qed
qed

end

end
