(* ===== verification/Utf8.thy ===== *)
theory Utf8
  imports Simd
begin

text \<open>
  UTF-8 validation: \<open>src/core/ij_utf8_scalar.c\<close> and its AVX2 and NEON fast paths.
  The reference definition is RFC 3629: a byte string is UTF-8 when it is the concatenation
  of the encodings of Unicode scalar values. The scalar loop is proved to decide exactly
  that, and every back end and the dispatcher to agree with the scalar loop.
\<close>

section \<open>The scalar loop\<close>

function utf8_scalar_loop :: "byte list \<Rightarrow> size_t \<Rightarrow> size_t \<Rightarrow> bool" where
  "utf8_scalar_loop data len i =
     (if i < len then
        let c = c_at data i; remaining = len - i in
        if c \<le> 0x7f then utf8_scalar_loop data len (i + 1)
        else if c AND 0xe0 = 0xc0 then
          (if remaining < 2 \<or> c_at data (i + 1) AND 0xc0 \<noteq> 0x80 \<or> c < 0xc2 then False
           else utf8_scalar_loop data len (i + 2))
        else if c AND 0xf0 = 0xe0 then
          (if remaining < 3 then False
           else
             let c1 = c_at data (i + 1); c2 = c_at data (i + 2) in
             if c1 AND 0xc0 \<noteq> 0x80 \<or> c2 AND 0xc0 \<noteq> 0x80 then False
             else if (c = 0xe0 \<and> c1 < 0xa0) \<or> (c = 0xed \<and> c1 \<ge> 0xa0) then False
             else utf8_scalar_loop data len (i + 3))
        else if c AND 0xf8 = 0xf0 then
          (if remaining < 4 then False
           else
             let c1 = c_at data (i + 1); c2 = c_at data (i + 2); c3 = c_at data (i + 3) in
             if c1 AND 0xc0 \<noteq> 0x80 \<or> c2 AND 0xc0 \<noteq> 0x80 \<or> c3 AND 0xc0 \<noteq> 0x80 then False
             else if (c = 0xf0 \<and> c1 < 0x90) \<or> (c = 0xf4 \<and> c1 \<ge> 0x90) \<or> c > 0xf4 then False
             else utf8_scalar_loop data len (i + 4))
        else False
      else True)"
  by pat_completeness auto
termination
  by (relation "measure (\<lambda>(data, len, i). len - i)") auto

declare utf8_scalar_loop.simps [simp del]

definition ij_utf8_scalar_validate :: "byte list \<Rightarrow> size_t \<Rightarrow> bool" where
  "ij_utf8_scalar_validate data len = utf8_scalar_loop data len 0"

section \<open>The vector fast paths\<close>

function utf8_avx2_loop :: "byte list \<Rightarrow> size_t \<Rightarrow> size_t \<Rightarrow> size_t" where
  "utf8_avx2_loop data len i =
     (if i + 32 \<le> len then
        let chunk = mm256_loadu_si256 data i in
        if mm256_movemask_epi8 chunk \<noteq> 0 then i
        else utf8_avx2_loop data len (i + 32)
      else i)"
  by pat_completeness auto
termination
  by (relation "measure (\<lambda>(data, len, i). len - i)") auto

declare utf8_avx2_loop.simps [simp del]

definition ij_utf8_x86_avx2_impl :: "byte list \<Rightarrow> size_t \<Rightarrow> bool" where
  "ij_utf8_x86_avx2_impl data len =
     (let i = utf8_avx2_loop data len 0
      in ij_utf8_scalar_validate (c_ptr_add data i) (len - i))"

definition ij_utf8_x86_avx2_validate :: "cpu \<Rightarrow> byte list \<Rightarrow> size_t \<Rightarrow> bool" where
  "ij_utf8_x86_avx2_validate cpu data len =
     (if cpu_arch cpu = X86 \<and> fst (ij_simd_runtime_has_x86_avx2 cpu)
      then ij_utf8_x86_avx2_impl data len
      else ij_utf8_scalar_validate data len)"

function utf8_neon_loop :: "byte list \<Rightarrow> size_t \<Rightarrow> size_t \<Rightarrow> size_t" where
  "utf8_neon_loop data len i =
     (if i + 16 \<le> len then
        let chunk = vld1q_u8 data i; high = vandq_u8 chunk (vdupq_n_u8 0x80) in
        if vgetq_lane_u64 high 0 \<noteq> 0 \<or> vgetq_lane_u64 high 1 \<noteq> 0 then i
        else utf8_neon_loop data len (i + 16)
      else i)"
  by pat_completeness auto
termination
  by (relation "measure (\<lambda>(data, len, i). len - i)") auto

declare utf8_neon_loop.simps [simp del]

definition ij_utf8_arm_neon_impl :: "byte list \<Rightarrow> size_t \<Rightarrow> bool" where
  "ij_utf8_arm_neon_impl data len =
     (let i = utf8_neon_loop data len 0
      in ij_utf8_scalar_validate (c_ptr_add data i) (len - i))"

definition ij_utf8_arm_neon_validate :: "cpu \<Rightarrow> byte list \<Rightarrow> size_t \<Rightarrow> bool" where
  "ij_utf8_arm_neon_validate cpu data len =
     (if cpu_arch cpu = AARCH64 \<and> ij_simd_runtime_has_arm_neon cpu
      then ij_utf8_arm_neon_impl data len
      else ij_utf8_scalar_validate data len)"

definition ij_utf8_is_valid_dispatch :: "cpu \<Rightarrow> byte list \<Rightarrow> size_t \<Rightarrow> bool" where
  "ij_utf8_is_valid_dispatch cpu data len =
     (if len < IJ_SIMD_UTF8_MIN_LEN then ij_utf8_scalar_validate data len
      else (case ij_simd_utf8_kind cpu of
              IJ_SIMD_KIND_X86_AVX2 \<Rightarrow> ij_utf8_x86_avx2_validate cpu data len
            | IJ_SIMD_KIND_ARM_NEON \<Rightarrow> ij_utf8_arm_neon_validate cpu data len
            | IJ_SIMD_KIND_SCALAR \<Rightarrow> ij_utf8_scalar_validate data len))"

section \<open>Reference: RFC 3629\<close>

definition scalar_value :: "nat \<Rightarrow> bool" where
  "scalar_value cp \<longleftrightarrow> cp < 0xD800 \<or> (0xE000 \<le> cp \<and> cp \<le> 0x10FFFF)"

definition utf8_encode :: "nat \<Rightarrow> byte list" where
  "utf8_encode cp =
     (if cp < 0x80 then [byte_of cp]
      else if cp < 0x800 then
        [byte_of (0xC0 + cp div 64), byte_of (0x80 + cp mod 64)]
      else if cp < 0x10000 then
        [byte_of (0xE0 + cp div 4096), byte_of (0x80 + cp div 64 mod 64),
         byte_of (0x80 + cp mod 64)]
      else
        [byte_of (0xF0 + cp div 262144), byte_of (0x80 + cp div 4096 mod 64),
         byte_of (0x80 + cp div 64 mod 64), byte_of (0x80 + cp mod 64)])"

definition is_utf8 :: "byte list \<Rightarrow> bool" where
  "is_utf8 bs \<longleftrightarrow> (\<exists>cps. (\<forall>cp\<in>set cps. scalar_value cp) \<and> bs = concat (map utf8_encode cps))"

section \<open>The scalar loop on byte lists\<close>

text \<open>The loop read as a recursion on the bytes that remain, the bit tests as ranges.\<close>

definition cont :: "byte \<Rightarrow> bool" where
  "cont c \<longleftrightarrow> 0x80 \<le> unat c \<and> unat c < 0xC0"

fun utf8_ok :: "byte list \<Rightarrow> bool" where
  "utf8_ok [] = True"
| "utf8_ok (c # cs) =
     (if unat c < 0x80 then utf8_ok cs
      else if 0xC2 \<le> unat c \<and> unat c < 0xE0 then
        (case cs of c1 # ds \<Rightarrow> cont c1 \<and> utf8_ok ds | _ \<Rightarrow> False)
      else if 0xE0 \<le> unat c \<and> unat c < 0xF0 then
        (case cs of c1 # c2 # ds \<Rightarrow>
           cont c1 \<and> cont c2 \<and> (unat c = 0xE0 \<longrightarrow> 0xA0 \<le> unat c1) \<and>
           (unat c = 0xED \<longrightarrow> unat c1 < 0xA0) \<and> utf8_ok ds | _ \<Rightarrow> False)
      else if 0xF0 \<le> unat c \<and> unat c < 0xF5 then
        (case cs of c1 # c2 # c3 # ds \<Rightarrow>
           cont c1 \<and> cont c2 \<and> cont c3 \<and> (unat c = 0xF0 \<longrightarrow> 0x90 \<le> unat c1) \<and>
           (unat c = 0xF4 \<longrightarrow> unat c1 < 0x90) \<and> utf8_ok ds | _ \<Rightarrow> False)
      else False)"

lemma and_c0: "(c :: byte) AND 0xc0 = 0x80 \<longleftrightarrow> cont c"
proof -
  have "\<forall>c :: byte. c AND 0xc0 = 0x80 \<longleftrightarrow> cont c"
    unfolding all_byte_iff cont_def by code_simp
  then show ?thesis by blast
qed

lemma and_e0: "(c :: byte) AND 0xe0 = 0xc0 \<longleftrightarrow> 0xC0 \<le> unat c \<and> unat c < 0xE0"
proof -
  have "\<forall>c :: byte. c AND 0xe0 = 0xc0 \<longleftrightarrow> 0xC0 \<le> unat c \<and> unat c < 0xE0"
    unfolding all_byte_iff by code_simp
  then show ?thesis by blast
qed

lemma and_f0: "(c :: byte) AND 0xf0 = 0xe0 \<longleftrightarrow> 0xE0 \<le> unat c \<and> unat c < 0xF0"
proof -
  have "\<forall>c :: byte. c AND 0xf0 = 0xe0 \<longleftrightarrow> 0xE0 \<le> unat c \<and> unat c < 0xF0"
    unfolding all_byte_iff by code_simp
  then show ?thesis by blast
qed

lemma and_f8: "(c :: byte) AND 0xf8 = 0xf0 \<longleftrightarrow> 0xF0 \<le> unat c \<and> unat c < 0xF8"
proof -
  have "\<forall>c :: byte. c AND 0xf8 = 0xf0 \<longleftrightarrow> 0xF0 \<le> unat c \<and> unat c < 0xF8"
    unfolding all_byte_iff by code_simp
  then show ?thesis by blast
qed

lemmas mask_tests = and_c0 and_e0 and_f0 and_f8

lemma unat_byte_numerals:
  "unat (0x7f :: byte) = 0x7f" "unat (0xc2 :: byte) = 0xc2" "unat (0xe0 :: byte) = 0xe0"
  "unat (0xa0 :: byte) = 0xa0" "unat (0xed :: byte) = 0xed" "unat (0xf0 :: byte) = 0xf0"
  "unat (0x90 :: byte) = 0x90" "unat (0xf4 :: byte) = 0xf4"
  by simp_all

lemmas byte_order_tests =
  word_le_nat_alt word_less_nat_alt word_unat_eq_iff unat_byte_numerals

lemma utf8_ok_nth:
  assumes "xs \<noteq> []"
  shows "utf8_ok xs \<longleftrightarrow>
    (if unat (xs ! 0) < 0x80 then utf8_ok (drop 1 xs)
     else if 0xC2 \<le> unat (xs ! 0) \<and> unat (xs ! 0) < 0xE0 then
       2 \<le> length xs \<and> cont (xs ! 1) \<and> utf8_ok (drop 2 xs)
     else if 0xE0 \<le> unat (xs ! 0) \<and> unat (xs ! 0) < 0xF0 then
       3 \<le> length xs \<and> cont (xs ! 1) \<and> cont (xs ! 2) \<and>
       (unat (xs ! 0) = 0xE0 \<longrightarrow> 0xA0 \<le> unat (xs ! 1)) \<and>
       (unat (xs ! 0) = 0xED \<longrightarrow> unat (xs ! 1) < 0xA0) \<and> utf8_ok (drop 3 xs)
     else if 0xF0 \<le> unat (xs ! 0) \<and> unat (xs ! 0) < 0xF5 then
       4 \<le> length xs \<and> cont (xs ! 1) \<and> cont (xs ! 2) \<and> cont (xs ! 3) \<and>
       (unat (xs ! 0) = 0xF0 \<longrightarrow> 0x90 \<le> unat (xs ! 1)) \<and>
       (unat (xs ! 0) = 0xF4 \<longrightarrow> unat (xs ! 1) < 0x90) \<and> utf8_ok (drop 4 xs)
     else False)"
proof -
  obtain c cs where xs: "xs = c # cs" using assms by (cases xs) auto
  show ?thesis unfolding xs
    by (auto simp: nth_Cons' numeral_2_eq_2 numeral_3_eq_3 eval_nat_numeral split: list.splits)
qed

lemma utf8_scalar_loop_step:
  fixes data :: "byte list"
  assumes "i < len"
  defines "c k \<equiv> c_at data (i + k)"
  shows "utf8_scalar_loop data len i \<longleftrightarrow>
    (if unat (c 0) < 0x80 then utf8_scalar_loop data len (i + 1)
     else if 0xC2 \<le> unat (c 0) \<and> unat (c 0) < 0xE0 then
       2 \<le> len - i \<and> cont (c 1) \<and> utf8_scalar_loop data len (i + 2)
     else if 0xE0 \<le> unat (c 0) \<and> unat (c 0) < 0xF0 then
       3 \<le> len - i \<and> cont (c 1) \<and> cont (c 2) \<and>
       (unat (c 0) = 0xE0 \<longrightarrow> 0xA0 \<le> unat (c 1)) \<and>
       (unat (c 0) = 0xED \<longrightarrow> unat (c 1) < 0xA0) \<and> utf8_scalar_loop data len (i + 3)
     else if 0xF0 \<le> unat (c 0) \<and> unat (c 0) < 0xF5 then
       4 \<le> len - i \<and> cont (c 1) \<and> cont (c 2) \<and> cont (c 3) \<and>
       (unat (c 0) = 0xF0 \<longrightarrow> 0x90 \<le> unat (c 1)) \<and>
       (unat (c 0) = 0xF4 \<longrightarrow> unat (c 1) < 0x90) \<and> utf8_scalar_loop data len (i + 4)
     else False)"
proof -
  have c: "c_at data i = c 0" "c_at data (i + 1) = c 1" "c_at data (i + 2) = c 2"
    "c_at data (i + 3) = c 3"
    by (simp_all add: c_def)
  note loop = utf8_scalar_loop.simps [of data len i, unfolded Let_def c mask_tests,
      unfolded byte_order_tests]
  consider (one) "unat (c 0) < 0x80" | (two) "0xC2 \<le> unat (c 0)" "unat (c 0) < 0xE0"
    | (three) "0xE0 \<le> unat (c 0)" "unat (c 0) < 0xF0"
    | (four) "0xF0 \<le> unat (c 0)" "unat (c 0) < 0xF5"
    | (low) "0x80 \<le> unat (c 0)" "unat (c 0) < 0xC2" | (high) "0xF5 \<le> unat (c 0)"
    by linarith
  then show ?thesis
    using assms(1) by cases (simp_all only: loop, simp_all, linarith+)
qed

lemma utf8_scalar_loop_ok:
  "utf8_scalar_loop data len i \<longleftrightarrow> utf8_ok (drop i (c_mem data len))"
proof (induction "len - i" arbitrary: i rule: less_induct)
  case less
  show ?case
  proof (cases "i < len")
    case False
    then show ?thesis by (simp add: utf8_scalar_loop.simps)
  next
    case True
    let ?xs = "drop i (c_mem data len)"
    have ne: "?xs \<noteq> []" and len: "length ?xs = len - i" using True by simp_all
    have IH: "utf8_scalar_loop data len (i + k) \<longleftrightarrow> utf8_ok (drop k ?xs)" if "0 < k" for k
      using less.hyps [of "i + k"] that True by (simp add: add.commute)
    have IH':
      "utf8_scalar_loop data len (Suc i) \<longleftrightarrow> utf8_ok (drop 1 ?xs)"
      "utf8_scalar_loop data len (Suc (Suc i)) \<longleftrightarrow> utf8_ok (drop 2 ?xs)"
      using IH [of 1] IH [of 2] by simp_all
    show ?thesis
      unfolding utf8_scalar_loop_step [OF True] utf8_ok_nth [OF ne] len
      using True by (simp add: IH IH' nth_c_mem cong: conj_cong)
  qed
qed

lemma ij_utf8_scalar_validate_ok:
  "ij_utf8_scalar_validate data len \<longleftrightarrow> utf8_ok (c_mem data len)"
  by (simp add: ij_utf8_scalar_validate_def utf8_scalar_loop_ok)

section \<open>The scalar loop decides RFC 3629\<close>

lemma div_mod_bounds:
  "(cp :: nat) mod 64 < 64" "cp div 64 mod 64 < 64" "cp div 4096 mod 64 < 64"
  by simp_all

lemma mod_64_less: "a div 64 = q \<Longrightarrow> a < 64 * q + r \<Longrightarrow> a mod 64 < (r :: nat)"
  using div_mult_mod_eq [of a 64] by linarith

lemma utf8_ok_encode:
  assumes "scalar_value cp"
  shows "utf8_ok (utf8_encode cp @ rest) \<longleftrightarrow> utf8_ok rest"
proof -
  consider "cp < 0x80" | "0x80 \<le> cp" "cp < 0x800" | "0x800 \<le> cp" "cp < 0x10000" | "0x10000 \<le> cp"
    by linarith
  then show ?thesis
  proof cases
    case 1
    then show ?thesis by (simp add: utf8_encode_def)
  next
    case 2
    have r: "cp div 64 < 32" "2 \<le> cp div 64" using 2 by auto
    then show ?thesis using 2 div_mod_bounds [of cp]
      by (simp add: utf8_encode_def cont_def)
  next
    case 3
    have r: "cp div 4096 < 16" using 3 by auto
    have e0: "cp div 4096 = 0 \<Longrightarrow> 32 \<le> cp div 64 mod 64"
      using 3 by (simp add: div_mult2_eq [of cp 64 64, simplified])
    have ed: "cp div 64 mod 64 < 32" if "cp div 4096 = 13"
    proof (rule mod_64_less)
      show "cp div 64 div 64 = 13" using that by (simp add: div_mult2_eq [symmetric])
      have "cp < 0xE000" using that by linarith
      then show "cp div 64 < 64 * 13 + 32" using assms by (auto simp: scalar_value_def)
    qed
    show ?thesis using 3 r e0 ed div_mod_bounds [of cp]
      by (simp add: utf8_encode_def cont_def)
  next
    case 4
    have r: "cp div 262144 < 5" using assms by (auto simp: scalar_value_def)
    have f0: "cp div 262144 = 0 \<Longrightarrow> 16 \<le> cp div 4096 mod 64" using 4 by auto
    have f4: "cp div 4096 mod 64 < 16" if "cp div 262144 = 4"
    proof (rule mod_64_less)
      show "cp div 4096 div 64 = 4" using that by (simp add: div_mult2_eq [symmetric])
      show "cp div 4096 < 64 * 4 + 16" using assms by (auto simp: scalar_value_def)
    qed
    show ?thesis using 4 r f0 f4 div_mod_bounds [of cp]
      by (simp add: utf8_encode_def cont_def)
  qed
qed

lemma digit64: "b < 64 \<Longrightarrow> (a * 64 + b) div 64 = a" "b < 64 \<Longrightarrow> (a * 64 + b) mod 64 = (b :: nat)"
  by simp_all

lemma utf8_encode_1: "unat c < 0x80 \<Longrightarrow> scalar_value (unat c) \<and> utf8_encode (unat c) = [c]"
  by (simp add: utf8_encode_def scalar_value_def)

lemma utf8_encode_2:
  assumes "0xC2 \<le> unat c" "unat c < 0xE0" "cont c1"
  defines "cp \<equiv> (unat c - 0xC0) * 64 + (unat c1 - 0x80)"
  shows "scalar_value cp \<and> utf8_encode cp = [c, c1]"
proof -
  have c1: "unat c1 - 0x80 < 64" using assms(3) by (auto simp: cont_def)
  have "cp div 64 = unat c - 0xC0" "cp mod 64 = unat c1 - 0x80" unfolding cp_def using c1 by simp_all
  moreover have "0x80 \<le> cp" "cp < 0x800" unfolding cp_def using assms(1,2) c1 by linarith+
  ultimately show ?thesis
    using assms(1-3) by (auto simp: utf8_encode_def scalar_value_def cont_def intro: byte_eqI)
qed

lemma utf8_encode_3:
  assumes "0xE0 \<le> unat c" "unat c < 0xF0" "cont c1" "cont c2"
    and "unat c = 0xE0 \<longrightarrow> 0xA0 \<le> unat c1" and "unat c = 0xED \<longrightarrow> unat c1 < 0xA0"
  shows "\<exists>cp. scalar_value cp \<and> utf8_encode cp = [c, c1, c2]"
proof -
  define x where "x = unat c - 0xE0"
  define y where "y = unat c1 - 0x80"
  define z where "z = unat c2 - 0x80"
  have c: "c = byte_of (0xE0 + x)" "c1 = byte_of (0x80 + y)" "c2 = byte_of (0x80 + z)"
    using assms(1,3,4) by (simp_all add: x_def y_def z_def cont_def)
  have b: "x < 16" "y < 64" "z < 64" "x = 0 \<Longrightarrow> 32 \<le> y" "x = 13 \<Longrightarrow> y < 32"
    using assms by (auto simp: x_def y_def z_def cont_def)
  define cp where "cp = (x * 64 + y) * 64 + z"
  have d: "cp div 64 = x * 64 + y" "cp mod 64 = z"
    unfolding cp_def using b(3) by (rule digit64)+
  have e: "cp div 64 mod 64 = y" "cp div 64 div 64 = x"
    unfolding d(1) using b(2) by (rule digit64)+
  have "cp div 4096 = cp div 64 div 64" by (simp add: div_mult2_eq [symmetric])
  moreover have "0x800 \<le> cp" using b(4) unfolding cp_def by (cases "x = 0") auto
  moreover have "cp < 0x10000" using b(1-3) unfolding cp_def by auto
  moreover have "cp < 0xD800 \<or> 0xE000 \<le> cp"
  proof -
    consider "x < 13" | "x = 13" | "13 < x" by linarith
    then show ?thesis using b(2,3,5) unfolding cp_def by cases auto
  qed
  ultimately have "scalar_value cp \<and> utf8_encode cp = [c, c1, c2]"
    using d e by (auto simp: utf8_encode_def scalar_value_def c)
  then show ?thesis ..
qed

lemma utf8_encode_4:
  assumes "0xF0 \<le> unat c" "unat c < 0xF5" "cont c1" "cont c2" "cont c3"
    and "unat c = 0xF0 \<longrightarrow> 0x90 \<le> unat c1" and "unat c = 0xF4 \<longrightarrow> unat c1 < 0x90"
  shows "\<exists>cp. scalar_value cp \<and> utf8_encode cp = [c, c1, c2, c3]"
proof -
  define x where "x = unat c - 0xF0"
  define y where "y = unat c1 - 0x80"
  define z where "z = unat c2 - 0x80"
  define w where "w = unat c3 - 0x80"
  have c: "c = byte_of (0xF0 + x)" "c1 = byte_of (0x80 + y)" "c2 = byte_of (0x80 + z)"
    "c3 = byte_of (0x80 + w)"
    using assms(1,3-5) by (simp_all add: x_def y_def z_def w_def cont_def)
  have b: "x < 5" "y < 64" "z < 64" "w < 64" "x = 0 \<Longrightarrow> 16 \<le> y" "x = 4 \<Longrightarrow> y < 16"
    using assms by (auto simp: x_def y_def z_def w_def cont_def)
  define cp where "cp = ((x * 64 + y) * 64 + z) * 64 + w"
  have d: "cp div 64 = (x * 64 + y) * 64 + z" "cp mod 64 = w"
    unfolding cp_def using b(4) by (rule digit64)+
  have e: "cp div 64 div 64 = x * 64 + y" "cp div 64 mod 64 = z"
    unfolding d(1) using b(3) by (rule digit64)+
  have f: "cp div 64 div 64 div 64 = x" "cp div 64 div 64 mod 64 = y"
    unfolding e(1) using b(2) by (rule digit64)+
  have "cp div 4096 = cp div 64 div 64" "cp div 262144 = cp div 64 div 64 div 64"
    by (simp_all add: div_mult2_eq [symmetric])
  moreover have "0x10000 \<le> cp" using b(5) unfolding cp_def by (cases "x = 0") auto
  moreover have "cp \<le> 0x10FFFF"
    using b(1-4,6) unfolding cp_def by (cases "x = 4") auto
  ultimately have "scalar_value cp \<and> utf8_encode cp = [c, c1, c2, c3]"
    using d e f by (auto simp: utf8_encode_def scalar_value_def c)
  then show ?thesis ..
qed

lemma is_utf8_Nil: "is_utf8 []"
  unfolding is_utf8_def by (rule exI [of _ "[]"]) simp

lemma is_utf8_append: "scalar_value cp \<Longrightarrow> is_utf8 bs \<Longrightarrow> is_utf8 (utf8_encode cp @ bs)"
  unfolding is_utf8_def by (elim exE) (rule_tac x = "cp # cps" in exI, simp)

lemma utf8_ok_is_utf8: "utf8_ok bs \<Longrightarrow> is_utf8 bs"
proof (induction bs rule: utf8_ok.induct)
  case 1
  show ?case by (rule is_utf8_Nil)
next
  case (2 c cs)
  have add: "is_utf8 (xs @ ds)" if "\<exists>cp. scalar_value cp \<and> utf8_encode cp = xs" "is_utf8 ds" for xs ds
    using that is_utf8_append by auto
  consider (one) "unat c < 0x80" | (two) "0xC2 \<le> unat c" "unat c < 0xE0"
    | (three) "0xE0 \<le> unat c" "unat c < 0xF0" | (four) "0xF0 \<le> unat c" "unat c < 0xF5"
    using "2.prems" by (auto split: if_splits)
  then show ?case
  proof cases
    case one
    then show ?thesis using 2 add [OF exI, OF utf8_encode_1] by simp
  next
    case two
    then obtain c1 ds where "cs = c1 # ds" "cont c1" "utf8_ok ds"
      using "2.prems" by (auto split: list.splits)
    then show ?thesis using two "2.IH"(2) add [OF exI, OF utf8_encode_2 [OF two]] by simp
  next
    case three
    then obtain c1 c2 ds where *: "cs = c1 # c2 # ds" "cont c1" "cont c2"
        "unat c = 0xE0 \<longrightarrow> 0xA0 \<le> unat c1" "unat c = 0xED \<longrightarrow> unat c1 < 0xA0" "utf8_ok ds"
      using "2.prems" by (auto split: list.splits)
    then have "is_utf8 ds" using three "2.IH"(3) by simp
    then show ?thesis using *(1) add [OF utf8_encode_3 [OF three *(2-5)]] by simp
  next
    case four
    then obtain c1 c2 c3 ds where *: "cs = c1 # c2 # c3 # ds" "cont c1" "cont c2" "cont c3"
        "unat c = 0xF0 \<longrightarrow> 0x90 \<le> unat c1" "unat c = 0xF4 \<longrightarrow> unat c1 < 0x90" "utf8_ok ds"
      using "2.prems" by (auto split: list.splits)
    then have "is_utf8 ds" using four "2.IH"(4) by simp
    then show ?thesis using *(1) add [OF utf8_encode_4 [OF four *(2-6)]] by simp
  qed
qed

lemma is_utf8_utf8_ok: "is_utf8 bs \<Longrightarrow> utf8_ok bs"
proof -
  have "(\<forall>cp\<in>set cps. scalar_value cp) \<Longrightarrow> utf8_ok (concat (map utf8_encode cps))" for cps
    by (induction cps) (simp_all add: utf8_ok_encode)
  then show "is_utf8 bs \<Longrightarrow> utf8_ok bs" by (auto simp: is_utf8_def)
qed

lemma utf8_ok_iff: "utf8_ok bs \<longleftrightarrow> is_utf8 bs"
  using utf8_ok_is_utf8 is_utf8_utf8_ok by blast

section \<open>The back ends agree with the scalar loop\<close>

lemma utf8_ok_ascii_append: "(\<forall>b\<in>set as. unat b < 0x80) \<Longrightarrow> utf8_ok (as @ bs) \<longleftrightarrow> utf8_ok bs"
  by (induction as) auto

text \<open>The reference the loops are measured against: the bytes from offset \<open>i\<close> on are UTF-8.\<close>

definition utf8_from :: "byte list \<Rightarrow> size_t \<Rightarrow> size_t \<Rightarrow> bool" where
  "utf8_from data len i = utf8_ok (drop i (c_mem data len))"

lemma utf8_from_skip:
  assumes "i + w \<le> len" "\<forall>b\<in>set (map (c_at data) [i..<i + w]). unat b < 0x80"
  shows "utf8_from data len (i + w) \<longleftrightarrow> utf8_from data len i"
proof -
  have "drop i (c_mem data len) = map (c_at data) [i..<i + w] @ drop (i + w) (c_mem data len)"
    using assms(1) by (metis append_take_drop_id drop_drop add.commute take_drop_c_mem)
  with assms(2) show ?thesis by (simp add: utf8_from_def utf8_ok_ascii_append)
qed

lemma utf8_from_tail:
  "i \<le> len \<Longrightarrow> ij_utf8_scalar_validate (c_ptr_add data i) (len - i) \<longleftrightarrow> utf8_from data len i"
  by (simp add: ij_utf8_scalar_validate_ok c_mem_ptr_add_drop utf8_from_def)

lemma bit7_byte: "bit (b :: byte) 7 \<longleftrightarrow> \<not> unat b < 0x80"
proof -
  have "\<forall>b :: byte. bit b 7 \<longleftrightarrow> \<not> unat b < 0x80" unfolding all_byte_iff by code_simp
  then show ?thesis by blast
qed

lemma and_0x80_byte: "(b :: byte) AND 0x80 = 0 \<longleftrightarrow> unat b < 0x80"
proof -
  have "\<forall>b :: byte. b AND 0x80 = 0 \<longleftrightarrow> unat b < 0x80" unfolding all_byte_iff by code_simp
  then show ?thesis by blast
qed

lemma avx2_high_bit_clear:
  "mm256_movemask_epi8 (mm256_loadu_si256 data i) = 0 \<longleftrightarrow>
   (\<forall>b\<in>set (map (c_at data) [i..<i + 32]). unat b < 0x80)"
  by (simp add: movemask_eq_0_iff mm256_loadu_si256_def bit7_byte)

lemma neon_high_bit_set:
  "vgetq_lane_u64 (vandq_u8 (vld1q_u8 data i) (vdupq_n_u8 0x80)) 0 \<noteq> 0 \<or>
   vgetq_lane_u64 (vandq_u8 (vld1q_u8 data i) (vdupq_n_u8 0x80)) 1 \<noteq> 0 \<longleftrightarrow>
   \<not> (\<forall>b\<in>set (map (c_at data) [i..<i + 16]). unat b < 0x80)"
  by (subst neon_any_nonzero) (simp_all add: neon_defs lane_simps and_0x80_byte)

interpretation utf8_avx2: chunked_loop 32
  "\<lambda>data len i. let k = utf8_avx2_loop data len i
     in ij_utf8_scalar_validate (c_ptr_add data k) (len - k)"
  "\<lambda>data len i. if mm256_movemask_epi8 (mm256_loadu_si256 data i) \<noteq> 0
     then Some (ij_utf8_scalar_validate (c_ptr_add data i) (len - i)) else None"
  "\<lambda>data len i. ij_utf8_scalar_validate (c_ptr_add data i) (len - i)"
  utf8_from
proof (unfold_locales, goal_cases)
  case (2 data len i)
  show ?case
    using utf8_avx2_loop.simps [of data len i] by (simp add: Let_def)
qed (auto simp: utf8_from_tail utf8_from_skip avx2_high_bit_clear split: if_splits)

interpretation utf8_neon: chunked_loop 16
  "\<lambda>data len i. let k = utf8_neon_loop data len i
     in ij_utf8_scalar_validate (c_ptr_add data k) (len - k)"
  "\<lambda>data len i.
     if \<not> (\<forall>b\<in>set (map (c_at data) [i..<i + 16]). unat b < 0x80)
     then Some (ij_utf8_scalar_validate (c_ptr_add data i) (len - i)) else None"
  "\<lambda>data len i. ij_utf8_scalar_validate (c_ptr_add data i) (len - i)"
  utf8_from
proof (unfold_locales, goal_cases)
  case (2 data len i)
  show ?case
    using utf8_neon_loop.simps [of data len i, unfolded Let_def neon_high_bit_set]
    by (simp add: Let_def)
qed (auto simp: utf8_from_tail utf8_from_skip split: if_splits)

lemma ij_utf8_x86_avx2_impl_ok: "ij_utf8_x86_avx2_impl data len \<longleftrightarrow> utf8_ok (c_mem data len)"
  using utf8_avx2.loop_spec [of 0 len data] by (simp add: ij_utf8_x86_avx2_impl_def utf8_from_def)

lemma ij_utf8_arm_neon_impl_ok: "ij_utf8_arm_neon_impl data len \<longleftrightarrow> utf8_ok (c_mem data len)"
  using utf8_neon.loop_spec [of 0 len data] by (simp add: ij_utf8_arm_neon_impl_def utf8_from_def)

text \<open>What the rest of the library relies on: a validator decides UTF-8 of the bytes it is given.\<close>

locale utf8_validator =
  fixes validate :: "byte list \<Rightarrow> size_t \<Rightarrow> bool"
  assumes validate_ok: "validate data len \<longleftrightarrow> utf8_ok (c_mem data len)"
begin

lemma validate_is_utf8: "validate data len \<longleftrightarrow> is_utf8 (c_mem data len)"
  by (simp add: validate_ok utf8_ok_iff)

lemma validate_ascii:
  "(\<And>i. i < len \<Longrightarrow> unat (c_at data i) < 0x80) \<Longrightarrow> validate data len"
  using utf8_ok_ascii_append [of "c_mem data len" "[]"] by (auto simp: validate_ok set_c_mem)

end

interpretation utf8_scalar: utf8_validator ij_utf8_scalar_validate
  by unfold_locales (rule ij_utf8_scalar_validate_ok)

interpretation utf8_avx2_entry: utf8_validator "ij_utf8_x86_avx2_validate cpu"
  by unfold_locales
    (simp add: ij_utf8_x86_avx2_validate_def ij_utf8_x86_avx2_impl_ok ij_utf8_scalar_validate_ok)

interpretation utf8_neon_entry: utf8_validator "ij_utf8_arm_neon_validate cpu"
  by unfold_locales
    (simp add: ij_utf8_arm_neon_validate_def ij_utf8_arm_neon_impl_ok ij_utf8_scalar_validate_ok)

interpretation utf8_dispatch: utf8_validator "ij_utf8_is_valid_dispatch cpu"
  by unfold_locales
    (simp add: ij_utf8_is_valid_dispatch_def ij_utf8_scalar_validate_ok
      utf8_avx2_entry.validate_ok utf8_neon_entry.validate_ok split: ij_simd_kind_t.split)

section \<open>Properties\<close>

text \<open>
  C25. On every processor the dispatched validator accepts exactly the UTF-8 strings of RFC 3629:
  no overlong forms, no surrogates, nothing above U+10FFFF, no truncated sequence.
\<close>

theorem utf8_dispatch_correct:
  "ij_utf8_is_valid_dispatch cpu data len \<longleftrightarrow> is_utf8 (c_mem data len)"
  by (rule utf8_dispatch.validate_is_utf8)

end
