(* ===== verification/Json_Escape.thy ===== *)
theory Json_Escape
  imports Simd
begin

text \<open>
  Scanning for the first byte that JSON requires to be escaped:
  \<open>src/encoders/ij_json_escape_scalar.c\<close> and its AVX2 and NEON versions. The reference is
  the index of the first special byte; the scalar loop, both vector loops and the dispatcher
  are proved to return it.
\<close>

section \<open>The scanners\<close>

function json_escape_scalar_loop :: "byte list \<Rightarrow> size_t \<Rightarrow> size_t \<Rightarrow> size_t" where
  "json_escape_scalar_loop text len i =
     (if i < len then
        let c = c_at text i in
        if c = 0x5c \<or> c = 0x22 \<or> c = 0x0a \<or> c = 0x0d \<or> c = 0x09 \<or> c < 0x20 then i
        else json_escape_scalar_loop text len (i + 1)
      else len)"
  by pat_completeness auto
termination
  by (relation "measure (\<lambda>(text, len, i). len - i)") auto

declare json_escape_scalar_loop.simps [simp del]

definition ij_json_escape_scalar_find_first_special :: "byte list \<Rightarrow> size_t \<Rightarrow> size_t" where
  "ij_json_escape_scalar_find_first_special text len = json_escape_scalar_loop text len 0"

definition json_escape_avx2_mask :: "m256i \<Rightarrow> 32 word" where
  "json_escape_avx2_mask chunk =
     (let quote = mm256_set1_epi8 0x22; slash = mm256_set1_epi8 0x5c;
          newline = mm256_set1_epi8 0x0a; carriage = mm256_set1_epi8 0x0d;
          tab = mm256_set1_epi8 0x09; control_limit = mm256_set1_epi8 0x1f;
          zero = mm256_set1_epi8 0;
          special =
            mm256_or_si256 (mm256_cmpeq_epi8 chunk quote)
              (mm256_or_si256 (mm256_cmpeq_epi8 chunk slash)
                (mm256_or_si256 (mm256_cmpeq_epi8 chunk newline)
                  (mm256_or_si256 (mm256_cmpeq_epi8 chunk carriage)
                    (mm256_cmpeq_epi8 chunk tab))));
          control = mm256_cmpeq_epi8 (mm256_subs_epu8 chunk control_limit) zero
      in mm256_movemask_epi8 (mm256_or_si256 special control))"

function json_escape_avx2_loop :: "byte list \<Rightarrow> size_t \<Rightarrow> size_t \<Rightarrow> size_t" where
  "json_escape_avx2_loop text len i =
     (if i + 32 \<le> len then
        let mask = json_escape_avx2_mask (mm256_loadu_si256 text i) in
        if mask \<noteq> 0 then i + builtin_ctz mask
        else json_escape_avx2_loop text len (i + 32)
      else i + ij_json_escape_scalar_find_first_special (c_ptr_add text i) (len - i))"
  by pat_completeness auto
termination
  by (relation "measure (\<lambda>(text, len, i). len - i)") auto

declare json_escape_avx2_loop.simps [simp del]

definition ij_json_escape_x86_avx2_impl :: "byte list \<Rightarrow> size_t \<Rightarrow> size_t" where
  "ij_json_escape_x86_avx2_impl text len = json_escape_avx2_loop text len 0"

definition ij_json_escape_x86_avx2_find_first_special :: "cpu \<Rightarrow> byte list \<Rightarrow> size_t \<Rightarrow> size_t" where
  "ij_json_escape_x86_avx2_find_first_special cpu text len =
     (if cpu_arch cpu = X86 \<and> fst (ij_simd_runtime_has_x86_avx2 cpu)
      then ij_json_escape_x86_avx2_impl text len
      else ij_json_escape_scalar_find_first_special text len)"

definition json_escape_neon_mask :: "uint8x16 \<Rightarrow> uint8x16" where
  "json_escape_neon_mask chunk =
     (let quote = vdupq_n_u8 0x22; slash = vdupq_n_u8 0x5c; newline = vdupq_n_u8 0x0a;
          carriage = vdupq_n_u8 0x0d; tab = vdupq_n_u8 0x09; control_limit = vdupq_n_u8 0x20;
          special =
            vorrq_u8 (vceqq_u8 chunk quote)
              (vorrq_u8 (vceqq_u8 chunk slash)
                (vorrq_u8 (vceqq_u8 chunk newline)
                  (vorrq_u8 (vceqq_u8 chunk carriage) (vceqq_u8 chunk tab))));
          control = vcltq_u8 chunk control_limit
      in vorrq_u8 special control)"

function json_escape_neon_loop :: "byte list \<Rightarrow> size_t \<Rightarrow> size_t \<Rightarrow> size_t" where
  "json_escape_neon_loop text len i =
     (if i + 16 \<le> len then
        let mask = json_escape_neon_mask (vld1q_u8 text i) in
        if vgetq_lane_u64 mask 0 \<noteq> 0 \<or> vgetq_lane_u64 mask 1 \<noteq> 0
        then i + ij_json_escape_scalar_find_first_special (c_ptr_add text i) 16
        else json_escape_neon_loop text len (i + 16)
      else i + ij_json_escape_scalar_find_first_special (c_ptr_add text i) (len - i))"
  by pat_completeness auto
termination
  by (relation "measure (\<lambda>(text, len, i). len - i)") auto

declare json_escape_neon_loop.simps [simp del]

definition ij_json_escape_arm_neon_impl :: "byte list \<Rightarrow> size_t \<Rightarrow> size_t" where
  "ij_json_escape_arm_neon_impl text len = json_escape_neon_loop text len 0"

definition ij_json_escape_arm_neon_find_first_special :: "cpu \<Rightarrow> byte list \<Rightarrow> size_t \<Rightarrow> size_t" where
  "ij_json_escape_arm_neon_find_first_special cpu text len =
     (if cpu_arch cpu = AARCH64 \<and> ij_simd_runtime_has_arm_neon cpu
      then ij_json_escape_arm_neon_impl text len
      else ij_json_escape_scalar_find_first_special text len)"

definition ij_json_escape_find_first_special :: "cpu \<Rightarrow> byte list \<Rightarrow> size_t \<Rightarrow> size_t" where
  "ij_json_escape_find_first_special cpu text len =
     (if len < IJ_SIMD_JSON_ESCAPE_MIN_LEN then ij_json_escape_scalar_find_first_special text len
      else (case ij_simd_json_escape_kind cpu of
              IJ_SIMD_KIND_X86_AVX2 \<Rightarrow> ij_json_escape_x86_avx2_find_first_special cpu text len
            | IJ_SIMD_KIND_ARM_NEON \<Rightarrow> ij_json_escape_arm_neon_find_first_special cpu text len
            | IJ_SIMD_KIND_SCALAR \<Rightarrow> ij_json_escape_scalar_find_first_special text len))"

section \<open>Reference\<close>

text \<open>RFC 8259: quotation mark, reverse solidus and the control characters must be escaped.\<close>

definition json_special :: "byte \<Rightarrow> bool" where
  "json_special c \<longleftrightarrow> c < 0x20 \<or> c = 0x22 \<or> c = 0x5c"

definition special_from :: "byte list \<Rightarrow> size_t \<Rightarrow> size_t \<Rightarrow> size_t" where
  "special_from t len i = i + first_index json_special (drop i (c_mem t len))"

lemma scalar_test:
  "(c = 0x5c \<or> c = 0x22 \<or> c = 0x0a \<or> c = 0x0d \<or> c = 0x09 \<or> c < 0x20) \<longleftrightarrow> json_special c"
  by (auto simp: json_special_def)

section \<open>The scalar loop\<close>

lemma json_escape_scalar_loop_spec:
  "i \<le> len \<Longrightarrow> json_escape_scalar_loop t len i = special_from t len i"
proof (induction t len i rule: json_escape_scalar_loop.induct)
  case (1 t len i)
  show ?case
  proof (cases "i < len")
    case True
    then show ?thesis
      using 1 json_escape_scalar_loop.simps [of t len i, unfolded scalar_test]
      by (simp add: special_from_def drop_c_mem_Cons [OF True] Let_def scalar_test)
  next
    case False
    with "1.prems" show ?thesis
      using json_escape_scalar_loop.simps [of t len i] by (simp add: special_from_def)
  qed
qed

lemma scalar_find_first:
  "ij_json_escape_scalar_find_first_special t len = first_index json_special (c_mem t len)"
  by (simp add: ij_json_escape_scalar_find_first_special_def json_escape_scalar_loop_spec
      special_from_def)

section \<open>The vector loops\<close>

lemma special_from_split:
  assumes "i + w \<le> len"
  shows "special_from t len i =
    (let chunk = map (c_at t) [i..<i + w] in
     if \<exists>b\<in>set chunk. json_special b then i + first_index json_special chunk
     else special_from t len (i + w))"
proof -
  have "drop i (c_mem t len) = map (c_at t) [i..<i + w] @ drop (i + w) (c_mem t len)"
    using assms by (metis append_take_drop_id drop_drop add.commute take_drop_c_mem)
  then show ?thesis by (simp add: special_from_def first_index_append)
qed

lemma special_from_tail:
  "i \<le> len \<Longrightarrow>
   i + ij_json_escape_scalar_find_first_special (c_ptr_add t i) (len - i) = special_from t len i"
  by (simp add: scalar_find_first c_mem_ptr_add_drop special_from_def)

lemma byte_le_0x1f: "(b :: byte) \<le> 0x1f \<longleftrightarrow> b < 0x20"
  unfolding word_le_nat_alt word_less_nat_alt by simp linarith

lemma avx2_mask_lanes:
  "\<exists>v. json_escape_avx2_mask (mm256_loadu_si256 t i) = mm256_movemask_epi8 v \<and> length v = 32 \<and>
       map (\<lambda>b. bit b 7) v = map json_special (map (c_at t) [i..<i + 32])"
  unfolding json_escape_avx2_mask_def Let_def m256_defs
  by (rule exI, intro conjI, rule refl) (auto simp: lane_simps json_special_def byte_le_0x1f)

lemma ex_map_iff: "map P xs = map Q ys \<Longrightarrow> (\<exists>x\<in>set xs. P x) \<longleftrightarrow> (\<exists>y\<in>set ys. Q y)"
  by (metis (mono_tags, lifting) imageE imageI list.set_map)

lemma first_index_map_eq: "map P xs = map Q ys \<Longrightarrow> first_index P xs = first_index Q ys"
  using first_index_map [of "\<lambda>b. b" P xs] first_index_map [of "\<lambda>b. b" Q ys] by simp

lemma avx2_mask_nonzero:
  "json_escape_avx2_mask (mm256_loadu_si256 t i) \<noteq> 0 \<longleftrightarrow>
   (\<exists>b\<in>set (map (c_at t) [i..<i + 32]). json_special b)"
proof -
  obtain v where v: "json_escape_avx2_mask (mm256_loadu_si256 t i) = mm256_movemask_epi8 v"
    "length v = 32" "map (\<lambda>b. bit b 7) v = map json_special (map (c_at t) [i..<i + 32])"
    using avx2_mask_lanes by blast
  show ?thesis unfolding v(1) movemask_eq_0_iff [OF v(2)] using ex_map_iff [OF v(3)] by blast
qed

lemma avx2_mask_ctz:
  "builtin_ctz (json_escape_avx2_mask (mm256_loadu_si256 t i)) =
   first_index json_special (map (c_at t) [i..<i + 32])"
proof -
  obtain v where v: "json_escape_avx2_mask (mm256_loadu_si256 t i) = mm256_movemask_epi8 v"
    "length v = 32" "map (\<lambda>b. bit b 7) v = map json_special (map (c_at t) [i..<i + 32])"
    using avx2_mask_lanes by blast
  show ?thesis unfolding v(1) ctz_movemask [OF v(2)] by (rule first_index_map_eq [OF v(3)])
qed

lemma neon_lane_special:
  "(b \<noteq> 13 \<longrightarrow> b \<noteq> 9 \<longrightarrow> b \<noteq> 10 \<longrightarrow> b \<noteq> 92 \<longrightarrow> b \<noteq> 34 \<longrightarrow> b < 32) \<longleftrightarrow> json_special b"
  by (auto simp: json_special_def)

lemma neon_mask_nonzero:
  "vgetq_lane_u64 (json_escape_neon_mask (vld1q_u8 t i)) 0 \<noteq> 0 \<or>
   vgetq_lane_u64 (json_escape_neon_mask (vld1q_u8 t i)) 1 \<noteq> 0 \<longleftrightarrow>
   (\<exists>b\<in>set (map (c_at t) [i..<i + 16]). json_special b)"
  by (subst neon_any_nonzero)
    (simp_all add: json_escape_neon_mask_def Let_def neon_defs lane_simps neon_lane_special)

interpretation escape_avx2: chunked_loop 32 json_escape_avx2_loop
  "\<lambda>t len i. let mask = json_escape_avx2_mask (mm256_loadu_si256 t i)
     in if mask \<noteq> 0 then Some (i + builtin_ctz mask) else None"
  "\<lambda>t len i. i + ij_json_escape_scalar_find_first_special (c_ptr_add t i) (len - i)"
  special_from
proof (unfold_locales, goal_cases)
  case (2 t len i)
  show ?case using json_escape_avx2_loop.simps [of t len i] by (simp add: Let_def)
next
  case (3 i len t r)
  then show ?case
    unfolding Let_def avx2_mask_nonzero avx2_mask_ctz
    by (auto simp: special_from_split [OF 3(1)] Let_def split: if_splits)
next
  case (4 i len t)
  then show ?case
    unfolding Let_def avx2_mask_nonzero
    by (simp add: special_from_split [OF 4(1)] Let_def split: if_splits)
qed (simp_all add: special_from_tail)

interpretation escape_neon: chunked_loop 16 json_escape_neon_loop
  "\<lambda>t len i. let mask = json_escape_neon_mask (vld1q_u8 t i)
     in if vgetq_lane_u64 mask 0 \<noteq> 0 \<or> vgetq_lane_u64 mask 1 \<noteq> 0
        then Some (i + ij_json_escape_scalar_find_first_special (c_ptr_add t i) 16) else None"
  "\<lambda>t len i. i + ij_json_escape_scalar_find_first_special (c_ptr_add t i) (len - i)"
  special_from
proof (unfold_locales, goal_cases)
  case (2 t len i)
  show ?case using json_escape_neon_loop.simps [of t len i] by (simp add: Let_def)
next
  case (3 i len t r)
  then show ?case
    unfolding Let_def neon_mask_nonzero scalar_find_first c_mem_ptr_add
    by (auto simp: special_from_split [OF 3(1)] Let_def split: if_splits)
next
  case (4 i len t)
  then show ?case
    unfolding Let_def neon_mask_nonzero
    by (simp add: special_from_split [OF 4(1)] Let_def split: if_splits)
qed (simp_all add: special_from_tail)

section \<open>Interface to the encoder\<close>

locale escape_scanner =
  fixes find_first :: "byte list \<Rightarrow> size_t \<Rightarrow> size_t"
  assumes find_first_index: "find_first t len = first_index json_special (c_mem t len)"
begin

lemma find_first_le: "find_first t len \<le> len"
  using first_index_le [of json_special "c_mem t len"] by (simp add: find_first_index)

lemma find_first_none_iff: "find_first t len = len \<longleftrightarrow> (\<forall>i<len. \<not> json_special (c_at t i))"
  using first_index_length_iff [of json_special "c_mem t len"]
  by (auto simp: find_first_index set_c_mem)

lemma find_first_special: "find_first t len < len \<Longrightarrow> json_special (c_at t (find_first t len))"
  using first_index_nth [of json_special "c_mem t len"] by (simp add: find_first_index nth_c_mem)

lemma before_find_first: "i < find_first t len \<Longrightarrow> \<not> json_special (c_at t i)"
  using before_first_index [of i json_special "c_mem t len"] find_first_le [of t len]
  by (simp add: find_first_index nth_c_mem)

end

interpretation escape_scalar: escape_scanner ij_json_escape_scalar_find_first_special
  by unfold_locales (rule scalar_find_first)

interpretation escape_avx2_entry: escape_scanner "ij_json_escape_x86_avx2_find_first_special cpu"
  using escape_avx2.loop_spec [of 0]
  by unfold_locales
    (simp add: ij_json_escape_x86_avx2_find_first_special_def ij_json_escape_x86_avx2_impl_def
      scalar_find_first special_from_def)

interpretation escape_neon_entry: escape_scanner "ij_json_escape_arm_neon_find_first_special cpu"
  using escape_neon.loop_spec [of 0]
  by unfold_locales
    (simp add: ij_json_escape_arm_neon_find_first_special_def ij_json_escape_arm_neon_impl_def
      scalar_find_first special_from_def)

interpretation escape_dispatch: escape_scanner "ij_json_escape_find_first_special cpu"
  by unfold_locales
    (simp add: ij_json_escape_find_first_special_def scalar_find_first
      escape_avx2_entry.find_first_index escape_neon_entry.find_first_index
      split: ij_simd_kind_t.split)

section \<open>Properties\<close>

text \<open>
  On every processor the dispatched scanner returns the index of the first byte that JSON
  requires to be escaped, or the length when there is none.
\<close>

theorem find_first_special_correct:
  "ij_json_escape_find_first_special cpu t len = first_index json_special (c_mem t len)"
  by (rule escape_dispatch.find_first_index)

end
