(* ===== verification/Ij_Types.thy ===== *)
theory Ij_Types
  imports Prelude
begin

text \<open>
  The data of the library: \<open>include/iojournal/iojournal_types.h\<close>,
  \<open>iojournal_perf.h\<close>, \<open>iojournal_syslog.h\<close> and the internal structures of
  \<open>src/ij_internal.h\<close>.

  A C enumeration that reaches the library from its caller may hold any value of the
  underlying \<open>unsigned int\<close>. Such an enumeration is a datatype with the source's
  constants and one constructor for the remaining values, and a function giving the number
  the constant stands for. A tagged union is a datatype with one constructor per tag.
  A pointer field is an \<open>option\<close>.
\<close>

section \<open>Limits\<close>

definition IJ_TRACE_ID_SIZE :: size_t where "IJ_TRACE_ID_SIZE = 16"
definition IJ_SPAN_ID_SIZE :: size_t where "IJ_SPAN_ID_SIZE = 8"
definition IJ_EVENT_NAME_MAX_LEN :: size_t where "IJ_EVENT_NAME_MAX_LEN = 64"
definition IJ_LOGGER_NAME_MAX_LEN :: size_t where "IJ_LOGGER_NAME_MAX_LEN = 64"
definition IJ_ATTRIBUTE_KEY_MAX_LEN :: size_t where "IJ_ATTRIBUTE_KEY_MAX_LEN = 64"
definition IJ_ATTRIBUTE_STRING_MAX_LEN :: size_t where "IJ_ATTRIBUTE_STRING_MAX_LEN = 512"
definition IJ_ATTRIBUTE_COUNT_MAX :: size_t where "IJ_ATTRIBUTE_COUNT_MAX = 32"
definition IJ_MESSAGE_MAX_LEN :: size_t where "IJ_MESSAGE_MAX_LEN = 2048"
definition IJ_EVENT_TEXT_MAX_LEN :: size_t where "IJ_EVENT_TEXT_MAX_LEN = 4096"
definition IJ_QUEUE_CAPACITY_MIN :: size_t where "IJ_QUEUE_CAPACITY_MIN = 256"
definition IJ_QUEUE_CAPACITY_DEFAULT :: size_t where "IJ_QUEUE_CAPACITY_DEFAULT = 1024"
definition IJ_QUEUE_CAPACITY_MAX :: size_t where "IJ_QUEUE_CAPACITY_MAX = 65536"
definition IJ_SYSLOG_RFC5424_VERSION :: nat where "IJ_SYSLOG_RFC5424_VERSION = 1"
definition IJ_SYSLOG_UDP_TARGET_MAX :: size_t where "IJ_SYSLOG_UDP_TARGET_MAX = 2048"
definition IJ_REDACTED_LITERAL :: "byte list" where "IJ_REDACTED_LITERAL = bytes ''[REDACTED]''"

lemmas limit_defs =
  IJ_TRACE_ID_SIZE_def IJ_SPAN_ID_SIZE_def IJ_EVENT_NAME_MAX_LEN_def IJ_LOGGER_NAME_MAX_LEN_def
  IJ_ATTRIBUTE_KEY_MAX_LEN_def IJ_ATTRIBUTE_STRING_MAX_LEN_def IJ_ATTRIBUTE_COUNT_MAX_def
  IJ_MESSAGE_MAX_LEN_def IJ_EVENT_TEXT_MAX_LEN_def

lemma length_redacted [simp]: "length IJ_REDACTED_LITERAL = 10"
  by (simp add: IJ_REDACTED_LITERAL_def)

section \<open>Status codes and enumerations\<close>

datatype ij_status_t =
    IJ_STATUS_OK
  | IJ_STATUS_INVALID_ARGUMENT
  | IJ_STATUS_INVALID_STATE
  | IJ_STATUS_QUEUE_FULL
  | IJ_STATUS_ENCODE_ERROR
  | IJ_STATUS_SINK_ERROR
  | IJ_STATUS_INTERNAL_ERROR

datatype ij_level_t =
    IJ_LEVEL_TRACE | IJ_LEVEL_DEBUG | IJ_LEVEL_INFO | IJ_LEVEL_WARN | IJ_LEVEL_ERROR
  | IJ_LEVEL_FATAL | IJ_LEVEL_OTHER nat

fun level_value :: "ij_level_t \<Rightarrow> nat" where
  "level_value IJ_LEVEL_TRACE = 0"
| "level_value IJ_LEVEL_DEBUG = 1"
| "level_value IJ_LEVEL_INFO = 2"
| "level_value IJ_LEVEL_WARN = 3"
| "level_value IJ_LEVEL_ERROR = 4"
| "level_value IJ_LEVEL_FATAL = 5"
| "level_value (IJ_LEVEL_OTHER n) = 6 + n"

lemma level_value_inject: "level_value a = level_value b \<longleftrightarrow> a = b"
  by (cases a; cases b) simp_all

text \<open>C compares levels by their number.\<close>

instantiation ij_level_t :: linorder
begin

definition less_eq_ij_level_t :: "ij_level_t \<Rightarrow> ij_level_t \<Rightarrow> bool" where
  "less_eq_ij_level_t a b \<longleftrightarrow> level_value a \<le> level_value b"

definition less_ij_level_t :: "ij_level_t \<Rightarrow> ij_level_t \<Rightarrow> bool" where
  "less_ij_level_t a b \<longleftrightarrow> level_value a < level_value b"

instance
  by standard
    (auto simp: less_eq_ij_level_t_def less_ij_level_t_def level_value_inject [symmetric])

end

datatype ij_sink_kind_t =
  IJ_SINK_KIND_CONSOLE | IJ_SINK_KIND_FILE | IJ_SINK_KIND_SYSLOG | IJ_SINK_KIND_OTHER nat

fun sink_kind_value :: "ij_sink_kind_t \<Rightarrow> nat" where
  "sink_kind_value IJ_SINK_KIND_CONSOLE = 0"
| "sink_kind_value IJ_SINK_KIND_FILE = 1"
| "sink_kind_value IJ_SINK_KIND_SYSLOG = 2"
| "sink_kind_value (IJ_SINK_KIND_OTHER n) = 3 + n"

datatype ij_syslog_transport_t =
  IJ_SYSLOG_TRANSPORT_UDP | IJ_SYSLOG_TRANSPORT_TCP | IJ_SYSLOG_TRANSPORT_OTHER nat

text \<open>The facility is used as a number only; its named constants are the RFC 5424 codes.\<close>

type_synonym ij_syslog_facility_t = nat

definition IJ_SYSLOG_FACILITY_KERN :: ij_syslog_facility_t where "IJ_SYSLOG_FACILITY_KERN = 0"
definition IJ_SYSLOG_FACILITY_USER :: ij_syslog_facility_t where "IJ_SYSLOG_FACILITY_USER = 1"
definition IJ_SYSLOG_FACILITY_FTP :: ij_syslog_facility_t where "IJ_SYSLOG_FACILITY_FTP = 11"
definition IJ_SYSLOG_FACILITY_LOCAL0 :: ij_syslog_facility_t where "IJ_SYSLOG_FACILITY_LOCAL0 = 16"
definition IJ_SYSLOG_FACILITY_LOCAL7 :: ij_syslog_facility_t where "IJ_SYSLOG_FACILITY_LOCAL7 = 23"

lemmas facility_defs =
  IJ_SYSLOG_FACILITY_KERN_def IJ_SYSLOG_FACILITY_USER_def IJ_SYSLOG_FACILITY_FTP_def
  IJ_SYSLOG_FACILITY_LOCAL0_def IJ_SYSLOG_FACILITY_LOCAL7_def

datatype ij_redaction_mode_t =
  IJ_REDACTION_MODE_DISABLED | IJ_REDACTION_MODE_ENABLED | IJ_REDACTION_MODE_OTHER nat

datatype ij_file_backend_t =
  IJ_FILE_BACKEND_AUTO | IJ_FILE_BACKEND_SYNC | IJ_FILE_BACKEND_IO_URING | IJ_FILE_BACKEND_OTHER nat

section \<open>Events as the caller hands them over\<close>

record ij_timestamp_t =
  unix_seconds :: "64 word"
  nanoseconds :: "32 word"

text \<open>
  The tagged union \<open>ij_attr_value_t\<close>. A \<open>double\<close> is its 64-bit IEEE 754 pattern, an
  \<open>int64_t\<close> the 64-bit word read as two's complement. The last constructor is a tag that is
  none of the five.
\<close>

datatype ij_attr_value_t =
    IJ_ATTR_VALUE_STRING cstring size_t
  | IJ_ATTR_VALUE_SIGNED "64 word"
  | IJ_ATTR_VALUE_UNSIGNED "64 word"
  | IJ_ATTR_VALUE_BOOL bool
  | IJ_ATTR_VALUE_DOUBLE "64 word"
  | IJ_ATTR_VALUE_OTHER nat

record ij_attr_t =
  attr_key :: cstring
  attr_value :: ij_attr_value_t

record ij_event_t =
  ev_timestamp :: ij_timestamp_t
  ev_level :: ij_level_t
  ev_event_name :: cstring
  ev_message :: cstring
  ev_logger :: cstring
  ev_attributes :: "ij_attr_t list option"
  ev_attribute_count :: size_t
  ev_trace_id :: "byte list option"
  ev_span_id :: "byte list option"
  ev_trace_flags :: byte
  ev_has_trace_context :: bool
  ev_source_file :: cstring
  ev_source_line :: "32 word"
  ev_source_function :: cstring

text \<open>The attributes the loops \<open>for (i = 0; i < attribute_count; ++i)\<close> visit.\<close>

definition event_attributes :: "ij_event_t \<Rightarrow> ij_attr_t list" where
  "event_attributes event =
     (case ev_attributes event of None \<Rightarrow> [] | Some xs \<Rightarrow> take (ev_attribute_count event) xs)"

text \<open>
  What the caller owes the library: the attribute array has \<open>attribute_count\<close> entries and a
  string value has the \<open>len\<close> bytes it announces.
\<close>

definition attr_caller_ok :: "ij_attr_t \<Rightarrow> bool" where
  "attr_caller_ok a \<longleftrightarrow>
     (case attr_value a of IJ_ATTR_VALUE_STRING (Some d) n \<Rightarrow> n \<le> length d | _ \<Rightarrow> True)"

definition event_caller_ok :: "ij_event_t \<Rightarrow> bool" where
  "event_caller_ok event \<longleftrightarrow>
     (case ev_attributes event of None \<Rightarrow> True | Some xs \<Rightarrow> ev_attribute_count event \<le> length xs) \<and>
     list_all attr_caller_ok (event_attributes event)"

section \<open>Configuration\<close>

record ij_logger_config_t =
  cfg_min_level :: ij_level_t
  cfg_sink_kind :: ij_sink_kind_t
  cfg_redaction_mode :: ij_redaction_mode_t
  cfg_queue_capacity :: size_t
  cfg_logger_name :: cstring
  cfg_file_path :: cstring
  cfg_file_rotate_bytes :: size_t
  cfg_file_rotate_interval_seconds :: "32 word"
  cfg_file_retention_files :: size_t
  cfg_file_backend :: ij_file_backend_t
  cfg_syslog_host :: cstring
  cfg_syslog_port :: "16 word"
  cfg_syslog_transport :: ij_syslog_transport_t
  cfg_syslog_facility :: ij_syslog_facility_t

section \<open>Owned copies\<close>

text \<open>
  An owned string is a slice of its event's text arena: \<open>str_data\<close> is the offset of its first
  byte (\<open>None\<close> for a null pointer).
\<close>

record ij_owned_string_t =
  str_data :: "nat option"
  str_len :: size_t
  str_needs_json_escape :: bool

definition null_string :: ij_owned_string_t where
  "null_string = \<lparr>str_data = None, str_len = 0, str_needs_json_escape = False\<rparr>"

datatype ij_owned_attr_value_t =
    OWNED_STRING ij_owned_string_t
  | OWNED_SIGNED "64 word"
  | OWNED_UNSIGNED "64 word"
  | OWNED_BOOL bool
  | OWNED_DOUBLE "64 word"

record ij_owned_attr_t =
  own_key :: ij_owned_string_t
  own_value :: ij_owned_attr_value_t

record ij_event_copy_t =
  cp_timestamp :: ij_timestamp_t
  cp_level :: ij_level_t
  cp_event_name :: ij_owned_string_t
  cp_message :: ij_owned_string_t
  cp_logger_name :: ij_owned_string_t
  cp_attributes :: "ij_owned_attr_t list"
  cp_trace_id :: "byte list"
  cp_span_id :: "byte list"
  cp_trace_flags :: byte
  cp_has_trace_context :: bool
  cp_source_file :: ij_owned_string_t
  cp_source_line :: "32 word"
  cp_source_function :: ij_owned_string_t
  cp_text_arena :: "byte list option"
  cp_text_arena_size :: size_t

text \<open>An event copy after \<open>memset(event, 0, sizeof(*event))\<close>.\<close>

definition zero_event_copy :: ij_event_copy_t where
  "zero_event_copy =
     \<lparr>cp_timestamp = \<lparr>unix_seconds = 0, nanoseconds = 0\<rparr>, cp_level = IJ_LEVEL_TRACE,
      cp_event_name = null_string, cp_message = null_string, cp_logger_name = null_string,
      cp_attributes = [], cp_trace_id = replicate 16 0, cp_span_id = replicate 8 0,
      cp_trace_flags = 0, cp_has_trace_context = False, cp_source_file = null_string,
      cp_source_line = 0, cp_source_function = null_string, cp_text_arena = None,
      cp_text_arena_size = 0\<rparr>"

section \<open>Reading and writing an arena\<close>

text \<open>
  A write of \<open>bs\<close> at offset \<open>off\<close> of a buffer; \<open>None\<close> is a write outside the buffer,
  which C leaves undefined.
\<close>

definition mem_write :: "byte list \<Rightarrow> nat \<Rightarrow> byte list \<Rightarrow> byte list option" where
  "mem_write mem off bs =
     (if off + length bs \<le> length mem
      then Some (take off mem @ bs @ drop (off + length bs) mem) else None)"

lemma mem_write_Some:
  "off + length bs \<le> length mem \<Longrightarrow>
     mem_write mem off bs = Some (take off mem @ bs @ drop (off + length bs) mem)"
  by (simp add: mem_write_def)

lemma length_mem_write: "mem_write mem off bs = Some mem' \<Longrightarrow> length mem' = length mem"
  by (auto simp: mem_write_def split: if_splits)

text \<open>The bytes of an owned string.\<close>

definition owned_bytes :: "byte list \<Rightarrow> ij_owned_string_t \<Rightarrow> byte list" where
  "owned_bytes mem s =
     (case str_data s of None \<Rightarrow> [] | Some off \<Rightarrow> c_mem (c_ptr_add mem off) (str_len s))"

end
