(* ===== verification/Level_Filter.thy ===== *)
theory Level_Filter
  imports Ij_Types
begin

text \<open>
  Level filtering (\<open>src/filters/ij_level_filter.c\<close>) and the enumeration checks of
  \<open>src/core/ij_logger.c\<close>.
\<close>

definition ij_level_is_valid :: "ij_level_t \<Rightarrow> bool" where
  "ij_level_is_valid level \<longleftrightarrow> level \<ge> IJ_LEVEL_TRACE \<and> level \<le> IJ_LEVEL_FATAL"

definition ij_sink_kind_is_valid :: "ij_sink_kind_t \<Rightarrow> bool" where
  "ij_sink_kind_is_valid sink_kind \<longleftrightarrow>
     sink_kind_value sink_kind \<ge> sink_kind_value IJ_SINK_KIND_CONSOLE \<and>
     sink_kind_value sink_kind \<le> sink_kind_value IJ_SINK_KIND_SYSLOG"

definition ij_syslog_transport_is_valid :: "ij_syslog_transport_t \<Rightarrow> bool" where
  "ij_syslog_transport_is_valid transport \<longleftrightarrow>
     transport = IJ_SYSLOG_TRANSPORT_UDP \<or> transport = IJ_SYSLOG_TRANSPORT_TCP"

definition ij_syslog_facility_is_valid :: "ij_syslog_facility_t \<Rightarrow> bool" where
  "ij_syslog_facility_is_valid facility \<longleftrightarrow>
     (facility \<ge> IJ_SYSLOG_FACILITY_KERN \<and> facility \<le> IJ_SYSLOG_FACILITY_FTP) \<or>
     (facility \<ge> IJ_SYSLOG_FACILITY_LOCAL0 \<and> facility \<le> IJ_SYSLOG_FACILITY_LOCAL7)"

definition ij_redaction_mode_is_valid :: "ij_redaction_mode_t \<Rightarrow> bool" where
  "ij_redaction_mode_is_valid mode \<longleftrightarrow>
     mode = IJ_REDACTION_MODE_DISABLED \<or> mode = IJ_REDACTION_MODE_ENABLED"

definition ij_file_backend_is_valid :: "ij_file_backend_t \<Rightarrow> bool" where
  "ij_file_backend_is_valid backend \<longleftrightarrow>
     backend = IJ_FILE_BACKEND_AUTO \<or> backend = IJ_FILE_BACKEND_SYNC \<or>
     backend = IJ_FILE_BACKEND_IO_URING"

definition ij_level_is_enabled :: "ij_level_t \<Rightarrow> ij_level_t \<Rightarrow> bool" where
  "ij_level_is_enabled min_level event_level =
     (if \<not> ij_level_is_valid min_level \<or> \<not> ij_level_is_valid event_level then False
      else event_level \<ge> min_level)"

fun ij_level_to_text :: "ij_level_t \<Rightarrow> byte list" where
  "ij_level_to_text IJ_LEVEL_TRACE = bytes ''trace''"
| "ij_level_to_text IJ_LEVEL_DEBUG = bytes ''debug''"
| "ij_level_to_text IJ_LEVEL_INFO = bytes ''info''"
| "ij_level_to_text IJ_LEVEL_WARN = bytes ''warn''"
| "ij_level_to_text IJ_LEVEL_ERROR = bytes ''error''"
| "ij_level_to_text IJ_LEVEL_FATAL = bytes ''fatal''"
| "ij_level_to_text (IJ_LEVEL_OTHER n) = bytes ''unknown''"

lemma ij_level_is_valid_iff: "ij_level_is_valid level \<longleftrightarrow> (\<forall>n. level \<noteq> IJ_LEVEL_OTHER n)"
  by (cases level) (auto simp: ij_level_is_valid_def less_eq_ij_level_t_def)

lemma ij_sink_kind_is_valid_iff: "ij_sink_kind_is_valid k \<longleftrightarrow> (\<forall>n. k \<noteq> IJ_SINK_KIND_OTHER n)"
  by (cases k) (auto simp: ij_sink_kind_is_valid_def)

lemma facility_valid_bound: "ij_syslog_facility_is_valid f \<Longrightarrow> f \<le> 23"
  by (auto simp: ij_syslog_facility_is_valid_def facility_defs)

lemma ij_level_to_text_inject:
  "ij_level_is_valid a \<Longrightarrow> ij_level_is_valid b \<Longrightarrow> ij_level_to_text a = ij_level_to_text b \<Longrightarrow> a = b"
  by (cases a; cases b) (simp_all add: ij_level_is_valid_iff)

text \<open>Raising the threshold only removes levels; the least threshold admits every valid level.\<close>

lemma ij_level_is_enabled_antimono:
  "min_level \<le> min_level' \<Longrightarrow> ij_level_is_valid min_level \<Longrightarrow>
     ij_level_is_enabled min_level' level \<Longrightarrow> ij_level_is_enabled min_level level"
  by (auto simp: ij_level_is_enabled_def split: if_splits)

lemma ij_level_is_enabled_trace: "ij_level_is_enabled IJ_LEVEL_TRACE level = ij_level_is_valid level"
  by (cases level) (simp_all add: ij_level_is_enabled_def ij_level_is_valid_def less_eq_ij_level_t_def)

end
