(* ===== verification/Event_Validate.thy ===== *)
theory Event_Validate
  imports Utf8 Json_Escape Ij_Types Level_Filter
begin

text \<open>
  Validation of events: the first half of \<open>src/core/ij_event.c\<close>. The reference is the
  declarative \<open>valid_event\<close>; \<open>ij_validate_event\<close> is proved to decide it. The one-pass
  scanners of the copying path (\<open>ij_scan_string_field_copy\<close>,
  \<open>ij_validate_attr_string_copy\<close>) are proved to accept exactly what the plain validators
  accept, and to report the length and whether a byte has to be escaped in JSON.

  The sizes that are added up here are at most 4096 each, and at most 69 of them are added,
  so the additions of the source do not wrap around.
\<close>

section \<open>The validators\<close>

definition ij_validate_string_field :: "cpu \<Rightarrow> cstring \<Rightarrow> size_t \<Rightarrow> bool \<Rightarrow> bool" where
  "ij_validate_string_field cpu value max_len allow_empty =
     (case value of
        None \<Rightarrow> False
      | Some v \<Rightarrow>
          let len = strnlen v (max_len + 1) in
          if (\<not> allow_empty \<and> len = 0) \<or> len > max_len then False
          else ij_utf8_is_valid_dispatch cpu v len)"

text \<open>\<open>isfinite\<close> on the bits of a double: the exponent is not all ones.\<close>

definition isfinite :: "64 word \<Rightarrow> bool" where
  "isfinite d \<longleftrightarrow> drop_bit 52 d AND 0x7ff \<noteq> 0x7ff"

definition ij_validate_attr_value :: "cpu \<Rightarrow> ij_attr_value_t option \<Rightarrow> bool" where
  "ij_validate_attr_value cpu value =
     (case value of
        None \<Rightarrow> False
      | Some (IJ_ATTR_VALUE_STRING data len) \<Rightarrow>
          (case data of
             None \<Rightarrow> False
           | Some d \<Rightarrow>
               if len > IJ_ATTRIBUTE_STRING_MAX_LEN then False
               else ij_utf8_is_valid_dispatch cpu d len)
      | Some (IJ_ATTR_VALUE_SIGNED _) \<Rightarrow> True
      | Some (IJ_ATTR_VALUE_UNSIGNED _) \<Rightarrow> True
      | Some (IJ_ATTR_VALUE_BOOL _) \<Rightarrow> True
      | Some (IJ_ATTR_VALUE_DOUBLE d) \<Rightarrow> isfinite d
      | Some (IJ_ATTR_VALUE_OTHER _) \<Rightarrow> False)"

text \<open>The memory a key points at; the loops below run once every key is known not to be null.\<close>

definition key_mem :: "ij_attr_t \<Rightarrow> byte list" where
  "key_mem a = (case attr_key a of None \<Rightarrow> [] | Some k \<Rightarrow> k)"

fun duplicate_key_inner :: "ij_attr_t \<Rightarrow> ij_attr_t list \<Rightarrow> bool" where
  "duplicate_key_inner a [] = False"
| "duplicate_key_inner a (b # bs) =
     (if strcmp_eq (key_mem a) (key_mem b) then True else duplicate_key_inner a bs)"

fun ij_duplicate_attr_keys :: "ij_attr_t list \<Rightarrow> bool" where
  "ij_duplicate_attr_keys [] = False"
| "ij_duplicate_attr_keys (a # as) =
     (if duplicate_key_inner a as then True else ij_duplicate_attr_keys as)"

definition opt_strlen :: "cstring \<Rightarrow> size_t" where
  "opt_strlen v = (case v of None \<Rightarrow> 0 | Some m \<Rightarrow> strlen m)"

fun attrs_text_size :: "ij_attr_t list \<Rightarrow> size_t \<Rightarrow> size_t" where
  "attrs_text_size [] total_size = total_size"
| "attrs_text_size (a # as) total_size =
     (let total_size = total_size + strlen (key_mem a);
          total_size = (case attr_value a of IJ_ATTR_VALUE_STRING _ len \<Rightarrow> total_size + len | _ \<Rightarrow> total_size)
      in attrs_text_size as total_size)"

definition ij_event_text_size :: "ij_event_t \<Rightarrow> size_t" where
  "ij_event_text_size event =
     (let total_size = opt_strlen (ev_event_name event) + opt_strlen (ev_message event);
          total_size = (if ev_logger event \<noteq> None then total_size + opt_strlen (ev_logger event) else total_size);
          total_size = (if ev_source_file event \<noteq> None
                   then total_size + opt_strlen (ev_source_file event) else total_size);
          total_size = (if ev_source_function event \<noteq> None
                   then total_size + opt_strlen (ev_source_function event) else total_size)
      in attrs_text_size (event_attributes event) total_size)"

fun validate_attrs_loop :: "cpu \<Rightarrow> ij_attr_t list \<Rightarrow> bool" where
  "validate_attrs_loop cpu [] = True"
| "validate_attrs_loop cpu (a # as) =
     (if \<not> ij_validate_string_field cpu (attr_key a) IJ_ATTRIBUTE_KEY_MAX_LEN False \<or>
         \<not> ij_validate_attr_value cpu (Some (attr_value a))
      then False else validate_attrs_loop cpu as)"

definition ij_validate_event :: "cpu \<Rightarrow> ij_event_t option \<Rightarrow> ij_status_t" where
  "ij_validate_event cpu event_ptr =
     (case event_ptr of
        None \<Rightarrow> IJ_STATUS_INVALID_ARGUMENT
      | Some event \<Rightarrow>
          if \<not> ij_level_is_valid (ev_level event) then IJ_STATUS_INVALID_ARGUMENT
          else if nanoseconds (ev_timestamp event) \<ge> 1000000000 then IJ_STATUS_INVALID_ARGUMENT
          else if \<not> ij_validate_string_field cpu (ev_event_name event) IJ_EVENT_NAME_MAX_LEN False \<or>
                  \<not> ij_validate_string_field cpu (ev_message event) IJ_MESSAGE_MAX_LEN True
          then IJ_STATUS_INVALID_ARGUMENT
          else if ev_logger event \<noteq> None \<and>
                  \<not> ij_validate_string_field cpu (ev_logger event) IJ_LOGGER_NAME_MAX_LEN False
          then IJ_STATUS_INVALID_ARGUMENT
          else if ev_source_file event \<noteq> None \<and>
                  \<not> ij_validate_string_field cpu (ev_source_file event) IJ_EVENT_TEXT_MAX_LEN False
          then IJ_STATUS_INVALID_ARGUMENT
          else if ev_source_function event \<noteq> None \<and>
                  \<not> ij_validate_string_field cpu (ev_source_function event) IJ_EVENT_TEXT_MAX_LEN False
          then IJ_STATUS_INVALID_ARGUMENT
          else if ev_attribute_count event > IJ_ATTRIBUTE_COUNT_MAX then IJ_STATUS_INVALID_ARGUMENT
          else if ev_attribute_count event > 0 \<and> ev_attributes event = None
          then IJ_STATUS_INVALID_ARGUMENT
          else if ev_has_trace_context event \<and> (ev_trace_id event = None \<or> ev_span_id event = None)
          then IJ_STATUS_INVALID_ARGUMENT
          else if \<not> validate_attrs_loop cpu (event_attributes event) then IJ_STATUS_INVALID_ARGUMENT
          else if ij_duplicate_attr_keys (event_attributes event) \<or>
                  ij_event_text_size event > IJ_EVENT_TEXT_MAX_LEN
          then IJ_STATUS_INVALID_ARGUMENT
          else IJ_STATUS_OK)"

section \<open>The one-pass scanners of the copying path\<close>

definition ij_max_size :: "size_t \<Rightarrow> size_t \<Rightarrow> size_t" where
  "ij_max_size left right = (if left > right then left else right)"

definition ij_ascii_needs_json_escape :: "byte \<Rightarrow> bool" where
  "ij_ascii_needs_json_escape c \<longleftrightarrow> c < 0x20 \<or> c = 0x22 \<or> c = 0x5c"

text \<open>\<open>None\<close> is the answer \<open>false\<close>; the pair holds the two output parameters.\<close>

function scan_string_loop ::
  "cpu \<Rightarrow> byte list \<Rightarrow> size_t \<Rightarrow> bool \<Rightarrow> size_t \<Rightarrow> bool \<Rightarrow> (size_t \<times> bool) option" where
  "scan_string_loop cpu value max_len allow_empty i needs_json_escape =
     (if i \<le> max_len then
        let c = c_at value i in
        if c = 0 then
          (if \<not> allow_empty \<and> i = 0 then None else Some (i, needs_json_escape))
        else if c AND 0x80 \<noteq> 0 then
          (let len = strnlen value (max_len + 1) in
           if (\<not> allow_empty \<and> len = 0) \<or> len > max_len then None
           else if \<not> ij_utf8_is_valid_dispatch cpu value len then None
           else Some (len, ij_json_escape_find_first_special cpu value len \<noteq> len))
        else scan_string_loop cpu value max_len allow_empty (i + 1)
               (needs_json_escape \<or> ij_ascii_needs_json_escape c)
      else None)"
  by pat_completeness auto
termination
  by (relation "measure (\<lambda>(cpu, value, max_len, allow_empty, i, n). Suc max_len - i)") auto

declare scan_string_loop.simps [simp del]

definition ij_scan_string_field_copy ::
  "cpu \<Rightarrow> cstring \<Rightarrow> size_t \<Rightarrow> bool \<Rightarrow> (size_t \<times> bool) option" where
  "ij_scan_string_field_copy cpu value max_len allow_empty =
     (case value of None \<Rightarrow> None | Some v \<Rightarrow> scan_string_loop cpu v max_len allow_empty 0 False)"

function attr_string_loop :: "cpu \<Rightarrow> byte list \<Rightarrow> size_t \<Rightarrow> size_t \<Rightarrow> bool \<Rightarrow> bool option" where
  "attr_string_loop cpu value len i needs_json_escape =
     (if i < len then
        let c = c_at value i in
        if c AND 0x80 \<noteq> 0 then
          (if \<not> ij_utf8_is_valid_dispatch cpu value len then None
           else Some (ij_json_escape_find_first_special cpu value len \<noteq> len))
        else attr_string_loop cpu value len (i + 1)
               (needs_json_escape \<or> ij_ascii_needs_json_escape c)
      else Some needs_json_escape)"
  by pat_completeness auto
termination
  by (relation "measure (\<lambda>(cpu, value, len, i, n). len - i)") auto

declare attr_string_loop.simps [simp del]

definition ij_validate_attr_string_copy :: "cpu \<Rightarrow> cstring \<Rightarrow> size_t \<Rightarrow> bool option" where
  "ij_validate_attr_string_copy cpu value len =
     (case value of
        None \<Rightarrow> None
      | Some v \<Rightarrow>
          if len > IJ_ATTRIBUTE_STRING_MAX_LEN then None else attr_string_loop cpu v len 0 False)"

definition ij_attr_keys_equal :: "byte list \<Rightarrow> size_t \<Rightarrow> byte list \<Rightarrow> size_t \<Rightarrow> bool" where
  "ij_attr_keys_equal left left_len right right_len \<longleftrightarrow>
     left_len = right_len \<and> memcmp_eq left right left_len"

section \<open>Reference\<close>

definition valid_text :: "size_t \<Rightarrow> bool \<Rightarrow> cstring \<Rightarrow> bool" where
  "valid_text max_len allow_empty value =
     (case value of
        None \<Rightarrow> False
      | Some v \<Rightarrow> (allow_empty \<or> c_text v \<noteq> []) \<and> length (c_text v) \<le> max_len \<and> is_utf8 (c_text v))"

definition valid_optional_text :: "size_t \<Rightarrow> cstring \<Rightarrow> bool" where
  "valid_optional_text max_len value \<longleftrightarrow> value = None \<or> valid_text max_len False value"

definition valid_value :: "ij_attr_value_t \<Rightarrow> bool" where
  "valid_value value =
     (case value of
        IJ_ATTR_VALUE_STRING (Some d) len \<Rightarrow> len \<le> IJ_ATTRIBUTE_STRING_MAX_LEN \<and> is_utf8 (c_mem d len)
      | IJ_ATTR_VALUE_STRING None _ \<Rightarrow> False
      | IJ_ATTR_VALUE_DOUBLE d \<Rightarrow> isfinite d
      | IJ_ATTR_VALUE_OTHER _ \<Rightarrow> False
      | _ \<Rightarrow> True)"

definition value_text_size :: "ij_attr_value_t \<Rightarrow> size_t" where
  "value_text_size value = (case value of IJ_ATTR_VALUE_STRING _ len \<Rightarrow> len | _ \<Rightarrow> 0)"

definition attr_text_size :: "ij_attr_t \<Rightarrow> size_t" where
  "attr_text_size a = strlen (key_mem a) + value_text_size (attr_value a)"

definition fields_text_size :: "ij_event_t \<Rightarrow> size_t" where
  "fields_text_size event =
     opt_strlen (ev_event_name event) + opt_strlen (ev_message event) + opt_strlen (ev_logger event) +
     opt_strlen (ev_source_file event) + opt_strlen (ev_source_function event)"

definition attr_name :: "ij_attr_t \<Rightarrow> byte list" where
  "attr_name a = c_text (key_mem a)"

text \<open>What the headers promise of an accepted event.\<close>

definition valid_event_frame :: "ij_event_t \<Rightarrow> bool" where
  "valid_event_frame event \<longleftrightarrow>
     ij_level_is_valid (ev_level event) \<and> nanoseconds (ev_timestamp event) < 1000000000 \<and>
     ev_attribute_count event \<le> IJ_ATTRIBUTE_COUNT_MAX \<and>
     (ev_attribute_count event > 0 \<longrightarrow> ev_attributes event \<noteq> None) \<and>
     (ev_has_trace_context event \<longrightarrow> ev_trace_id event \<noteq> None \<and> ev_span_id event \<noteq> None)"

definition valid_event_fields :: "ij_event_t \<Rightarrow> bool" where
  "valid_event_fields event \<longleftrightarrow>
     valid_text IJ_EVENT_NAME_MAX_LEN False (ev_event_name event) \<and>
     valid_text IJ_MESSAGE_MAX_LEN True (ev_message event) \<and>
     valid_optional_text IJ_LOGGER_NAME_MAX_LEN (ev_logger event) \<and>
     valid_optional_text IJ_EVENT_TEXT_MAX_LEN (ev_source_file event) \<and>
     valid_optional_text IJ_EVENT_TEXT_MAX_LEN (ev_source_function event)"

definition valid_attr :: "ij_attr_t \<Rightarrow> bool" where
  "valid_attr a \<longleftrightarrow>
     valid_text IJ_ATTRIBUTE_KEY_MAX_LEN False (attr_key a) \<and> valid_value (attr_value a)"

definition valid_event :: "ij_event_t \<Rightarrow> bool" where
  "valid_event event \<longleftrightarrow>
     valid_event_frame event \<and> valid_event_fields event \<and>
     (\<forall>a\<in>set (event_attributes event). valid_attr a) \<and>
     distinct (map attr_name (event_attributes event)) \<and>
     fields_text_size event + sum_list (map attr_text_size (event_attributes event))
       \<le> IJ_EVENT_TEXT_MAX_LEN"

section \<open>The validators decide the reference\<close>

lemma strnlen_Suc:
  "strnlen v (n + 1) > n \<longleftrightarrow> strlen v > n"
  "strlen v \<le> n \<Longrightarrow> strnlen v (n + 1) = strlen v"
  by (auto simp: strnlen_def)

lemma validate_string_field_iff:
  "ij_validate_string_field cpu value max_len allow_empty \<longleftrightarrow> valid_text max_len allow_empty value"
proof (cases "value")
  case (Some v)
  show ?thesis
  proof (cases "strlen v \<le> max_len")
    case True
    then show ?thesis
      using Some strnlen_Suc(2) [of v max_len]
      by (auto simp: ij_validate_string_field_def valid_text_def utf8_dispatch.validate_is_utf8
          Let_def strlen_def [symmetric] simp flip: length_0_conv)
  next
    case False
    then show ?thesis
      using Some strnlen_Suc(1) [of max_len v]
      by (auto simp: ij_validate_string_field_def valid_text_def Let_def strlen_def)
  qed
qed (simp add: ij_validate_string_field_def valid_text_def)

lemma validate_attr_value_iff: "ij_validate_attr_value cpu (Some value) \<longleftrightarrow> valid_value value"
  by (auto simp: ij_validate_attr_value_def valid_value_def utf8_dispatch.validate_is_utf8
      split: ij_attr_value_t.split option.split)

lemma duplicate_key_inner_iff:
  "duplicate_key_inner a as \<longleftrightarrow> attr_name a \<in> set (map attr_name as)"
  by (induction as) (auto simp: strcmp_eq_def attr_name_def)

lemma duplicate_attr_keys_iff: "ij_duplicate_attr_keys as \<longleftrightarrow> \<not> distinct (map attr_name as)"
  by (induction as) (auto simp: duplicate_key_inner_iff)

lemma attrs_text_size_eq: "attrs_text_size as total_size = total_size + sum_list (map attr_text_size as)"
  by (induction as arbitrary: total_size)
    (auto simp: attr_text_size_def value_text_size_def split: ij_attr_value_t.split)

lemma event_text_size_eq:
  "ij_event_text_size event =
     fields_text_size event + sum_list (map attr_text_size (event_attributes event))"
  by (auto simp: ij_event_text_size_def fields_text_size_def attrs_text_size_eq opt_strlen_def
      Let_def split: option.split)

lemma validate_attrs_loop_iff: "validate_attrs_loop cpu as \<longleftrightarrow> (\<forall>a\<in>set as. valid_attr a)"
  by (induction as) (auto simp: validate_string_field_iff validate_attr_value_iff valid_attr_def)

lemma validate_event_null: "ij_validate_event cpu None = IJ_STATUS_INVALID_ARGUMENT"
  by (simp add: ij_validate_event_def)

lemma validate_event_iff:
  "ij_validate_event cpu (Some event) =
     (if valid_event event then IJ_STATUS_OK else IJ_STATUS_INVALID_ARGUMENT)"
  by (auto simp: ij_validate_event_def valid_event_def valid_event_frame_def valid_event_fields_def
      validate_string_field_iff validate_attrs_loop_iff duplicate_attr_keys_iff event_text_size_eq
      valid_optional_text_def not_le not_less)

section \<open>The scanners agree with the validators\<close>

lemma ascii_needs_json_escape_iff: "ij_ascii_needs_json_escape c \<longleftrightarrow> json_special c"
  by (simp add: ij_ascii_needs_json_escape_def json_special_def)

definition has_special :: "byte list \<Rightarrow> bool" where
  "has_special bs \<longleftrightarrow> (\<exists>b\<in>set bs. json_special b)"

lemma find_first_special_has:
  "ij_json_escape_find_first_special cpu v n \<noteq> n \<longleftrightarrow> has_special (c_mem v n)"
  using escape_dispatch.find_first_none_iff [of cpu v n] by (auto simp: has_special_def set_c_mem)

definition ascii_upto :: "byte list \<Rightarrow> nat \<Rightarrow> bool" where
  "ascii_upto v i \<longleftrightarrow> (\<forall>b\<in>set (c_mem v i). unat b < 0x80)"

lemma c_mem_Suc: "c_mem m (Suc n) = c_mem m n @ [c_at m n]"
  by (simp add: c_mem_eq_map)

lemma ascii_is_utf8: "ascii_upto v n \<Longrightarrow> is_utf8 (c_mem v n)"
  using utf8_ok_ascii_append [of "c_mem v n" "[]"] by (simp add: ascii_upto_def utf8_ok_iff [symmetric])

text \<open>What the scanner has to answer on a field.\<close>

definition scan_result :: "byte list \<Rightarrow> size_t \<Rightarrow> bool \<Rightarrow> (size_t \<times> bool) option" where
  "scan_result v max_len allow_empty =
     (if valid_text max_len allow_empty (Some v) then Some (strlen v, has_special (c_text v)) else None)"

lemma scan_string_loop_spec:
  "i \<le> strlen v \<Longrightarrow> ascii_upto v i \<Longrightarrow> esc = has_special (c_mem v i) \<Longrightarrow>
   scan_string_loop cpu v max_len allow_empty i esc = scan_result v max_len allow_empty"
proof (induction cpu v max_len allow_empty i esc rule: scan_string_loop.induct)
  case (1 cpu v max_len allow_empty i esc)
  note unfold = scan_string_loop.simps [of cpu v max_len allow_empty i esc]
  consider "i > max_len" | "i \<le> max_len" "i = strlen v"
    | "i \<le> max_len" "i < strlen v" "c_at v i AND 0x80 \<noteq> 0"
    | "i \<le> max_len" "i < strlen v" "c_at v i AND 0x80 = 0"
    using "1.prems"(1) by linarith
  then show ?case
  proof cases
    case 1
    with "1.prems" show ?thesis
      unfolding unfold by (simp add: scan_result_def valid_text_def strlen_def)
  next
    case 2
    with "1.prems" ascii_is_utf8 [of v "strlen v"] show ?thesis
      unfolding unfold
      by (auto simp: scan_result_def valid_text_def strlen_def [symmetric] simp flip: length_0_conv)
  next
    case 3
    then show ?thesis
      using c_at_below_strlen [of i v] strnlen_Suc(1) [of max_len v] strnlen_Suc(2) [of v max_len]
      unfolding unfold
      by (auto simp: scan_result_def valid_text_def utf8_dispatch.validate_is_utf8 Let_def
          find_first_special_has strlen_def [symmetric] not_less simp flip: length_0_conv)
  next
    case 4
    have "ascii_upto v (Suc i)" using "1.prems"(2) 4(3) by (auto simp: ascii_upto_def c_mem_Suc and_0x80_byte)
    moreover have "(esc \<or> ij_ascii_needs_json_escape (c_at v i)) = has_special (c_mem v (Suc i))"
      using "1.prems"(3) by (auto simp: has_special_def c_mem_Suc ascii_needs_json_escape_iff)
    ultimately show ?thesis
      using 4 "1.IH" c_at_below_strlen [of i v] unfolding unfold by simp
  qed
qed

lemma scan_string_field_iff:
  "ij_scan_string_field_copy cpu value max_len allow_empty =
     (case value of None \<Rightarrow> None | Some v \<Rightarrow> scan_result v max_len allow_empty)"
  by (auto simp: ij_scan_string_field_copy_def scan_string_loop_spec ascii_upto_def has_special_def
      split: option.split)

lemma attr_string_loop_spec:
  "i \<le> len \<Longrightarrow> ascii_upto v i \<Longrightarrow> esc = has_special (c_mem v i) \<Longrightarrow>
   attr_string_loop cpu v len i esc =
     (if is_utf8 (c_mem v len) then Some (has_special (c_mem v len)) else None)"
proof (induction cpu v len i esc rule: attr_string_loop.induct)
  case (1 cpu v len i esc)
  note unfold = attr_string_loop.simps [of cpu v len i esc]
  consider "i = len" | "i < len" "c_at v i AND 0x80 \<noteq> 0" | "i < len" "c_at v i AND 0x80 = 0"
    using "1.prems"(1) by linarith
  then show ?case
  proof cases
    case 1
    with "1.prems" ascii_is_utf8 [of v len] show ?thesis unfolding unfold by simp
  next
    case 2
    then show ?thesis
      unfolding unfold
      by (simp add: utf8_dispatch.validate_is_utf8 find_first_special_has Let_def)
  next
    case 3
    have "ascii_upto v (Suc i)" using "1.prems"(2) 3(2) by (auto simp: ascii_upto_def c_mem_Suc and_0x80_byte)
    moreover have "(esc \<or> ij_ascii_needs_json_escape (c_at v i)) = has_special (c_mem v (Suc i))"
      using "1.prems"(3) by (auto simp: has_special_def c_mem_Suc ascii_needs_json_escape_iff)
    ultimately show ?thesis
      using 3 "1.IH" unfolding unfold by simp
  qed
qed

lemma validate_attr_string_iff:
  "ij_validate_attr_string_copy cpu data len =
     (case data of
        None \<Rightarrow> None
      | Some d \<Rightarrow>
          if valid_value (IJ_ATTR_VALUE_STRING data len) then Some (has_special (c_mem d len)) else None)"
  by (auto simp: ij_validate_attr_string_copy_def attr_string_loop_spec ascii_upto_def has_special_def
      valid_value_def split: option.split)

lemma attr_keys_equal_iff:
  "ij_attr_keys_equal (key_mem a) (strlen (key_mem a)) (key_mem b) (strlen (key_mem b)) \<longleftrightarrow>
   attr_name a = attr_name b"
  by (auto simp: ij_attr_keys_equal_def memcmp_eq_def attr_name_def strlen_def)
    (metis c_mem_strlen strlen_def)+

section \<open>Properties\<close>

text \<open>
  C23. \<open>ij_validate_event\<close> accepts exactly the events that satisfy the documented limits:
  valid level and nanoseconds, UTF-8 texts within their lengths, at most 32 attributes with
  distinct keys and valid values, at most 4096 bytes of text.
\<close>

theorem validate_event_correct:
  "ij_validate_event cpu (Some event) =
     (if valid_event event then IJ_STATUS_OK else IJ_STATUS_INVALID_ARGUMENT)"
  by (rule validate_event_iff)

text \<open>
  The one-pass scanner of the copying path accepts exactly what the validator accepts, and
  reports the length of the text and whether it has a byte to be escaped.
\<close>

theorem scan_agrees_with_validate:
  "ij_scan_string_field_copy cpu (Some v) max_len allow_empty =
     (if ij_validate_string_field cpu (Some v) max_len allow_empty
      then Some (strlen v, has_special (c_text v)) else None)"
  by (simp add: scan_string_field_iff scan_result_def validate_string_field_iff)

end
