(* ===== verification/Redact.thy ===== *)
theory Redact
  imports Simd Ij_Types
begin

text \<open>
  Redaction of sensitive attributes: \<open>src/filters/ij_redact.c\<close> and the key matchers of
  \<open>ij_redact_match_scalar.c\<close>, \<open>ij_redact_match_x86_avx2.c\<close> and
  \<open>ij_redact_match_arm_neon.c\<close>. The length and first-letter dispatch of
  \<open>ij_redact_match_known_key\<close> is proved to decide membership of the lower-cased key in the
  denylist, and the whole decision to be: the key, or a proper suffix of a key with a dot, is in
  the denylist.
\<close>

section \<open>The scalar matchers\<close>

text \<open>\<open>tolower\<close> of the C locale.\<close>

definition tolower :: "byte \<Rightarrow> byte" where
  "tolower c = (if 0x41 \<le> c \<and> c \<le> 0x5a then c + 0x20 else c)"

function redact_case_equal_loop :: "byte list \<Rightarrow> byte list \<Rightarrow> size_t \<Rightarrow> size_t \<Rightarrow> bool" where
  "redact_case_equal_loop lhs rhs lhs_len i =
     (if i < lhs_len then
        (if tolower (c_at lhs i) \<noteq> tolower (c_at rhs i) then False
         else redact_case_equal_loop lhs rhs lhs_len (i + 1))
      else True)"
  by pat_completeness auto
termination
  by (relation "measure (\<lambda>(lhs, rhs, lhs_len, i). lhs_len - i)") auto

declare redact_case_equal_loop.simps [simp del]

definition ij_redact_case_equal_scalar ::
  "byte list \<Rightarrow> size_t \<Rightarrow> byte list \<Rightarrow> size_t \<Rightarrow> bool" where
  "ij_redact_case_equal_scalar lhs lhs_len rhs rhs_len =
     (if lhs_len \<noteq> rhs_len then False else redact_case_equal_loop lhs rhs lhs_len 0)"

function redact_has_dot_loop :: "byte list \<Rightarrow> size_t \<Rightarrow> size_t \<Rightarrow> bool" where
  "redact_has_dot_loop t len i =
     (if i < len then (if c_at t i = 0x2e then True else redact_has_dot_loop t len (i + 1))
      else False)"
  by pat_completeness auto
termination
  by (relation "measure (\<lambda>(t, len, i). len - i)") auto

declare redact_has_dot_loop.simps [simp del]

definition ij_redact_has_dot_scalar :: "byte list \<Rightarrow> size_t \<Rightarrow> bool" where
  "ij_redact_has_dot_scalar t len = redact_has_dot_loop t len 0"

definition ij_redact_case_equal :: "byte list \<Rightarrow> size_t \<Rightarrow> byte list \<Rightarrow> size_t \<Rightarrow> bool" where
  "ij_redact_case_equal lhs lhs_len rhs rhs_len = ij_redact_case_equal_scalar lhs lhs_len rhs rhs_len"

definition ij_redact_has_dot :: "byte list \<Rightarrow> size_t \<Rightarrow> bool" where
  "ij_redact_has_dot t len = ij_redact_has_dot_scalar t len"

section \<open>The vector matchers\<close>

definition ij_redact_lower_x86_avx2 :: "m256i \<Rightarrow> m256i" where
  "ij_redact_lower_x86_avx2 value =
     (let upper_a = mm256_set1_epi8 0x40; upper_z = mm256_set1_epi8 0x5b;
          case_bit = mm256_set1_epi8 0x20;
          ge_a = mm256_cmpgt_epi8 value upper_a; lt_z = mm256_cmpgt_epi8 upper_z value;
          upper = mm256_and_si256 ge_a lt_z
      in mm256_or_si256 value (mm256_and_si256 upper case_bit))"

function redact_case_equal_avx2_loop :: "byte list \<Rightarrow> byte list \<Rightarrow> size_t \<Rightarrow> size_t \<Rightarrow> bool" where
  "redact_case_equal_avx2_loop lhs rhs lhs_len i =
     (if i + 32 \<le> lhs_len then
        let lhs_chunk = mm256_loadu_si256 lhs i; rhs_chunk = mm256_loadu_si256 rhs i;
            mask = mm256_movemask_epi8
              (mm256_cmpeq_epi8 (ij_redact_lower_x86_avx2 lhs_chunk)
                (ij_redact_lower_x86_avx2 rhs_chunk)) in
        if mask \<noteq> 0xffffffff then False
        else redact_case_equal_avx2_loop lhs rhs lhs_len (i + 32)
      else ij_redact_case_equal_scalar (c_ptr_add lhs i) (lhs_len - i)
             (c_ptr_add rhs i) (lhs_len - i))"
  by pat_completeness auto
termination
  by (relation "measure (\<lambda>(lhs, rhs, lhs_len, i). lhs_len - i)") auto

declare redact_case_equal_avx2_loop.simps [simp del]

definition ij_redact_case_equal_x86_avx2_impl ::
  "byte list \<Rightarrow> size_t \<Rightarrow> byte list \<Rightarrow> size_t \<Rightarrow> bool" where
  "ij_redact_case_equal_x86_avx2_impl lhs lhs_len rhs rhs_len =
     (if lhs_len \<noteq> rhs_len then False else redact_case_equal_avx2_loop lhs rhs lhs_len 0)"

function redact_has_dot_avx2_loop :: "byte list \<Rightarrow> size_t \<Rightarrow> size_t \<Rightarrow> bool" where
  "redact_has_dot_avx2_loop t len i =
     (if i + 32 \<le> len then
        let dot = mm256_set1_epi8 0x2e; chunk = mm256_loadu_si256 t i in
        if mm256_movemask_epi8 (mm256_cmpeq_epi8 chunk dot) \<noteq> 0 then True
        else redact_has_dot_avx2_loop t len (i + 32)
      else ij_redact_has_dot_scalar (c_ptr_add t i) (len - i))"
  by pat_completeness auto
termination
  by (relation "measure (\<lambda>(t, len, i). len - i)") auto

declare redact_has_dot_avx2_loop.simps [simp del]

definition ij_redact_has_dot_x86_avx2_impl :: "byte list \<Rightarrow> size_t \<Rightarrow> bool" where
  "ij_redact_has_dot_x86_avx2_impl t len = redact_has_dot_avx2_loop t len 0"

definition ij_redact_case_equal_x86_avx2 ::
  "cpu \<Rightarrow> byte list \<Rightarrow> size_t \<Rightarrow> byte list \<Rightarrow> size_t \<Rightarrow> bool" where
  "ij_redact_case_equal_x86_avx2 cpu lhs lhs_len rhs rhs_len =
     (if cpu_arch cpu = X86 \<and> fst (ij_simd_runtime_has_x86_avx2 cpu)
      then ij_redact_case_equal_x86_avx2_impl lhs lhs_len rhs rhs_len
      else ij_redact_case_equal_scalar lhs lhs_len rhs rhs_len)"

definition ij_redact_has_dot_x86_avx2 :: "cpu \<Rightarrow> byte list \<Rightarrow> size_t \<Rightarrow> bool" where
  "ij_redact_has_dot_x86_avx2 cpu t len =
     (if cpu_arch cpu = X86 \<and> fst (ij_simd_runtime_has_x86_avx2 cpu)
      then ij_redact_has_dot_x86_avx2_impl t len
      else ij_redact_has_dot_scalar t len)"

definition ij_redact_lower_arm_neon :: "uint8x16 \<Rightarrow> uint8x16" where
  "ij_redact_lower_arm_neon value =
     (let upper_a = vdupq_n_u8 0x41; upper_z = vdupq_n_u8 0x5a; case_bit = vdupq_n_u8 0x20;
          ge_a = vcgeq_u8 value upper_a; le_z = vcleq_u8 value upper_z;
          upper = vandq_u8 ge_a le_z
      in vorrq_u8 value (vandq_u8 upper case_bit))"

function redact_case_equal_neon_loop :: "byte list \<Rightarrow> byte list \<Rightarrow> size_t \<Rightarrow> size_t \<Rightarrow> bool" where
  "redact_case_equal_neon_loop lhs rhs lhs_len i =
     (if i + 16 \<le> lhs_len then
        let lhs_chunk = vld1q_u8 lhs i; rhs_chunk = vld1q_u8 rhs i;
            eq = vceqq_u8 (ij_redact_lower_arm_neon lhs_chunk) (ij_redact_lower_arm_neon rhs_chunk) in
        if vgetq_lane_u64 eq 0 \<noteq> 0xffffffffffffffff \<or> vgetq_lane_u64 eq 1 \<noteq> 0xffffffffffffffff
        then False
        else redact_case_equal_neon_loop lhs rhs lhs_len (i + 16)
      else ij_redact_case_equal_scalar (c_ptr_add lhs i) (lhs_len - i)
             (c_ptr_add rhs i) (lhs_len - i))"
  by pat_completeness auto
termination
  by (relation "measure (\<lambda>(lhs, rhs, lhs_len, i). lhs_len - i)") auto

declare redact_case_equal_neon_loop.simps [simp del]

definition ij_redact_case_equal_arm_neon_impl ::
  "byte list \<Rightarrow> size_t \<Rightarrow> byte list \<Rightarrow> size_t \<Rightarrow> bool" where
  "ij_redact_case_equal_arm_neon_impl lhs lhs_len rhs rhs_len =
     (if lhs_len \<noteq> rhs_len then False else redact_case_equal_neon_loop lhs rhs lhs_len 0)"

function redact_has_dot_neon_loop :: "byte list \<Rightarrow> size_t \<Rightarrow> size_t \<Rightarrow> bool" where
  "redact_has_dot_neon_loop t len i =
     (if i + 16 \<le> len then
        let dot = vdupq_n_u8 0x2e; chunk = vld1q_u8 t i; eq = vceqq_u8 chunk dot in
        if vgetq_lane_u64 eq 0 \<noteq> 0 \<or> vgetq_lane_u64 eq 1 \<noteq> 0 then True
        else redact_has_dot_neon_loop t len (i + 16)
      else ij_redact_has_dot_scalar (c_ptr_add t i) (len - i))"
  by pat_completeness auto
termination
  by (relation "measure (\<lambda>(t, len, i). len - i)") auto

declare redact_has_dot_neon_loop.simps [simp del]

definition ij_redact_has_dot_arm_neon_impl :: "byte list \<Rightarrow> size_t \<Rightarrow> bool" where
  "ij_redact_has_dot_arm_neon_impl t len = redact_has_dot_neon_loop t len 0"

definition ij_redact_case_equal_arm_neon ::
  "cpu \<Rightarrow> byte list \<Rightarrow> size_t \<Rightarrow> byte list \<Rightarrow> size_t \<Rightarrow> bool" where
  "ij_redact_case_equal_arm_neon cpu lhs lhs_len rhs rhs_len =
     (if cpu_arch cpu = AARCH64 \<and> ij_simd_runtime_has_arm_neon cpu
      then ij_redact_case_equal_arm_neon_impl lhs lhs_len rhs rhs_len
      else ij_redact_case_equal_scalar lhs lhs_len rhs rhs_len)"

definition ij_redact_has_dot_arm_neon :: "cpu \<Rightarrow> byte list \<Rightarrow> size_t \<Rightarrow> bool" where
  "ij_redact_has_dot_arm_neon cpu t len =
     (if cpu_arch cpu = AARCH64 \<and> ij_simd_runtime_has_arm_neon cpu
      then ij_redact_has_dot_arm_neon_impl t len
      else ij_redact_has_dot_scalar t len)"

section \<open>The decision\<close>

definition redact_eq :: "byte list \<Rightarrow> size_t \<Rightarrow> string \<Rightarrow> size_t \<Rightarrow> bool" where
  "redact_eq key key_len lit lit_len = ij_redact_case_equal_scalar key key_len (bytes lit) lit_len"

definition ij_redact_match_known_key :: "byte list \<Rightarrow> size_t \<Rightarrow> bool" where
  "ij_redact_match_known_key key key_len =
     (let first = c_at key 0 OR 0x20 in
      if key_len = 5 then redact_eq key key_len ''token'' 5
      else if key_len = 6 then
        (if first = 0x61 then redact_eq key key_len ''apikey'' 6
         else if first = 0x63 then redact_eq key key_len ''cookie'' 6
         else if first = 0x70 then redact_eq key key_len ''passwd'' 6
         else if first = 0x73 then redact_eq key key_len ''secret'' 6
         else False)
      else if key_len = 7 then
        (if first = 0x61 then redact_eq key key_len ''api_key'' 7
         else if first = 0x73 then redact_eq key key_len ''session'' 7
         else False)
      else if key_len = 8 then
        (if first = 0x69 then redact_eq key key_len ''id_token'' 8
         else if first = 0x70 then redact_eq key key_len ''password'' 8
         else False)
      else if key_len = 10 then
        (if first = 0x70 then redact_eq key key_len ''passphrase'' 10
         else if first = 0x73 then
           redact_eq key key_len ''session_id'' 10 \<or> redact_eq key key_len ''set_cookie'' 10 \<or>
           redact_eq key key_len ''secret_key'' 10
         else False)
      else if key_len = 11 then
        (if first = 0x70 then redact_eq key key_len ''private_key'' 11
         else if first = 0x73 then redact_eq key key_len ''signing_key'' 11
         else False)
      else if key_len = 12 then redact_eq key key_len ''access_token'' 12
      else if key_len = 13 then
        (if first = 0x61 then redact_eq key key_len ''authorization'' 13
         else if first = 0x63 then redact_eq key key_len ''client_secret'' 13
         else if first = 0x72 then redact_eq key key_len ''refresh_token'' 13
         else False)
      else False)"

definition ij_redact_match_suffix :: "byte list \<Rightarrow> size_t \<Rightarrow> bool" where
  "ij_redact_match_suffix key key_len \<longleftrightarrow>
     (key_len > 13 \<and> ij_redact_match_known_key (c_ptr_add key (key_len - 13)) 13) \<or>
     (key_len > 12 \<and> ij_redact_match_known_key (c_ptr_add key (key_len - 12)) 12) \<or>
     (key_len > 11 \<and> ij_redact_match_known_key (c_ptr_add key (key_len - 11)) 11) \<or>
     (key_len > 10 \<and> ij_redact_match_known_key (c_ptr_add key (key_len - 10)) 10) \<or>
     (key_len > 8 \<and> ij_redact_match_known_key (c_ptr_add key (key_len - 8)) 8) \<or>
     (key_len > 7 \<and> ij_redact_match_known_key (c_ptr_add key (key_len - 7)) 7) \<or>
     (key_len > 6 \<and> ij_redact_match_known_key (c_ptr_add key (key_len - 6)) 6) \<or>
     (key_len > 5 \<and> ij_redact_match_known_key (c_ptr_add key (key_len - 5)) 5)"

definition ij_key_should_redact_n :: "cstring \<Rightarrow> size_t \<Rightarrow> bool" where
  "ij_key_should_redact_n key key_len =
     (case key of
        None \<Rightarrow> False
      | Some k \<Rightarrow>
          ij_redact_match_known_key k key_len \<or>
          (ij_redact_has_dot_scalar k key_len \<and> ij_redact_match_suffix k key_len))"

definition ij_key_should_redact :: "cstring \<Rightarrow> bool" where
  "ij_key_should_redact key =
     (case key of None \<Rightarrow> False | Some k \<Rightarrow> ij_key_should_redact_n key (strlen k))"

text \<open>
  The in-place replacement of an owned value in the memory \<open>mem\<close> its string lives in:
  the new memory (\<open>None\<close> for a write outside it) and the new value.
\<close>

definition ij_redact_owned_attr_value_n ::
  "cstring \<Rightarrow> size_t \<Rightarrow> ij_owned_attr_value_t option \<Rightarrow> size_t \<Rightarrow> byte list \<Rightarrow>
     (byte list \<times> ij_owned_attr_value_t option) option" where
  "ij_redact_owned_attr_value_n key key_len value value_capacity mem =
     (case value of
        Some (OWNED_STRING s) \<Rightarrow>
          (case str_data s of
             None \<Rightarrow> Some (mem, value)
           | Some off \<Rightarrow>
               if value_capacity < length IJ_REDACTED_LITERAL then Some (mem, value)
               else if \<not> ij_key_should_redact_n key key_len then Some (mem, value)
               else
                 (case mem_write mem off (IJ_REDACTED_LITERAL @ [0]) of
                    None \<Rightarrow> None
                  | Some mem' \<Rightarrow>
                      Some (mem', Some (OWNED_STRING (s\<lparr>str_len := length IJ_REDACTED_LITERAL\<rparr>)))))
      | _ \<Rightarrow> Some (mem, value))"

definition ij_redact_owned_attr_value ::
  "cstring \<Rightarrow> ij_owned_attr_value_t option \<Rightarrow> size_t \<Rightarrow> byte list \<Rightarrow>
     (byte list \<times> ij_owned_attr_value_t option) option" where
  "ij_redact_owned_attr_value key value value_capacity mem =
     (case key of
        None \<Rightarrow> Some (mem, value)
      | Some k \<Rightarrow> ij_redact_owned_attr_value_n key (strlen k) value value_capacity mem)"

section \<open>Reference\<close>

definition denylist :: "byte list set" where
  "denylist = bytes `
     {''password'', ''passwd'', ''passphrase'', ''secret'', ''client_secret'', ''token'',
      ''access_token'', ''refresh_token'', ''id_token'', ''api_key'', ''apikey'',
      ''authorization'', ''session_id'', ''session'', ''cookie'', ''set_cookie'',
      ''private_key'', ''secret_key'', ''signing_key''}"

definition lower :: "byte list \<Rightarrow> byte list" where
  "lower bs = map tolower bs"

text \<open>The key is sensitive: it, or a proper suffix of a dotted key, is in the denylist.\<close>

definition sensitive :: "byte list \<Rightarrow> bool" where
  "sensitive key \<longleftrightarrow>
     lower key \<in> denylist \<or>
     (0x2e \<in> set key \<and> (\<exists>p s. key = p @ s \<and> p \<noteq> [] \<and> lower s \<in> denylist))"

section \<open>The scalar matchers decide equality of lower-cased keys\<close>

definition lower_eq_from :: "byte list \<times> byte list \<Rightarrow> size_t \<Rightarrow> size_t \<Rightarrow> bool" where
  "lower_eq_from m len i \<longleftrightarrow>
     lower (drop i (c_mem (fst m) len)) = lower (drop i (c_mem (snd m) len))"

lemma lower_simps [simp]: "lower [] = []" "lower (b # bs) = tolower b # lower bs"
  "lower (xs @ ys) = lower xs @ lower ys" "length (lower bs) = length bs"
  by (simp_all add: lower_def)

lemma redact_case_equal_loop_spec:
  "i \<le> len \<Longrightarrow> redact_case_equal_loop lhs rhs len i \<longleftrightarrow> lower_eq_from (lhs, rhs) len i"
proof (induction lhs rhs len i rule: redact_case_equal_loop.induct)
  case (1 lhs rhs len i)
  show ?case
  proof (cases "i < len")
    case True
    then show ?thesis
      using 1 redact_case_equal_loop.simps [of lhs rhs len i]
      by (simp add: lower_eq_from_def drop_c_mem_Cons [OF True])
  next
    case False
    then show ?thesis
      using redact_case_equal_loop.simps [of lhs rhs len i] by (simp add: lower_eq_from_def)
  qed
qed

lemma case_equal_scalar_iff:
  "ij_redact_case_equal_scalar lhs m rhs n \<longleftrightarrow> lower (c_mem lhs m) = lower (c_mem rhs n)"
proof (cases "m = n")
  case True
  then show ?thesis
    by (simp add: ij_redact_case_equal_scalar_def redact_case_equal_loop_spec lower_eq_from_def)
next
  case False
  then have "lower (c_mem lhs m) \<noteq> lower (c_mem rhs n)"
    by (metis length_c_mem lower_simps(4))
  with False show ?thesis by (simp add: ij_redact_case_equal_scalar_def)
qed

definition dot_from :: "byte list \<Rightarrow> size_t \<Rightarrow> size_t \<Rightarrow> bool" where
  "dot_from t len i \<longleftrightarrow> 0x2e \<in> set (drop i (c_mem t len))"

lemma redact_has_dot_loop_spec: "redact_has_dot_loop t len i \<longleftrightarrow> dot_from t len i"
proof (induction t len i rule: redact_has_dot_loop.induct)
  case (1 t len i)
  then show ?case
    using redact_has_dot_loop.simps [of t len i] drop_c_mem_Cons [of i len t]
    by (cases "i < len") (auto simp: dot_from_def)
qed

lemma has_dot_scalar_iff: "ij_redact_has_dot_scalar t len \<longleftrightarrow> 0x2e \<in> set (c_mem t len)"
  by (simp add: ij_redact_has_dot_scalar_def redact_has_dot_loop_spec dot_from_def)

section \<open>The vector matchers agree with the scalar ones\<close>

lemma drop_c_mem_split:
  "i + w \<le> len \<Longrightarrow>
   drop i (c_mem m len) = map (c_at m) [i..<i + w] @ drop (i + w) (c_mem m len)"
  by (metis append_take_drop_id drop_drop add.commute take_drop_c_mem)

lemma lower_eq_from_split:
  assumes "i + w \<le> len"
  shows "lower_eq_from m len i \<longleftrightarrow>
    (\<forall>k\<in>{i..<i + w}. tolower (c_at (fst m) k) = tolower (c_at (snd m) k)) \<and>
    lower_eq_from m len (i + w)"
proof -
  have "lower_eq_from m len i \<longleftrightarrow>
      map tolower (map (c_at (fst m)) [i..<i + w]) = map tolower (map (c_at (snd m)) [i..<i + w]) \<and>
      lower_eq_from m len (i + w)"
    by (simp add: lower_eq_from_def drop_c_mem_split [OF assms] lower_def del: map_map)
  then show ?thesis by simp
qed

lemma lower_eq_from_tail:
  "i \<le> len \<Longrightarrow>
   ij_redact_case_equal_scalar (c_ptr_add (fst m) i) (len - i) (c_ptr_add (snd m) i) (len - i) \<longleftrightarrow>
   lower_eq_from m len i"
  by (simp add: case_equal_scalar_iff c_mem_ptr_add_drop lower_eq_from_def)

lemma avx2_lower_lane:
  "(b OR (((if sint (0x40 :: byte) < sint b then 0xff else 0) AND
     (if sint b < sint (0x5b :: byte) then 0xff else 0)) AND 0x20)) = tolower b"
proof -
  have "\<forall>b. (b OR (((if sint (0x40 :: byte) < sint b then 0xff else 0) AND
     (if sint b < sint (0x5b :: byte) then 0xff else 0)) AND 0x20)) = tolower b"
    unfolding all_byte_iff tolower_def by code_simp
  then show ?thesis by blast
qed

lemma neon_lower_lane:
  "(b OR (((if b \<ge> 0x41 then 0xff else 0) AND (if b \<le> 0x5a then 0xff else 0)) AND 0x20)) = tolower b"
proof -
  have "\<forall>b. (b OR (((if b \<ge> 0x41 then 0xff else 0) AND (if b \<le> 0x5a then 0xff else 0)) AND 0x20)) =
      tolower b"
    unfolding all_byte_iff tolower_def by code_simp
  then show ?thesis by blast
qed

lemma avx2_lower:
  "ij_redact_lower_x86_avx2 (mm256_loadu_si256 m i) = map (\<lambda>k. tolower (c_at m k)) [i..<i + 32]"
  unfolding ij_redact_lower_x86_avx2_def Let_def m256_defs
  by (simp only: lane_simps list.map_comp length_upt diff_add_inverse fst_conv snd_conv
      avx2_lower_lane)

lemma neon_lower:
  "ij_redact_lower_arm_neon (vld1q_u8 m i) = map (\<lambda>k. tolower (c_at m k)) [i..<i + 16]"
  unfolding ij_redact_lower_arm_neon_def Let_def neon_defs
  by (simp only: lane_simps list.map_comp length_upt diff_add_inverse fst_conv snd_conv
      neon_lower_lane)

lemma avx2_case_mask:
  "mm256_movemask_epi8 (mm256_cmpeq_epi8 (ij_redact_lower_x86_avx2 (mm256_loadu_si256 l i))
     (ij_redact_lower_x86_avx2 (mm256_loadu_si256 r i))) = 0xffffffff \<longleftrightarrow>
   (\<forall>k\<in>{i..<i + 32}. tolower (c_at l k) = tolower (c_at r k))"
  by (subst movemask_eq_full_iff)
    (auto simp: avx2_lower mm256_cmpeq_epi8_def lane_simps ball_Un)

lemma neon_case_mask:
  "vgetq_lane_u64 (vceqq_u8 (ij_redact_lower_arm_neon (vld1q_u8 l i))
     (ij_redact_lower_arm_neon (vld1q_u8 r i))) 0 \<noteq> 0xffffffffffffffff \<or>
   vgetq_lane_u64 (vceqq_u8 (ij_redact_lower_arm_neon (vld1q_u8 l i))
     (ij_redact_lower_arm_neon (vld1q_u8 r i))) 1 \<noteq> 0xffffffffffffffff \<longleftrightarrow>
   \<not> (\<forall>k\<in>{i..<i + 16}. tolower (c_at l k) = tolower (c_at r k))"
proof -
  let ?v = "vceqq_u8 (ij_redact_lower_arm_neon (vld1q_u8 l i)) (ij_redact_lower_arm_neon (vld1q_u8 r i))"
  have "length ?v = 16" by (simp add: neon_lower vceqq_u8_def)
  moreover have "(\<forall>b\<in>set ?v. b = 0xff) \<longleftrightarrow>
      (\<forall>k\<in>{i..<i + 16}. tolower (c_at l k) = tolower (c_at r k))"
    by (auto simp: neon_lower vceqq_u8_def lane_simps ball_Un)
  ultimately show ?thesis using neon_all_ones [of ?v] by blast
qed

interpretation case_equal_avx2: chunked_loop 32
  "\<lambda>m. redact_case_equal_avx2_loop (fst m) (snd m)"
  "\<lambda>m len i.
     if mm256_movemask_epi8
          (mm256_cmpeq_epi8 (ij_redact_lower_x86_avx2 (mm256_loadu_si256 (fst m) i))
            (ij_redact_lower_x86_avx2 (mm256_loadu_si256 (snd m) i))) \<noteq> 0xffffffff
     then Some False else None"
  "\<lambda>m len i. ij_redact_case_equal_scalar (c_ptr_add (fst m) i) (len - i) (c_ptr_add (snd m) i) (len - i)"
  lower_eq_from
proof (unfold_locales, goal_cases)
  case (2 m len i)
  show ?case
    using redact_case_equal_avx2_loop.simps [of "fst m" "snd m" len i] by (simp add: Let_def)
qed (auto simp: avx2_case_mask lower_eq_from_split lower_eq_from_tail split: if_splits)

interpretation case_equal_neon: chunked_loop 16
  "\<lambda>m. redact_case_equal_neon_loop (fst m) (snd m)"
  "\<lambda>m len i.
     if \<not> (\<forall>k\<in>{i..<i + 16}. tolower (c_at (fst m) k) = tolower (c_at (snd m) k))
     then Some False else None"
  "\<lambda>m len i. ij_redact_case_equal_scalar (c_ptr_add (fst m) i) (len - i) (c_ptr_add (snd m) i) (len - i)"
  lower_eq_from
proof (unfold_locales, goal_cases)
  case (2 m len i)
  show ?case
    using redact_case_equal_neon_loop.simps
      [of "fst m" "snd m" len i, unfolded Let_def neon_case_mask]
    by simp
qed (auto simp: lower_eq_from_split lower_eq_from_tail split: if_splits)

lemma dot_from_split:
  "i + w \<le> len \<Longrightarrow>
   dot_from t len i \<longleftrightarrow> (\<exists>k\<in>{i..<i + w}. c_at t k = 0x2e) \<or> dot_from t len (i + w)"
  by (auto simp: dot_from_def drop_c_mem_split)

lemma dot_from_tail:
  "i \<le> len \<Longrightarrow> ij_redact_has_dot_scalar (c_ptr_add t i) (len - i) \<longleftrightarrow> dot_from t len i"
  by (simp add: has_dot_scalar_iff c_mem_ptr_add_drop dot_from_def)

lemma avx2_dot_mask:
  "mm256_movemask_epi8 (mm256_cmpeq_epi8 (mm256_loadu_si256 t i) (mm256_set1_epi8 0x2e)) \<noteq> 0 \<longleftrightarrow>
   (\<exists>k\<in>{i..<i + 32}. c_at t k = 0x2e)"
  by (subst movemask_eq_0_iff) (auto simp: m256_defs lane_simps bex_Un)

lemma neon_dot_mask:
  "vgetq_lane_u64 (vceqq_u8 (vld1q_u8 t i) (vdupq_n_u8 0x2e)) 0 \<noteq> 0 \<or>
   vgetq_lane_u64 (vceqq_u8 (vld1q_u8 t i) (vdupq_n_u8 0x2e)) 1 \<noteq> 0 \<longleftrightarrow>
   (\<exists>k\<in>{i..<i + 16}. c_at t k = 0x2e)"
  by (subst neon_any_nonzero) (auto simp: neon_defs lane_simps bex_Un)

interpretation has_dot_avx2: chunked_loop 32 redact_has_dot_avx2_loop
  "\<lambda>t len i. if \<exists>k\<in>{i..<i + 32}. c_at t k = 0x2e then Some True else None"
  "\<lambda>t len i. ij_redact_has_dot_scalar (c_ptr_add t i) (len - i)"
  dot_from
proof (unfold_locales, goal_cases)
  case (2 t len i)
  show ?case
    using redact_has_dot_avx2_loop.simps [of t len i, unfolded Let_def avx2_dot_mask] by simp
qed (auto simp: dot_from_split dot_from_tail split: if_splits)

interpretation has_dot_neon: chunked_loop 16 redact_has_dot_neon_loop
  "\<lambda>t len i. if \<exists>k\<in>{i..<i + 16}. c_at t k = 0x2e then Some True else None"
  "\<lambda>t len i. ij_redact_has_dot_scalar (c_ptr_add t i) (len - i)"
  dot_from
proof (unfold_locales, goal_cases)
  case (2 t len i)
  show ?case
    using redact_has_dot_neon_loop.simps [of t len i, unfolded Let_def neon_dot_mask] by simp
qed (auto simp: dot_from_split dot_from_tail split: if_splits)

text \<open>The contract of a pair of matchers, and that all three back ends fulfil it.\<close>

locale redact_matcher =
  fixes case_equal :: "byte list \<Rightarrow> size_t \<Rightarrow> byte list \<Rightarrow> size_t \<Rightarrow> bool"
    and has_dot :: "byte list \<Rightarrow> size_t \<Rightarrow> bool"
  assumes case_equal_iff: "case_equal l m r n \<longleftrightarrow> lower (c_mem l m) = lower (c_mem r n)"
    and has_dot_iff: "has_dot t n \<longleftrightarrow> 0x2e \<in> set (c_mem t n)"
begin

lemma agrees_with_scalar:
  "case_equal l m r n = ij_redact_case_equal_scalar l m r n \<and>
   has_dot t k = ij_redact_has_dot_scalar t k"
  by (simp add: case_equal_iff has_dot_iff case_equal_scalar_iff has_dot_scalar_iff)

lemma case_equal_sym: "case_equal l m r n = case_equal r n l m"
  by (auto simp: case_equal_iff)

end

interpretation redact_scalar: redact_matcher ij_redact_case_equal_scalar ij_redact_has_dot_scalar
  by unfold_locales (rule case_equal_scalar_iff has_dot_scalar_iff)+

interpretation redact_dispatch: redact_matcher ij_redact_case_equal ij_redact_has_dot
  by unfold_locales
    (simp_all add: ij_redact_case_equal_def ij_redact_has_dot_def case_equal_scalar_iff has_dot_scalar_iff)

lemma case_equal_avx2_impl:
  "ij_redact_case_equal_x86_avx2_impl l m r n = ij_redact_case_equal_scalar l m r n"
  using case_equal_avx2.loop_spec [of 0 n "(l, r)"]
  by (auto simp: ij_redact_case_equal_x86_avx2_impl_def ij_redact_case_equal_scalar_def
      redact_case_equal_loop_spec)

lemma case_equal_neon_impl:
  "ij_redact_case_equal_arm_neon_impl l m r n = ij_redact_case_equal_scalar l m r n"
  using case_equal_neon.loop_spec [of 0 n "(l, r)"]
  by (auto simp: ij_redact_case_equal_arm_neon_impl_def ij_redact_case_equal_scalar_def
      redact_case_equal_loop_spec)

lemma has_dot_avx2_impl: "ij_redact_has_dot_x86_avx2_impl t n = ij_redact_has_dot_scalar t n"
  by (simp add: ij_redact_has_dot_x86_avx2_impl_def has_dot_avx2.loop_spec dot_from_def
      has_dot_scalar_iff)

lemma has_dot_neon_impl: "ij_redact_has_dot_arm_neon_impl t n = ij_redact_has_dot_scalar t n"
  by (simp add: ij_redact_has_dot_arm_neon_impl_def has_dot_neon.loop_spec dot_from_def
      has_dot_scalar_iff)

interpretation redact_avx2: redact_matcher
  "ij_redact_case_equal_x86_avx2 cpu" "ij_redact_has_dot_x86_avx2 cpu"
  by unfold_locales
    (simp_all add: ij_redact_case_equal_x86_avx2_def ij_redact_has_dot_x86_avx2_def
      case_equal_avx2_impl has_dot_avx2_impl case_equal_scalar_iff has_dot_scalar_iff)

interpretation redact_neon: redact_matcher
  "ij_redact_case_equal_arm_neon cpu" "ij_redact_has_dot_arm_neon cpu"
  by unfold_locales
    (simp_all add: ij_redact_case_equal_arm_neon_def ij_redact_has_dot_arm_neon_def
      case_equal_neon_impl has_dot_neon_impl case_equal_scalar_iff has_dot_scalar_iff)

section \<open>The decision against the reference\<close>

lemma lower_denylist:
  "lit \<in> {''password'', ''passwd'', ''passphrase'', ''secret'', ''client_secret'', ''token'',
      ''access_token'', ''refresh_token'', ''id_token'', ''api_key'', ''apikey'',
      ''authorization'', ''session_id'', ''session'', ''cookie'', ''set_cookie'',
      ''private_key'', ''secret_key'', ''signing_key''} \<Longrightarrow> lower (bytes lit) = bytes lit"
  by (auto simp: tolower_def)

lemma redact_eq_iff:
  "redact_eq key n lit m \<longleftrightarrow> n = m \<and> lower (c_mem key n) = lower (c_mem (bytes lit) m)"
  by (metis redact_eq_def case_equal_scalar_iff length_c_mem lower_simps(4))

lemma or_0x20_of_tolower:
  "(tolower c = 0x61 \<longrightarrow> c OR 0x20 = 0x61) \<and> (tolower c = 0x63 \<longrightarrow> c OR 0x20 = 0x63) \<and>
   (tolower c = 0x69 \<longrightarrow> c OR 0x20 = 0x69) \<and> (tolower c = 0x70 \<longrightarrow> c OR 0x20 = 0x70) \<and>
   (tolower c = 0x72 \<longrightarrow> c OR 0x20 = 0x72) \<and> (tolower c = 0x73 \<longrightarrow> c OR 0x20 = 0x73) \<and>
   (tolower c = 0x74 \<longrightarrow> c OR 0x20 = 0x74)"
proof -
  have "\<forall>c. (tolower c = 0x61 \<longrightarrow> c OR 0x20 = 0x61) \<and> (tolower c = 0x63 \<longrightarrow> c OR 0x20 = 0x63) \<and>
   (tolower c = 0x69 \<longrightarrow> c OR 0x20 = 0x69) \<and> (tolower c = 0x70 \<longrightarrow> c OR 0x20 = 0x70) \<and>
   (tolower c = 0x72 \<longrightarrow> c OR 0x20 = 0x72) \<and> (tolower c = 0x73 \<longrightarrow> c OR 0x20 = 0x73) \<and>
   (tolower c = 0x74 \<longrightarrow> c OR 0x20 = 0x74)"
    unfolding all_byte_iff tolower_def by code_simp
  then show ?thesis by blast
qed

text \<open>The bytes of a denylist entry that the dispatch looks at: its length and its first letter.\<close>

lemma redact_eq_denylist:
  assumes eq: "redact_eq key n lit (length lit)"
    and lit: "lower (bytes lit) = bytes lit" "bytes lit = b # bs"
  shows "n = length lit \<and> tolower (c_at key 0) = b"
proof -
  have "c_mem (bytes lit) (length lit) = bytes lit" by (metis c_mem_full length_bytes)
  with eq lit have n: "n = length lit" and low: "lower (c_mem key n) = b # bs"
    by (auto simp: redact_eq_iff)
  from low have "0 < n" by (cases n) auto
  then have "c_mem key n = c_at key 0 # drop 1 (c_mem key n)"
    using drop_c_mem_Cons [of 0 n key] by simp
  then have "lower (c_mem key n) = tolower (c_at key 0) # lower (drop 1 (c_mem key n))"
    by (metis lower_simps(2))
  with n low show ?thesis by simp
qed

lemma in_denylist_iff:
  "lower (c_mem key n) = bytes lit \<longleftrightarrow> redact_eq key n lit (length lit)"
  if "lower (bytes lit) = bytes lit"
proof -
  have "c_mem (bytes lit) (length lit) = bytes lit" by (metis c_mem_full length_bytes)
  moreover have "lower (c_mem key n) = bytes lit \<Longrightarrow> n = length lit"
    by (metis length_bytes length_c_mem lower_simps(4))
  ultimately show ?thesis using that by (auto simp: redact_eq_iff)
qed

lemma in_denylist_disj:
  "lower (c_mem key n) \<in> denylist \<longleftrightarrow>
     lower (c_mem key n) = bytes ''password'' \<or>
     lower (c_mem key n) = bytes ''passwd'' \<or>
     lower (c_mem key n) = bytes ''passphrase'' \<or>
     lower (c_mem key n) = bytes ''secret'' \<or>
     lower (c_mem key n) = bytes ''client_secret'' \<or>
     lower (c_mem key n) = bytes ''token'' \<or>
     lower (c_mem key n) = bytes ''access_token'' \<or>
     lower (c_mem key n) = bytes ''refresh_token'' \<or>
     lower (c_mem key n) = bytes ''id_token'' \<or>
     lower (c_mem key n) = bytes ''api_key'' \<or>
     lower (c_mem key n) = bytes ''apikey'' \<or>
     lower (c_mem key n) = bytes ''authorization'' \<or>
     lower (c_mem key n) = bytes ''session_id'' \<or>
     lower (c_mem key n) = bytes ''session'' \<or>
     lower (c_mem key n) = bytes ''cookie'' \<or>
     lower (c_mem key n) = bytes ''set_cookie'' \<or>
     lower (c_mem key n) = bytes ''private_key'' \<or>
     lower (c_mem key n) = bytes ''secret_key'' \<or>
     lower (c_mem key n) = bytes ''signing_key''"
  unfolding denylist_def image_insert image_empty insert_iff empty_iff by (simp only: simp_thms)

lemma entry_dispatch:
  assumes "lower (c_mem key n) = bytes lit" and "lower (bytes lit) = bytes lit"
    and "bytes lit = b # bs" and "tolower (c_at key 0) = b \<longrightarrow> c_at key 0 OR 0x20 = b"
  shows "n = length lit \<and> c_at key 0 OR 0x20 = b"
  using assms(4) redact_eq_denylist [OF _ assms(2,3), of key n] assms(1)
  unfolding in_denylist_iff [OF assms(2)] by blast

lemma entries_dispatch:
  "lower (c_mem key n) = bytes ''password'' \<Longrightarrow> n = 8 \<and> c_at key 0 OR 0x20 = 0x70"
  "lower (c_mem key n) = bytes ''passwd'' \<Longrightarrow> n = 6 \<and> c_at key 0 OR 0x20 = 0x70"
  "lower (c_mem key n) = bytes ''passphrase'' \<Longrightarrow> n = 10 \<and> c_at key 0 OR 0x20 = 0x70"
  "lower (c_mem key n) = bytes ''secret'' \<Longrightarrow> n = 6 \<and> c_at key 0 OR 0x20 = 0x73"
  "lower (c_mem key n) = bytes ''client_secret'' \<Longrightarrow> n = 13 \<and> c_at key 0 OR 0x20 = 0x63"
  "lower (c_mem key n) = bytes ''token'' \<Longrightarrow> n = 5 \<and> c_at key 0 OR 0x20 = 0x74"
  "lower (c_mem key n) = bytes ''access_token'' \<Longrightarrow> n = 12 \<and> c_at key 0 OR 0x20 = 0x61"
  "lower (c_mem key n) = bytes ''refresh_token'' \<Longrightarrow> n = 13 \<and> c_at key 0 OR 0x20 = 0x72"
  "lower (c_mem key n) = bytes ''id_token'' \<Longrightarrow> n = 8 \<and> c_at key 0 OR 0x20 = 0x69"
  "lower (c_mem key n) = bytes ''api_key'' \<Longrightarrow> n = 7 \<and> c_at key 0 OR 0x20 = 0x61"
  "lower (c_mem key n) = bytes ''apikey'' \<Longrightarrow> n = 6 \<and> c_at key 0 OR 0x20 = 0x61"
  "lower (c_mem key n) = bytes ''authorization'' \<Longrightarrow> n = 13 \<and> c_at key 0 OR 0x20 = 0x61"
  "lower (c_mem key n) = bytes ''session_id'' \<Longrightarrow> n = 10 \<and> c_at key 0 OR 0x20 = 0x73"
  "lower (c_mem key n) = bytes ''session'' \<Longrightarrow> n = 7 \<and> c_at key 0 OR 0x20 = 0x73"
  "lower (c_mem key n) = bytes ''cookie'' \<Longrightarrow> n = 6 \<and> c_at key 0 OR 0x20 = 0x63"
  "lower (c_mem key n) = bytes ''set_cookie'' \<Longrightarrow> n = 10 \<and> c_at key 0 OR 0x20 = 0x73"
  "lower (c_mem key n) = bytes ''private_key'' \<Longrightarrow> n = 11 \<and> c_at key 0 OR 0x20 = 0x70"
  "lower (c_mem key n) = bytes ''secret_key'' \<Longrightarrow> n = 10 \<and> c_at key 0 OR 0x20 = 0x73"
  "lower (c_mem key n) = bytes ''signing_key'' \<Longrightarrow> n = 11 \<and> c_at key 0 OR 0x20 = 0x73"
  subgoal using entry_dispatch [OF _ lower_denylist, of key n "''password''" "0x70"]
      or_0x20_of_tolower [of "c_at key 0"] by simp
  subgoal using entry_dispatch [OF _ lower_denylist, of key n "''passwd''" "0x70"]
      or_0x20_of_tolower [of "c_at key 0"] by simp
  subgoal using entry_dispatch [OF _ lower_denylist, of key n "''passphrase''" "0x70"]
      or_0x20_of_tolower [of "c_at key 0"] by simp
  subgoal using entry_dispatch [OF _ lower_denylist, of key n "''secret''" "0x73"]
      or_0x20_of_tolower [of "c_at key 0"] by simp
  subgoal using entry_dispatch [OF _ lower_denylist, of key n "''client_secret''" "0x63"]
      or_0x20_of_tolower [of "c_at key 0"] by simp
  subgoal using entry_dispatch [OF _ lower_denylist, of key n "''token''" "0x74"]
      or_0x20_of_tolower [of "c_at key 0"] by simp
  subgoal using entry_dispatch [OF _ lower_denylist, of key n "''access_token''" "0x61"]
      or_0x20_of_tolower [of "c_at key 0"] by simp
  subgoal using entry_dispatch [OF _ lower_denylist, of key n "''refresh_token''" "0x72"]
      or_0x20_of_tolower [of "c_at key 0"] by simp
  subgoal using entry_dispatch [OF _ lower_denylist, of key n "''id_token''" "0x69"]
      or_0x20_of_tolower [of "c_at key 0"] by simp
  subgoal using entry_dispatch [OF _ lower_denylist, of key n "''api_key''" "0x61"]
      or_0x20_of_tolower [of "c_at key 0"] by simp
  subgoal using entry_dispatch [OF _ lower_denylist, of key n "''apikey''" "0x61"]
      or_0x20_of_tolower [of "c_at key 0"] by simp
  subgoal using entry_dispatch [OF _ lower_denylist, of key n "''authorization''" "0x61"]
      or_0x20_of_tolower [of "c_at key 0"] by simp
  subgoal using entry_dispatch [OF _ lower_denylist, of key n "''session_id''" "0x73"]
      or_0x20_of_tolower [of "c_at key 0"] by simp
  subgoal using entry_dispatch [OF _ lower_denylist, of key n "''session''" "0x73"]
      or_0x20_of_tolower [of "c_at key 0"] by simp
  subgoal using entry_dispatch [OF _ lower_denylist, of key n "''cookie''" "0x63"]
      or_0x20_of_tolower [of "c_at key 0"] by simp
  subgoal using entry_dispatch [OF _ lower_denylist, of key n "''set_cookie''" "0x73"]
      or_0x20_of_tolower [of "c_at key 0"] by simp
  subgoal using entry_dispatch [OF _ lower_denylist, of key n "''private_key''" "0x70"]
      or_0x20_of_tolower [of "c_at key 0"] by simp
  subgoal using entry_dispatch [OF _ lower_denylist, of key n "''secret_key''" "0x73"]
      or_0x20_of_tolower [of "c_at key 0"] by simp
  subgoal using entry_dispatch [OF _ lower_denylist, of key n "''signing_key''" "0x73"]
      or_0x20_of_tolower [of "c_at key 0"] by simp
  done

lemma redact_eq_entry:
  "redact_eq key n lit m \<longleftrightarrow> lower (c_mem key n) = bytes lit"
  if "lower (bytes lit) = bytes lit" and "length lit = m"
  using in_denylist_iff [OF that(1), of key n] that(2) by simp

lemmas redact_eq_entries = redact_eq_entry [OF lower_denylist]

text \<open>The length and first-letter dispatch misses no entry: it decides the denylist.\<close>

lemma known_key_iff: "ij_redact_match_known_key key n \<longleftrightarrow> lower (c_mem key n) \<in> denylist"
proof
  assume "ij_redact_match_known_key key n"
  then show "lower (c_mem key n) \<in> denylist"
    unfolding in_denylist_disj ij_redact_match_known_key_def Let_def
    by (simp only: redact_eq_entries insert_iff simp_thms list.size One_nat_def add_Suc
        split: if_splits) auto
next
  assume "lower (c_mem key n) \<in> denylist"
  then show "ij_redact_match_known_key key n"
    unfolding in_denylist_disj
    apply (elim disjE)
    by (frule entries_dispatch,
        simp add: ij_redact_match_known_key_def redact_eq_entries del: bytes_Cons)+
qed

lemma denylist_lengths: "bs \<in> denylist \<Longrightarrow> length bs \<in> {5, 6, 7, 8, 10, 11, 12, 13}"
  by (auto simp: denylist_def)

lemma known_key_suffix:
  "k < n \<Longrightarrow> ij_redact_match_known_key (c_ptr_add key (n - k)) k \<longleftrightarrow>
     lower (drop (n - k) (c_mem key n)) \<in> denylist"
  using c_mem_ptr_add_drop [of "n - k" n key] by (simp add: known_key_iff)

lemma match_suffix_iff:
  "ij_redact_match_suffix key n \<longleftrightarrow>
   (\<exists>p s. c_mem key n = p @ s \<and> p \<noteq> [] \<and> lower s \<in> denylist)"
proof -
  let ?D = "\<lambda>k. k < n \<and> lower (drop (n - k) (c_mem key n)) \<in> denylist"
  have lengths: "?D k \<Longrightarrow> k \<in> {5, 6, 7, 8, 10, 11, 12, 13}" for k
    using denylist_lengths [of "lower (drop (n - k) (c_mem key n))"] by simp
  have "ij_redact_match_suffix key n \<longleftrightarrow> (\<exists>k\<in>{5, 6, 7, 8, 10, 11, 12, 13}. ?D k)"
    unfolding ij_redact_match_suffix_def
    by (simp only: known_key_suffix bex_simps(5,7) bex_empty cong: conj_cong) blast
  also have "\<dots> \<longleftrightarrow> (\<exists>k. ?D k)"
    using lengths by blast
  also have "\<dots> \<longleftrightarrow> (\<exists>p s. c_mem key n = p @ s \<and> p \<noteq> [] \<and> lower s \<in> denylist)"
  proof
    assume "\<exists>k. ?D k"
    then obtain k where "?D k" ..
    then have "c_mem key n = take (n - k) (c_mem key n) @ drop (n - k) (c_mem key n)"
      by (simp only: append_take_drop_id)
    moreover have "take (n - k) (c_mem key n) \<noteq> []"
      using \<open>?D k\<close> by (simp flip: length_0_conv)
    ultimately show "\<exists>p s. c_mem key n = p @ s \<and> p \<noteq> [] \<and> lower s \<in> denylist"
      using \<open>?D k\<close> by blast
  next
    assume "\<exists>p s. c_mem key n = p @ s \<and> p \<noteq> [] \<and> lower s \<in> denylist"
    then obtain p s where ps: "c_mem key n = p @ s" "p \<noteq> []" "lower s \<in> denylist" by blast
    then have "n = length p + length s" by (metis length_append length_c_mem)
    with ps have "?D (length s)" by simp
    then show "\<exists>k. ?D k" ..
  qed
  finally show ?thesis .
qed

lemma should_redact_n_iff: "ij_key_should_redact_n (Some key) n \<longleftrightarrow> sensitive (c_mem key n)"
  by (simp add: ij_key_should_redact_n_def known_key_iff has_dot_scalar_iff match_suffix_iff
      sensitive_def)

lemma should_redact_iff: "ij_key_should_redact (Some key) \<longleftrightarrow> sensitive (c_text key)"
  by (simp add: ij_key_should_redact_def should_redact_n_iff)

lemma sensitive_case_insensitive: "lower key = lower key' \<Longrightarrow> lower key \<in> denylist \<Longrightarrow> sensitive key'"
  by (simp add: sensitive_def)

section \<open>Replacing the value\<close>

lemma redact_owned_none [simp]: "ij_redact_owned_attr_value_n None n value cap mem = Some (mem, value)"
  by (simp add: ij_redact_owned_attr_value_n_def ij_key_should_redact_n_def
      split: option.split ij_owned_attr_value_t.split)

lemma redact_owned_insensitive:
  "\<not> ij_key_should_redact_n key n \<Longrightarrow>
   ij_redact_owned_attr_value_n key n value cap mem = Some (mem, value)"
  by (simp add: ij_redact_owned_attr_value_n_def split: option.split ij_owned_attr_value_t.split)

text \<open>
  With room for the literal the replacement stays inside the memory, keeps every byte outside
  its slice, and the value then reads as the literal.
\<close>

lemma redact_owned_sensitive:
  assumes "ij_key_should_redact_n key n" and "str_data s = Some off" and "10 \<le> cap"
    and "off + cap < length mem"
  shows "\<exists>mem'. ij_redact_owned_attr_value_n key n (Some (OWNED_STRING s)) cap mem =
           Some (mem', Some (OWNED_STRING (s\<lparr>str_len := 10\<rparr>))) \<and>
         length mem' = length mem \<and>
         owned_bytes mem' (s\<lparr>str_len := 10\<rparr>) = IJ_REDACTED_LITERAL \<and>
         take off mem' = take off mem \<and> drop (off + 11) mem' = drop (off + 11) mem"
proof -
  let ?mem = "take off mem @ (IJ_REDACTED_LITERAL @ [0]) @ drop (off + 11) mem"
  have w: "mem_write mem off (IJ_REDACTED_LITERAL @ [0]) = Some ?mem"
    using assms by (simp add: mem_write_def)
  then have "ij_redact_owned_attr_value_n key n (Some (OWNED_STRING s)) cap mem =
      Some (?mem, Some (OWNED_STRING (s\<lparr>str_len := 10\<rparr>)))"
    using assms by (simp add: ij_redact_owned_attr_value_n_def)
  moreover have "owned_bytes ?mem (s\<lparr>str_len := 10\<rparr>) = IJ_REDACTED_LITERAL"
    using assms by (simp add: owned_bytes_def c_ptr_add_def c_mem_take)
  ultimately show ?thesis using assms by (intro exI [of _ ?mem]) simp
qed

section \<open>Properties\<close>

text \<open>
  C24. The redaction decision is the policy: the key, compared without regard to case, is in the
  denylist, or it contains a dot and a proper suffix of it is.
\<close>

theorem key_should_redact_correct: "ij_key_should_redact_n (Some key) n \<longleftrightarrow> sensitive (c_mem key n)"
  by (rule should_redact_n_iff)

text \<open>
  The AVX2 and NEON matchers give the answers of the scalar ones, whatever the lengths and
  the processor.
\<close>

theorem redact_matchers_agree:
  "ij_redact_case_equal_x86_avx2 cpu l m r n = ij_redact_case_equal_scalar l m r n \<and>
   ij_redact_case_equal_arm_neon cpu l m r n = ij_redact_case_equal_scalar l m r n \<and>
   ij_redact_has_dot_x86_avx2 cpu t k = ij_redact_has_dot_scalar t k \<and>
   ij_redact_has_dot_arm_neon cpu t k = ij_redact_has_dot_scalar t k"
  using redact_avx2.agrees_with_scalar [of cpu l m r n t k]
    redact_neon.agrees_with_scalar [of cpu l m r n t k] by simp

end
