(* ===== verification/Event_Copy.thy ===== *)
theory Event_Copy
  imports Event_Validate Redact
begin

text \<open>
  The owned copy of an event: the second half of \<open>src/core/ij_event.c\<close>. One pass scans every
  text and adds up the size of the arena; a second pass writes the texts into it through a
  cursor. Writes are \<open>mem_write\<close>, whose value \<open>None\<close> is a write outside the arena, so
  "the result is \<open>Some\<close>" is memory safety. An abstract view of a copy gives the bytes its
  strings designate, and the copy is proved to have the view of the event it was made from,
  with the values of sensitive keys replaced when redaction is enabled.
\<close>

section \<open>The allocator\<close>

text \<open>
  What the two calls of \<open>malloc\<close> answer, and the indeterminate bytes a new block holds.
\<close>

record copy_alloc =
  arena_ok :: bool
  attrs_ok :: bool
  fresh :: "nat \<Rightarrow> byte"

definition malloc_arena :: "copy_alloc \<Rightarrow> size_t \<Rightarrow> byte list option" where
  "malloc_arena al n = (if arena_ok al then Some (map (fresh al) [0..<n]) else None)"

section \<open>Scanning\<close>

definition set_escape :: "bool \<Rightarrow> ij_owned_string_t \<Rightarrow> ij_owned_string_t" where
  "set_escape b s = s\<lparr>str_needs_json_escape := b\<rparr>"

record field_lens =
  event_name_len :: size_t
  message_len :: size_t
  logger_len :: size_t
  source_file_len :: size_t
  source_function_len :: size_t

text \<open>
  An optional field: a null pointer is skipped and keeps the length 0 and the cleared flag. The
  result \<open>None\<close> is the early return.
\<close>

definition scan_optional_field :: "cpu \<Rightarrow> cstring \<Rightarrow> size_t \<Rightarrow> (size_t \<times> bool) option" where
  "scan_optional_field cpu value max_len =
     (if value \<noteq> None then ij_scan_string_field_copy cpu value max_len False else Some (0, False))"

text \<open>
  The guards and the scans of the five fields. \<open>Inl\<close> is the early return with
  \<open>IJ_STATUS_INVALID_ARGUMENT\<close> and the output event as it is then.
\<close>

definition copy_guard :: "ij_event_t \<Rightarrow> bool" where
  "copy_guard event \<longleftrightarrow>
     \<not> ij_level_is_valid (ev_level event) \<or> nanoseconds (ev_timestamp event) \<ge> 1000000000 \<or>
     ev_attribute_count event > IJ_ATTRIBUTE_COUNT_MAX \<or>
     (ev_attribute_count event > 0 \<and> ev_attributes event = None) \<or>
     (ev_has_trace_context event \<and> (ev_trace_id event = None \<or> ev_span_id event = None))"

definition copy_scan_fields ::
  "cpu \<Rightarrow> ij_event_t \<Rightarrow> ij_event_copy_t \<Rightarrow> ij_event_copy_t + (field_lens \<times> ij_event_copy_t)" where
  "copy_scan_fields cpu event out =
     (case ij_scan_string_field_copy cpu (ev_event_name event) IJ_EVENT_NAME_MAX_LEN False of
        None \<Rightarrow> Inl out
      | Some (name_len, name_esc) \<Rightarrow>
     let out = out\<lparr>cp_event_name := set_escape name_esc (cp_event_name out)\<rparr> in
     (case ij_scan_string_field_copy cpu (ev_message event) IJ_MESSAGE_MAX_LEN True of
        None \<Rightarrow> Inl out
      | Some (msg_len, msg_esc) \<Rightarrow>
     let out = out\<lparr>cp_message := set_escape msg_esc (cp_message out)\<rparr> in
     (case scan_optional_field cpu (ev_logger event) IJ_LOGGER_NAME_MAX_LEN of
        None \<Rightarrow> Inl out
      | Some (log_len, log_esc) \<Rightarrow>
     let out = out\<lparr>cp_logger_name := set_escape log_esc (cp_logger_name out)\<rparr> in
     (case scan_optional_field cpu (ev_source_file event) IJ_EVENT_TEXT_MAX_LEN of
        None \<Rightarrow> Inl out
      | Some (file_len, file_esc) \<Rightarrow>
     let out = out\<lparr>cp_source_file := set_escape file_esc (cp_source_file out)\<rparr> in
     (case scan_optional_field cpu (ev_source_function event) IJ_EVENT_TEXT_MAX_LEN of
        None \<Rightarrow> Inl out
      | Some (func_len, func_esc) \<Rightarrow>
     let out = out\<lparr>cp_source_function := set_escape func_esc (cp_source_function out)\<rparr> in
     Inr (\<lparr>event_name_len = name_len, message_len = msg_len, logger_len = log_len,
           source_file_len = file_len, source_function_len = func_len\<rparr>, out))))))"

definition fields_arena_size :: "ij_event_t \<Rightarrow> field_lens \<Rightarrow> size_t" where
  "fields_arena_size event l =
     (let size = event_name_len l + 1 + message_len l + 1;
          size = (if ev_logger event \<noteq> None then size + (logger_len l + 1) else size);
          size = (if ev_source_file event \<noteq> None then size + (source_file_len l + 1) else size);
          size = (if ev_source_function event \<noteq> None then size + (source_function_len l + 1) else size)
      in size)"

text \<open>The per-attribute arrays of the function, one record per visited attribute.\<close>

record attr_scan =
  scan_key_mem :: "byte list"
  scan_key_len :: size_t
  scan_key_escape :: bool
  scan_string_escape :: bool
  scan_should_redact :: bool

definition is_string_value :: "ij_attr_value_t \<Rightarrow> bool" where
  "is_string_value value = (case value of IJ_ATTR_VALUE_STRING _ _ \<Rightarrow> True | _ \<Rightarrow> False)"

text \<open>The validation of one attribute value; \<open>None\<close> is the early return.\<close>

definition scan_attr_value :: "cpu \<Rightarrow> ij_attr_value_t \<Rightarrow> bool option" where
  "scan_attr_value cpu value =
     (case value of
        IJ_ATTR_VALUE_STRING data len \<Rightarrow> ij_validate_attr_string_copy cpu data len
      | _ \<Rightarrow> if \<not> ij_validate_attr_value cpu (Some value) then None else Some False)"

definition redacted_size :: size_t where
  "redacted_size = length IJ_REDACTED_LITERAL"

fun copy_scan_attrs ::
  "cpu \<Rightarrow> ij_redaction_mode_t \<Rightarrow> ij_attr_t list \<Rightarrow> attr_scan list \<Rightarrow> size_t \<Rightarrow> ij_event_copy_t \<Rightarrow>
     ij_event_copy_t + (attr_scan list \<times> ij_event_copy_t)" where
  "copy_scan_attrs cpu mode [] scans total_text_size out = Inr (scans, out)"
| "copy_scan_attrs cpu mode (a # as) scans total_text_size out =
     (case ij_scan_string_field_copy cpu (attr_key a) IJ_ATTRIBUTE_KEY_MAX_LEN False of
        None \<Rightarrow> Inl out
      | Some (key_len, key_esc) \<Rightarrow>
     (case scan_attr_value cpu (attr_value a) of
        None \<Rightarrow> Inl out
      | Some string_esc \<Rightarrow>
     if list_ex (\<lambda>s. ij_attr_keys_equal (key_mem a) key_len (scan_key_mem s) (scan_key_len s)) scans
     then Inl out
     else
       let redact = (mode = IJ_REDACTION_MODE_ENABLED \<and> is_string_value (attr_value a) \<and>
                     ij_key_should_redact_n (attr_key a) key_len);
           scan = \<lparr>scan_key_mem = key_mem a, scan_key_len = key_len, scan_key_escape = key_esc,
                   scan_string_escape = string_esc, scan_should_redact = redact\<rparr>;
           total_text_size = total_text_size + key_len;
           out = out\<lparr>cp_text_arena_size := cp_text_arena_size out + (key_len + 1)\<rparr>;
           (total_text_size, out) =
             (case attr_value a of
                IJ_ATTR_VALUE_STRING _ len \<Rightarrow>
                  (total_text_size + len,
                   out\<lparr>cp_text_arena_size :=
                         cp_text_arena_size out + (ij_max_size len redacted_size + 1)\<rparr>)
              | _ \<Rightarrow> (total_text_size, out))
       in if total_text_size > IJ_EVENT_TEXT_MAX_LEN then Inl out
          else copy_scan_attrs cpu mode as (scans @ [scan]) total_text_size out))"

section \<open>Writing the arena\<close>

definition ij_copy_owned_string_into_arena ::
  "byte list \<Rightarrow> size_t \<Rightarrow> size_t \<Rightarrow> bool \<Rightarrow> byte list \<times> nat \<Rightarrow>
     (ij_owned_string_t \<times> byte list \<times> nat) option" where
  "ij_copy_owned_string_into_arena value len capacity needs_json_escape =
     (\<lambda>(mem, cursor).
        case mem_write mem cursor (c_mem value len @ [0]) of
          None \<Rightarrow> None
        | Some mem' \<Rightarrow>
            Some (\<lparr>str_data = Some cursor, str_len = len, str_needs_json_escape = needs_json_escape\<rparr>,
                  mem', cursor + (capacity + 1)))"

text \<open>\<open>Inl\<close> is the status of the default branch.\<close>

definition ij_copy_attr_value_into_arena ::
  "ij_attr_value_t \<Rightarrow> bool \<Rightarrow> byte list \<times> nat \<Rightarrow>
     (ij_status_t + (ij_owned_attr_value_t \<times> byte list \<times> nat)) option" where
  "ij_copy_attr_value_into_arena value needs_json_escape mc =
     (case value of
        IJ_ATTR_VALUE_STRING data len \<Rightarrow>
          (let capacity = ij_max_size len redacted_size in
           case ij_copy_owned_string_into_arena (case data of None \<Rightarrow> [] | Some d \<Rightarrow> d) len capacity
                  needs_json_escape mc of
             None \<Rightarrow> None
           | Some (s, mc') \<Rightarrow> Some (Inr (OWNED_STRING s, mc')))
      | IJ_ATTR_VALUE_SIGNED w \<Rightarrow> Some (Inr (OWNED_SIGNED w, mc))
      | IJ_ATTR_VALUE_UNSIGNED w \<Rightarrow> Some (Inr (OWNED_UNSIGNED w, mc))
      | IJ_ATTR_VALUE_BOOL b \<Rightarrow> Some (Inr (OWNED_BOOL b, mc))
      | IJ_ATTR_VALUE_DOUBLE d \<Rightarrow> Some (Inr (OWNED_DOUBLE d, mc))
      | IJ_ATTR_VALUE_OTHER _ \<Rightarrow> Some (Inl IJ_STATUS_INVALID_ARGUMENT))"

definition copy_optional_field ::
  "cstring \<Rightarrow> size_t \<Rightarrow> ij_owned_string_t \<Rightarrow> byte list \<times> nat \<Rightarrow>
     (ij_owned_string_t \<times> byte list \<times> nat) option" where
  "copy_optional_field value len s mc =
     (case value of
        None \<Rightarrow> Some (s, mc)
      | Some v \<Rightarrow> ij_copy_owned_string_into_arena v len len (str_needs_json_escape s) mc)"

definition copy_required_field ::
  "cstring \<Rightarrow> size_t \<Rightarrow> ij_owned_string_t \<Rightarrow> byte list \<times> nat \<Rightarrow>
     (ij_owned_string_t \<times> byte list \<times> nat) option" where
  "copy_required_field value len s mc =
     (case value of
        None \<Rightarrow> None
      | Some v \<Rightarrow> ij_copy_owned_string_into_arena v len len (str_needs_json_escape s) mc)"

text \<open>The writes of the five fields, in order; \<open>None\<close> is undefined behaviour: a read through
  a null pointer or a write outside the arena.\<close>

definition copy_write_fields ::
  "ij_event_t \<Rightarrow> field_lens \<Rightarrow> ij_event_copy_t \<Rightarrow> byte list \<Rightarrow>
     (ij_event_copy_t \<times> byte list \<times> nat) option" where
  "copy_write_fields event l out mem =
     (case copy_required_field (ev_event_name event) (event_name_len l) (cp_event_name out) (mem, 0) of
        None \<Rightarrow> None
      | Some (name, mc) \<Rightarrow>
     (case copy_required_field (ev_message event) (message_len l) (cp_message out) mc of
        None \<Rightarrow> None
      | Some (msg, mc) \<Rightarrow>
     (case copy_optional_field (ev_logger event) (logger_len l) (cp_logger_name out) mc of
        None \<Rightarrow> None
      | Some (logger, mc) \<Rightarrow>
     (case copy_optional_field (ev_source_file event) (source_file_len l) (cp_source_file out) mc of
        None \<Rightarrow> None
      | Some (file, mc) \<Rightarrow>
     (case copy_optional_field (ev_source_function event) (source_function_len l)
             (cp_source_function out) mc of
        None \<Rightarrow> None
      | Some (func, mc) \<Rightarrow>
          Some (out\<lparr>cp_event_name := name, cp_message := msg, cp_logger_name := logger,
                    cp_source_file := file, cp_source_function := func\<rparr>, mc))))))"

text \<open>The overwrite of a sensitive value by the literal and its terminating zero.\<close>

definition overwrite_redacted ::
  "ij_owned_attr_value_t \<Rightarrow> byte list \<Rightarrow> (ij_owned_attr_value_t \<times> byte list) option" where
  "overwrite_redacted value mem =
     (case value of
        OWNED_STRING s \<Rightarrow>
          (case str_data s of
             None \<Rightarrow> None
           | Some off \<Rightarrow>
               (case mem_write mem off (IJ_REDACTED_LITERAL @ [0]) of
                  None \<Rightarrow> None
                | Some mem' \<Rightarrow> Some (OWNED_STRING (s\<lparr>str_len := redacted_size\<rparr>), mem')))
      | _ \<Rightarrow> None)"

fun copy_write_attrs ::
  "(ij_attr_t \<times> attr_scan) list \<Rightarrow> ij_owned_attr_t list \<Rightarrow> byte list \<times> nat \<Rightarrow>
     (ij_status_t + (ij_owned_attr_t list \<times> byte list \<times> nat)) option" where
  "copy_write_attrs [] done mc = Some (Inr (done, mc))"
| "copy_write_attrs ((a, s) # rest) done mc =
     (case ij_copy_owned_string_into_arena (key_mem a) (scan_key_len s) (scan_key_len s)
             (scan_key_escape s) mc of
        None \<Rightarrow> None
      | Some (key, mc) \<Rightarrow>
     (case ij_copy_attr_value_into_arena (attr_value a) (scan_string_escape s) mc of
        None \<Rightarrow> None
      | Some (Inl status) \<Rightarrow> Some (Inl status)
      | Some (Inr (value, mem, cursor)) \<Rightarrow>
     if scan_should_redact s then
       (case overwrite_redacted value mem of
          None \<Rightarrow> None
        | Some (value, mem) \<Rightarrow>
            copy_write_attrs rest (done @ [\<lparr>own_key = key, own_value = value\<rparr>]) (mem, cursor))
     else copy_write_attrs rest (done @ [\<lparr>own_key = key, own_value = value\<rparr>]) (mem, cursor)))"

section \<open>The whole copy\<close>

definition ij_event_copy_dispose :: "ij_event_copy_t \<Rightarrow> ij_event_copy_t" where
  "ij_event_copy_dispose event = zero_event_copy"

definition copy_scalars :: "ij_event_t \<Rightarrow> ij_event_copy_t \<Rightarrow> ij_event_copy_t" where
  "copy_scalars event out =
     (let out = out\<lparr>cp_timestamp := ev_timestamp event, cp_level := ev_level event,
                    cp_trace_flags := ev_trace_flags event,
                    cp_has_trace_context := ev_has_trace_context event,
                    cp_source_line := ev_source_line event\<rparr> in
      case (ev_has_trace_context event, ev_trace_id event, ev_span_id event) of
        (True, Some t, Some s) \<Rightarrow>
          out\<lparr>cp_trace_id := c_mem t IJ_TRACE_ID_SIZE, cp_span_id := c_mem s IJ_SPAN_ID_SIZE\<rparr>
      | _ \<Rightarrow> out)"

text \<open>
  \<open>Some (status, out)\<close> is a run that ends with \<open>status\<close> and leaves \<open>out\<close> in the output
  parameter; \<open>None\<close> is a run with a write outside the arena.
\<close>

definition ij_event_copy_from_input ::
  "cpu \<Rightarrow> copy_alloc \<Rightarrow> ij_event_t option \<Rightarrow> ij_redaction_mode_t \<Rightarrow>
     (ij_status_t \<times> ij_event_copy_t) option" where
  "ij_event_copy_from_input cpu al event_ptr mode =
     (case event_ptr of
        None \<Rightarrow> Some (IJ_STATUS_INVALID_ARGUMENT, zero_event_copy)
      | Some event \<Rightarrow>
     let out = zero_event_copy in
     if copy_guard event then Some (IJ_STATUS_INVALID_ARGUMENT, out)
     else
     (case copy_scan_fields cpu event out of
        Inl out \<Rightarrow> Some (IJ_STATUS_INVALID_ARGUMENT, out)
      | Inr (l, out) \<Rightarrow>
     let total_text_size = event_name_len l + message_len l + logger_len l + source_file_len l +
                           source_function_len l in
     if total_text_size > IJ_EVENT_TEXT_MAX_LEN then Some (IJ_STATUS_INVALID_ARGUMENT, out)
     else
     let out = out\<lparr>cp_text_arena_size := fields_arena_size event l\<rparr> in
     (case copy_scan_attrs cpu mode (event_attributes event) [] total_text_size out of
        Inl out \<Rightarrow> Some (IJ_STATUS_INVALID_ARGUMENT, out)
      | Inr (scans, out) \<Rightarrow>
     let out = copy_scalars event out in
     (case malloc_arena al (cp_text_arena_size out) of
        None \<Rightarrow> Some (IJ_STATUS_INTERNAL_ERROR, ij_event_copy_dispose out)
      | Some mem \<Rightarrow>
     (case copy_write_fields event l out mem of
        None \<Rightarrow> None
      | Some (out, mem, cursor) \<Rightarrow>
     let out = out\<lparr>cp_text_arena := Some mem\<rparr> in
     if ev_attribute_count event > 0 then
       (if \<not> attrs_ok al then Some (IJ_STATUS_INTERNAL_ERROR, ij_event_copy_dispose out)
        else
          (case copy_write_attrs (zip (event_attributes event) scans) [] (mem, cursor) of
             None \<Rightarrow> None
           | Some (Inl status) \<Rightarrow> Some (status, ij_event_copy_dispose out)
           | Some (Inr (attrs, mem, cursor)) \<Rightarrow>
               Some (IJ_STATUS_OK, out\<lparr>cp_attributes := attrs, cp_text_arena := Some mem\<rparr>)))
     else Some (IJ_STATUS_OK, out))))))"

section \<open>Views\<close>

text \<open>The abstract value of an event: its texts as byte strings, no pointers.\<close>

datatype value_view =
    VString "byte list"
  | VSigned "64 word"
  | VUnsigned "64 word"
  | VBool bool
  | VDouble "64 word"

record event_view =
  v_timestamp :: ij_timestamp_t
  v_level :: ij_level_t
  v_event_name :: "byte list"
  v_message :: "byte list"
  v_logger :: "byte list option"
  v_attributes :: "(byte list \<times> value_view) list"
  v_trace :: "(byte list \<times> byte list) option"
  v_trace_flags :: byte
  v_source_file :: "byte list option"
  v_source_line :: "32 word"
  v_source_function :: "byte list option"

definition opt_bytes :: "byte list \<Rightarrow> ij_owned_string_t \<Rightarrow> byte list option" where
  "opt_bytes mem s = (case str_data s of None \<Rightarrow> None | Some _ \<Rightarrow> Some (owned_bytes mem s))"

fun owned_value_view :: "byte list \<Rightarrow> ij_owned_attr_value_t \<Rightarrow> value_view" where
  "owned_value_view mem (OWNED_STRING s) = VString (owned_bytes mem s)"
| "owned_value_view mem (OWNED_SIGNED w) = VSigned w"
| "owned_value_view mem (OWNED_UNSIGNED w) = VUnsigned w"
| "owned_value_view mem (OWNED_BOOL b) = VBool b"
| "owned_value_view mem (OWNED_DOUBLE d) = VDouble d"

definition owned_attr_view :: "byte list \<Rightarrow> ij_owned_attr_t \<Rightarrow> byte list \<times> value_view" where
  "owned_attr_view mem a = (owned_bytes mem (own_key a), owned_value_view mem (own_value a))"

definition arena :: "ij_event_copy_t \<Rightarrow> byte list" where
  "arena cp = (case cp_text_arena cp of None \<Rightarrow> [] | Some mem \<Rightarrow> mem)"

definition copy_view :: "ij_event_copy_t \<Rightarrow> event_view" where
  "copy_view cp =
     (let mem = arena cp in
      \<lparr>v_timestamp = cp_timestamp cp, v_level = cp_level cp,
       v_event_name = owned_bytes mem (cp_event_name cp), v_message = owned_bytes mem (cp_message cp),
       v_logger = opt_bytes mem (cp_logger_name cp),
       v_attributes = map (owned_attr_view mem) (cp_attributes cp),
       v_trace = (if cp_has_trace_context cp then Some (cp_trace_id cp, cp_span_id cp) else None),
       v_trace_flags = cp_trace_flags cp, v_source_file = opt_bytes mem (cp_source_file cp),
       v_source_line = cp_source_line cp, v_source_function = opt_bytes mem (cp_source_function cp)\<rparr>)"

text \<open>
  The view of the caller's event: a string value whose key is sensitive is replaced by the
  literal when redaction is enabled, everything else is as given.
\<close>

definition must_redact :: "ij_redaction_mode_t \<Rightarrow> ij_attr_t \<Rightarrow> bool" where
  "must_redact mode a \<longleftrightarrow>
     mode = IJ_REDACTION_MODE_ENABLED \<and> is_string_value (attr_value a) \<and> sensitive (attr_name a)"

fun input_value_view :: "ij_attr_value_t \<Rightarrow> value_view" where
  "input_value_view (IJ_ATTR_VALUE_STRING data len) =
     VString (c_mem (case data of None \<Rightarrow> [] | Some d \<Rightarrow> d) len)"
| "input_value_view (IJ_ATTR_VALUE_SIGNED w) = VSigned w"
| "input_value_view (IJ_ATTR_VALUE_UNSIGNED w) = VUnsigned w"
| "input_value_view (IJ_ATTR_VALUE_BOOL b) = VBool b"
| "input_value_view (IJ_ATTR_VALUE_DOUBLE d) = VDouble d"
| "input_value_view (IJ_ATTR_VALUE_OTHER n) = VBool False"

definition input_attr_view :: "ij_redaction_mode_t \<Rightarrow> ij_attr_t \<Rightarrow> byte list \<times> value_view" where
  "input_attr_view mode a =
     (attr_name a,
      if must_redact mode a then VString IJ_REDACTED_LITERAL else input_value_view (attr_value a))"

definition opt_text :: "cstring \<Rightarrow> byte list option" where
  "opt_text value = map_option c_text value"

definition text_of :: "cstring \<Rightarrow> byte list" where
  "text_of value = (case value of None \<Rightarrow> [] | Some v \<Rightarrow> c_text v)"

definition input_view :: "ij_redaction_mode_t \<Rightarrow> ij_event_t \<Rightarrow> event_view" where
  "input_view mode event =
     \<lparr>v_timestamp = ev_timestamp event, v_level = ev_level event,
      v_event_name = text_of (ev_event_name event), v_message = text_of (ev_message event),
      v_logger = opt_text (ev_logger event),
      v_attributes = map (input_attr_view mode) (event_attributes event),
      v_trace =
        (case (ev_has_trace_context event, ev_trace_id event, ev_span_id event) of
           (True, Some t, Some s) \<Rightarrow> Some (c_mem t IJ_TRACE_ID_SIZE, c_mem s IJ_SPAN_ID_SIZE)
         | _ \<Rightarrow> None),
      v_trace_flags = ev_trace_flags event, v_source_file = opt_text (ev_source_file event),
      v_source_line = ev_source_line event, v_source_function = opt_text (ev_source_function event)\<rparr>"

text \<open>
  Well-formed copies: every string and its terminating zero lie inside the arena, and a string whose escape flag is
  clear has no byte that JSON requires to be escaped.
\<close>

definition string_wf :: "byte list \<Rightarrow> nat \<Rightarrow> ij_owned_string_t \<Rightarrow> bool" where
  "string_wf mem c s \<longleftrightarrow>
     (case str_data s of
        None \<Rightarrow> str_len s = 0
      | Some off \<Rightarrow> off + str_len s < c \<and> c_at mem (off + str_len s) = 0) \<and>
     (\<not> str_needs_json_escape s \<longrightarrow> \<not> has_special (owned_bytes mem s))"

fun owned_value_wf :: "byte list \<Rightarrow> nat \<Rightarrow> ij_owned_attr_value_t \<Rightarrow> bool" where
  "owned_value_wf mem c (OWNED_STRING s) = string_wf mem c s"
| "owned_value_wf mem c _ = True"

definition owned_attr_wf :: "byte list \<Rightarrow> nat \<Rightarrow> ij_owned_attr_t \<Rightarrow> bool" where
  "owned_attr_wf mem c a \<longleftrightarrow> string_wf mem c (own_key a) \<and> owned_value_wf mem c (own_value a)"

definition fields_wf :: "byte list \<Rightarrow> nat \<Rightarrow> ij_event_copy_t \<Rightarrow> bool" where
  "fields_wf mem c cp \<longleftrightarrow>
     string_wf mem c (cp_event_name cp) \<and> string_wf mem c (cp_message cp) \<and>
     string_wf mem c (cp_logger_name cp) \<and> string_wf mem c (cp_source_file cp) \<and>
     string_wf mem c (cp_source_function cp)"

definition copy_wf :: "ij_event_copy_t \<Rightarrow> bool" where
  "copy_wf cp \<longleftrightarrow>
     length (arena cp) = cp_text_arena_size cp \<and>
     fields_wf (arena cp) (cp_text_arena_size cp) cp \<and>
     list_all (owned_attr_wf (arena cp) (cp_text_arena_size cp)) (cp_attributes cp)"

section \<open>Writes beyond the cursor keep what is below it\<close>

definition extends :: "byte list \<times> nat \<Rightarrow> byte list \<times> nat \<Rightarrow> bool" where
  "extends mc mc' \<longleftrightarrow>
     snd mc \<le> snd mc' \<and> length (fst mc') = length (fst mc) \<and>
     take (snd mc) (fst mc') = take (snd mc) (fst mc)"

lemma extends_refl [simp]: "extends mc mc"
  by (simp add: extends_def)

lemma extends_trans [trans]: "extends a b \<Longrightarrow> extends b c \<Longrightarrow> extends a c"
proof -
  assume ab: "extends a b" and bc: "extends b c"
  from ab have le: "snd a \<le> snd b" by (simp add: extends_def)
  have "take (snd a) (fst c) = take (snd a) (take (snd b) (fst c))"
    using le by (simp add: min_def)
  also from bc have "take (snd b) (fst c) = take (snd b) (fst b)" by (simp add: extends_def)
  also have "take (snd a) (take (snd b) (fst b)) = take (snd a) (fst b)"
    using le by (simp add: min_def)
  also from ab have "take (snd a) (fst b) = take (snd a) (fst a)" by (simp add: extends_def)
  finally show ?thesis using ab bc by (simp add: extends_def)
qed

lemma extends_c_at: "extends (mem, c) (mem', c') \<Longrightarrow> i < c \<Longrightarrow> c_at mem' i = c_at mem i"
proof -
  assume e: "extends (mem, c) (mem', c')" and i: "i < c"
  have "mem' ! i = take c mem' ! i" "mem ! i = take c mem ! i" using i by simp_all
  with e show ?thesis by (simp add: extends_def c_at_def)
qed

lemma extends_owned_bytes:
  assumes "extends (mem, c) (mem', c')" and "string_wf mem c s"
  shows "owned_bytes mem' s = owned_bytes mem s"
proof (cases "str_data s")
  case (Some off)
  with assms have "\<forall>i\<in>{off..<off + str_len s}. c_at mem' i = c_at mem i"
    by (auto simp: string_wf_def intro!: extends_c_at [OF assms(1)])
  with Some show ?thesis by (simp add: owned_bytes_def c_mem_ptr_add)
qed (simp add: owned_bytes_def)

lemma extends_string_wf:
  "extends (mem, c) (mem', c') \<Longrightarrow> string_wf mem c s \<Longrightarrow> string_wf mem' c' s"
  using extends_owned_bytes [of mem c mem' c' s] extends_c_at [of mem c mem' c']
  by (auto simp: string_wf_def extends_def split: option.splits)

lemma extends_opt_bytes:
  "extends (mem, c) (mem', c') \<Longrightarrow> string_wf mem c s \<Longrightarrow> opt_bytes mem' s = opt_bytes mem s"
  using extends_owned_bytes [of mem c mem' c' s] by (simp add: opt_bytes_def split: option.splits)

lemma extends_attr:
  assumes "extends (mem, c) (mem', c')" and "owned_attr_wf mem c a"
  shows "owned_attr_view mem' a = owned_attr_view mem a \<and> owned_attr_wf mem' c' a"
  using assms extends_owned_bytes [OF assms(1)] extends_string_wf [OF assms(1)]
  by (cases "own_value a") (auto simp: owned_attr_view_def owned_attr_wf_def)

lemma extends_fields_wf:
  "extends (mem, c) (mem', c') \<Longrightarrow> fields_wf mem c cp \<Longrightarrow> fields_wf mem' c' cp"
  using extends_string_wf [of mem c mem' c'] by (auto simp: fields_wf_def)

lemma mem_write_at:
  assumes "c + length bs \<le> length mem" and "length bs \<le> n"
  shows "\<exists>mem'. mem_write mem c bs = Some mem' \<and> extends (mem, c) (mem', c + n) \<and>
           (\<forall>k<length bs. c_at mem' (c + k) = bs ! k)"
  using assms
  by (simp add: mem_write_def extends_def c_at_def nth_append)

text \<open>One string: it fits, reads back as the source bytes, and nothing below the cursor changes.\<close>

lemma copy_owned_string:
  assumes "cursor + capacity + 1 \<le> length mem" and "len \<le> capacity"
    and "\<not> esc \<longrightarrow> \<not> has_special (c_mem v len)"
  shows "\<exists>s mem'. ij_copy_owned_string_into_arena v len capacity esc (mem, cursor) =
             Some (s, mem', cursor + (capacity + 1)) \<and>
           str_data s = Some cursor \<and> str_len s = len \<and>
           extends (mem, cursor) (mem', cursor + (capacity + 1)) \<and>
           owned_bytes mem' s = c_mem v len \<and> string_wf mem' (cursor + (capacity + 1)) s"
proof -
  obtain mem' where w: "mem_write mem cursor (c_mem v len @ [0]) = Some mem'"
    and e: "extends (mem, cursor) (mem', cursor + (capacity + 1))"
    and r: "\<And>k. k < len + 1 \<Longrightarrow> c_at mem' (cursor + k) = (c_mem v len @ [0]) ! k"
    using mem_write_at [of cursor "c_mem v len @ [0]" mem "capacity + 1"] assms by auto
  have "map (c_at mem') [cursor..<cursor + len] = c_mem v len"
    by (rule nth_equalityI) (use r in \<open>simp_all add: nth_append\<close>)
  then show ?thesis
    using w e assms r [of len]
    by (simp add: nth_append ij_copy_owned_string_into_arena_def owned_bytes_def string_wf_def c_mem_ptr_add)
qed

section \<open>The scanning pass\<close>

definition field_size :: "cstring \<Rightarrow> size_t" where
  "field_size value = (case value of None \<Rightarrow> 0 | Some v \<Rightarrow> strlen v + 1)"

definition field_escape :: "cstring \<Rightarrow> bool" where
  "field_escape value = has_special (text_of value)"

definition event_lens :: "ij_event_t \<Rightarrow> field_lens" where
  "event_lens event =
     \<lparr>event_name_len = opt_strlen (ev_event_name event), message_len = opt_strlen (ev_message event),
      logger_len = opt_strlen (ev_logger event), source_file_len = opt_strlen (ev_source_file event),
      source_function_len = opt_strlen (ev_source_function event)\<rparr>"

definition flag_string :: "cstring \<Rightarrow> ij_owned_string_t" where
  "flag_string value = set_escape (field_escape value) null_string"

definition scanned_event :: "ij_event_t \<Rightarrow> ij_event_copy_t" where
  "scanned_event event =
     zero_event_copy\<lparr>cp_event_name := flag_string (ev_event_name event),
       cp_message := flag_string (ev_message event), cp_logger_name := flag_string (ev_logger event),
       cp_source_file := flag_string (ev_source_file event),
       cp_source_function := flag_string (ev_source_function event)\<rparr>"

lemma scan_string_field_cases:
  "ij_scan_string_field_copy cpu value max_len allow_empty =
     (if valid_text max_len allow_empty value then Some (opt_strlen value, field_escape value) else None)"
  by (auto simp: scan_string_field_iff scan_result_def opt_strlen_def field_escape_def text_of_def
      valid_text_def split: option.splits)

lemma scan_optional_field_cases:
  "scan_optional_field cpu value max_len =
     (if valid_optional_text max_len value then Some (opt_strlen value, field_escape value) else None)"
  by (auto simp: scan_optional_field_def scan_string_field_cases valid_optional_text_def opt_strlen_def
      field_escape_def text_of_def has_special_def)

text \<open>A copy that owns nothing: what every early return leaves behind.\<close>

definition owns_nothing :: "ij_event_copy_t \<Rightarrow> bool" where
  "owns_nothing cp \<longleftrightarrow> cp_text_arena cp = None \<and> cp_attributes cp = []"

lemma owns_nothing_zero [simp]: "owns_nothing zero_event_copy"
  by (simp add: owns_nothing_def zero_event_copy_def)

lemma zero_event_copy_strings [simp]:
  "cp_event_name zero_event_copy = null_string" "cp_message zero_event_copy = null_string"
  "cp_logger_name zero_event_copy = null_string" "cp_source_file zero_event_copy = null_string"
  "cp_source_function zero_event_copy = null_string" "cp_attributes zero_event_copy = []"
  "cp_text_arena zero_event_copy = None"
  by (simp_all add: zero_event_copy_def)

lemma copy_scan_fields_valid:
  "valid_event_fields event \<Longrightarrow>
   copy_scan_fields cpu event zero_event_copy = Inr (event_lens event, scanned_event event)"
  by (simp add: copy_scan_fields_def scan_string_field_cases scan_optional_field_cases
      valid_event_fields_def event_lens_def scanned_event_def flag_string_def Let_def)

lemma copy_scan_fields_invalid:
  "\<not> valid_event_fields event \<Longrightarrow>
   \<exists>out. copy_scan_fields cpu event zero_event_copy = Inl out \<and> owns_nothing out"
  by (auto simp: copy_scan_fields_def scan_string_field_cases scan_optional_field_cases
      valid_event_fields_def owns_nothing_def Let_def)

definition attr_scan_of :: "ij_redaction_mode_t \<Rightarrow> ij_attr_t \<Rightarrow> attr_scan" where
  "attr_scan_of mode a =
     \<lparr>scan_key_mem = key_mem a, scan_key_len = strlen (key_mem a),
      scan_key_escape = has_special (attr_name a),
      scan_string_escape =
        (case input_value_view (attr_value a) of VString bs \<Rightarrow> has_special bs | _ \<Rightarrow> False),
      scan_should_redact = must_redact mode a\<rparr>"

definition attr_arena_size :: "ij_attr_t \<Rightarrow> size_t" where
  "attr_arena_size a =
     strlen (key_mem a) + 1 +
     (case attr_value a of IJ_ATTR_VALUE_STRING _ len \<Rightarrow> max len 10 + 1 | _ \<Rightarrow> 0)"

lemma scan_attr_value_cases:
  "scan_attr_value cpu v =
     (if valid_value v
      then Some (case input_value_view v of VString bs \<Rightarrow> has_special bs | _ \<Rightarrow> False) else None)"
proof (cases v)
  case (IJ_ATTR_VALUE_STRING data len)
  then show ?thesis
    by (cases data) (simp_all add: scan_attr_value_def validate_attr_string_iff valid_value_def)
qed (simp_all add: scan_attr_value_def validate_attr_value_iff valid_value_def)

lemma valid_attr_key: "valid_attr a \<Longrightarrow> attr_key a = Some (key_mem a)"
  by (auto simp: valid_attr_def valid_text_def key_mem_def split: option.splits)

lemma key_redact_iff:
  "valid_attr a \<Longrightarrow>
   ij_key_should_redact_n (attr_key a) (strlen (key_mem a)) \<longleftrightarrow> sensitive (attr_name a)"
  by (simp add: valid_attr_key should_redact_n_iff attr_name_def)

lemma duplicate_scan_iff:
  "list_ex (\<lambda>s. ij_attr_keys_equal (key_mem a) (strlen (key_mem a)) (scan_key_mem s) (scan_key_len s))
     (map (attr_scan_of mode) prev) \<longleftrightarrow> attr_name a \<in> attr_name ` set prev"
  by (auto simp: list_ex_iff attr_scan_of_def attr_keys_equal_iff)

definition attrs_accept :: "ij_attr_t list \<Rightarrow> ij_attr_t list \<Rightarrow> size_t \<Rightarrow> bool" where
  "attrs_accept prev as n \<longleftrightarrow>
     (\<forall>a\<in>set as. valid_attr a) \<and> distinct (map attr_name as) \<and>
     attr_name ` set prev \<inter> attr_name ` set as = {} \<and>
     n + sum_list (map attr_text_size as) \<le> IJ_EVENT_TEXT_MAX_LEN"

lemma attrs_accept_Cons:
  "attrs_accept prev (a # as) n \<longleftrightarrow>
     valid_attr a \<and> attr_name a \<notin> attr_name ` set prev \<and>
     n + attr_text_size a \<le> IJ_EVENT_TEXT_MAX_LEN \<and> attrs_accept (prev @ [a]) as (n + attr_text_size a)"
  by (auto simp: attrs_accept_def)

text \<open>One round of the loop on a valid attribute with a new key.\<close>

lemma copy_scan_attrs_step:
  assumes "valid_attr a" and "attr_name a \<notin> attr_name ` set prev"
  shows "copy_scan_attrs cpu mode (a # as) (map (attr_scan_of mode) prev) n out =
    (let out' = out\<lparr>cp_text_arena_size := cp_text_arena_size out + attr_arena_size a\<rparr> in
     if n + attr_text_size a > IJ_EVENT_TEXT_MAX_LEN then Inl out'
     else copy_scan_attrs cpu mode as (map (attr_scan_of mode) (prev @ [a])) (n + attr_text_size a) out')"
proof -
  have key: "valid_text IJ_ATTRIBUTE_KEY_MAX_LEN False (attr_key a)" and val: "valid_value (attr_value a)"
    using assms(1) by (simp_all add: valid_attr_def)
  have len: "opt_strlen (attr_key a) = strlen (key_mem a)"
    and esc: "field_escape (attr_key a) = has_special (attr_name a)"
    using valid_attr_key [OF assms(1)]
    by (simp_all add: opt_strlen_def field_escape_def text_of_def attr_name_def)
  have scan: "attr_scan_of mode a =
     \<lparr>scan_key_mem = key_mem a, scan_key_len = strlen (key_mem a),
      scan_key_escape = has_special (attr_name a),
      scan_string_escape =
        (case input_value_view (attr_value a) of VString bs \<Rightarrow> has_special bs | _ \<Rightarrow> False),
      scan_should_redact = (mode = IJ_REDACTION_MODE_ENABLED \<and> is_string_value (attr_value a) \<and>
                     ij_key_should_redact_n (attr_key a) (strlen (key_mem a)))\<rparr>"
    by (simp add: attr_scan_of_def must_redact_def key_redact_iff [OF assms(1)])
  show ?thesis
    using duplicate_scan_iff [of a mode prev] assms(2)
    by (simp add: scan_string_field_cases scan_attr_value_cases key val len esc scan Let_def
        attr_arena_size_def attr_text_size_def value_text_size_def redacted_size_def ij_max_size_def
        max_def add.assoc split: ij_attr_value_t.split)
qed

lemma copy_scan_attrs_spec:
  "n \<le> IJ_EVENT_TEXT_MAX_LEN \<Longrightarrow> owns_nothing out \<Longrightarrow>
   (if attrs_accept prev as n
    then copy_scan_attrs cpu mode as (map (attr_scan_of mode) prev) n out =
      Inr (map (attr_scan_of mode) (prev @ as),
           out\<lparr>cp_text_arena_size := cp_text_arena_size out + sum_list (map attr_arena_size as)\<rparr>)
    else \<exists>out'. copy_scan_attrs cpu mode as (map (attr_scan_of mode) prev) n out = Inl out' \<and>
           owns_nothing out')"
proof (induction as arbitrary: prev n out)
  case Nil
  then show ?case by (simp add: attrs_accept_def)
next
  case (Cons a as)
  show ?case
  proof (cases "valid_attr a \<and> attr_name a \<notin> attr_name ` set prev")
    case True
    then have va: "valid_attr a" and na: "attr_name a \<notin> attr_name ` set prev" by auto
    let ?out = "out\<lparr>cp_text_arena_size := cp_text_arena_size out + attr_arena_size a\<rparr>"
    have "owns_nothing ?out" using Cons.prems(2) by (simp add: owns_nothing_def)
    with Cons.IH [of "n + attr_text_size a" ?out "prev @ [a]"] show ?thesis
      unfolding copy_scan_attrs_step [OF va na] attrs_accept_Cons
      by (auto simp: va na Let_def add.assoc not_le)
  next
    case False
    then have "\<not> valid_attr a \<or> (valid_attr a \<and> attr_name a \<in> attr_name ` set prev)" by blast
    moreover have "opt_strlen (attr_key a) = strlen (key_mem a)" if "valid_attr a"
      using valid_attr_key [OF that] by (simp add: opt_strlen_def)
    ultimately have "copy_scan_attrs cpu mode (a # as) (map (attr_scan_of mode) prev) n out = Inl out"
      using duplicate_scan_iff [of a mode prev]
      by (auto simp: valid_attr_def scan_string_field_cases scan_attr_value_cases)
    with Cons.prems(2) False show ?thesis by (auto simp: attrs_accept_Cons)
  qed
qed

section \<open>The writing pass\<close>

lemma copy_field_some:
  assumes "cursor + field_size (Some v) \<le> length mem"
    and "str_needs_json_escape s = field_escape (Some v)"
  shows "\<exists>s' mem'. ij_copy_owned_string_into_arena v (opt_strlen (Some v)) (opt_strlen (Some v))
             (str_needs_json_escape s) (mem, cursor) = Some (s', mem', cursor + field_size (Some v)) \<and>
           extends (mem, cursor) (mem', cursor + field_size (Some v)) \<and>
           opt_bytes mem' s' = Some (c_text v) \<and> string_wf mem' (cursor + field_size (Some v)) s'"
  using copy_owned_string [of cursor "strlen v" mem "strlen v" "str_needs_json_escape s" v] assms
  by (auto simp: field_size_def opt_strlen_def opt_bytes_def field_escape_def text_of_def)

lemma copy_optional_field_spec:
  assumes "cursor + field_size value \<le> length mem"
  shows "\<exists>s' mem'. copy_optional_field value (opt_strlen value) (flag_string value) (mem, cursor) =
             Some (s', mem', cursor + field_size value) \<and>
           extends (mem, cursor) (mem', cursor + field_size value) \<and>
           opt_bytes mem' s' = opt_text value \<and> string_wf mem' (cursor + field_size value) s'"
proof (cases "value")
  case None
  then show ?thesis
    by (simp add: copy_optional_field_def field_size_def opt_bytes_def opt_text_def flag_string_def
        set_escape_def null_string_def string_wf_def owned_bytes_def has_special_def field_escape_def
        text_of_def)
next
  case (Some v)
  then show ?thesis
    using copy_field_some [of cursor v mem "flag_string value"] assms
    by (simp add: copy_optional_field_def opt_text_def flag_string_def set_escape_def)
qed

lemma copy_required_field_spec:
  assumes "cursor + field_size (Some v) \<le> length mem"
  shows "\<exists>s' mem'. copy_required_field (Some v) (opt_strlen (Some v)) (flag_string (Some v)) (mem, cursor) =
             Some (s', mem', cursor + field_size (Some v)) \<and>
           extends (mem, cursor) (mem', cursor + field_size (Some v)) \<and>
           opt_bytes mem' s' = Some (c_text v) \<and> string_wf mem' (cursor + field_size (Some v)) s'"
  using copy_field_some [of cursor v mem "flag_string (Some v)"] assms
  by (simp add: copy_required_field_def flag_string_def set_escape_def)

lemma opt_bytes_SomeD: "opt_bytes mem s = Some bs \<Longrightarrow> owned_bytes mem s = bs"
  by (simp add: opt_bytes_def split: option.splits)

definition fields_size :: "ij_event_t \<Rightarrow> size_t" where
  "fields_size event =
     field_size (ev_event_name event) + field_size (ev_message event) + field_size (ev_logger event) +
     field_size (ev_source_file event) + field_size (ev_source_function event)"

lemma fields_arena_size_eq:
  "valid_event_fields event \<Longrightarrow> fields_arena_size event (event_lens event) = fields_size event"
  by (auto simp: fields_arena_size_def fields_size_def field_size_def event_lens_def opt_strlen_def
      valid_event_fields_def valid_text_def split: option.splits)

text \<open>The five fields of a copy read from the arena.\<close>

definition fields_view ::
  "byte list \<Rightarrow> ij_event_copy_t \<Rightarrow>
     byte list \<times> byte list \<times> byte list option \<times> byte list option \<times> byte list option" where
  "fields_view mem cp =
     (owned_bytes mem (cp_event_name cp), owned_bytes mem (cp_message cp),
      opt_bytes mem (cp_logger_name cp), opt_bytes mem (cp_source_file cp),
      opt_bytes mem (cp_source_function cp))"

definition input_fields_view ::
  "ij_event_t \<Rightarrow> byte list \<times> byte list \<times> byte list option \<times> byte list option \<times> byte list option" where
  "input_fields_view event =
     (text_of (ev_event_name event), text_of (ev_message event), opt_text (ev_logger event),
      opt_text (ev_source_file event), opt_text (ev_source_function event))"

lemma extends_fields_view:
  assumes "extends (mem, c) (mem', c')" and "fields_wf mem c cp"
  shows "fields_view mem' cp = fields_view mem cp"
  using assms extends_owned_bytes [OF assms(1)] extends_opt_bytes [OF assms(1)]
  by (simp add: fields_view_def fields_wf_def)

definition with_flags :: "ij_event_t \<Rightarrow> ij_event_copy_t \<Rightarrow> bool" where
  "with_flags event out \<longleftrightarrow>
     cp_event_name out = flag_string (ev_event_name event) \<and>
     cp_message out = flag_string (ev_message event) \<and>
     cp_logger_name out = flag_string (ev_logger event) \<and>
     cp_source_file out = flag_string (ev_source_file event) \<and>
     cp_source_function out = flag_string (ev_source_function event)"

lemma copy_write_fields_spec:
  assumes valid: "valid_event_fields event" and flags: "with_flags event out"
    and room: "fields_size event \<le> length mem"
  shows "\<exists>n m l f g mem'.
     let out' = out\<lparr>cp_event_name := n, cp_message := m, cp_logger_name := l, cp_source_file := f,
                    cp_source_function := g\<rparr> in
     copy_write_fields event (event_lens event) out mem = Some (out', mem', fields_size event) \<and>
     length mem' = length mem \<and> fields_view mem' out' = input_fields_view event \<and>
     fields_wf mem' (fields_size event) out'"
proof -
  obtain nv mv where nv: "ev_event_name event = Some nv" and mv: "ev_message event = Some mv"
    using valid by (auto simp: valid_event_fields_def valid_text_def split: option.splits)
  let ?c1 = "0 + field_size (Some nv)" let ?c2 = "?c1 + field_size (Some mv)"
  let ?c3 = "?c2 + field_size (ev_logger event)" let ?c4 = "?c3 + field_size (ev_source_file event)"
  let ?c5 = "?c4 + field_size (ev_source_function event)"
  have c5: "?c5 = fields_size event" by (simp add: fields_size_def nv mv)
  from room c5 have "?c1 \<le> length mem" by linarith
  from copy_required_field_spec [OF this] obtain n m1 where 1:
    "copy_required_field (Some nv) (opt_strlen (Some nv)) (flag_string (Some nv)) (mem, 0) = Some (n, m1, ?c1)"
    "extends (mem, 0) (m1, ?c1)" "opt_bytes m1 n = Some (c_text nv)" "string_wf m1 ?c1 n" by blast
  from 1(2) room c5 have "?c2 \<le> length m1" by (simp add: extends_def)
  from copy_required_field_spec [OF this] obtain m m2 where 2:
    "copy_required_field (Some mv) (opt_strlen (Some mv)) (flag_string (Some mv)) (m1, ?c1) = Some (m, m2, ?c2)"
    "extends (m1, ?c1) (m2, ?c2)" "opt_bytes m2 m = Some (c_text mv)" "string_wf m2 ?c2 m" by blast
  from 1(2) 2(2) room c5 have "?c3 \<le> length m2" by (simp add: extends_def)
  from copy_optional_field_spec [OF this] obtain l m3 where 3:
    "copy_optional_field (ev_logger event) (opt_strlen (ev_logger event)) (flag_string (ev_logger event))
       (m2, ?c2) = Some (l, m3, ?c3)"
    "extends (m2, ?c2) (m3, ?c3)" "opt_bytes m3 l = opt_text (ev_logger event)" "string_wf m3 ?c3 l" by blast
  from 1(2) 2(2) 3(2) room c5 have "?c4 \<le> length m3" by (simp add: extends_def)
  from copy_optional_field_spec [OF this] obtain f m4 where 4:
    "copy_optional_field (ev_source_file event) (opt_strlen (ev_source_file event))
       (flag_string (ev_source_file event)) (m3, ?c3) = Some (f, m4, ?c4)"
    "extends (m3, ?c3) (m4, ?c4)" "opt_bytes m4 f = opt_text (ev_source_file event)" "string_wf m4 ?c4 f" by blast
  from 1(2) 2(2) 3(2) 4(2) room c5 have "?c5 \<le> length m4" by (simp add: extends_def)
  from copy_optional_field_spec [OF this] obtain g m5 where 5:
    "copy_optional_field (ev_source_function event) (opt_strlen (ev_source_function event))
       (flag_string (ev_source_function event)) (m4, ?c4) = Some (g, m5, ?c5)"
    "extends (m4, ?c4) (m5, ?c5)" "opt_bytes m5 g = opt_text (ev_source_function event)"
    "string_wf m5 ?c5 g" by blast
  note e4 = 5(2) and e3 = extends_trans [OF 4(2) 5(2)]
  note e2 = extends_trans [OF 3(2) e3]
  note e1 = extends_trans [OF 2(2) e2]
  let ?out = "out\<lparr>cp_event_name := n, cp_message := m, cp_logger_name := l, cp_source_file := f,
                  cp_source_function := g\<rparr>"
  have "copy_write_fields event (event_lens event) out mem = Some (?out, m5, ?c5)"
    using 1(1) 2(1) 3(1) 4(1) 5(1) flags
    by (simp add: copy_write_fields_def event_lens_def with_flags_def nv mv del: add_0)
  moreover have "length m5 = length mem"
    using 1(2) e1 by (simp add: extends_def)
  moreover have "fields_view m5 ?out = input_fields_view event"
    using extends_opt_bytes [OF e1 1(4)] extends_opt_bytes [OF e2 2(4)] extends_opt_bytes [OF e3 3(4)]
      extends_opt_bytes [OF e4 4(4)] 1(3) 2(3) 3(3) 4(3) 5(3)
    by (simp add: fields_view_def input_fields_view_def nv mv text_of_def opt_bytes_SomeD)
  moreover have "fields_wf m5 ?c5 ?out"
    using extends_string_wf [OF e1 1(4)] extends_string_wf [OF e2 2(4)] extends_string_wf [OF e3 3(4)]
      extends_string_wf [OF e4 4(4)] 5(4) by (simp add: fields_wf_def)
  ultimately show ?thesis unfolding c5 Let_def by blast
qed

lemma redacted_no_special: "\<not> has_special IJ_REDACTED_LITERAL"
  by (simp add: has_special_def IJ_REDACTED_LITERAL_def json_special_def)

lemma overwrite_redacted_spec:
  assumes "str_data s = Some off" and "off + 11 \<le> length mem" and "off + 11 \<le> c"
  shows "\<exists>mem'. overwrite_redacted (OWNED_STRING s) mem =
             Some (OWNED_STRING (s\<lparr>str_len := 10\<rparr>), mem') \<and>
           extends (mem, off) (mem', c) \<and>
           owned_bytes mem' (s\<lparr>str_len := 10\<rparr>) = IJ_REDACTED_LITERAL \<and>
           string_wf mem' c (s\<lparr>str_len := 10\<rparr>)"
proof -
  obtain mem' where w: "mem_write mem off (IJ_REDACTED_LITERAL @ [0]) = Some mem'"
    and e: "extends (mem, off) (mem', off + (c - off))"
    and r: "\<And>k. k < 11 \<Longrightarrow> c_at mem' (off + k) = (IJ_REDACTED_LITERAL @ [0]) ! k"
    using mem_write_at [of off "IJ_REDACTED_LITERAL @ [0]" mem "c - off"] assms
    by (auto simp: le_diff_conv2)
  have "map (c_at mem') [off..<off + 10] = IJ_REDACTED_LITERAL"
    by (rule nth_equalityI) (use r in \<open>simp_all add: nth_append\<close>)
  then have b: "owned_bytes mem' (s\<lparr>str_len := 10\<rparr>) = IJ_REDACTED_LITERAL"
    by (simp add: owned_bytes_def assms(1) c_mem_ptr_add)
  with w e assms r [of 10] show ?thesis
    by (simp add: nth_append overwrite_redacted_def redacted_size_def string_wf_def redacted_no_special)
qed

definition value_arena_size :: "ij_attr_value_t \<Rightarrow> size_t" where
  "value_arena_size v = (case v of IJ_ATTR_VALUE_STRING _ len \<Rightarrow> max len 10 + 1 | _ \<Rightarrow> 0)"

definition value_escape :: "ij_attr_value_t \<Rightarrow> bool" where
  "value_escape v = (case input_value_view v of VString bs \<Rightarrow> has_special bs | _ \<Rightarrow> False)"

text \<open>
  A value, and its overwriting when it has to be redacted. The slot of a string has room for the
  literal, so the overwrite stays inside it.
\<close>

lemma copy_attr_value_string:
  assumes "cursor + value_arena_size (IJ_ATTR_VALUE_STRING (Some d) len) \<le> length mem"
  shows "\<exists>s mem'. ij_copy_attr_value_into_arena (IJ_ATTR_VALUE_STRING (Some d) len)
             (value_escape (IJ_ATTR_VALUE_STRING (Some d) len)) (mem, cursor) =
             Some (Inr (OWNED_STRING s, mem', cursor + (max len 10 + 1))) \<and>
           str_data s = Some cursor \<and>
           extends (mem, cursor) (mem', cursor + (max len 10 + 1)) \<and>
           owned_bytes mem' s = c_mem d len \<and> string_wf mem' (cursor + (max len 10 + 1)) s"
proof -
  have "ij_max_size len redacted_size = max len 10"
    by (simp add: ij_max_size_def redacted_size_def max_def)
  then show ?thesis
    using copy_owned_string [of cursor "max len 10" mem len
        "value_escape (IJ_ATTR_VALUE_STRING (Some d) len)" d] assms
    by (auto simp: ij_copy_attr_value_into_arena_def value_arena_size_def value_escape_def)
qed

definition write_value ::
  "bool \<Rightarrow> bool \<Rightarrow> ij_attr_value_t \<Rightarrow> byte list \<times> nat \<Rightarrow>
     (ij_status_t + (ij_owned_attr_value_t \<times> byte list \<times> nat)) option" where
  "write_value redact esc v mc =
     (case ij_copy_attr_value_into_arena v esc mc of
        None \<Rightarrow> None
      | Some (Inl status) \<Rightarrow> Some (Inl status)
      | Some (Inr (value, mem, cursor)) \<Rightarrow>
          if redact then
            (case overwrite_redacted value mem of
               None \<Rightarrow> None | Some (value, mem) \<Rightarrow> Some (Inr (value, mem, cursor)))
          else Some (Inr (value, mem, cursor)))"

lemma write_value_spec:
  assumes valid: "valid_value v" and room: "cursor + value_arena_size v \<le> length mem"
    and redact: "redact \<longrightarrow> is_string_value v"
  shows "\<exists>value mem'. write_value redact (value_escape v) v (mem, cursor) =
             Some (Inr (value, mem', cursor + value_arena_size v)) \<and>
           extends (mem, cursor) (mem', cursor + value_arena_size v) \<and>
           owned_value_view mem' value =
             (if redact then VString IJ_REDACTED_LITERAL else input_value_view v) \<and>
           owned_value_wf mem' (cursor + value_arena_size v) value"
proof (cases v)
  case (IJ_ATTR_VALUE_STRING data len)
  with valid obtain d where v: "v = IJ_ATTR_VALUE_STRING (Some d) len"
    by (cases data) (auto simp: valid_value_def)
  let ?c = "cursor + (max len 10 + 1)"
  have size: "value_arena_size v = max len 10 + 1" by (simp add: v value_arena_size_def)
  from copy_attr_value_string [OF room [unfolded v]] obtain s mem1 where 1:
    "ij_copy_attr_value_into_arena v (value_escape v) (mem, cursor) = Some (Inr (OWNED_STRING s, mem1, ?c))"
    "str_data s = Some cursor" "extends (mem, cursor) (mem1, ?c)" "owned_bytes mem1 s = c_mem d len"
    "string_wf mem1 ?c s" unfolding v by blast
  show ?thesis
  proof (cases redact)
    case True
    have "cursor + 11 \<le> ?c" by simp
    moreover have "cursor + 11 \<le> length mem1" using 1(3) room size by (simp add: extends_def)
    ultimately obtain mem2 where 2:
      "overwrite_redacted (OWNED_STRING s) mem1 = Some (OWNED_STRING (s\<lparr>str_len := 10\<rparr>), mem2)"
      "extends (mem1, cursor) (mem2, ?c)" "owned_bytes mem2 (s\<lparr>str_len := 10\<rparr>) = IJ_REDACTED_LITERAL"
      "string_wf mem2 ?c (s\<lparr>str_len := 10\<rparr>)"
      using overwrite_redacted_spec [OF 1(2)] by blast
    have "extends (mem, cursor) (mem1, cursor)" using 1(3) by (simp add: extends_def)
    from extends_trans [OF this 2(2)] show ?thesis
      unfolding size write_value_def 1(1) using True 2 by simp
  next
    case False
    then show ?thesis unfolding size write_value_def 1(1) using 1 v by simp
  qed
qed (use valid redact in \<open>simp_all add: write_value_def ij_copy_attr_value_into_arena_def
  value_arena_size_def is_string_value_def valid_value_def\<close>)

lemma copy_write_attrs_step:
  "copy_write_attrs ((a, s) # rest) done mc =
     (case ij_copy_owned_string_into_arena (key_mem a) (scan_key_len s) (scan_key_len s)
             (scan_key_escape s) mc of
        None \<Rightarrow> None
      | Some (key, mc) \<Rightarrow>
          (case write_value (scan_should_redact s) (scan_string_escape s) (attr_value a) mc of
             None \<Rightarrow> None
           | Some (Inl status) \<Rightarrow> Some (Inl status)
           | Some (Inr (value, mc)) \<Rightarrow>
               copy_write_attrs rest (done @ [\<lparr>own_key = key, own_value = value\<rparr>]) mc))"
  by (auto simp: write_value_def split: option.splits sum.splits)

text \<open>The loop: it never leaves the arena, and the new attributes have the view of the input.\<close>

lemma copy_write_attrs_spec:
  assumes "\<forall>a\<in>set as. valid_attr a" and "cursor + sum_list (map attr_arena_size as) \<le> length mem"
  shows "\<exists>new mem' cursor'.
     copy_write_attrs (zip as (map (attr_scan_of mode) as)) done (mem, cursor) =
       Some (Inr (done @ new, mem', cursor')) \<and>
     cursor' = cursor + sum_list (map attr_arena_size as) \<and>
     extends (mem, cursor) (mem', cursor') \<and>
     map (owned_attr_view mem') new = map (input_attr_view mode) as \<and>
     list_all (owned_attr_wf mem' cursor') new"
  using assms
proof (induction as arbitrary: "done" mem cursor)
  case Nil
  then show ?case by simp
next
  case (Cons a as)
  let ?s = "attr_scan_of mode a"
  let ?c1 = "cursor + (strlen (key_mem a) + 1)"
  let ?c2 = "?c1 + value_arena_size (attr_value a)"
  have c2: "?c2 = cursor + attr_arena_size a"
    by (simp add: attr_arena_size_def value_arena_size_def)
  have va: "valid_value (attr_value a)" using Cons.prems(1) by (simp add: valid_attr_def)
  have "cursor + strlen (key_mem a) + 1 \<le> length mem" using Cons.prems(2) c2 by simp
  from copy_owned_string [OF this le_refl, of "has_special (attr_name a)" "key_mem a"]
  obtain key mem1 where 1:
    "ij_copy_owned_string_into_arena (key_mem a) (strlen (key_mem a)) (strlen (key_mem a))
       (has_special (attr_name a)) (mem, cursor) = Some (key, mem1, ?c1)"
    "extends (mem, cursor) (mem1, ?c1)" "owned_bytes mem1 key = attr_name a" "string_wf mem1 ?c1 key"
    by (auto simp: attr_name_def)
  have "?c2 \<le> length mem1" using 1(2) Cons.prems(2) c2 by (simp add: extends_def)
  from write_value_spec [OF va this, of "must_redact mode a"] obtain v mem2 where 2:
    "write_value (must_redact mode a) (value_escape (attr_value a)) (attr_value a) (mem1, ?c1) =
       Some (Inr (v, mem2, ?c2))"
    "extends (mem1, ?c1) (mem2, ?c2)"
    "owned_value_view mem2 v =
      (if must_redact mode a then VString IJ_REDACTED_LITERAL else input_value_view (attr_value a))"
    "owned_value_wf mem2 ?c2 v"
    by (auto simp: must_redact_def)
  let ?new = "\<lparr>own_key = key, own_value = v\<rparr>"
  have wf: "owned_attr_wf mem2 ?c2 ?new"
    using extends_string_wf [OF 2(2) 1(4)] 2(4) by (simp add: owned_attr_wf_def)
  have view: "owned_attr_view mem2 ?new = input_attr_view mode a"
    using extends_owned_bytes [OF 2(2) 1(4)] 1(3) 2(3)
    by (simp add: owned_attr_view_def input_attr_view_def)
  have "?c2 + sum_list (map attr_arena_size as) \<le> length mem2"
    using 1(2) 2(2) Cons.prems(2) c2 by (simp add: extends_def)
  from Cons.IH [OF _ this, of "done @ [?new]"] Cons.prems(1) obtain new mem' where 3:
    "copy_write_attrs (zip as (map (attr_scan_of mode) as)) (done @ [?new]) (mem2, ?c2) =
       Some (Inr (done @ [?new] @ new, mem', ?c2 + sum_list (map attr_arena_size as)))"
    "extends (mem2, ?c2) (mem', ?c2 + sum_list (map attr_arena_size as))"
    "map (owned_attr_view mem') new = map (input_attr_view mode) as"
    "list_all (owned_attr_wf mem' (?c2 + sum_list (map attr_arena_size as))) new"
    by auto
  have "copy_write_attrs (zip (a # as) (map (attr_scan_of mode) (a # as))) done (mem, cursor) =
      Some (Inr (done @ (?new # new), mem', ?c2 + sum_list (map attr_arena_size as)))"
    unfolding zip_Cons_Cons list.map copy_write_attrs_step
    using 1(1) 2(1) 3(1) by (simp add: attr_scan_of_def value_escape_def)
  moreover have "extends (mem, cursor) (mem', ?c2 + sum_list (map attr_arena_size as))"
    using extends_trans [OF extends_trans [OF 1(2) 2(2)] 3(2)] .
  moreover have "map (owned_attr_view mem') (?new # new) = map (input_attr_view mode) (a # as)"
    using extends_attr [OF 3(2) wf] view 3(3) by simp
  moreover have "list_all (owned_attr_wf mem' (?c2 + sum_list (map attr_arena_size as))) (?new # new)"
    using extends_attr [OF 3(2) wf] 3(4) by simp
  moreover have "?c2 + sum_list (map attr_arena_size as) =
      cursor + sum_list (map attr_arena_size (a # as))"
    unfolding c2 by simp
  ultimately show ?case by blast
qed

section \<open>The whole copy\<close>

definition arena_size :: "ij_event_t \<Rightarrow> size_t" where
  "arena_size event = fields_size event + sum_list (map attr_arena_size (event_attributes event))"

lemma copy_guard_iff: "copy_guard event \<longleftrightarrow> \<not> valid_event_frame event"
  by (auto simp: copy_guard_def valid_event_frame_def)

lemma valid_event_iff:
  "valid_event event \<longleftrightarrow>
     valid_event_frame event \<and> valid_event_fields event \<and>
     fields_text_size event \<le> IJ_EVENT_TEXT_MAX_LEN \<and>
     attrs_accept [] (event_attributes event) (fields_text_size event)"
  by (auto simp: valid_event_def attrs_accept_def)

text \<open>The output event after both scans.\<close>

definition prepared_event :: "ij_event_t \<Rightarrow> ij_event_copy_t" where
  "prepared_event event = copy_scalars event (scanned_event event\<lparr>cp_text_arena_size := arena_size event\<rparr>)"

lemma copy_from_input_invalid:
  assumes "\<not> valid_event event"
  shows "\<exists>out. ij_event_copy_from_input cpu al (Some event) mode =
           Some (IJ_STATUS_INVALID_ARGUMENT, out) \<and> owns_nothing out"
proof (cases "valid_event_frame event \<and> valid_event_fields event \<and>
    fields_text_size event \<le> IJ_EVENT_TEXT_MAX_LEN")
  case True
  let ?out = "scanned_event event\<lparr>cp_text_arena_size := fields_arena_size event (event_lens event)\<rparr>"
  from True assms have no: "\<not> attrs_accept [] (event_attributes event) (fields_text_size event)"
    by (simp add: valid_event_iff)
  have "owns_nothing ?out" by (simp add: owns_nothing_def scanned_event_def)
  with copy_scan_attrs_spec [of "fields_text_size event" ?out "[]" "event_attributes event" cpu mode]
    no True obtain out' where
    "copy_scan_attrs cpu mode (event_attributes event) [] (fields_text_size event) ?out = Inl out'"
    "owns_nothing out'" by auto
  with True show ?thesis
    by (simp add: ij_event_copy_from_input_def copy_guard_iff copy_scan_fields_valid Let_def
        fields_text_size_def event_lens_def)
next
  case False
  then consider "\<not> valid_event_frame event" | "valid_event_frame event" "\<not> valid_event_fields event"
    | "valid_event_frame event" "valid_event_fields event"
      "\<not> fields_text_size event \<le> IJ_EVENT_TEXT_MAX_LEN" by blast
  then show ?thesis
  proof cases
    case 2
    then show ?thesis
      using copy_scan_fields_invalid [OF 2(2), of cpu]
      by (auto simp: ij_event_copy_from_input_def copy_guard_iff Let_def)
  next
    case 3
    then show ?thesis
      by (simp add: ij_event_copy_from_input_def copy_guard_iff copy_scan_fields_valid Let_def
          fields_text_size_def event_lens_def scanned_event_def owns_nothing_def)
  qed (simp add: ij_event_copy_from_input_def copy_guard_iff)
qed

lemma copy_from_input_valid:
  assumes "valid_event event"
  shows "ij_event_copy_from_input cpu al (Some event) mode =
    (let out = prepared_event event; scans = map (attr_scan_of mode) (event_attributes event) in
     case malloc_arena al (arena_size event) of
        None \<Rightarrow> Some (IJ_STATUS_INTERNAL_ERROR, zero_event_copy)
      | Some mem \<Rightarrow>
     (case copy_write_fields event (event_lens event) out mem of
        None \<Rightarrow> None
      | Some (out, mem, cursor) \<Rightarrow>
     let out = out\<lparr>cp_text_arena := Some mem\<rparr> in
     if ev_attribute_count event > 0 then
       (if \<not> attrs_ok al then Some (IJ_STATUS_INTERNAL_ERROR, zero_event_copy)
        else
          (case copy_write_attrs (zip (event_attributes event) scans) [] (mem, cursor) of
             None \<Rightarrow> None
           | Some (Inl status) \<Rightarrow> Some (status, zero_event_copy)
           | Some (Inr (attrs, mem, cursor)) \<Rightarrow>
               Some (IJ_STATUS_OK, out\<lparr>cp_attributes := attrs, cp_text_arena := Some mem\<rparr>)))
     else Some (IJ_STATUS_OK, out)))"
proof -
  let ?out = "scanned_event event\<lparr>cp_text_arena_size := fields_arena_size event (event_lens event)\<rparr>"
  from assms have v: "valid_event_frame event" "valid_event_fields event"
    "fields_text_size event \<le> IJ_EVENT_TEXT_MAX_LEN"
    "attrs_accept [] (event_attributes event) (fields_text_size event)"
    by (simp_all add: valid_event_iff)
  have "owns_nothing ?out" by (simp add: owns_nothing_def scanned_event_def)
  with copy_scan_attrs_spec [of "fields_text_size event" ?out "[]" "event_attributes event" cpu mode] v
  have scan: "copy_scan_attrs cpu mode (event_attributes event) [] (fields_text_size event) ?out =
      Inr (map (attr_scan_of mode) (event_attributes event),
           scanned_event event\<lparr>cp_text_arena_size := arena_size event\<rparr>)"
    by (simp add: fields_arena_size_eq arena_size_def)
  have text_total: "event_name_len (event_lens event) + message_len (event_lens event) +
      logger_len (event_lens event) + source_file_len (event_lens event) +
      source_function_len (event_lens event) = fields_text_size event"
    by (simp add: event_lens_def fields_text_size_def)
  have size: "cp_text_arena_size (prepared_event event) = arena_size event"
    by (simp add: prepared_event_def copy_scalars_def Let_def split: bool.split option.split)
  show ?thesis
    using v scan size text_total
    unfolding ij_event_copy_from_input_def ij_event_copy_dispose_def prepared_event_def Let_def
    by (simp add: copy_guard_iff copy_scan_fields_valid)
qed

lemma copy_scalars_strings:
  "with_flags event (copy_scalars event out) = with_flags event out"
  "cp_attributes (copy_scalars event out) = cp_attributes out"
  "cp_text_arena_size (copy_scalars event out) = cp_text_arena_size out"
  by (simp_all add: copy_scalars_def with_flags_def Let_def split: bool.split option.split)

lemma prepared_event_facts:
  "with_flags event (prepared_event event)" "cp_attributes (prepared_event event) = []"
  "cp_text_arena_size (prepared_event event) = arena_size event"
  by (simp_all add: prepared_event_def copy_scalars_strings)
    (simp_all add: scanned_event_def with_flags_def)

text \<open>The view of the scalars that \<open>prepared_event\<close> has set already.\<close>

lemma copy_view_prepared:
  assumes "valid_event_frame event"
    and "fields_view mem out = input_fields_view event"
    and "out = (prepared_event event)\<lparr>cp_event_name := n, cp_message := m, cp_logger_name := l,
                  cp_source_file := f, cp_source_function := g\<rparr>"
    and "map (owned_attr_view mem) attrs = map (input_attr_view mode) (event_attributes event)"
  shows "copy_view (out\<lparr>cp_attributes := attrs, cp_text_arena := Some mem\<rparr>) = input_view mode event"
  using assms
  by (auto simp: copy_view_def input_view_def fields_view_def input_fields_view_def arena_def
      prepared_event_def copy_scalars_def scanned_event_def zero_event_copy_def valid_event_frame_def
      Let_def split: bool.splits option.splits)

lemma copy_no_attrs: "ev_attribute_count event = 0 \<Longrightarrow> event_attributes event = []"
  by (simp add: event_attributes_def split: option.split)

lemma copy_from_input_ok:
  assumes valid: "valid_event event" and al: "arena_ok al" "attrs_ok al"
  shows "\<exists>cp. ij_event_copy_from_input cpu al (Some event) mode = Some (IJ_STATUS_OK, cp) \<and>
           copy_view cp = input_view mode event \<and> copy_wf cp \<and>
           cp_text_arena_size cp = arena_size event"
proof -
  define mem0 where "mem0 = map (fresh al) [0..<arena_size event]"
  have frame: "valid_event_frame event" and fields: "valid_event_fields event"
    and attrs: "\<forall>a\<in>set (event_attributes event). valid_attr a"
    using valid by (simp_all add: valid_event_def)
  have len0: "length mem0 = arena_size event" by (simp add: mem0_def)
  then have "fields_size event \<le> length mem0" by (simp add: arena_size_def)
  from copy_write_fields_spec [OF fields prepared_event_facts(1) this]
  obtain n m l f g mem1 out1 where
    out1: "out1 = (prepared_event event)\<lparr>cp_event_name := n, cp_message := m, cp_logger_name := l,
                  cp_source_file := f, cp_source_function := g\<rparr>"
    and 1: "copy_write_fields event (event_lens event) (prepared_event event) mem0 =
              Some (out1, mem1, fields_size event)"
      "length mem1 = length mem0" "fields_view mem1 out1 = input_fields_view event"
      "fields_wf mem1 (fields_size event) out1"
    unfolding Let_def by blast
  from len0 1(2) have "fields_size event + sum_list (map attr_arena_size (event_attributes event)) \<le> length mem1"
    by (simp add: arena_size_def)
  from copy_write_attrs_spec [OF attrs this, of mode "[]"] obtain new mem2 where
    2: "copy_write_attrs (zip (event_attributes event) (map (attr_scan_of mode) (event_attributes event)))
          [] (mem1, fields_size event) = Some (Inr (new, mem2, arena_size event))"
      "extends (mem1, fields_size event) (mem2, arena_size event)"
      "map (owned_attr_view mem2) new = map (input_attr_view mode) (event_attributes event)"
      "list_all (owned_attr_wf mem2 (arena_size event)) new"
    by (auto simp: arena_size_def)
  let ?cp = "out1\<lparr>cp_attributes := new, cp_text_arena := Some mem2\<rparr>"
  have run: "ij_event_copy_from_input cpu al (Some event) mode = Some (IJ_STATUS_OK, ?cp)"
  proof (cases "ev_attribute_count event > 0")
    case True
    then show ?thesis
      using 1(1) 2(1) al by (simp add: copy_from_input_valid [OF valid] malloc_arena_def mem0_def [symmetric] Let_def)
  next
    case False
    with 2(1) have "new = []" "mem2 = mem1" by (simp_all add: copy_no_attrs)
    then show ?thesis
      using False 1(1) al prepared_event_facts(2)
      by (simp add: copy_from_input_valid [OF valid] malloc_arena_def mem0_def [symmetric] Let_def out1)
  qed
  have "fields_view mem2 out1 = input_fields_view event"
    using extends_fields_view [OF 2(2) 1(4)] 1(3) by simp
  from copy_view_prepared [OF frame this out1 2(3)] have view: "copy_view ?cp = input_view mode event" .
  have "length mem2 = arena_size event" using 2(2) 1(2) len0 by (simp add: extends_def)
  with extends_fields_wf [OF 2(2) 1(4)] 2(4) prepared_event_facts(3) [of event]
  have wf: "copy_wf ?cp" by (simp add: copy_wf_def arena_def out1 fields_wf_def)
  from run view wf prepared_event_facts(3) [of event] show ?thesis by (simp add: out1)
qed

lemma copy_from_input_no_memory:
  assumes "valid_event event" and "\<not> arena_ok al \<or> (\<not> attrs_ok al \<and> ev_attribute_count event > 0)"
  shows "ij_event_copy_from_input cpu al (Some event) mode = Some (IJ_STATUS_INTERNAL_ERROR, zero_event_copy)"
proof (cases "arena_ok al")
  case True
  have fields: "valid_event_fields event" using assms by (simp add: valid_event_def)
  let ?mem = "map (fresh al) [0..<arena_size event]"
  have "fields_size event \<le> length ?mem" by (simp add: arena_size_def)
  from copy_write_fields_spec [OF fields prepared_event_facts(1) this] obtain out mem where
    "copy_write_fields event (event_lens event) (prepared_event event) ?mem =
       Some (out, mem, fields_size event)" unfolding Let_def by blast
  with True assms show ?thesis
    by (simp add: copy_from_input_valid malloc_arena_def Let_def)
qed (simp add: copy_from_input_valid [OF assms(1)] malloc_arena_def Let_def)

text \<open>The arena of an accepted event is small: 4096 bytes of text, and at most 32 slots padded for the literal.\<close>

lemma attr_arena_size_le: "attr_arena_size a \<le> attr_text_size a + 12"
  by (auto simp: attr_arena_size_def attr_text_size_def value_text_size_def split: ij_attr_value_t.split)

lemma attrs_arena_size_le:
  "sum_list (map attr_arena_size as) \<le> sum_list (map attr_text_size as) + 12 * length as"
proof (induction as)
  case (Cons a as)
  then show ?case using attr_arena_size_le [of a] by simp
qed simp

lemma arena_size_le:
  assumes "valid_event event"
  shows "arena_size event \<le> 4096 + 5 + 12 * 32"
proof -
  have "field_size v \<le> opt_strlen v + 1" for v
    by (simp add: field_size_def opt_strlen_def split: option.split)
  note fs = this
  have "fields_size event \<le> fields_text_size event + 5"
    using fs [of "ev_event_name event"] fs [of "ev_message event"] fs [of "ev_logger event"]
      fs [of "ev_source_file event"] fs [of "ev_source_function event"]
    by (simp add: fields_size_def fields_text_size_def)
  moreover have "sum_list (map attr_arena_size (event_attributes event)) \<le>
      sum_list (map attr_text_size (event_attributes event)) + 12 * length (event_attributes event)"
    by (rule attrs_arena_size_le)
  moreover have "length (event_attributes event) \<le> 32"
    using assms by (auto simp: valid_event_def valid_event_frame_def limit_defs event_attributes_def
        split: option.split)
  ultimately show ?thesis
    using assms unfolding arena_size_def valid_event_def limit_defs
    by linarith
qed

section \<open>Properties\<close>

lemma copy_from_input_cases:
  "(\<exists>cp. ij_event_copy_from_input cpu al (Some event) mode = Some (IJ_STATUS_OK, cp) \<and>
      valid_event event \<and> copy_view cp = input_view mode event \<and> copy_wf cp) \<or>
   (\<exists>st cp. ij_event_copy_from_input cpu al (Some event) mode = Some (st, cp) \<and>
      st \<noteq> IJ_STATUS_OK \<and> owns_nothing cp)"
proof (cases "valid_event event")
  case False
  then show ?thesis using copy_from_input_invalid [OF False, of cpu al mode] by force
next
  case valid: True
  show ?thesis
  proof (cases "arena_ok al \<and> attrs_ok al")
    case True
    then show ?thesis using copy_from_input_ok [OF valid] valid by blast
  next
    case False
    show ?thesis
    proof (cases "arena_ok al \<and> ev_attribute_count event = 0")
      case True
      let ?al = "al\<lparr>attrs_ok := True\<rparr>"
      have "ij_event_copy_from_input cpu al (Some event) mode =
          ij_event_copy_from_input cpu ?al (Some event) mode"
        using True
        by (simp add: copy_from_input_valid [OF valid] malloc_arena_def Let_def split: option.split)
      with copy_from_input_ok [OF valid, of ?al cpu mode] True valid show ?thesis by auto
    next
      case no: False
      with False have "\<not> arena_ok al \<or> (\<not> attrs_ok al \<and> ev_attribute_count event > 0)" by auto
      from copy_from_input_no_memory [OF valid this] show ?thesis by auto
    qed
  qed
qed

text \<open>
  Whatever the event, the processor and the answers of the allocator, making the copy never
  writes outside the text arena: the arena size added up by the scan is enough for every string,
  and for the redaction literal that replaces a shorter value.
\<close>

theorem event_copy_memory_safe: "ij_event_copy_from_input cpu al event mode \<noteq> None"
proof (cases event)
  case None
  then show ?thesis by (simp add: ij_event_copy_from_input_def)
next
  case (Some e)
  then show ?thesis using copy_from_input_cases [of cpu al e mode] by auto
qed

text \<open>
  C16. The copy refines the event: an event that the validator accepts is copied when memory is
  available, the copy designates exactly the bytes of the input, with the string values of
  sensitive keys replaced when redaction is enabled, and its strings lie inside the arena with
  sound escape flags.
\<close>

theorem event_copy_refines_input:
  assumes "ij_validate_event cpu (Some event) = IJ_STATUS_OK" and "arena_ok al" and "attrs_ok al"
  shows "\<exists>cp. ij_event_copy_from_input cpu al (Some event) mode = Some (IJ_STATUS_OK, cp) \<and>
           copy_view cp = input_view mode event \<and> copy_wf cp"
  using assms copy_from_input_ok [of event al cpu mode]
  by (auto simp: validate_event_iff split: if_splits)

definition sample_event :: ij_event_t where
  "sample_event =
     \<lparr>ev_timestamp = \<lparr>unix_seconds = 0, nanoseconds = 5\<rparr>, ev_level = IJ_LEVEL_INFO,
      ev_event_name = Some [0x61], ev_message = Some [], ev_logger = None,
      ev_attributes = None, ev_attribute_count = 0, ev_trace_id = None, ev_span_id = None,
      ev_trace_flags = 0, ev_has_trace_context = False, ev_source_file = None, ev_source_line = 0,
      ev_source_function = None\<rparr>"

definition sample_alloc :: copy_alloc where
  "sample_alloc = \<lparr>arena_ok = True, attrs_ok = True, fresh = (\<lambda>_. 0)\<rparr>"

lemma is_utf8_ascii: "list_all (\<lambda>b. unat b < 0x80) bs \<Longrightarrow> is_utf8 bs"
  using utf8_ok_ascii_append [of bs "[]"] by (simp add: list_all_iff utf8_ok_iff [symmetric])

lemma sample_event_valid: "valid_event sample_event"
  by (simp add: valid_event_def valid_event_frame_def valid_event_fields_def sample_event_def
      ij_level_is_valid_iff limit_defs valid_text_def valid_optional_text_def event_attributes_def
      c_text_def fields_text_size_def opt_strlen_def strlen_def is_utf8_ascii)

theorem event_copy_refines_input_witness:
  "\<exists>cp. ij_event_copy_from_input \<lparr>cpu_arch = X86, cpu_supports_avx2 = True, avx2_cached = -1\<rparr>
          sample_alloc (Some sample_event) IJ_REDACTION_MODE_ENABLED = Some (IJ_STATUS_OK, cp) \<and>
        copy_view cp = input_view IJ_REDACTION_MODE_ENABLED sample_event \<and> copy_wf cp"
  by (rule event_copy_refines_input)
    (simp_all add: validate_event_iff sample_event_valid sample_alloc_def)

end
