(* ===== verification/Queue.thy ===== *)
theory Queue
  imports Event_Copy "HOL-Library.Multiset" "HOL-Library.Sublist"
begin

text \<open>
  The bounded event ring: \<open>src/core/ij_queue.c\<close>. Head and tail are 64-bit counters that wrap
  around and are reduced to slot indices with a mask; the ring is proved to be a FIFO queue of at
  most \<open>capacity\<close> events that drops new events when it is full, across the wrap-around of the
  counters. A step relation interleaves threads at the granularity of the reads and writes inside
  the critical sections, and shows that the mutex makes every interleaving a FIFO history.
\<close>

section \<open>The ring\<close>

record ij_ring_t =
  r_capacity :: size_t
  r_mask :: size_t
  r_head :: "64 word"
  r_tail :: "64 word"
  r_count :: size_t
  r_dropped_events :: "64 word"
  r_enqueued_events :: "64 word"
  r_high_water_mark :: size_t
  r_slots :: "ij_event_copy_t list option"
  r_occupied :: "bool list option"

definition zero_ring :: ij_ring_t where
  "zero_ring =
     \<lparr>r_capacity = 0, r_mask = 0, r_head = 0, r_tail = 0, r_count = 0, r_dropped_events = 0,
      r_enqueued_events = 0, r_high_water_mark = 0, r_slots = None, r_occupied = None\<rparr>"

text \<open>
  What the calls into the C library answer: the two \<open>calloc\<close>s and \<open>mtx_init\<close>, and
  \<open>mtx_lock\<close> and \<open>mtx_unlock\<close>.
\<close>

record ring_env =
  slots_ok :: bool
  occupied_ok :: bool
  mtx_init_ok :: bool
  mtx_lock_ok :: bool
  mtx_unlock_ok :: bool

definition ij_ring_init :: "ring_env \<Rightarrow> ij_ring_t option \<Rightarrow> size_t \<Rightarrow> ij_status_t \<times> ij_ring_t option" where
  "ij_ring_init env ring capacity =
     (if ring = None \<or> capacity < IJ_QUEUE_CAPACITY_MIN \<or> capacity > IJ_QUEUE_CAPACITY_MAX \<or>
         capacity AND (capacity - 1) \<noteq> 0
      then (IJ_STATUS_INVALID_ARGUMENT, ring)
      else if \<not> slots_ok env \<or> \<not> occupied_ok env then (IJ_STATUS_INTERNAL_ERROR, Some zero_ring)
      else if \<not> mtx_init_ok env then (IJ_STATUS_INTERNAL_ERROR, Some zero_ring)
      else (IJ_STATUS_OK,
            Some (zero_ring\<lparr>r_slots := Some (replicate capacity zero_event_copy),
                            r_occupied := Some (replicate capacity False),
                            r_capacity := capacity, r_mask := capacity - 1, r_head := 0, r_tail := 0,
                            r_count := 0, r_dropped_events := 0, r_enqueued_events := 0,
                            r_high_water_mark := 0\<rparr>)))"

text \<open>
  Destruction: the new ring, the slots whose owned event was disposed of, and whether the two
  arrays were freed. \<open>None\<close> is an access outside \<open>occupied\<close>.
\<close>

fun disposed_slots :: "nat \<Rightarrow> bool list \<Rightarrow> nat list" where
  "disposed_slots i [] = []"
| "disposed_slots i (b # bs) = (if b then i # disposed_slots (i + 1) bs else disposed_slots (i + 1) bs)"

definition ij_ring_destroy :: "ring_env \<Rightarrow> ij_ring_t option \<Rightarrow> (ij_ring_t option \<times> nat list \<times> bool) option" where
  "ij_ring_destroy env ring_ptr =
     (case ring_ptr of
        None \<Rightarrow> Some (None, [], False)
      | Some ring \<Rightarrow>
          if r_slots ring = None then Some (Some ring, [], False)
          else if mtx_lock_ok env then
            (case r_occupied ring of
               None \<Rightarrow> None
             | Some occupied \<Rightarrow>
                 if length occupied < r_capacity ring then None
                 else (let disposed = disposed_slots 0 (take (r_capacity ring) occupied) in
                       if \<not> mtx_unlock_ok env then Some (Some zero_ring, disposed, False)
                       else Some (Some zero_ring, disposed, True)))
          else Some (Some zero_ring, [], True))"

text \<open>
  The critical section of \<open>ij_ring_enqueue\<close> in two parts: the store into the slot, and the
  publication of the new tail, count and statistics. \<open>None\<close> is an access outside the arrays.
\<close>

definition ring_store :: "ij_event_copy_t \<Rightarrow> ij_ring_t \<Rightarrow> ij_ring_t option" where
  "ring_store event ring =
     (let tail_index = unat (r_tail ring) AND r_mask ring in
      case (r_slots ring, r_occupied ring) of
        (Some slots, Some occupied) \<Rightarrow>
          if tail_index < length slots \<and> tail_index < length occupied
          then Some (ring\<lparr>r_slots := Some (slots[tail_index := event]),
                          r_occupied := Some (occupied[tail_index := True])\<rparr>)
          else None
      | _ \<Rightarrow> None)"

definition ring_publish :: "ij_ring_t \<Rightarrow> ij_ring_t" where
  "ring_publish ring =
     (let ring = ring\<lparr>r_tail := r_tail ring + 1\<rparr>; count = r_count ring + 1;
          ring = ring\<lparr>r_count := count\<rparr>;
          ring = ring\<lparr>r_enqueued_events := r_enqueued_events ring + 1\<rparr>
      in if count > r_high_water_mark ring then ring\<lparr>r_high_water_mark := count\<rparr> else ring)"

text \<open>The result is the status, the ring and the caller's event after the call.\<close>

definition ij_ring_enqueue ::
  "ring_env \<Rightarrow> ij_ring_t option \<Rightarrow> ij_event_copy_t option \<Rightarrow>
     (ij_status_t \<times> ij_ring_t option \<times> ij_event_copy_t option) option" where
  "ij_ring_enqueue env ring_ptr event_ptr =
     (case (ring_ptr, event_ptr) of
        (Some ring, Some event) \<Rightarrow>
          if r_slots ring = None then Some (IJ_STATUS_INVALID_ARGUMENT, ring_ptr, event_ptr)
          else if \<not> mtx_lock_ok env then Some (IJ_STATUS_INTERNAL_ERROR, ring_ptr, event_ptr)
          else if r_count ring \<ge> r_capacity ring then
            (let ring = ring\<lparr>r_dropped_events := r_dropped_events ring + 1\<rparr> in
             Some (if \<not> mtx_unlock_ok env then IJ_STATUS_INTERNAL_ERROR else IJ_STATUS_QUEUE_FULL,
                   Some ring, event_ptr))
          else
            (case ring_store event ring of
               None \<Rightarrow> None
             | Some ring \<Rightarrow>
                 Some (if \<not> mtx_unlock_ok env then IJ_STATUS_INTERNAL_ERROR else IJ_STATUS_OK,
                       Some (ring_publish ring), Some zero_event_copy))
      | _ \<Rightarrow> Some (IJ_STATUS_INVALID_ARGUMENT, ring_ptr, event_ptr))"

text \<open>The critical section of \<open>ij_ring_try_dequeue\<close>: the event is taken, then the indices move.\<close>

definition ring_take :: "ij_ring_t \<Rightarrow> (ij_event_copy_t \<times> ij_ring_t) option" where
  "ring_take ring =
     (let head_index = unat (r_head ring) AND r_mask ring in
      case (r_slots ring, r_occupied ring) of
        (Some slots, Some occupied) \<Rightarrow>
          if head_index < length slots \<and> head_index < length occupied
          then Some (slots ! head_index,
                     ring\<lparr>r_slots := Some (slots[head_index := zero_event_copy]),
                          r_occupied := Some (occupied[head_index := False])\<rparr>)
          else None
      | _ \<Rightarrow> None)"

definition ring_retire :: "ij_ring_t \<Rightarrow> ij_ring_t" where
  "ring_retire ring = ring\<lparr>r_head := r_head ring + 1, r_count := r_count ring - 1\<rparr>"

definition ij_ring_try_dequeue ::
  "ring_env \<Rightarrow> ij_ring_t option \<Rightarrow> ij_event_copy_t option \<Rightarrow>
     (bool \<times> ij_ring_t option \<times> ij_event_copy_t option) option" where
  "ij_ring_try_dequeue env ring_ptr out_ptr =
     (case (ring_ptr, out_ptr) of
        (Some ring, Some out_event) \<Rightarrow>
          if r_slots ring = None then Some (False, ring_ptr, out_ptr)
          else if \<not> mtx_lock_ok env then Some (False, ring_ptr, out_ptr)
          else if r_count ring = 0 then Some (False, ring_ptr, out_ptr)
          else
            (case ring_take ring of
               None \<Rightarrow> None
             | Some (event, ring) \<Rightarrow>
                 Some (mtx_unlock_ok env, Some (ring_retire ring), Some event))
      | _ \<Rightarrow> Some (False, ring_ptr, out_ptr))"

section \<open>Powers of two\<close>

lemma and_pred_eq_0: "0 < n \<Longrightarrow> n AND (n - 1) = 0 \<Longrightarrow> \<exists>k. n = 2 ^ k" for n :: nat
proof (induction n rule: less_induct)
  case (less n)
  have rec: "n AND (n - 1) = of_bool (odd n \<and> odd (n - 1)) + 2 * ((n div 2) AND ((n - 1) div 2))"
    by (rule and_rec)
  show ?case
  proof (cases "even n")
    case True
    with less.prems(1) obtain m where m: "n = 2 * m" "0 < m" by (auto elim!: evenE)
    have "(n - 1) div 2 = m - 1" using m by simp
    with rec less.prems(2) m have "m AND (m - 1) = 0" by simp
    from less.IH [OF _ m(2) this] m obtain k where "m = 2 ^ k" by auto
    with m(1) show ?thesis by (intro exI [of _ "Suc k"]) simp
  next
    case False
    then obtain m where m: "n = 2 * m + 1" by (auto elim!: oddE)
    with rec less.prems(2) have "m AND m = 0" by simp
    with m show ?thesis by (intro exI [of _ 0]) simp
  qed
qed

lemma and_mask_mod: "n AND (2 ^ k - 1) = n mod 2 ^ k" for n :: nat
  by (metis and_nat_def mask_eq_exp_minus_1 take_bit_eq_mask take_bit_eq_mod)

section \<open>Invariant and abstraction\<close>

definition ring_index :: "ij_ring_t \<Rightarrow> nat \<Rightarrow> nat" where
  "ring_index ring j = (unat (r_head ring) + j) mod r_capacity ring"

definition ring_inv :: "ij_ring_t \<Rightarrow> bool" where
  "ring_inv ring \<longleftrightarrow>
     (\<exists>k slots occupied.
        k \<le> 16 \<and> r_capacity ring = 2 ^ k \<and> r_mask ring = 2 ^ k - 1 \<and>
        r_slots ring = Some slots \<and> r_occupied ring = Some occupied \<and>
        length slots = 2 ^ k \<and> length occupied = 2 ^ k \<and>
        r_count ring \<le> 2 ^ k \<and> r_tail ring = r_head ring + word_of_nat (r_count ring) \<and>
        r_count ring \<le> r_high_water_mark ring \<and> r_high_water_mark ring \<le> 2 ^ k \<and>
        (\<forall>j<2 ^ k. occupied ! ((unat (r_head ring) + j) mod 2 ^ k) \<longleftrightarrow> j < r_count ring))"

definition ring_list :: "ij_ring_t \<Rightarrow> ij_event_copy_t list" where
  "ring_list ring =
     (case r_slots ring of
        None \<Rightarrow> []
      | Some slots \<Rightarrow> map (\<lambda>j. slots ! ring_index ring j) [0..<r_count ring])"

lemma length_ring_list: "ring_inv ring \<Longrightarrow> length (ring_list ring) = r_count ring"
  by (auto simp: ring_inv_def ring_list_def)

section \<open>Indices\<close>

lemma unat_add_mod: "k \<le> 16 \<Longrightarrow> unat (w + word_of_nat n :: 64 word) mod 2 ^ k = (unat w + n) mod 2 ^ k"
proof -
  assume "k \<le> 16"
  then have dvd: "(2 :: nat) ^ k dvd 2 ^ 64" by (intro le_imp_power_dvd) simp
  have "unat (w + word_of_nat n) = (unat w + n) mod 2 ^ 64"
    by (simp add: unat_word_ariths unat_of_nat take_bit_eq_mod mod_add_right_eq)
  then show ?thesis using dvd by (simp add: mod_mod_cancel)
qed

lemma mod_index_inj_le:
  assumes "i \<le> j" "j < n" "(h + i) mod n = (h + j) mod (n :: nat)"
  shows "i = j"
proof -
  have "n dvd (h + j) - (h + i)"
    using assms(1) assms(3) [symmetric] mod_eq_dvd_iff_nat [of "h + i" "h + j" n] by simp
  then have "n dvd j - i" by simp
  moreover have "j - i < n" using assms by simp
  ultimately show ?thesis using assms(1) dvd_imp_le [of n "j - i"] by (cases "i = j") auto
qed

lemma mod_index_inj:
  "i < n \<Longrightarrow> j < n \<Longrightarrow> (h + i) mod n = (h + j) mod (n :: nat) \<longleftrightarrow> i = j"
  using mod_index_inj_le [of i j n h] mod_index_inj_le [of j i n h] by (cases "i \<le> j") auto

text \<open>The invariant with its witnesses, and how the index expressions of the code reduce.\<close>

lemma ring_invE:
  assumes "ring_inv ring"
  obtains k slots occupied where "k \<le> 16" "r_capacity ring = 2 ^ k" "r_mask ring = 2 ^ k - 1"
    "r_slots ring = Some slots" "r_occupied ring = Some occupied" "length slots = 2 ^ k"
    "length occupied = 2 ^ k" "r_count ring \<le> 2 ^ k"
    "r_tail ring = r_head ring + word_of_nat (r_count ring)" "r_count ring \<le> r_high_water_mark ring"
    "r_high_water_mark ring \<le> 2 ^ k"
    "\<And>j. j < 2 ^ k \<Longrightarrow> occupied ! ((unat (r_head ring) + j) mod 2 ^ k) \<longleftrightarrow> j < r_count ring"
  using assms unfolding ring_inv_def by blast

lemma ring_store_publish:
  assumes inv: "ring_inv ring" and room: "r_count ring < r_capacity ring"
  shows "\<exists>ring'. ring_store e ring = Some ring' \<and> ring_inv (ring_publish ring') \<and>
           ring_list (ring_publish ring') = ring_list ring @ [e] \<and>
           r_capacity (ring_publish ring') = r_capacity ring"
proof -
  obtain k slots occupied where k: "k \<le> 16" and
    R: "r_capacity ring = 2 ^ k" "r_mask ring = 2 ^ k - 1" "r_slots ring = Some slots"
      "r_occupied ring = Some occupied" and
    L: "length slots = 2 ^ k" "length occupied = 2 ^ k" and
    C: "r_count ring \<le> 2 ^ k" "r_tail ring = r_head ring + word_of_nat (r_count ring)"
      "r_count ring \<le> r_high_water_mark ring" "r_high_water_mark ring \<le> 2 ^ k" and
    O: "\<And>j. j < 2 ^ k \<Longrightarrow> occupied ! ((unat (r_head ring) + j) mod 2 ^ k) \<longleftrightarrow> j < r_count ring"
    by (rule ring_invE [OF inv]) (rule that)
  let ?h = "unat (r_head ring)" and ?n = "r_count ring"
  define t where "t = (?h + ?n) mod 2 ^ k"
  have t: "unat (r_tail ring) AND r_mask ring = t" "t < 2 ^ k"
    using unat_add_mod [OF k, of "r_head ring" ?n] by (simp_all add: R C t_def and_mask_mod del: One_nat_def)
  define ring1 where "ring1 = ring\<lparr>r_slots := Some (slots[t := e]), r_occupied := Some (occupied[t := True])\<rparr>"
  have st: "ring_store e ring = Some ring1"
    using t L by (simp add: ring_store_def R ring1_def del: One_nat_def)
  let ?r = "ring_publish ring1"
  have F: "r_capacity ?r = 2 ^ k" "r_mask ?r = 2 ^ k - 1" "r_slots ?r = Some (slots[t := e])"
    "r_occupied ?r = Some (occupied[t := True])" "r_head ?r = r_head ring" "r_count ?r = ?n + 1"
    "r_tail ?r = r_tail ring + 1" "r_high_water_mark ?r = max (r_high_water_mark ring) (?n + 1)"
    by (auto simp: ring_publish_def ring1_def R Let_def max_def)
  have n: "?n < 2 ^ k" using room R by simp
  have idx: "(?h + j) mod 2 ^ k = t \<longleftrightarrow> j = ?n" if "j < 2 ^ k" for j
    unfolding t_def by (rule mod_index_inj [OF that n])
  have occ: "occupied[t := True] ! ((?h + j) mod 2 ^ k) \<longleftrightarrow> j < ?n + 1" if "j < 2 ^ k" for j
    using idx [OF that] O [OF that] L t(2) by (cases "j = ?n") (auto simp: nth_list_update)
  have "ring_inv ?r"
    unfolding ring_inv_def F using k L C n occ
    by (intro exI [of _ k] exI [of _ "slots[t := e]"] exI [of _ "occupied[t := True]"] conjI)
      (simp_all add: algebra_simps)
  moreover have "ring_list ?r = ring_list ring @ [e]"
  proof -
    have "slots[t := e] ! ((?h + j) mod 2 ^ k) = slots ! ((?h + j) mod 2 ^ k)" if "j < ?n" for j
      using idx [of j] that n by simp
    moreover have "slots[t := e] ! ((?h + ?n) mod 2 ^ k) = e" using t(2) L by (simp add: t_def)
    ultimately show ?thesis by (simp add: ring_list_def ring_index_def F R)
  qed
  ultimately show ?thesis using st F(1) R(1) by auto
qed

lemma ring_take_retire:
  assumes inv: "ring_inv ring" and some: "0 < r_count ring"
  shows "\<exists>ring'. ring_take ring = Some (hd (ring_list ring), ring') \<and> ring_inv (ring_retire ring') \<and>
           ring_list (ring_retire ring') = tl (ring_list ring) \<and>
           r_capacity (ring_retire ring') = r_capacity ring"
proof -
  obtain k slots occupied where k: "k \<le> 16" and
    R: "r_capacity ring = 2 ^ k" "r_mask ring = 2 ^ k - 1" "r_slots ring = Some slots"
      "r_occupied ring = Some occupied" and
    L: "length slots = 2 ^ k" "length occupied = 2 ^ k" and
    C: "r_count ring \<le> 2 ^ k" "r_tail ring = r_head ring + word_of_nat (r_count ring)"
      "r_count ring \<le> r_high_water_mark ring" "r_high_water_mark ring \<le> 2 ^ k" and
    O: "\<And>j. j < 2 ^ k \<Longrightarrow> occupied ! ((unat (r_head ring) + j) mod 2 ^ k) \<longleftrightarrow> j < r_count ring"
    by (rule ring_invE [OF inv]) (rule that)
  let ?h = "unat (r_head ring)" and ?n = "r_count ring"
  define t where "t = (?h + 0) mod 2 ^ k"
  have t: "?h AND r_mask ring = t" "t < 2 ^ k" by (simp_all add: R t_def and_mask_mod del: One_nat_def)
  define ring1 where "ring1 = ring\<lparr>r_slots := Some (slots[t := zero_event_copy]),
    r_occupied := Some (occupied[t := False])\<rparr>"
  have st: "ring_take ring = Some (slots ! t, ring1)"
    using t L by (simp add: ring_take_def R ring1_def del: One_nat_def)
  let ?r = "ring_retire ring1"
  have F: "r_capacity ?r = 2 ^ k" "r_mask ?r = 2 ^ k - 1" "r_slots ?r = Some (slots[t := zero_event_copy])"
    "r_occupied ?r = Some (occupied[t := False])" "r_head ?r = r_head ring + 1" "r_count ?r = ?n - 1"
    "r_tail ?r = r_tail ring" "r_high_water_mark ?r = r_high_water_mark ring"
    by (simp_all add: ring_retire_def ring1_def R)
  have h': "(unat (r_head ring + 1) + j) mod 2 ^ k = (?h + Suc j) mod 2 ^ k" for j
  proof -
    have "unat (r_head ring + 1) mod 2 ^ k = (?h + 1) mod 2 ^ k"
      using unat_add_mod [OF k, of "r_head ring" 1] by simp
    then have "(unat (r_head ring + 1) + j) mod 2 ^ k = (?h + 1 + j) mod 2 ^ k"
      by (rule mod_add_cong) (rule refl)
    then show ?thesis by simp
  qed
  have idx: "(?h + j) mod 2 ^ k = t \<longleftrightarrow> j = 0" if "j < 2 ^ k" for j
    unfolding t_def by (rule mod_index_inj [OF that]) simp
  have occ: "occupied[t := False] ! ((?h + Suc j) mod 2 ^ k) \<longleftrightarrow> j < ?n - 1" if "j < 2 ^ k" for j
  proof (cases "Suc j < 2 ^ k")
    case True
    then show ?thesis using idx [OF True] O [OF True] L t(2) by auto
  next
    case False
    with that have "Suc j = 2 ^ k" by simp
    then have "(?h + Suc j) mod 2 ^ k = t" by (simp add: t_def)
    moreover have "\<not> j < ?n - 1" using C(1) \<open>Suc j = 2 ^ k\<close> by linarith
    ultimately show ?thesis using L t(2) by simp
  qed
  have tail: "r_tail ring = r_head ring + 1 + word_of_nat (?n - 1)"
    using C(2) some by (simp add: of_nat_diff)
  have "ring_inv ?r"
    unfolding ring_inv_def F using k L C tail occ
    by (intro exI [of _ k] exI [of _ "slots[t := zero_event_copy]"] exI [of _ "occupied[t := False]"] conjI)
      (simp_all add: h')
  moreover have "ring_list ?r = tl (ring_list ring)"
  proof -
    have "slots[t := zero_event_copy] ! ((?h + Suc j) mod 2 ^ k) = slots ! ((?h + Suc j) mod 2 ^ k)"
      if "j < ?n - 1" for j
    proof -
      have "Suc j < 2 ^ k" using that C(1) by linarith
      from idx [OF this] show ?thesis by simp
    qed
    moreover have "[0..<?n] = 0 # map Suc [0..<?n - 1]"
      using some by (simp add: upt_conv_Cons map_Suc_upt)
    ultimately show ?thesis by (simp add: ring_list_def ring_index_def F R h')
  qed
  moreover have "slots ! t = hd (ring_list ring)"
    using some by (simp add: ring_list_def ring_index_def R t_def upt_conv_Cons)
  ultimately show ?thesis using st F(1) R(1) by auto
qed

lemma ring_drop_inv: "ring_inv ring \<Longrightarrow> ring_inv (ring\<lparr>r_dropped_events := d\<rparr>)"
  by (simp add: ring_inv_def)

lemma ring_drop_list: "ring_list (ring\<lparr>r_dropped_events := d\<rparr>) = ring_list ring"
  by (simp add: ring_list_def ring_index_def split: option.split)

section \<open>The operations on a well-formed ring\<close>

lemma ring_init_result:
  "ij_ring_init env (Some ring) capacity = (IJ_STATUS_OK, r') \<Longrightarrow>
     \<exists>ring'. r' = Some ring' \<and> ring_inv ring' \<and> ring_list ring' = [] \<and> r_capacity ring' = capacity \<and>
       r_dropped_events ring' = 0 \<and> r_enqueued_events ring' = 0"
proof -
  assume ok: "ij_ring_init env (Some ring) capacity = (IJ_STATUS_OK, r')"
  then have c: "IJ_QUEUE_CAPACITY_MIN \<le> capacity" "capacity \<le> IJ_QUEUE_CAPACITY_MAX"
    "capacity AND (capacity - 1) = 0"
    and r': "r' = Some (zero_ring\<lparr>r_slots := Some (replicate capacity zero_event_copy),
      r_occupied := Some (replicate capacity False), r_capacity := capacity, r_mask := capacity - 1\<rparr>)"
    by (auto simp: ij_ring_init_def zero_ring_def split: if_splits)
  then obtain k where k: "capacity = 2 ^ k"
    using and_pred_eq_0 [of capacity] by (auto simp: IJ_QUEUE_CAPACITY_MIN_def)
  have "(2 :: nat) ^ k \<le> 2 ^ 16" using c(2) k by (simp add: IJ_QUEUE_CAPACITY_MAX_def)
  then have "k \<le> 16" by (rule power_le_imp_le_exp [rotated]) simp
  then show ?thesis
    unfolding r' by (auto simp: ring_inv_def ring_list_def zero_ring_def k)
qed

lemma ring_enqueue_room:
  assumes "ring_inv ring" "r_count ring < r_capacity ring" "mtx_lock_ok env"
  shows "\<exists>ring'. ij_ring_enqueue env (Some ring) (Some e) =
             Some (if mtx_unlock_ok env then IJ_STATUS_OK else IJ_STATUS_INTERNAL_ERROR,
                   Some ring', Some zero_event_copy) \<and>
           ring_inv ring' \<and> ring_list ring' = ring_list ring @ [e] \<and> r_capacity ring' = r_capacity ring"
proof -
  obtain ring1 where r: "ring_store e ring = Some ring1" "ring_inv (ring_publish ring1)"
    "ring_list (ring_publish ring1) = ring_list ring @ [e]"
    "r_capacity (ring_publish ring1) = r_capacity ring"
    using ring_store_publish [OF assms(1,2)] by blast
  have "r_slots ring \<noteq> None" using assms(1) by (auto simp: ring_inv_def)
  then have "ij_ring_enqueue env (Some ring) (Some e) =
      Some (if mtx_unlock_ok env then IJ_STATUS_OK else IJ_STATUS_INTERNAL_ERROR,
            Some (ring_publish ring1), Some zero_event_copy)"
    using assms(2,3) r(1) by (simp add: ij_ring_enqueue_def)
  with r show ?thesis by blast
qed

lemma ring_enqueue_full:
  assumes "ring_inv ring" "r_count ring = r_capacity ring" "mtx_lock_ok env"
  shows "ij_ring_enqueue env (Some ring) (Some e) =
           Some (if mtx_unlock_ok env then IJ_STATUS_QUEUE_FULL else IJ_STATUS_INTERNAL_ERROR,
                 Some (ring\<lparr>r_dropped_events := r_dropped_events ring + 1\<rparr>), Some e)"
proof -
  have "r_slots ring \<noteq> None" using assms(1) by (auto simp: ring_inv_def)
  then show ?thesis using assms(2,3) by (simp add: ij_ring_enqueue_def)
qed

lemma ring_dequeue_some:
  assumes "ring_inv ring" "0 < r_count ring" "mtx_lock_ok env"
  shows "\<exists>ring'. ij_ring_try_dequeue env (Some ring) (Some out) =
             Some (mtx_unlock_ok env, Some ring', Some (hd (ring_list ring))) \<and>
           ring_inv ring' \<and> ring_list ring' = tl (ring_list ring) \<and> r_capacity ring' = r_capacity ring"
proof -
  obtain ring1 where r: "ring_take ring = Some (hd (ring_list ring), ring1)"
    "ring_inv (ring_retire ring1)" "ring_list (ring_retire ring1) = tl (ring_list ring)"
    "r_capacity (ring_retire ring1) = r_capacity ring"
    using ring_take_retire [OF assms(1,2)] by blast
  have "r_slots ring \<noteq> None" using assms(1) by (auto simp: ring_inv_def)
  then have "ij_ring_try_dequeue env (Some ring) (Some out) =
      Some (mtx_unlock_ok env, Some (ring_retire ring1), Some (hd (ring_list ring)))"
    using assms(2,3) r(1) by (auto simp: ij_ring_try_dequeue_def)
  with r show ?thesis by blast
qed

lemma ring_dequeue_empty:
  "ring_inv ring \<Longrightarrow> r_count ring = 0 \<Longrightarrow>
     ij_ring_try_dequeue env (Some ring) (Some out) = Some (False, Some ring, Some out)"
  by (auto simp: ij_ring_try_dequeue_def)

section \<open>Bounded queues\<close>

text \<open>
  The contract of a bounded queue that rejects when it is full, and what every history of calls
  does under it. \<open>offer\<close> answers the new queue, or \<open>None\<close> for a rejected element.
\<close>

datatype 'a queue_op = Offer 'a | Poll

locale bounded_fifo =
  fixes inv :: "'q \<Rightarrow> bool"
    and contents :: "'q \<Rightarrow> 'a list"
    and capacity :: "'q \<Rightarrow> nat"
    and offer :: "'a \<Rightarrow> 'q \<Rightarrow> bool \<times> 'q"
    and poll :: "'q \<Rightarrow> 'a option \<times> 'q"
  assumes inv_bound: "inv q \<Longrightarrow> length (contents q) \<le> capacity q"
    and offer_room: "inv q \<Longrightarrow> length (contents q) < capacity q \<Longrightarrow>
      \<exists>q'. offer a q = (True, q') \<and> inv q' \<and> contents q' = contents q @ [a] \<and> capacity q' = capacity q"
    and offer_full: "inv q \<Longrightarrow> length (contents q) = capacity q \<Longrightarrow>
      \<exists>q'. offer a q = (False, q') \<and> inv q' \<and> contents q' = contents q \<and> capacity q' = capacity q"
    and poll_some: "inv q \<Longrightarrow> contents q = a # rest \<Longrightarrow>
      \<exists>q'. poll q = (Some a, q') \<and> inv q' \<and> contents q' = rest \<and> capacity q' = capacity q"
    and poll_none: "inv q \<Longrightarrow> contents q = [] \<Longrightarrow>
      \<exists>q'. poll q = (None, q') \<and> inv q' \<and> contents q' = [] \<and> capacity q' = capacity q"
begin

text \<open>A history: the final queue, the accepted elements and the delivered ones, both in order.\<close>

fun run :: "'q \<Rightarrow> 'a queue_op list \<Rightarrow> 'q \<times> 'a list \<times> 'a list" where
  "run q [] = (q, [], [])"
| "run q (Offer a # ops) =
     (let (ok, q) = offer a q; (q, accepted, delivered) = run q ops
      in (q, (if ok then a # accepted else accepted), delivered))"
| "run q (Poll # ops) =
     (let (out, q) = poll q; (q, accepted, delivered) = run q ops
      in (q, accepted, (case out of None \<Rightarrow> delivered | Some a \<Rightarrow> a # delivered)))"

lemma offer_cases:
  assumes "inv q"
  obtains (room) q' where "length (contents q) < capacity q" "offer a q = (True, q')" "inv q'"
      "contents q' = contents q @ [a]" "capacity q' = capacity q"
  | (full) q' where "length (contents q) = capacity q" "offer a q = (False, q')" "inv q'"
      "contents q' = contents q" "capacity q' = capacity q"
  using inv_bound [OF assms] offer_room [OF assms, of a] offer_full [OF assms, of a]
  by (cases "length (contents q) < capacity q") auto

lemma poll_cases:
  assumes "inv q"
  obtains (some) a rest q' where "contents q = a # rest" "poll q = (Some a, q')" "inv q'"
      "contents q' = rest" "capacity q' = capacity q"
  | (none) q' where "contents q = []" "poll q = (None, q')" "inv q'" "contents q' = []"
      "capacity q' = capacity q"
  using poll_some [OF assms] poll_none [OF assms] by (cases "contents q") auto

lemma run_fifo:
  "inv q \<Longrightarrow> run q ops = (q', accepted, delivered) \<Longrightarrow>
     inv q' \<and> capacity q' = capacity q \<and> contents q @ accepted = delivered @ contents q'"
proof (induction ops arbitrary: q accepted delivered)
  case (Cons op ops)
  show ?case
  proof (cases op)
    case (Offer a)
    from Cons.prems(1) show ?thesis
      by (cases rule: offer_cases [of q a])
        (use Cons.IH Cons.prems(2) in \<open>fastforce simp: Offer split: prod.splits\<close>)+
  next
    case Poll
    from Cons.prems(1) show ?thesis
      by (cases rule: poll_cases)
        (use Cons.IH Cons.prems(2) in \<open>fastforce simp: Poll split: prod.splits\<close>)+
  qed
qed simp

end

text \<open>The ring under a mutex whose operations succeed is such a queue.\<close>

definition working_mutex :: ring_env where
  "working_mutex = \<lparr>slots_ok = True, occupied_ok = True, mtx_init_ok = True, mtx_lock_ok = True,
                    mtx_unlock_ok = True\<rparr>"

definition ring_offer :: "ij_event_copy_t \<Rightarrow> ij_ring_t \<Rightarrow> bool \<times> ij_ring_t" where
  "ring_offer e ring =
     (case ij_ring_enqueue working_mutex (Some ring) (Some e) of
        Some (st, Some ring', _) \<Rightarrow> (st = IJ_STATUS_OK, ring')
      | _ \<Rightarrow> (False, ring))"

definition ring_poll :: "ij_ring_t \<Rightarrow> ij_event_copy_t option \<times> ij_ring_t" where
  "ring_poll ring =
     (case ij_ring_try_dequeue working_mutex (Some ring) (Some zero_event_copy) of
        Some (got, Some ring', Some e) \<Rightarrow> (if got then Some e else None, ring')
      | _ \<Rightarrow> (None, ring))"

lemma ring_inv_le: "ring_inv ring \<Longrightarrow> r_count ring \<le> r_capacity ring"
  by (auto simp: ring_inv_def)

interpretation ringq: bounded_fifo ring_inv ring_list r_capacity ring_offer ring_poll
proof
  fix ring :: ij_ring_t and e rest
  assume inv: "ring_inv ring"
  note len = length_ring_list [OF inv]
  have env: "mtx_lock_ok working_mutex" "mtx_unlock_ok working_mutex" by (simp_all add: working_mutex_def)
  show "length (ring_list ring) \<le> r_capacity ring" using ring_inv_le [OF inv] len by simp
  show "\<exists>q'. ring_offer e ring = (True, q') \<and> ring_inv q' \<and> ring_list q' = ring_list ring @ [e] \<and>
      r_capacity q' = r_capacity ring" if "length (ring_list ring) < r_capacity ring"
    using ring_enqueue_room [OF inv _ env(1), of e] that len env by (auto simp: ring_offer_def)
  show "\<exists>q'. ring_offer e ring = (False, q') \<and> ring_inv q' \<and> ring_list q' = ring_list ring \<and>
      r_capacity q' = r_capacity ring" if "length (ring_list ring) = r_capacity ring"
    using ring_enqueue_full [OF inv _ env(1), of e] that len env inv
    by (auto simp: ring_offer_def ring_drop_inv ring_drop_list)
  show "\<exists>q'. ring_poll ring = (Some e, q') \<and> ring_inv q' \<and> ring_list q' = rest \<and>
      r_capacity q' = r_capacity ring" if "ring_list ring = e # rest"
    using ring_dequeue_some [OF inv _ env(1), of zero_event_copy] that len env by (auto simp: ring_poll_def)
  show "\<exists>q'. ring_poll ring = (None, q') \<and> ring_inv q' \<and> ring_list q' = [] \<and>
      r_capacity q' = r_capacity ring" if "ring_list ring = []"
    using ring_dequeue_empty [OF inv] that len inv by (auto simp: ring_poll_def)
qed

section \<open>Threads sharing a ring\<close>

text \<open>
  Any number of threads call \<open>ij_ring_enqueue\<close> and \<open>ij_ring_try_dequeue\<close> on one ring. A thread's
  program counter stands between the code's blocks: the argument checks, \<open>mtx_lock\<close>, the test of
  \<open>count\<close>, the slot access, the update of the indices, \<open>mtx_unlock\<close>. A step of one thread may come
  between any two steps of another; \<open>mtx_lock\<close> waits until the mutex has no owner. The two ghost
  lists record the events in the order in which they were published and retired.
\<close>

datatype ring_pc =
  Idle
| WantEnqueue ij_event_copy_t
| InEnqueue ij_event_copy_t
| EnqueueStored ij_event_copy_t
| EnqueueDone ij_status_t
| WantDequeue
| InDequeue
| DequeueTaken ij_event_copy_t
| DequeueDone "ij_event_copy_t option"

record ring_shared =
  sh_ring :: ij_ring_t
  sh_owner :: "nat option"
  sh_pc :: "nat \<Rightarrow> ring_pc"
  sh_accepted :: "ij_event_copy_t list"
  sh_delivered :: "ij_event_copy_t list"

definition goto :: "nat \<Rightarrow> ring_pc \<Rightarrow> ring_shared \<Rightarrow> ring_shared" where
  "goto t pc s = s\<lparr>sh_pc := (sh_pc s)(t := pc)\<rparr>"

inductive ring_step :: "nat \<Rightarrow> ring_shared \<Rightarrow> ring_shared \<Rightarrow> bool" where
  call_enqueue: "sh_pc s t = Idle \<Longrightarrow> ring_step t s (goto t (WantEnqueue e) s)"
| call_dequeue: "sh_pc s t = Idle \<Longrightarrow> ring_step t s (goto t WantDequeue s)"
| enq_lock: "sh_pc s t = WantEnqueue e \<Longrightarrow> sh_owner s = None \<Longrightarrow>
    ring_step t s (goto t (InEnqueue e) (s\<lparr>sh_owner := Some t\<rparr>))"
| enq_full: "sh_pc s t = InEnqueue e \<Longrightarrow> r_count (sh_ring s) \<ge> r_capacity (sh_ring s) \<Longrightarrow>
    ring_step t s (goto t (EnqueueDone IJ_STATUS_QUEUE_FULL)
      (s\<lparr>sh_ring := (sh_ring s)\<lparr>r_dropped_events := r_dropped_events (sh_ring s) + 1\<rparr>\<rparr>))"
| enq_store: "sh_pc s t = InEnqueue e \<Longrightarrow> \<not> r_count (sh_ring s) \<ge> r_capacity (sh_ring s) \<Longrightarrow>
    ring_store e (sh_ring s) = Some ring' \<Longrightarrow>
    ring_step t s (goto t (EnqueueStored e) (s\<lparr>sh_ring := ring'\<rparr>))"
| enq_publish: "sh_pc s t = EnqueueStored e \<Longrightarrow>
    ring_step t s (goto t (EnqueueDone IJ_STATUS_OK)
      (s\<lparr>sh_ring := ring_publish (sh_ring s), sh_accepted := sh_accepted s @ [e]\<rparr>))"
| enq_unlock: "sh_pc s t = EnqueueDone st \<Longrightarrow> ring_step t s (goto t Idle (s\<lparr>sh_owner := None\<rparr>))"
| deq_lock: "sh_pc s t = WantDequeue \<Longrightarrow> sh_owner s = None \<Longrightarrow>
    ring_step t s (goto t InDequeue (s\<lparr>sh_owner := Some t\<rparr>))"
| deq_empty: "sh_pc s t = InDequeue \<Longrightarrow> r_count (sh_ring s) = 0 \<Longrightarrow>
    ring_step t s (goto t (DequeueDone None) s)"
| deq_take: "sh_pc s t = InDequeue \<Longrightarrow> r_count (sh_ring s) \<noteq> 0 \<Longrightarrow>
    ring_take (sh_ring s) = Some (e, ring') \<Longrightarrow>
    ring_step t s (goto t (DequeueTaken e) (s\<lparr>sh_ring := ring'\<rparr>))"
| deq_retire: "sh_pc s t = DequeueTaken e \<Longrightarrow>
    ring_step t s (goto t (DequeueDone (Some e))
      (s\<lparr>sh_ring := ring_retire (sh_ring s), sh_delivered := sh_delivered s @ [e]\<rparr>))"
| deq_unlock: "sh_pc s t = DequeueDone out \<Longrightarrow> ring_step t s (goto t Idle (s\<lparr>sh_owner := None\<rparr>))"

inductive ring_reachable :: "ring_shared \<Rightarrow> ring_shared \<Rightarrow> bool" where
  start: "ring_reachable s s"
| step: "ring_reachable s s' \<Longrightarrow> ring_step t s' s'' \<Longrightarrow> ring_reachable s s''"

definition shared_start :: "ij_ring_t \<Rightarrow> ring_shared" where
  "shared_start ring = \<lparr>sh_ring = ring, sh_owner = None, sh_pc = (\<lambda>_. Idle),
                        sh_accepted = ring_list ring, sh_delivered = []\<rparr>"

fun in_critical :: "ring_pc \<Rightarrow> bool" where
  "in_critical (InEnqueue _) = True"
| "in_critical (EnqueueStored _) = True"
| "in_critical (EnqueueDone _) = True"
| "in_critical InDequeue = True"
| "in_critical (DequeueTaken _) = True"
| "in_critical (DequeueDone _) = True"
| "in_critical _ = False"

text \<open>What holds of the ring and the ghost lists while the owner stands at a program point.\<close>

definition settled :: "ring_shared \<Rightarrow> bool" where
  "settled s \<longleftrightarrow> ring_inv (sh_ring s) \<and> sh_accepted s = sh_delivered s @ ring_list (sh_ring s)"

fun owner_inv :: "ring_pc \<Rightarrow> ring_shared \<Rightarrow> bool" where
  "owner_inv (EnqueueStored e) s =
     (\<exists>r. settled (s\<lparr>sh_ring := r\<rparr>) \<and> r_count r < r_capacity r \<and> ring_store e r = Some (sh_ring s))"
| "owner_inv (DequeueTaken e) s =
     (\<exists>r. settled (s\<lparr>sh_ring := r\<rparr>) \<and> 0 < r_count r \<and> ring_take r = Some (e, sh_ring s))"
| "owner_inv _ s = settled s"

definition shared_inv :: "ring_shared \<Rightarrow> bool" where
  "shared_inv s \<longleftrightarrow>
     (\<forall>t. in_critical (sh_pc s t) \<longleftrightarrow> sh_owner s = Some t) \<and>
     (case sh_owner s of None \<Rightarrow> settled s | Some t \<Rightarrow> owner_inv (sh_pc s t) s)"

lemma settled_goto [simp]: "settled (goto t pc s) = settled s"
  by (simp add: settled_def goto_def)

lemma settled_owner [simp]: "settled (s\<lparr>sh_owner := w\<rparr>) = settled s"
  by (simp add: settled_def)

lemma owner_inv_goto [simp]: "owner_inv pc (goto t pc' s) = owner_inv pc s"
  by (cases pc) (simp_all add: settled_def goto_def)

lemma goto_sel [simp]:
  "sh_ring (goto t pc s) = sh_ring s" "sh_owner (goto t pc s) = sh_owner s"
  "sh_pc (goto t pc s) = (sh_pc s)(t := pc)" "sh_accepted (goto t pc s) = sh_accepted s"
  "sh_delivered (goto t pc s) = sh_delivered s"
  by (simp_all add: goto_def)

lemma shared_inv_start: "ring_inv ring \<Longrightarrow> shared_inv (shared_start ring)"
  by (simp add: shared_inv_def shared_start_def settled_def)

lemma shared_inv_owner: "shared_inv s \<Longrightarrow> in_critical (sh_pc s t) \<Longrightarrow> sh_owner s = Some t \<and> owner_inv (sh_pc s t) s"
  by (auto simp: shared_inv_def)

text \<open>Moves of the owner inside the critical section keep the invariant when they keep its part.\<close>

lemma shared_inv_move:
  assumes "shared_inv s" "in_critical (sh_pc s t)" "in_critical pc" "sh_owner s' = sh_owner s"
    "sh_pc s' = sh_pc s" "owner_inv pc s'"
  shows "shared_inv (goto t pc s')"
  using assms by (auto simp: shared_inv_def)

lemma shared_inv_outside:
  assumes "shared_inv s" "\<not> in_critical (sh_pc s t)" "\<not> in_critical pc"
  shows "shared_inv (goto t pc s)"
  using assms by (auto simp: shared_inv_def split: option.splits)

lemma shared_inv_lock:
  assumes "shared_inv s" "sh_owner s = None" "in_critical pc" "\<And>s. owner_inv pc s = settled s"
  shows "shared_inv (goto t pc (s\<lparr>sh_owner := Some t\<rparr>))"
  using assms by (auto simp: shared_inv_def)

lemma shared_inv_unlock:
  assumes "shared_inv s" "in_critical (sh_pc s t)" "owner_inv (sh_pc s t) s \<Longrightarrow> settled s"
  shows "shared_inv (goto t Idle (s\<lparr>sh_owner := None\<rparr>))"
  using assms by (auto simp: shared_inv_def)

lemma shared_inv_step: "ring_step t s s' \<Longrightarrow> shared_inv s \<Longrightarrow> shared_inv s'"
proof (induction rule: ring_step.induct)
  case (enq_full s t e)
  have "settled s" using shared_inv_owner [OF enq_full(3), of t] enq_full(1) by simp
  then show ?case using enq_full
    by (intro shared_inv_move [of s]) (auto simp: settled_def ring_drop_inv ring_drop_list)
next
  case (enq_store s t e ring')
  have "settled s" using shared_inv_owner [OF enq_store(4), of t] enq_store(1) by simp
  then show ?case using enq_store
    by (intro shared_inv_move [of s]) (auto intro!: exI [of _ "sh_ring s"])
next
  case (enq_publish s t e)
  obtain r where r: "settled (s\<lparr>sh_ring := r\<rparr>)" "r_count r < r_capacity r" "ring_store e r = Some (sh_ring s)"
    using shared_inv_owner [OF enq_publish(2), of t] enq_publish(1) by auto
  with ring_store_publish [of r e] have "settled (s\<lparr>sh_ring := ring_publish (sh_ring s),
      sh_accepted := sh_accepted s @ [e]\<rparr>)"
    by (auto simp: settled_def)
  then show ?case using enq_publish by (intro shared_inv_move [of s]) auto
next
  case (deq_empty s t)
  then show ?case using shared_inv_owner [of s t] by (intro shared_inv_move [of s]) auto
next
  case (deq_take s t e ring')
  have "settled s" using shared_inv_owner [OF deq_take(4), of t] deq_take(1) by simp
  then show ?case using deq_take
    by (intro shared_inv_move [of s]) (auto intro!: exI [of _ "sh_ring s"])
next
  case (deq_retire s t e)
  obtain r where r: "settled (s\<lparr>sh_ring := r\<rparr>)" "0 < r_count r" "ring_take r = Some (e, sh_ring s)"
    using shared_inv_owner [OF deq_retire(2), of t] deq_retire(1) by auto
  moreover have "ring_list r \<noteq> []"
    using r(1,2) length_ring_list [of r] by (auto simp: settled_def)
  ultimately have "settled (s\<lparr>sh_ring := ring_retire (sh_ring s), sh_delivered := sh_delivered s @ [e]\<rparr>)"
    using ring_take_retire [of r] by (auto simp: settled_def)
  then show ?case using deq_retire by (intro shared_inv_move [of s]) auto
qed (auto intro: shared_inv_outside shared_inv_lock shared_inv_unlock)

lemma shared_inv_reachable: "ring_reachable s s' \<Longrightarrow> shared_inv s \<Longrightarrow> shared_inv s'"
  by (induction rule: ring_reachable.induct) (auto intro: shared_inv_step)

lemma ring_store_capacity: "ring_store e r = Some r' \<Longrightarrow> r_capacity r' = r_capacity r"
  by (auto simp: ring_store_def Let_def split: option.splits if_splits)

lemma ring_take_capacity: "ring_take r = Some (e, r') \<Longrightarrow> r_capacity r' = r_capacity r"
  by (auto simp: ring_take_def Let_def split: option.splits if_splits)

lemma shared_inv_split:
  "shared_inv s \<Longrightarrow> \<exists>r. ring_inv r \<and> sh_accepted s = sh_delivered s @ ring_list r \<and>
     r_capacity r = r_capacity (sh_ring s)"
proof (cases "sh_owner s")
  case None
  then show "shared_inv s \<Longrightarrow> ?thesis" by (auto simp: shared_inv_def settled_def)
next
  case (Some t)
  assume "shared_inv s"
  with Some have "owner_inv (sh_pc s t) s" by (simp add: shared_inv_def)
  then show ?thesis
    by (cases "sh_pc s t")
      (use ring_store_capacity ring_take_capacity in \<open>fastforce simp: settled_def\<close>)+
qed

lemma ring_step_capacity: "ring_step t s s' \<Longrightarrow> r_capacity (sh_ring s') = r_capacity (sh_ring s)"
  by (induction rule: ring_step.induct)
    (auto simp: ring_publish_def ring_retire_def Let_def dest: ring_store_capacity ring_take_capacity)

lemma ring_reachable_capacity:
  "ring_reachable s s' \<Longrightarrow> r_capacity (sh_ring s') = r_capacity (sh_ring s)"
  by (induction rule: ring_reachable.induct) (simp_all add: ring_step_capacity)

text \<open>A thread inside the critical section is never stuck, and a waiting one is let in when it is free.\<close>

lemma critical_step:
  assumes inv: "shared_inv s" and crit: "in_critical (sh_pc s t)"
  shows "\<exists>s'. ring_step t s s'"
proof -
  have own: "owner_inv (sh_pc s t) s" using shared_inv_owner [OF inv crit] by simp
  show ?thesis
  proof (cases "sh_pc s t")
    case (InEnqueue e)
    with own have "ring_inv (sh_ring s)" by (simp add: settled_def)
    then show ?thesis
      using InEnqueue ring_store_publish [of "sh_ring s" e] enq_full [of s t e] enq_store [of s t e]
      by (meson not_le)
  next
    case InDequeue
    with own have "ring_inv (sh_ring s)" by (simp add: settled_def)
    then show ?thesis
      using InDequeue ring_take_retire [of "sh_ring s"] deq_empty [of s t] deq_take [of s t]
      by (meson not_gr_zero)
  qed (use crit in \<open>auto intro: ring_step.intros\<close>)
qed

section \<open>Destruction\<close>

lemma disposed_slots_filter: "disposed_slots i bs = filter (\<lambda>j. bs ! (j - i)) [i..<i + length bs]"
proof (induction bs arbitrary: i)
  case (Cons b bs)
  have "filter (\<lambda>j. (b # bs) ! (j - i)) [Suc i..<Suc i + length bs] =
      filter (\<lambda>j. bs ! (j - Suc i)) [Suc i..<Suc i + length bs]"
    by (rule filter_cong) (auto simp: nth_Cons')
  moreover have "[i..<i + length (b # bs)] = i # [Suc i..<Suc i + length bs]"
    by (simp add: upt_conv_Cons del: upt_Suc)
  ultimately show ?case using Cons.IH [of "Suc i"] by (cases b) (simp_all del: upt_Suc)
qed simp

lemma mod_index_onto:
  assumes "i < n"
  obtains j where "j < n" "(h + j) mod n = (i :: nat)"
proof
  show "(i + (n - h mod n)) mod n < n" using assms by simp
  have "h mod n \<le> n" using assms by (meson less_imp_le mod_less_divisor le_less_trans zero_le)
  then have "h mod n + (i + (n - h mod n)) = i + n" by simp
  then show "(h + (i + (n - h mod n)) mod n) mod n = i"
    using assms by (metis mod_add_left_eq mod_add_right_eq mod_add_self2 mod_less)
qed

lemma disposed_ring_slots:
  assumes "ring_inv ring" "r_occupied ring = Some occupied" "r_slots ring = Some slots"
  shows "mset (map ((!) slots) (disposed_slots 0 (take (r_capacity ring) occupied))) = mset (ring_list ring)"
proof (rule ring_invE [OF assms(1)])
  fix k slots' occupied'
  assume R: "r_capacity ring = 2 ^ k" "r_slots ring = Some slots'" "r_occupied ring = Some occupied'"
    "length occupied' = 2 ^ k" "r_count ring \<le> 2 ^ k" and
    O: "\<And>j. j < 2 ^ k \<Longrightarrow> occupied' ! ((unat (r_head ring) + j) mod 2 ^ k) \<longleftrightarrow> j < r_count ring"
  let ?idx = "map (ring_index ring) [0..<r_count ring]"
  let ?dis = "disposed_slots 0 (take (r_capacity ring) occupied)"
  have occ: "occupied = occupied'" using assms(2) R by simp
  have dis: "?dis = filter (\<lambda>j. occupied ! j) [0..<2 ^ k]"
    using R(1,4) by (simp add: disposed_slots_filter occ)
  have "set ?idx = set ?dis"
  proof (intro set_eqI iffI)
    fix i assume "i \<in> set ?idx"
    then obtain j where "j < r_count ring" "i = (unat (r_head ring) + j) mod 2 ^ k"
      by (auto simp: ring_index_def R)
    then show "i \<in> set ?dis" using O [of j] R(5) unfolding dis by (simp add: occ)
  next
    fix i assume "i \<in> set ?dis"
    then have i: "i < 2 ^ k" "occupied' ! i" unfolding dis by (auto simp: occ)
    from i(1) obtain j where "j < 2 ^ k" "(unat (r_head ring) + j) mod 2 ^ k = i"
      by (rule mod_index_onto)
    then show "i \<in> set ?idx" using O [of j] i(2) by (force simp: ring_index_def R)
  qed
  moreover have "distinct ?idx"
    using mod_index_inj R(5) by (auto simp: distinct_map inj_on_def ring_index_def R(1))
  moreover have "distinct ?dis" unfolding dis by simp
  ultimately have "mset ?dis = mset ?idx" using set_eq_iff_mset_eq_distinct by metis
  then have "mset (map ((!) slots) ?dis) = mset (map ((!) slots) ?idx)"
    by (simp only: mset_map)
  then show ?thesis by (simp add: ring_list_def assms(3) multiset.map_comp comp_def)
qed

section \<open>Properties\<close>

definition sample_ring :: ij_ring_t where
  "sample_ring = zero_ring\<lparr>r_slots := Some (replicate 256 zero_event_copy),
     r_occupied := Some (replicate 256 False), r_capacity := 256, r_mask := 255\<rparr>"

lemma sample_ring_init: "ij_ring_init working_mutex (Some zero_ring) 256 = (IJ_STATUS_OK, Some sample_ring)"
  by (simp add: ij_ring_init_def sample_ring_def working_mutex_def IJ_QUEUE_CAPACITY_MIN_def
      IJ_QUEUE_CAPACITY_MAX_def zero_ring_def)

lemma sample_ring_inv: "ring_inv sample_ring" and sample_ring_list: "ring_list sample_ring = []"
  and sample_ring_capacity: "r_capacity sample_ring = 256"
  using ring_init_result [OF sample_ring_init] by auto

lemma sample_waiting_reachable:
  "ring_reachable (shared_start sample_ring) (goto 1 WantDequeue (shared_start sample_ring))"
  by (rule ring_reachable.step [OF ring_reachable.start, of 1], rule call_dequeue)
    (simp add: shared_start_def)

lemma ring_history_delivers:
  "ring_inv ring \<Longrightarrow> bounded_fifo.run ring_offer ring_poll ring ops = (ring', accepted, delivered) \<Longrightarrow>
     ring_inv ring' \<and> r_capacity ring' = r_capacity ring \<and>
     ring_list ring @ accepted = delivered @ ring_list ring'"
  by (rule ringq.run_fifo)



text \<open>
  On a well-formed ring, \<open>ij_ring_enqueue\<close> is memory safe and has exactly these outcomes: with
  room it appends the event, zeroes the caller's copy and keeps the invariant; when full it only
  counts a dropped event and leaves the caller's event alone; when the mutex cannot be locked
  nothing changes. Only a failed unlock turns the first two answers into an internal error.
\<close>

theorem ring_enqueue_correct:
  assumes "ring_inv ring"
  shows "\<exists>st ring' e'. ij_ring_enqueue env (Some ring) (Some e) = Some (st, Some ring', Some e') \<and>
           ring_inv ring' \<and> r_capacity ring' = r_capacity ring \<and>
           (if \<not> mtx_lock_ok env then st = IJ_STATUS_INTERNAL_ERROR \<and> ring' = ring \<and> e' = e
            else if length (ring_list ring) < r_capacity ring
            then st = (if mtx_unlock_ok env then IJ_STATUS_OK else IJ_STATUS_INTERNAL_ERROR) \<and>
                 ring_list ring' = ring_list ring @ [e] \<and> e' = zero_event_copy
            else st = (if mtx_unlock_ok env then IJ_STATUS_QUEUE_FULL else IJ_STATUS_INTERNAL_ERROR) \<and>
                 ring_list ring' = ring_list ring \<and> e' = e \<and>
                 r_dropped_events ring' = r_dropped_events ring + 1)"
proof (cases "mtx_lock_ok env")
  case lock: True
  note len = length_ring_list [OF assms]
  show ?thesis
  proof (cases "r_count ring < r_capacity ring")
    case True
    from ring_enqueue_room [OF assms this lock, of e] True len lock show ?thesis by auto
  next
    case False
    then have "r_count ring = r_capacity ring" using ring_inv_le [OF assms] by simp
    from ring_enqueue_full [OF assms this lock, of e] False len lock show ?thesis
      by (auto simp: ring_drop_inv [OF assms] ring_drop_list)
  qed
next
  case False
  have "r_slots ring \<noteq> None" using assms by (auto simp: ring_inv_def)
  with False assms show ?thesis by (auto simp: ij_ring_enqueue_def)
qed

theorem ring_enqueue_correct_witness:
  "\<exists>st ring' e'. ij_ring_enqueue working_mutex (Some sample_ring) (Some zero_event_copy) =
      Some (st, Some ring', Some e') \<and> ring_inv ring' \<and> ring_list ring' = [zero_event_copy] \<and>
      st = IJ_STATUS_OK"
  using ring_enqueue_correct [OF sample_ring_inv, of working_mutex zero_event_copy]
  by (auto simp: sample_ring_list sample_ring_capacity working_mutex_def)

text \<open>
  On a well-formed ring, \<open>ij_ring_try_dequeue\<close> is memory safe: it hands over the oldest event
  and removes it, or answers false on an empty ring and changes nothing. When the unlock fails
  after a removal it answers false although the event has left the ring.
\<close>

theorem ring_dequeue_correct:
  assumes "ring_inv ring"
  shows "\<exists>got ring' e'. ij_ring_try_dequeue env (Some ring) (Some out) = Some (got, Some ring', Some e') \<and>
           ring_inv ring' \<and> r_capacity ring' = r_capacity ring \<and>
           (if mtx_lock_ok env \<and> ring_list ring \<noteq> []
            then got = mtx_unlock_ok env \<and> ring_list ring = e' # ring_list ring'
            else \<not> got \<and> ring' = ring \<and> e' = out)"
proof (cases "mtx_lock_ok env \<and> ring_list ring \<noteq> []")
  case True
  then have "0 < r_count ring" using length_ring_list [OF assms] by (cases "r_count ring") auto
  from ring_dequeue_some [OF assms this, of env out] True show ?thesis by auto
next
  case False
  have "r_slots ring \<noteq> None" using assms by (auto simp: ring_inv_def)
  then show ?thesis
    using False assms length_ring_list [OF assms] by (auto simp: ij_ring_try_dequeue_def)
qed

theorem ring_dequeue_correct_witness:
  "\<exists>got ring' e'. ij_ring_try_dequeue working_mutex (Some sample_ring) (Some zero_event_copy) =
      Some (got, Some ring', Some e') \<and> \<not> got \<and> ring' = sample_ring"
  using ring_dequeue_correct [OF sample_ring_inv, of working_mutex zero_event_copy]
  by (auto simp: sample_ring_list)

text \<open>
  C18. Threads that call \<open>ij_ring_enqueue\<close> and \<open>ij_ring_try_dequeue\<close> concurrently on an initialised
  ring exclude one another from the critical sections in every interleaving, the delivered events
  are at every moment a prefix of the accepted ones in order, and at most \<open>capacity\<close> events are in
  between.
\<close>

theorem ring_interleaving_safe:
  assumes "ij_ring_init env (Some r0) capacity = (IJ_STATUS_OK, Some ring)"
    and "ring_reachable (shared_start ring) s"
  shows "(\<forall>t t'. in_critical (sh_pc s t) \<longrightarrow> in_critical (sh_pc s t') \<longrightarrow> t = t') \<and>
         prefix (sh_delivered s) (sh_accepted s) \<and>
         length (sh_accepted s) \<le> length (sh_delivered s) + capacity"
proof -
  obtain i: "ring_inv ring" "r_capacity ring = capacity"
    using ring_init_result [OF assms(1)] by auto
  have inv: "shared_inv s"
    by (rule shared_inv_reachable [OF assms(2) shared_inv_start [OF i(1)]])
  have "r_capacity (sh_ring s) = capacity"
    using ring_reachable_capacity [OF assms(2)] i(2) by (simp add: shared_start_def)
  with shared_inv_split [OF inv] obtain r where
    "ring_inv r" "sh_accepted s = sh_delivered s @ ring_list r" "r_capacity r = capacity" by auto
  then show ?thesis
    using inv length_ring_list [of r] ring_inv_le [of r] by (auto simp: shared_inv_def)
qed

theorem ring_interleaving_safe_witness:
  "prefix (sh_delivered (goto 1 WantDequeue (shared_start sample_ring)))
          (sh_accepted (goto 1 WantDequeue (shared_start sample_ring)))"
  using ring_interleaving_safe [OF sample_ring_init sample_waiting_reachable] by blast



text \<open>
  \<open>ij_ring_destroy\<close> on a well-formed ring disposes of every queued event exactly once and frees
  the arrays when the mutex works; when the unlock fails the events are still disposed of but the
  two arrays are not freed although the ring forgets them.
\<close>

theorem ring_destroy_disposes:
  assumes "ring_inv ring" "r_slots ring = Some slots" "mtx_lock_ok env"
  shows "\<exists>disposed. ij_ring_destroy env (Some ring) = Some (Some zero_ring, disposed, mtx_unlock_ok env) \<and>
           distinct disposed \<and> mset (map ((!) slots) disposed) = mset (ring_list ring)"
proof -
  obtain occupied where occ: "r_occupied ring = Some occupied" "length occupied = r_capacity ring"
    using assms(1) by (auto simp: ring_inv_def)
  show ?thesis
    using disposed_ring_slots [OF assms(1) occ(1) assms(2)] occ assms(2,3)
    by (auto simp: ij_ring_destroy_def disposed_slots_filter Let_def)
qed

theorem ring_destroy_disposes_witness:
  "\<exists>disposed. ij_ring_destroy working_mutex (Some sample_ring) = Some (Some zero_ring, disposed, True) \<and>
     mset (map ((!) (replicate 256 zero_event_copy)) disposed) = mset (ring_list sample_ring)"
  using ring_destroy_disposes [OF sample_ring_inv, of "replicate 256 zero_event_copy" working_mutex]
  by (auto simp: sample_ring_def working_mutex_def)

end
