(* ===== verification/System.thy ===== *)
theory System
  imports Queue
begin

text \<open>
  What lies under the sinks: standard output, the file system, \<open>stdio\<close> streams, \<open>io_uring\<close>,
  sockets and the clock. The answers of the calls are a parameter of the model: the record \<open>os\<close>
  gives, for the n-th call, the value the call returns, so that a theorem that holds for every
  \<open>os\<close> holds for every behaviour of the system, failures and short writes included. The record
  \<open>world\<close> holds what the calls have done so far: the bytes on standard output, the files, the bytes
  sent on each connection, the datagrams, the closed descriptors.

  The last section states what every sink promises its user, as a locale.
\<close>

section \<open>Answers and state\<close>

type_synonym address = "byte list"

record os =
  os_has_liburing :: bool
  os_writev :: "nat \<Rightarrow> size_t \<Rightarrow> int"
  os_send :: "nat \<Rightarrow> size_t \<Rightarrow> int"
  os_sendto :: "nat \<Rightarrow> size_t \<Rightarrow> int"
  os_getaddrinfo :: "nat \<Rightarrow> byte list \<Rightarrow> byte list \<Rightarrow> address list option"
  os_socket :: "nat \<Rightarrow> int"
  os_connect :: "nat \<Rightarrow> bool"
  os_fopen :: "nat \<Rightarrow> bool"
  os_fwrite :: "nat \<Rightarrow> size_t \<Rightarrow> size_t"
  os_spill :: "nat \<Rightarrow> size_t"
  os_fflush :: "nat \<Rightarrow> bool"
  os_fclose :: "nat \<Rightarrow> bool"
  os_rename :: "nat \<Rightarrow> bool"
  os_unlink :: "nat \<Rightarrow> bool"
  os_open :: "nat \<Rightarrow> int"
  os_uring_init :: "nat \<Rightarrow> bool"
  os_uring_sqe :: "nat \<Rightarrow> bool"
  os_uring_submit :: "nat \<Rightarrow> int"
  os_uring_result :: "nat \<Rightarrow> size_t \<Rightarrow> int"
  os_uring_wait :: "nat \<Rightarrow> int"
  os_stale_bytes :: "nat \<Rightarrow> size_t \<Rightarrow> byte list"
  os_malloc :: "nat \<Rightarrow> bool"
  os_time :: "nat \<Rightarrow> int"
  os_ring :: "nat \<Rightarrow> ring_env"
  os_alloc :: "nat \<Rightarrow> copy_alloc"

record world =
  w_calls :: nat
  w_stdout :: "byte list"
  w_files :: "byte list \<Rightarrow> byte list option"
  w_streams :: "int \<Rightarrow> byte list"
  w_datagrams :: "(address \<times> byte list) list"
  w_closed :: "int list"

definition tick :: "world \<Rightarrow> world" where
  "tick w = w\<lparr>w_calls := w_calls w + 1\<rparr>"

definition file_content :: "world \<Rightarrow> byte list \<Rightarrow> byte list" where
  "file_content w p = (case w_files w p of None \<Rightarrow> [] | Some c \<Rightarrow> c)"

definition file_append :: "byte list \<Rightarrow> byte list \<Rightarrow> world \<Rightarrow> world" where
  "file_append p bs w = w\<lparr>w_files := (w_files w)(p \<mapsto> file_content w p @ bs)\<rparr>"

lemma file_content_append [simp]:
  "file_content (file_append p bs w) q = (if q = p then file_content w p @ bs else file_content w q)"
  by (simp add: file_content_def file_append_def)

lemma file_content_tick [simp]: "file_content (tick w) = file_content w"
  by (rule ext) (simp add: file_content_def tick_def)

lemma file_append_Nil [simp]: "w_files w p \<noteq> None \<Longrightarrow> file_append p [] w = w"
  by (auto simp: file_append_def file_content_def fun_upd_idem)

section \<open>System calls\<close>

definition writev :: "os \<Rightarrow> byte list \<Rightarrow> world \<Rightarrow> int \<times> world" where
  "writev os bs w =
     (let r = os_writev os (w_calls w) (length bs)
      in (r, tick (w\<lparr>w_stdout := w_stdout w @ take (nat r) bs\<rparr>)))"

definition send :: "os \<Rightarrow> int \<Rightarrow> byte list \<Rightarrow> world \<Rightarrow> int \<times> world" where
  "send os fd bs w =
     (let r = os_send os (w_calls w) (length bs)
      in (r, tick (w\<lparr>w_streams := (w_streams w)(fd := w_streams w fd @ take (nat r) bs)\<rparr>)))"

text \<open>A datagram leaves as a whole or, when the call fails, not at all.\<close>

definition sendto :: "os \<Rightarrow> address \<Rightarrow> byte list \<Rightarrow> world \<Rightarrow> int \<times> world" where
  "sendto os addr bs w =
     (let r = os_sendto os (w_calls w) (length bs)
      in (r, tick (if r < 0 then w else w\<lparr>w_datagrams := w_datagrams w @ [(addr, take (nat r) bs)]\<rparr>)))"

definition close_fd :: "int \<Rightarrow> world \<Rightarrow> world" where
  "close_fd fd w = tick (w\<lparr>w_closed := w_closed w @ [fd]\<rparr>)"

definition time_now :: "os \<Rightarrow> world \<Rightarrow> int \<times> world" where
  "time_now os w = (os_time os (w_calls w), tick w)"

definition malloc :: "os \<Rightarrow> world \<Rightarrow> bool \<times> world" where
  "malloc os w = (os_malloc os (w_calls w), tick w)"

text \<open>\<open>rename\<close> replaces its target; \<open>unlink\<close> removes the name.\<close>

definition rename :: "os \<Rightarrow> byte list \<Rightarrow> byte list \<Rightarrow> world \<Rightarrow> bool \<times> world" where
  "rename os old new w =
     (case w_files w old of
        None \<Rightarrow> (False, tick w)
      | Some c \<Rightarrow>
          if os_rename os (w_calls w)
          then (True, tick (w\<lparr>w_files := (w_files w)(old := None, new := Some c)\<rparr>))
          else (False, tick w))"

definition unlink :: "os \<Rightarrow> byte list \<Rightarrow> world \<Rightarrow> world" where
  "unlink os p w = tick (if os_unlink os (w_calls w) then w\<lparr>w_files := (w_files w)(p := None)\<rparr> else w)"

section \<open>Streams\<close>

text \<open>
  An open \<open>FILE\<close> in append mode is its file's name and the bytes the C library still holds. A
  write may pass any part of the held bytes on; a flush that succeeds passes all of them on.
\<close>

record file_stream =
  fs_path :: "byte list"
  fs_pending :: "byte list"

definition fopen_ab :: "os \<Rightarrow> byte list \<Rightarrow> world \<Rightarrow> file_stream option \<times> world" where
  "fopen_ab os p w =
     (if os_fopen os (w_calls w)
      then (Some \<lparr>fs_path = p, fs_pending = []\<rparr>, tick (file_append p [] w))
      else (None, tick w))"

definition fwrite :: "os \<Rightarrow> byte list \<Rightarrow> file_stream \<Rightarrow> world \<Rightarrow> size_t \<times> file_stream \<times> world" where
  "fwrite os bs f w =
     (let n = min (os_fwrite os (w_calls w) (length bs)) (length bs);
          held = fs_pending f @ take n bs; k = os_spill os (w_calls w)
      in (n, f\<lparr>fs_pending := drop k held\<rparr>, tick (file_append (fs_path f) (take k held) w)))"

definition fflush :: "os \<Rightarrow> file_stream \<Rightarrow> world \<Rightarrow> bool \<times> file_stream \<times> world" where
  "fflush os f w =
     (if os_fflush os (w_calls w)
      then (True, f\<lparr>fs_pending := []\<rparr>, tick (file_append (fs_path f) (fs_pending f) w))
      else (let k = os_spill os (w_calls w)
            in (False, f\<lparr>fs_pending := drop k (fs_pending f)\<rparr>,
                tick (file_append (fs_path f) (take k (fs_pending f)) w))))"

definition fclose :: "os \<Rightarrow> file_stream \<Rightarrow> world \<Rightarrow> world" where
  "fclose os f w =
     tick (file_append (fs_path f)
       (if os_fclose os (w_calls w) then fs_pending f else take (os_spill os (w_calls w)) (fs_pending f)) w)"

section \<open>Loops over partial writes\<close>

text \<open>
  The outcome of a loop that has to bring the bytes \<open>left\<close> onto a stream \<open>out\<close> of the world: all of
  them when it answers OK, a proper prefix with a sink error otherwise.
\<close>

definition stream_outcome ::
  "(world \<Rightarrow> byte list) \<Rightarrow> byte list \<Rightarrow> byte list \<Rightarrow> ij_status_t \<times> world \<Rightarrow> bool" where
  "stream_outcome out before left r \<longleftrightarrow>
     (\<exists>more. out (snd r) = before @ more \<and>
        (if fst r = IJ_STATUS_OK then more = left
         else fst r = IJ_STATUS_SINK_ERROR \<and> strict_prefix more left))"

lemma stream_outcome_prepend:
  "stream_outcome out (before @ xs) left r \<Longrightarrow> stream_outcome out before (xs @ left) r"
proof -
  assume "stream_outcome out (before @ xs) left r"
  then obtain more where "out (snd r) = before @ xs @ more"
    "if fst r = IJ_STATUS_OK then more = left else fst r = IJ_STATUS_SINK_ERROR \<and> strict_prefix more left"
    by (auto simp: stream_outcome_def)
  then show ?thesis
    unfolding stream_outcome_def by (intro exI [of _ "xs @ more"]) (auto simp: strict_prefix_def)
qed

section \<open>What a sink promises\<close>

text \<open>
  A sink turns each payload it accepts into a record of its output, in order. \<open>inv\<close> is the sink's
  invariant.
\<close>

locale record_sink =
  fixes inv :: "'s \<Rightarrow> bool"
    and emit :: "byte list \<Rightarrow> 's \<Rightarrow> ij_status_t \<times> 's"
    and written :: "'s \<Rightarrow> 'o list"
    and frame :: "byte list \<Rightarrow> 'o list"
  assumes emit_ok: "inv s \<Longrightarrow> payload \<noteq> [] \<Longrightarrow> emit payload s = (IJ_STATUS_OK, s') \<Longrightarrow>
      inv s' \<and> written s' = written s @ frame payload"
begin

text \<open>Payloads one after the other, until one is refused.\<close>

fun emit_all :: "byte list list \<Rightarrow> 's \<Rightarrow> ij_status_t \<times> 's" where
  "emit_all [] s = (IJ_STATUS_OK, s)"
| "emit_all (p # ps) s =
     (case emit p s of (st, s') \<Rightarrow> if st = IJ_STATUS_OK then emit_all ps s' else (st, s'))"

lemma emit_all_ok:
  "inv s \<Longrightarrow> [] \<notin> set ps \<Longrightarrow> emit_all ps s = (IJ_STATUS_OK, s') \<Longrightarrow>
     inv s' \<and> written s' = written s @ concat (map frame ps)"
proof (induction ps arbitrary: s)
  case (Cons p ps)
  obtain st s1 where e: "emit p s = (st, s1)" by fastforce
  with Cons.prems(3) have st: "st = IJ_STATUS_OK" "emit_all ps s1 = (IJ_STATUS_OK, s')"
    by (auto split: if_splits)
  have "inv s1 \<and> written s1 = written s @ frame p"
    using emit_ok [of s p s1] Cons.prems e st(1) by auto
  with Cons.IH [of s1] Cons.prems(2) st(2) show ?case by auto
qed simp

end

text \<open>
  A sink whose medium only grows: a payload that is refused may leave a part of its record behind,
  but never disturbs the earlier output, and the sink stays usable.
\<close>

locale append_only_sink = record_sink inv emit written frame
  for inv :: "'s \<Rightarrow> bool" and emit :: "byte list \<Rightarrow> 's \<Rightarrow> ij_status_t \<times> 's"
    and written :: "'s \<Rightarrow> 'o list" and frame :: "byte list \<Rightarrow> 'o list" +
  assumes emit_keeps: "inv s \<Longrightarrow> emit payload s = (st, s') \<Longrightarrow> inv s' \<and> (\<exists>more. written s' = written s @ more)"
begin

text \<open>All payloads one after the other, refused or not, with the answers.\<close>

fun emit_each :: "byte list list \<Rightarrow> 's \<Rightarrow> ij_status_t list \<times> 's" where
  "emit_each [] s = ([], s)"
| "emit_each (p # ps) s = (case emit p s of (st, s') \<Rightarrow> apfst ((#) st) (emit_each ps s'))"

lemma emit_each_keeps: "inv s \<Longrightarrow> inv (snd (emit_each ps s)) \<and> (\<exists>more. written (snd (emit_each ps s)) = written s @ more)"
proof (induction ps arbitrary: s)
  case (Cons p ps)
  obtain st s1 where e: "emit p s = (st, s1)" by fastforce
  with emit_keeps [OF Cons.prems e] Cons.IH [of s1] show ?case by auto
qed simp

end

end
