(* ===== verification/Console_Sink.thy ===== *)
theory Console_Sink
  imports System
begin

text \<open>
  The console sink, \<open>src/sinks/ij_console_sink.c\<close>: the payload and a newline are written to
  standard output with \<open>writev\<close>, which may accept any part of what it is given.
\<close>

section \<open>Model\<close>

function (sequential) console_loop ::
  "os \<Rightarrow> byte list \<Rightarrow> size_t \<Rightarrow> size_t \<Rightarrow> size_t \<Rightarrow> world \<Rightarrow> ij_status_t \<times> world" where
  "console_loop os payload payload_len remaining offset w =
     (if remaining > 0 then
        let vector0 = (if offset \<ge> payload_len then [] else c_mem (c_ptr_add payload offset) (payload_len - offset));
            (written, w) = writev os (vector0 @ [0x0a]) w
        in if written \<le> 0 then (IJ_STATUS_SINK_ERROR, w)
           else if nat written \<ge> remaining then (IJ_STATUS_OK, w)
           else
             let payload_written =
                   (if nat written > payload_len - offset then payload_len - offset else nat written);
                 offset = (if offset < payload_len then offset + payload_written else offset)
             in console_loop os payload payload_len (remaining - nat written) offset w
      else (IJ_STATUS_OK, w))"
  by pat_completeness auto
termination
  by (relation "measure (\<lambda>(os, payload, payload_len, remaining, offset, w). remaining)") auto

declare console_loop.simps [simp del]

definition ij_console_sink_write ::
  "os \<Rightarrow> byte list option \<Rightarrow> size_t \<Rightarrow> world \<Rightarrow> ij_status_t \<times> world" where
  "ij_console_sink_write os payload payload_len w =
     (case payload of
        None \<Rightarrow> (IJ_STATUS_INVALID_ARGUMENT, w)
      | Some p \<Rightarrow>
          if payload_len = 0 then (IJ_STATUS_INVALID_ARGUMENT, w)
          else console_loop os p payload_len (payload_len + 1) 0 w)"

section \<open>The output\<close>

text \<open>
  With \<open>offset\<close> bytes of the payload out, the loop appends a prefix of what is left, all of it
  exactly when it answers OK.
\<close>

lemma console_step:
  assumes "offset \<le> n" "remaining = n - offset + 1" "writev os (drop offset (c_mem p n) @ [0x0a]) w = (r, w')"
  shows "console_loop os p n remaining offset w =
    (if r \<le> 0 then (IJ_STATUS_SINK_ERROR, w') else if nat r \<ge> remaining then (IJ_STATUS_OK, w')
     else console_loop os p n (remaining - nat r) (offset + nat r) w')"
proof -
  have vec: "(if offset \<ge> n then [] else c_mem (c_ptr_add p offset) (n - offset)) = drop offset (c_mem p n)"
    using assms(1) by (simp add: c_mem_ptr_add_drop)
  have o: "(if offset < n then offset + (if nat r > n - offset then n - offset else nat r) else offset) =
      offset + nat r" if "\<not> nat r \<ge> remaining"
    using that assms(1,2) by auto
  show ?thesis
    unfolding console_loop.simps [of os p n remaining offset w] vec
    using assms(2,3) o by (cases "nat r \<ge> remaining") (simp_all add: Let_def)
qed

lemma console_loop_output:
  "offset \<le> n \<Longrightarrow> remaining = n - offset + 1 \<Longrightarrow>
   stream_outcome w_stdout (w_stdout w) (drop offset (c_mem p n) @ [0x0a]) (console_loop os p n remaining offset w)"
proof (induction remaining arbitrary: offset w rule: less_induct)
  case (less remaining)
  let ?rest = "drop offset (c_mem p n) @ [0x0a]"
  obtain r w' where wv: "writev os ?rest w = (r, w')" by fastforce
  have out: "w_stdout w' = w_stdout w @ take (nat r) ?rest"
    using wv by (auto simp: writev_def Let_def tick_def)
  have len: "length ?rest = remaining" using less.prems by simp
  note step = console_step [OF less.prems wv]
  consider (fail) "r \<le> 0" | (all) "0 < r" "nat r \<ge> remaining" | (part) "0 < r" "nat r < remaining"
    by linarith
  then show ?case
  proof cases
    case fail
    then show ?thesis using out by (simp add: step stream_outcome_def strict_prefix_def)
  next
    case all
    then have "take (nat r) ?rest = ?rest" using len by (intro take_all) simp
    with all show ?thesis unfolding step using out by (simp add: stream_outcome_def del: take_append)
  next
    case part
    have o: "offset + nat r \<le> n" "remaining - nat r = n - (offset + nat r) + 1" "remaining - nat r < remaining"
      using part less.prems by linarith+
    have "drop (nat r) ?rest = drop (offset + nat r) (c_mem p n) @ [0x0a]"
      using o(1) by (simp add: add.commute)
    then have split: "?rest = take (nat r) ?rest @ (drop (offset + nat r) (c_mem p n) @ [0x0a])"
      by (metis append_take_drop_id)
    have "stream_outcome w_stdout (w_stdout w') (drop (offset + nat r) (c_mem p n) @ [0x0a])
        (console_loop os p n remaining offset w)"
      using less.IH [OF o(3,1,2), of w'] part by (simp add: step)
    then show ?thesis unfolding out by (subst split) (rule stream_outcome_prepend)
  qed
qed

text \<open>Each \<open>writev\<close> that takes at least one byte brings the loop nearer to its end.\<close>

lemma console_loop_ok:
  "offset \<le> n \<Longrightarrow> remaining = n - offset + 1 \<Longrightarrow> (\<And>c k. 0 < k \<Longrightarrow> 0 < os_writev os c k) \<Longrightarrow>
   fst (console_loop os p n remaining offset w) = IJ_STATUS_OK"
proof (induction remaining arbitrary: offset w rule: less_induct)
  case (less remaining)
  let ?rest = "drop offset (c_mem p n) @ [0x0a]"
  obtain r w' where wv: "writev os ?rest w = (r, w')" by fastforce
  have r: "0 < r" using less.prems(3) [of "length ?rest" "w_calls w"] wv by (auto simp: writev_def Let_def)
  note step = console_step [OF less.prems(1,2) wv]
  show ?case
  proof (cases "nat r < remaining")
    case True
    have o: "offset + nat r \<le> n" "remaining - nat r = n - (offset + nat r) + 1" "remaining - nat r < remaining"
      using True r less.prems(1,2) by linarith+
    with less.IH [OF o(3,1,2)] less.prems(3) r True show ?thesis by (simp add: step)
  next
    case False
    then show ?thesis using r by (simp add: step)
  qed
qed

lemma console_write_outcome:
  "0 < n \<Longrightarrow> stream_outcome w_stdout (w_stdout w) (c_mem p n @ [0x0a]) (ij_console_sink_write os (Some p) n w)"
  using console_loop_output [of 0 n "n + 1" w p os] by (simp add: ij_console_sink_write_def)

text \<open>The console is a sink of lines.\<close>

definition console_emit :: "os \<Rightarrow> byte list \<Rightarrow> world \<Rightarrow> ij_status_t \<times> world" where
  "console_emit os payload w = ij_console_sink_write os (Some payload) (length payload) w"

interpretation console: append_only_sink "\<lambda>_. True" "console_emit os" w_stdout "\<lambda>p. p @ [0x0a]" for os
proof
  fix w :: world and payload st w'
  show "True \<and> w_stdout w' = w_stdout w @ (payload @ [0x0a])"
    if "payload \<noteq> []" "console_emit os payload w = (IJ_STATUS_OK, w')"
    using console_write_outcome [of "length payload" w payload os] that
    by (auto simp: console_emit_def stream_outcome_def)
  show "True \<and> (\<exists>more. w_stdout w' = w_stdout w @ more)" if "console_emit os payload w = (st, w')"
  proof (cases "payload = []")
    case True
    then show ?thesis using that by (simp add: console_emit_def ij_console_sink_write_def)
  next
    case False
    then show ?thesis
      using console_write_outcome [of "length payload" w payload os] that
      by (auto simp: console_emit_def stream_outcome_def)
  qed
qed

section \<open>Properties\<close>

text \<open>
  Whatever \<open>writev\<close> accepts at each call, \<open>ij_console_sink_write\<close> ends, and it answers OK
  exactly when the payload and one newline have been appended to standard output; otherwise a
  proper prefix of that line is there and the answer is a sink error.
\<close>

theorem console_sink_write_correct:
  assumes "0 < n"
  shows "\<exists>st w' out. ij_console_sink_write os (Some p) n w = (st, w') \<and> w_stdout w' = w_stdout w @ out \<and>
           (st = IJ_STATUS_OK \<and> out = c_mem p n @ [0x0a] \<or>
            st = IJ_STATUS_SINK_ERROR \<and> strict_prefix out (c_mem p n @ [0x0a]))"
  using console_write_outcome [OF assms, of w p os]
  by (cases "ij_console_sink_write os (Some p) n w") (auto simp: stream_outcome_def split: if_splits)

definition short_writer :: os where
  "short_writer = \<lparr>os_has_liburing = False, os_writev = (\<lambda>_ k. 1), os_send = (\<lambda>_ k. 1),
     os_sendto = (\<lambda>_ k. int k), os_getaddrinfo = (\<lambda>_ _ _. Some [[1]]), os_socket = (\<lambda>_. 3),
     os_connect = (\<lambda>_. True), os_fopen = (\<lambda>_. True), os_fwrite = (\<lambda>_ k. k), os_spill = (\<lambda>_. 0),
     os_fflush = (\<lambda>_. True), os_fclose = (\<lambda>_. True), os_rename = (\<lambda>_. True), os_unlink = (\<lambda>_. True),
     os_open = (\<lambda>_. 3), os_uring_init = (\<lambda>_. True), os_uring_sqe = (\<lambda>_. True), os_uring_submit = (\<lambda>_. 1),
     os_uring_result = (\<lambda>_ k. int k), os_uring_wait = (\<lambda>_. 0), os_stale_bytes = (\<lambda>_ k. replicate k 0),
     os_malloc = (\<lambda>_. True), os_time = (\<lambda>_. 0), os_ring = (\<lambda>_. working_mutex), os_alloc = (\<lambda>_. sample_alloc)\<rparr>"

definition start_world :: world where
  "start_world = \<lparr>w_calls = 0, w_stdout = [], w_files = (\<lambda>_. None), w_streams = (\<lambda>_. []),
                  w_datagrams = [], w_closed = []\<rparr>"

theorem console_sink_write_correct_witness:
  "\<exists>st w' out. ij_console_sink_write short_writer (Some [0x68, 0x69]) 2 start_world = (st, w') \<and>
     w_stdout w' = out \<and>
     (st = IJ_STATUS_OK \<and> out = [0x68, 0x69, 0x0a] \<or>
      st = IJ_STATUS_SINK_ERROR \<and> strict_prefix out [0x68, 0x69, 0x0a])"
  using console_sink_write_correct [of 2 short_writer "[0x68, 0x69]" start_world]
  by (auto simp: start_world_def c_mem_def)

text \<open>
  The write loop of the console sink terminates with success whenever every \<open>writev\<close> takes at
  least one byte, however small its share.
\<close>

theorem console_sink_write_progress:
  assumes "0 < n" and "\<And>c k. 0 < k \<Longrightarrow> 0 < os_writev os c k"
  shows "\<exists>w'. ij_console_sink_write os (Some p) n w = (IJ_STATUS_OK, w') \<and>
           w_stdout w' = w_stdout w @ c_mem p n @ [0x0a]"
proof -
  have "fst (ij_console_sink_write os (Some p) n w) = IJ_STATUS_OK"
    using console_loop_ok [of 0 n "n + 1" os p w] assms by (simp add: ij_console_sink_write_def)
  with console_write_outcome [OF assms(1), of w p os] show ?thesis
    by (cases "ij_console_sink_write os (Some p) n w") (auto simp: stream_outcome_def)
qed

theorem console_sink_write_progress_witness:
  "\<exists>w'. ij_console_sink_write short_writer (Some [0x68, 0x69]) 2 start_world = (IJ_STATUS_OK, w') \<and>
     w_stdout w' = [0x68, 0x69, 0x0a]"
  using console_sink_write_progress [of 2 short_writer "[0x68, 0x69]" start_world]
  by (auto simp: short_writer_def start_world_def c_mem_def)

text \<open>
  Lines written to the console one after the other appear in order and complete when every
  write was accepted.
\<close>

theorem console_lines_in_order:
  assumes "[] \<notin> set payloads"
    and "record_sink.emit_all (console_emit os) payloads w = (IJ_STATUS_OK, w')"
  shows "w_stdout w' = w_stdout w @ concat (map (\<lambda>p. p @ [0x0a]) payloads)"
  using console.emit_all_ok [OF TrueI assms] by simp

theorem console_lines_in_order_witness:
  "w_stdout (snd (record_sink.emit_all (console_emit short_writer) [[0x68], [0x69]] start_world)) =
     w_stdout start_world @ [0x68, 0x0a, 0x69, 0x0a]"
proof -
  have "\<exists>w'. console_emit short_writer [b] w = (IJ_STATUS_OK, w')" for b w
    using console_loop_ok [of 0 1 2 short_writer "[b]" w]
    by (cases "console_emit short_writer [b] w")
      (auto simp: console_emit_def ij_console_sink_write_def short_writer_def numeral_2_eq_2)
  then obtain w1 w2 where "console_emit short_writer [0x68] start_world = (IJ_STATUS_OK, w1)"
    "console_emit short_writer [0x69] w1 = (IJ_STATUS_OK, w2)" by metis
  then have "record_sink.emit_all (console_emit short_writer) [[0x68], [0x69]] start_world =
      (IJ_STATUS_OK, w2)" by simp
  with console_lines_in_order [of "[[0x68], [0x69]]" short_writer start_world w2] show ?thesis by simp
qed

end
