(* ===== verification/Json_Text.thy ===== *)
theory Json_Text
  imports Json_Escape
begin

text \<open>
  Reference for the JSON encoders: decimal numerals, the escaping of strings, JSON values with a
  printer, and a reader. Reading what was printed gives the value back, so the printed text of
  two different values is never the same.
\<close>

section \<open>Decimal numerals\<close>

fun decimal :: "nat \<Rightarrow> byte list" where
  "decimal n = (if n < 10 then [byte_of (48 + n)] else decimal (n div 10) @ [byte_of (48 + n mod 10)])"

declare decimal.simps [simp del]

definition signed_decimal :: "int \<Rightarrow> byte list" where
  "signed_decimal i = (if i < 0 then 0x2d # decimal (nat (- i)) else decimal (nat i))"

definition read_decimal :: "byte list \<Rightarrow> nat" where
  "read_decimal bs = foldl (\<lambda>acc b. 10 * acc + (unat b - 48)) 0 bs"

definition read_signed :: "byte list \<Rightarrow> int" where
  "read_signed bs =
     (case bs of [] \<Rightarrow> 0 | b # bs' \<Rightarrow> if b = 0x2d then - int (read_decimal bs') else int (read_decimal bs))"

lemma unat_digit [simp]: "n < 10 \<Longrightarrow> unat (byte_of (48 + n)) = 48 + n"
  by simp

lemma read_decimal_snoc: "read_decimal (bs @ [b]) = 10 * read_decimal bs + (unat b - 48)"
  by (simp add: read_decimal_def)

lemma read_decimal_decimal [simp]: "read_decimal (decimal n) = n"
proof (induction n rule: decimal.induct)
  case (1 n)
  show ?case
  proof (cases "n < 10")
    case True
    then show ?thesis by (simp add: decimal.simps [of n] read_decimal_def)
  next
    case False
    with 1 show ?thesis by (simp add: decimal.simps [of n] read_decimal_snoc)
  qed
qed

definition is_digit :: "byte \<Rightarrow> bool" where
  "is_digit b \<longleftrightarrow> 48 \<le> unat b \<and> unat b < 58"

lemma is_digit_byte_of [simp]: "n < 10 \<Longrightarrow> is_digit (byte_of (48 + n))"
  by (simp add: is_digit_def)

lemma decimal_digits: "b \<in> set (decimal n) \<Longrightarrow> is_digit b"
proof (induction n rule: decimal.induct)
  case (1 n)
  then show ?case
    using decimal.simps [of n] by (cases "n < 10") auto
qed

lemma decimal_not_Nil [simp]: "decimal n \<noteq> []"
  using decimal.simps [of n] by (cases "n < 10") auto

lemma length_decimal: "n < 10 ^ k \<Longrightarrow> 0 < k \<Longrightarrow> length (decimal n) \<le> k"
proof (induction k arbitrary: n)
  case (Suc k)
  show ?case
  proof (cases "n < 10")
    case True
    then show ?thesis by (simp add: decimal.simps [of n])
  next
    case False
    with Suc.prems have "n div 10 < 10 ^ k" "0 < k"
      by (auto simp: less_mult_imp_div_less mult.commute intro!: Nat.gr0I)
    from Suc.IH [OF this] False show ?thesis by (simp add: decimal.simps [of n])
  qed
qed simp

lemma digit_not_minus: "is_digit b \<Longrightarrow> b \<noteq> 0x2d"
  by (auto simp: is_digit_def)

lemma read_signed_decimal [simp]: "read_signed (signed_decimal i) = i"
proof (cases "i < 0")
  case False
  obtain b bs where d: "decimal (nat i) = b # bs" by (metis decimal_not_Nil neq_Nil_conv)
  then have "is_digit b" using decimal_digits [of b "nat i"] by simp
  with False d show ?thesis
    using read_decimal_decimal [of "nat i"] by (simp add: signed_decimal_def read_signed_def digit_not_minus)
qed (simp add: signed_decimal_def read_signed_def)

section \<open>Strings\<close>

definition hex :: "nat \<Rightarrow> byte" where
  "hex n = (if n < 10 then byte_of (48 + n) else byte_of (97 + (n - 10)))"

definition hex_value :: "byte \<Rightarrow> nat" where
  "hex_value b = (if unat b < 58 then unat b - 48 else unat b - 87)"

definition escape_byte :: "byte \<Rightarrow> byte list" where
  "escape_byte c =
     (if c = 0x5c then [0x5c, 0x5c] else if c = 0x22 then [0x5c, 0x22]
      else if c = 0x0a then [0x5c, 0x6e] else if c = 0x0d then [0x5c, 0x72]
      else if c = 0x09 then [0x5c, 0x74]
      else if c < 0x20 then [0x5c, 0x75, 0x30, 0x30, hex (unat c div 16), hex (unat c mod 16)]
      else [c])"

definition escape :: "byte list \<Rightarrow> byte list" where
  "escape bs = concat (map escape_byte bs)"

definition quote :: "byte list \<Rightarrow> byte list" where
  "quote bs = 0x22 # escape bs @ [0x22]"

definition unescape_simple :: "byte \<Rightarrow> byte option" where
  "unescape_simple e =
     (if e = 0x5c \<or> e = 0x22 \<or> e = 0x2f then Some e else if e = 0x6e then Some 0x0a
      else if e = 0x72 then Some 0x0d else if e = 0x74 then Some 0x09 else None)"

text \<open>The rest of a string after its opening quote: the string and what follows it.\<close>

fun read_string :: "byte list \<Rightarrow> (byte list \<times> byte list) option" where
  "read_string [] = None"
| "read_string (c # cs) =
     (if c = 0x22 then Some ([], cs)
      else if c = 0x5c then
        (case cs of
           [] \<Rightarrow> None
         | e # cs' \<Rightarrow>
             if e = 0x75 then
               (case cs' of
                  z0 # z1 # h # l # rest \<Rightarrow>
                    if z0 = 0x30 \<and> z1 = 0x30
                    then map_option (apfst ((#) (byte_of (hex_value h * 16 + hex_value l)))) (read_string rest)
                    else None
                | _ \<Rightarrow> None)
             else
               (case unescape_simple e of
                  None \<Rightarrow> None
                | Some b \<Rightarrow> map_option (apfst ((#) b)) (read_string cs')))
      else if c < 0x20 then None
      else map_option (apfst ((#) c)) (read_string cs))"

declare read_string.simps(2) [simp del]

lemma escape_simps [simp]: "escape [] = []" "escape (b # bs) = escape_byte b @ escape bs"
  "escape (xs @ ys) = escape xs @ escape ys"
  by (simp_all add: escape_def)

lemma escape_no_special: "(\<forall>b\<in>set bs. \<not> json_special b) \<Longrightarrow> escape bs = bs"
  by (induction bs) (auto simp: escape_byte_def json_special_def)

lemma hex_value_hex [simp]: "n < 16 \<Longrightarrow> hex_value (hex n) = n"
  by (auto simp: hex_def hex_value_def)

lemma read_string_escape_byte:
  "read_string (escape_byte c @ cs) = map_option (apfst ((#) c)) (read_string cs)"
proof -
  have "byte_of (unat c div 16 * 16 + unat c mod 16) = c"
    by (rule byte_eqI) simp
  moreover have "unat c div 16 < 16"
    using less_mult_imp_div_less [of "unat c" 16 16] unat_byte_less [of c] by simp
  ultimately show ?thesis
    by (auto simp: escape_byte_def read_string.simps(2) [of _ "_ # _"] read_string.simps(2) [of c]
        unescape_simple_def)
qed

text \<open>Unescaping inverts escaping.\<close>

lemma read_string_escape: "read_string (escape bs @ 0x22 # rest) = Some (bs, rest)"
  by (induction bs) (simp_all add: read_string_escape_byte, simp add: read_string.simps(2))

lemma escape_byte_clean: "b \<in> set (escape_byte c) \<Longrightarrow> 0x20 \<le> b"
proof -
  have h: "0x20 \<le> hex n" if "n < 16" for n
    using that by (auto simp: hex_def word_le_nat_alt)
  have "unat c div 16 < 16"
    using less_mult_imp_div_less [of "unat c" 16 16] unat_byte_less [of c] by simp
  then show "b \<in> set (escape_byte c) \<Longrightarrow> 0x20 \<le> b"
    using h by (auto simp: escape_byte_def not_less split: if_splits)
qed

lemma escape_clean: "b \<in> set (escape bs) \<Longrightarrow> 0x20 \<le> b"
  by (auto simp: escape_def escape_byte_clean)

lemma length_escape_byte: "length (escape_byte c) \<le> 6" "1 \<le> length (escape_byte c)"
  by (auto simp: escape_byte_def)

lemma length_escape: "length (escape bs) \<le> 6 * length bs"
proof (induction bs)
  case (Cons b bs)
  then show ?case using length_escape_byte [of b] by simp
qed simp

section \<open>Values\<close>

datatype json = JString "byte list" | JToken "byte list" | JObject members
and members = MNil | MCons "byte list" json members

fun print_json :: "json \<Rightarrow> byte list"
  and print_members :: "members \<Rightarrow> byte list" where
  "print_json (JString s) = quote s"
| "print_json (JToken t) = t"
| "print_json (JObject ms) = 0x7b # print_members ms @ [0x7d]"
| "print_members MNil = []"
| "print_members (MCons k v ms) =
     quote k @ [0x3a] @ print_json v @ (case ms of MNil \<Rightarrow> [] | MCons _ _ _ \<Rightarrow> 0x2c # print_members ms)"

text \<open>A token is a numeral, \<open>true\<close> or \<open>false\<close>; it ends before a comma or a closing brace.\<close>

definition token_byte :: "byte \<Rightarrow> bool" where
  "token_byte b \<longleftrightarrow> b \<noteq> 0x2c \<and> b \<noteq> 0x7d \<and> b \<noteq> 0x22 \<and> b \<noteq> 0x7b \<and> 0x20 < b"

definition token_ok :: "byte list \<Rightarrow> bool" where
  "token_ok t \<longleftrightarrow> t \<noteq> [] \<and> (\<forall>b\<in>set t. token_byte b)"

fun read_json :: "nat \<Rightarrow> byte list \<Rightarrow> (json \<times> byte list) option"
  and read_members :: "nat \<Rightarrow> byte list \<Rightarrow> (members \<times> byte list) option" where
  "read_json 0 _ = None"
| "read_json (Suc n) [] = None"
| "read_json (Suc n) (c # cs) =
     (if c = 0x22 then map_option (apfst JString) (read_string cs)
      else if c = 0x7b then
        (case cs of
           [] \<Rightarrow> None
         | d # ds \<Rightarrow>
             if d = 0x7d then Some (JObject MNil, ds)
             else map_option (apfst JObject) (read_members n cs))
      else
        (let t = takeWhile token_byte (c # cs)
         in if t = [] then None else Some (JToken t, dropWhile token_byte (c # cs))))"
| "read_members 0 _ = None"
| "read_members (Suc n) [] = None"
| "read_members (Suc n) (c # cs) =
     (if c \<noteq> 0x22 then None
      else
        (case read_string cs of
           Some (k, d # ds) \<Rightarrow>
             if d \<noteq> 0x3a then None
             else
               (case read_json n ds of
                  Some (v, e # es) \<Rightarrow>
                    if e = 0x7d then Some (MCons k v MNil, es)
                    else if e = 0x2c then map_option (apfst (MCons k v)) (read_members n es)
                    else None
                | _ \<Rightarrow> None)
         | _ \<Rightarrow> None))"

fun json_ok :: "json \<Rightarrow> bool"
  and members_ok :: "members \<Rightarrow> bool" where
  "json_ok (JString s) = True"
| "json_ok (JToken t) = token_ok t"
| "json_ok (JObject ms) = members_ok ms"
| "members_ok MNil = True"
| "members_ok (MCons k v ms) = (json_ok v \<and> members_ok ms)"

fun json_weight :: "json \<Rightarrow> nat"
  and members_weight :: "members \<Rightarrow> nat" where
  "json_weight (JString s) = 1"
| "json_weight (JToken t) = 1"
| "json_weight (JObject ms) = Suc (members_weight ms)"
| "members_weight MNil = 1"
| "members_weight (MCons k v ms) = Suc (json_weight v + members_weight ms)"

definition delimited :: "byte list \<Rightarrow> bool" where
  "delimited rest \<longleftrightarrow> (case rest of [] \<Rightarrow> True | b # _ \<Rightarrow> b = 0x2c \<or> b = 0x7d)"

lemma token_read:
  "token_ok t \<Longrightarrow> delimited rest \<Longrightarrow>
   takeWhile token_byte (t @ rest) = t \<and> dropWhile token_byte (t @ rest) = rest"
  by (cases rest) (auto simp: token_ok_def delimited_def token_byte_def)

lemma print_json_Cons: "json_ok j \<Longrightarrow> \<exists>c cs. print_json j = c # cs \<and> c \<noteq> 0x7d"
  by (cases j) (auto simp: quote_def token_ok_def token_byte_def neq_Nil_conv)

lemma read_print:
  "json_ok j \<Longrightarrow> delimited rest \<Longrightarrow> json_weight j \<le> n \<Longrightarrow>
     read_json n (print_json j @ rest) = Some (j, rest)"
  "members_ok ms \<Longrightarrow> ms \<noteq> MNil \<Longrightarrow> members_weight ms \<le> n \<Longrightarrow>
     read_members n (print_members ms @ 0x7d # rest) = Some (ms, rest)"
proof (induction j and ms arbitrary: n rest and n rest)
  case (JString s)
  then obtain m where "n = Suc m" by (cases n) auto
  then show ?case by (simp add: quote_def read_string_escape)
next
  case (JToken t)
  then obtain m where n: "n = Suc m" by (cases n) auto
  from JToken obtain c cs where t: "t = c # cs" "token_byte c" by (auto simp: token_ok_def neq_Nil_conv)
  then show ?case
    using n token_read [of t rest] JToken.prems by (simp add: token_byte_def Let_def)
next
  case (JObject ms)
  then obtain m where n: "n = Suc m" by (cases n) auto
  show ?case
  proof (cases ms)
    case (MCons k v ms')
    with JObject n have "read_members m (print_members ms @ 0x7d # rest) = Some (ms, rest)" by simp
    with n MCons show ?thesis by (simp add: quote_def)
  qed (simp add: n)
next
  case (MCons k v ms)
  then obtain m where n: "n = Suc m" by (cases n) auto
  show ?case
  proof (cases ms)
    case MNil
    have "read_json m (print_json v @ 0x7d # rest) = Some (v, 0x7d # rest)"
      using MCons n by (intro MCons.IH(1)) (auto simp: delimited_def)
    with n MNil show ?thesis by (simp add: quote_def read_string_escape)
  next
    case (MCons k' v' ms')
    have "read_json m (print_json v @ 0x2c # print_members ms @ 0x7d # rest) =
        Some (v, 0x2c # print_members ms @ 0x7d # rest)"
      using MCons.prems n by (intro MCons.IH(1)) (auto simp: delimited_def)
    moreover have "read_members m (print_members ms @ 0x7d # rest) = Some (ms, rest)"
      using MCons.prems n MCons by (intro MCons.IH(2)) auto
    ultimately show ?thesis using n MCons by (simp add: quote_def read_string_escape)
  qed
qed simp

end
