(* ===== verification/Double_Format.thy ===== *)
theory Double_Format
  imports Json_Text Event_Validate
begin

text \<open>
  The conversion \<open>%.17g\<close> of \<open>snprintf\<close>, as
  \<open>ij_builder_append_attr_value\<close> of \<open>src/encoders/ij_json_console.c\<close> uses it. A double is
  its IEEE 754 bit pattern; its value is an exact fraction; the 17 significant digits are that
  fraction rounded half to even, trailing zeros are dropped, and the exponent form is used below
  \<open>1e-4\<close> and from \<open>1e17\<close> on. Infinities and NaNs, which no validated event holds, have the words
  \<open>inf\<close> and \<open>nan\<close>. The text is proved to be a token of at most 24 bytes.
\<close>

section \<open>The value\<close>

definition double_sign :: "64 word \<Rightarrow> bool" where
  "double_sign d = bit d 63"

definition double_exponent :: "64 word \<Rightarrow> nat" where
  "double_exponent d = unat (drop_bit 52 d AND 0x7ff)"

definition double_fraction :: "64 word \<Rightarrow> nat" where
  "double_fraction d = unat (take_bit 52 d)"

text \<open>Numerator and denominator of the absolute value.\<close>

definition double_ratio :: "64 word \<Rightarrow> nat \<times> nat" where
  "double_ratio d =
     (let e = double_exponent d; f = double_fraction d;
          m = (if e = 0 then f else f + 2 ^ 52); e = (if e = 0 then 1 else e)
      in if e \<ge> 1075 then (m * 2 ^ (e - 1075), 1) else (m, 2 ^ (1075 - e)))"

section \<open>Decimal digits\<close>

text \<open>Whether \<open>10 ^ x \<le> num / den\<close>.\<close>

definition pow10_le :: "int \<Rightarrow> nat \<Rightarrow> nat \<Rightarrow> bool" where
  "pow10_le x num den =
     (if x \<ge> 0 then 10 ^ nat x * den \<le> num else den \<le> num * 10 ^ nat (- x))"

text \<open>The decimal exponent: the greatest \<open>x\<close> below the given one with \<open>10 ^ x \<le> num / den\<close>.\<close>

fun dec_exponent :: "nat \<Rightarrow> int \<Rightarrow> nat \<Rightarrow> nat \<Rightarrow> int" where
  "dec_exponent 0 x num den = x"
| "dec_exponent (Suc k) x num den =
     (if pow10_le x num den then x else dec_exponent k (x - 1) num den)"

definition div_half_even :: "nat \<Rightarrow> nat \<Rightarrow> nat" where
  "div_half_even a b =
     (let q = a div b; r = a mod b
      in if 2 * r > b \<or> (2 * r = b \<and> odd q) then q + 1 else q)"

text \<open>The 17 significant digits as a number, and the exponent of the first of them.\<close>

definition dec_digits :: "nat \<Rightarrow> nat \<Rightarrow> nat \<times> int" where
  "dec_digits num den =
     (let x = dec_exponent 640 308 num den;
          n = (if x \<ge> 16 then div_half_even num (den * 10 ^ nat (x - 16))
               else div_half_even (num * 10 ^ nat (16 - x)) den)
      in if n \<ge> 10 ^ 17 then (10 ^ 16, x + 1) else (n, x))"

definition strip_zeros :: "byte list \<Rightarrow> byte list" where
  "strip_zeros ds = rev (dropWhile (\<lambda>b. b = 0x30) (rev ds))"

definition with_point :: "byte list \<Rightarrow> byte list \<Rightarrow> byte list" where
  "with_point whole frac = (if frac = [] then whole else whole @ 0x2e # frac)"

text \<open>At least two digits, as the exponent of \<open>%e\<close>.\<close>

definition exponent_text :: "int \<Rightarrow> byte list" where
  "exponent_text x =
     (let ds = decimal (nat \<bar>x\<bar>)
      in 0x65 # (if x < 0 then 0x2d else 0x2b) # (if length ds < 2 then 0x30 # ds else ds))"

definition format_digits :: "byte list \<Rightarrow> int \<Rightarrow> byte list" where
  "format_digits ds x =
     (if x < -4 \<or> x \<ge> 17 then with_point (take 1 ds) (strip_zeros (drop 1 ds)) @ exponent_text x
      else if x \<ge> 0 then with_point (take (nat x + 1) ds) (strip_zeros (drop (nat x + 1) ds))
      else with_point [0x30] (strip_zeros (replicate (nat (- x) - 1) 0x30 @ ds)))"

definition format_g17 :: "64 word \<Rightarrow> byte list" where
  "format_g17 d =
     (let (num, den) = double_ratio d; sign = (if double_sign d then [0x2d] else [])
      in if \<not> isfinite d then sign @ (if double_fraction d = 0 then bytes ''inf'' else bytes ''nan'')
         else if num = 0 then sign @ [0x30]
         else (let (n, x) = dec_digits num den in sign @ format_digits (decimal n) x))"

section \<open>Bounds\<close>

lemma double_exponent_less: "isfinite d \<Longrightarrow> double_exponent d < 2047"
proof -
  assume fin: "isfinite d"
  have "drop_bit 52 d AND 0x7ff \<le> 0x7ff" by (rule word_and_le1)
  then have "unat (drop_bit 52 d AND 0x7ff) \<le> 2047" by (simp add: word_le_nat_alt)
  moreover have "unat (drop_bit 52 d AND 0x7ff) \<noteq> 2047"
    using fin by (auto simp: isfinite_def word_unat_eq_iff)
  ultimately show ?thesis by (simp add: double_exponent_def)
qed

lemma double_fraction_less: "double_fraction d < 2 ^ 52"
  using take_bit_nat_less_exp [of 52 "unat d"]
  unfolding double_fraction_def by (simp add: unsigned_take_bit_eq)

lemma double_ratio_bounds:
  assumes "double_ratio d = (num, den)"
  shows "0 < den" "den \<le> 2 ^ 1074"
  using assms power_increasing [of "1075 - double_exponent d" 1074 "2 :: nat"]
  by (auto simp: double_ratio_def Let_def split: if_splits)

lemma pow2_1074: "(2 :: nat) ^ 1074 \<le> 10 ^ 332"
  by simp

lemma dec_exponent_range: "x - int k \<le> dec_exponent k x num den \<and> dec_exponent k x num den \<le> x"
proof (induction k arbitrary: x)
  case (Suc k)
  have "x - 1 - int k = x - int (Suc k)" by simp
  with Suc.IH [of "x - 1"] show ?case by (simp del: of_nat_Suc)
qed simp

lemma dec_exponent_le: "pow10_le (x - int k) num den \<Longrightarrow> pow10_le (dec_exponent k x num den) num den"
proof (induction k arbitrary: x)
  case (Suc k)
  have "x - 1 - int k = x - int (Suc k)" by simp
  with Suc.prems Suc.IH [of "x - 1"] show ?case by (simp del: of_nat_Suc)
qed simp

lemma div_half_even_ge: "0 < b \<Longrightarrow> k * b \<le> a \<Longrightarrow> k \<le> div_half_even a b"
  by (auto simp: div_half_even_def Let_def less_eq_div_iff_mult_less_eq le_SucI)

text \<open>There are exactly 17 digits, and the exponent has at most three.\<close>

lemma dec_digits_bounds:
  assumes "0 < num" and "0 < den" and "den \<le> 2 ^ 1074" and "dec_digits num den = (n, x)"
  shows "10 ^ 16 \<le> n \<and> n < 10 ^ 17 \<and> - 332 \<le> x \<and> x \<le> 309"
proof -
  define y where "y = dec_exponent 640 308 num den"
  define m where "m = (if y \<ge> 16 then div_half_even num (den * 10 ^ nat (y - 16))
                       else div_half_even (num * 10 ^ nat (16 - y)) den)"
  have y: "- 332 \<le> y" "y \<le> 308" using dec_exponent_range [of 308 640 num den] by (simp_all add: y_def)
  have "den \<le> num * 10 ^ 332"
    using assms(1,3) pow2_1074 mult_le_mono1 [of 1 num "10 ^ 332"] by linarith
  then have "pow10_le (308 - int 640) num den" by (simp add: pow10_le_def)
  then have le: "pow10_le y num den" unfolding y_def by (rule dec_exponent_le)
  have "10 ^ 16 \<le> m"
  proof (cases "y \<ge> 16")
    case True
    then have "nat y = 16 + nat (y - 16)" by simp
    with le True have "10 ^ 16 * (den * 10 ^ nat (y - 16)) \<le> num"
      by (simp add: pow10_le_def power_add ac_simps)
    with True assms(2) show ?thesis unfolding m_def by (simp add: div_half_even_ge)
  next
    case False
    have "10 ^ 16 * den \<le> num * 10 ^ nat (16 - y)"
    proof (cases "y \<ge> 0")
      case True
      then have "nat (16 - y) + nat y = 16" using False by simp
      then have "(10 :: nat) ^ 16 * den = 10 ^ nat (16 - y) * (10 ^ nat y * den)"
        by (metis mult.assoc power_add)
      also have "\<dots> \<le> 10 ^ nat (16 - y) * num"
        using le True by (intro mult_le_mono2) (simp add: pow10_le_def)
      finally show ?thesis by (simp only: mult.commute)
    next
      case neg: False
      then have "nat (16 - y) = 16 + nat (- y)" by simp
      then have "num * 10 ^ nat (16 - y) = 10 ^ 16 * (num * 10 ^ nat (- y))" by (simp add: power_add)
      moreover have "10 ^ 16 * den \<le> 10 ^ 16 * (num * 10 ^ nat (- y))"
        using le neg by (intro mult_le_mono2) (simp add: pow10_le_def)
      ultimately show ?thesis by (simp only:)
    qed
    with False assms(2) show ?thesis unfolding m_def by (simp add: div_half_even_ge)
  qed
  moreover have "(n, x) = (if m \<ge> 10 ^ 17 then (10 ^ 16, y + 1) else (m, y))"
    using assms(4) unfolding dec_digits_def Let_def m_def y_def by simp
  ultimately show ?thesis using y by (auto split: if_splits)
qed

lemma length_strip_zeros: "length (strip_zeros ds) \<le> length ds"
  unfolding strip_zeros_def using length_dropWhile_le [of _ "rev ds"] by simp

lemma set_strip_zeros: "set (strip_zeros ds) \<subseteq> set ds"
  unfolding strip_zeros_def using set_dropWhileD by fastforce

lemma length_with_point: "length (with_point w f) \<le> length w + 1 + length f"
  by (simp add: with_point_def)

lemma length_exponent_text: "\<bar>x\<bar> < 1000 \<Longrightarrow> length (exponent_text x) \<le> 5"
  using length_decimal [of "nat \<bar>x\<bar>" 3] by (simp add: exponent_text_def Let_def)

lemma length_format_digits:
  assumes "length ds \<le> 17" and "\<bar>x\<bar> < 1000"
  shows "length (format_digits ds x) \<le> 23"
proof -
  note wp = length_with_point length_strip_zeros
  consider "x < -4 \<or> x \<ge> 17" | "0 \<le> x" "x < 17" | "- 4 \<le> x" "x < 0" by linarith
  then show ?thesis
  proof cases
    case 1
    have "length (with_point (take 1 ds) (strip_zeros (drop 1 ds))) \<le> 18"
      using wp(1) [of "take 1 ds" "strip_zeros (drop 1 ds)"] wp(2) [of "drop 1 ds"] assms(1) by simp
    with 1 length_exponent_text [OF assms(2)] show ?thesis by (simp add: format_digits_def)
  next
    case 2
    let ?k = "nat x + 1"
    have "length (take ?k ds) + length (drop ?k ds) = length ds"
      by (metis append_take_drop_id length_append)
    with wp(1) [of "take ?k ds" "strip_zeros (drop ?k ds)"] wp(2) [of "drop ?k ds"] assms(1)
    have "length (with_point (take ?k ds) (strip_zeros (drop ?k ds))) \<le> 23" by linarith
    with 2 show ?thesis by (simp add: format_digits_def)
  next
    case 3
    let ?z = "replicate (nat (- x) - 1) 0x30 @ ds"
    have "nat (- x) - 1 \<le> 3" using 3 by simp
    then have "length ?z \<le> 20" using assms(1) by simp
    with wp(1) [of "[0x30]" "strip_zeros ?z"] wp(2) [of ?z]
    have "length (with_point [0x30] (strip_zeros ?z)) \<le> 23" by simp
    with 3 show ?thesis by (simp add: format_digits_def)
  qed
qed

definition number_byte :: "byte \<Rightarrow> bool" where
  "number_byte b \<longleftrightarrow> is_digit b \<or> b = 0x2d \<or> b = 0x2b \<or> b = 0x2e \<or> b = 0x65"

lemma number_byte_token: "number_byte b \<Longrightarrow> token_byte b"
  by (auto simp: number_byte_def is_digit_def token_byte_def word_less_nat_alt word_unat_eq_iff)

lemma digit_zero: "is_digit 0x30"
  by (simp add: is_digit_def)

lemma number_with_point:
  "(\<forall>b\<in>set w. number_byte b) \<Longrightarrow> (\<forall>b\<in>set f. number_byte b) \<Longrightarrow> b \<in> set (with_point w f) \<Longrightarrow> number_byte b"
  by (auto simp: with_point_def number_byte_def split: if_splits)

lemma number_format_digits:
  assumes "\<forall>b\<in>set ds. is_digit b" and "b \<in> set (format_digits ds x)"
  shows "number_byte b"
proof -
  have num: "\<forall>b\<in>set ds. number_byte b" using assms(1) by (simp add: number_byte_def)
  have t: "\<forall>b\<in>set (take k ds). number_byte b" "\<forall>b\<in>set (strip_zeros (drop k ds)). number_byte b" for k
    using num set_strip_zeros [of "drop k ds"] by (auto dest: in_set_takeD in_set_dropD)
  have z: "\<forall>b\<in>set (strip_zeros (replicate k 0x30 @ ds)). number_byte b" for k
    using num set_strip_zeros [of "replicate k 0x30 @ ds"] digit_zero by (auto simp: number_byte_def)
  have e: "\<forall>b\<in>set (exponent_text x). number_byte b"
    using decimal_digits digit_zero by (auto simp: exponent_text_def Let_def number_byte_def)
  have "\<forall>b\<in>set [0x30]. number_byte b" using digit_zero by (simp add: number_byte_def)
  with assms(2) t z e show ?thesis
    unfolding format_digits_def by (auto split: if_splits dest!: number_with_point [rotated 2])
qed

lemma decimal_17: "n < 10 ^ 17 \<Longrightarrow> length (decimal n) \<le> 17"
  using length_decimal [of n 17] by simp

lemma format_digits_not_Nil: "ds \<noteq> [] \<Longrightarrow> format_digits ds x \<noteq> []"
  by (auto simp: format_digits_def with_point_def exponent_text_def Let_def)

text \<open>The text of a double fits the 64-byte buffer with room to spare, and is a token.\<close>

lemma format_g17_ok: "length (format_g17 d) \<le> 24 \<and> token_ok (format_g17 d)"
proof -
  obtain num den where r: "double_ratio d = (num, den)" by force
  note rb = double_ratio_bounds [OF r]
  have minus: "token_byte 0x2d" by (rule number_byte_token) (simp add: number_byte_def)
  consider (special) "\<not> isfinite d" | (zero) "isfinite d" "num = 0" | (other) "isfinite d" "num \<noteq> 0" by blast
  then show ?thesis
  proof cases
    case special
    have "\<forall>b\<in>set (bytes ''inf'') \<union> set (bytes ''nan''). token_byte b" by (simp add: token_byte_def)
    with special r minus show ?thesis by (simp add: format_g17_def token_ok_def Let_def)
  next
    case zero
    have "token_byte 0x30" by (rule number_byte_token) (simp add: number_byte_def digit_zero)
    with zero r minus show ?thesis by (simp add: format_g17_def token_ok_def Let_def)
  next
    case other
    obtain n x where nx: "dec_digits num den = (n, x)" by force
    from dec_digits_bounds [OF _ rb nx] other have b: "n < 10 ^ 17" "\<bar>x\<bar> < 1000" by auto
    have "length (format_digits (decimal n) x) \<le> 23"
      by (rule length_format_digits [OF decimal_17 [OF b(1)] b(2)])
    moreover have "\<forall>b\<in>set (format_digits (decimal n) x). token_byte b"
      using number_format_digits [of "decimal n"] decimal_digits number_byte_token by blast
    ultimately show ?thesis
      using r nx other minus format_digits_not_Nil [of "decimal n" x]
      by (auto simp: format_g17_def token_ok_def Let_def)
  qed
qed

end
