(* ===== verification/Json_Builder.thy ===== *)
theory Json_Builder
  imports Json_Text Double_Format Event_Copy
begin

text \<open>
  The output buffer of the JSON encoder and the appending routines of
  \<open>src/encoders/ij_json_console.c\<close>. A builder is the caller's buffer, its capacity and the
  number of bytes written. A write outside the buffer is the value \<open>None\<close>.

  All appending routines share one contract, the locale \<open>json_appender\<close>: on a well-formed
  builder they either append a fixed text and a terminating zero, when it fits, or report
  \<open>IJ_STATUS_ENCODE_ERROR\<close> and leave a well-formed builder. The contract composes, so the
  encoder has it too. The sizes the source adds up are lengths of objects in memory, so that
  their sums do not wrap around.
\<close>

section \<open>The builder\<close>

record ij_json_builder_t =
  b_buffer :: "byte list"
  b_capacity :: size_t
  b_length :: size_t

type_synonym append_result = "(ij_status_t \<times> ij_json_builder_t) option"

text \<open>The write of \<open>bs\<close> and a zero at the end of the text, and the new length.\<close>

definition builder_put :: "ij_json_builder_t \<Rightarrow> byte list \<Rightarrow> append_result" where
  "builder_put builder bs =
     (case mem_write (b_buffer builder) (b_length builder) (bs @ [0]) of
        None \<Rightarrow> None
      | Some mem \<Rightarrow>
          Some (IJ_STATUS_OK, builder\<lparr>b_buffer := mem, b_length := b_length builder + length bs\<rparr>))"

definition ij_builder_append_raw_n :: "ij_json_builder_t \<Rightarrow> byte list \<Rightarrow> size_t \<Rightarrow> append_result" where
  "ij_builder_append_raw_n builder t len =
     (if b_length builder + len + 1 > b_capacity builder then Some (IJ_STATUS_ENCODE_ERROR, builder)
      else builder_put builder (c_mem t len))"

definition ij_builder_can_append :: "ij_json_builder_t \<Rightarrow> size_t \<Rightarrow> bool" where
  "ij_builder_can_append builder len \<longleftrightarrow> b_length builder + len + 1 \<le> b_capacity builder"

definition ij_builder_append_raw :: "ij_json_builder_t \<Rightarrow> byte list \<Rightarrow> append_result" where
  "ij_builder_append_raw builder t = (let len = strlen t in ij_builder_append_raw_n builder t len)"

definition ij_builder_append_char :: "ij_json_builder_t \<Rightarrow> byte \<Rightarrow> append_result" where
  "ij_builder_append_char builder c =
     (if b_length builder + 2 > b_capacity builder then Some (IJ_STATUS_ENCODE_ERROR, builder)
      else builder_put builder [c])"

text \<open>
  The idiom \<open>if (f(...) != IJ_STATUS_OK || g(...) != IJ_STATUS_OK) return IJ_STATUS_ENCODE_ERROR\<close>.
\<close>

definition and_then ::
  "(ij_json_builder_t \<Rightarrow> append_result) \<Rightarrow> (ij_json_builder_t \<Rightarrow> append_result) \<Rightarrow>
     ij_json_builder_t \<Rightarrow> append_result" where
  "and_then f g builder =
     (case f builder of
        None \<Rightarrow> None
      | Some (st, builder') \<Rightarrow>
          if st \<noteq> IJ_STATUS_OK then Some (IJ_STATUS_ENCODE_ERROR, builder') else g builder')"

fun all_then :: "(ij_json_builder_t \<Rightarrow> append_result) list \<Rightarrow> ij_json_builder_t \<Rightarrow> append_result" where
  "all_then [] builder = Some (IJ_STATUS_OK, builder)"
| "all_then (f # fs) builder = and_then f (all_then fs) builder"

section \<open>Numbers\<close>

definition ij_hex_digit :: "nat \<Rightarrow> byte" where
  "ij_hex_digit value = (if value < 10 then byte_of (48 + value) else byte_of (97 + (value - 10)))"

text \<open>
  The digits are stored from the end of a 20-byte array; \<open>None\<close> is a store below its start.
\<close>

function decimal_digits_loop :: "nat \<Rightarrow> nat \<Rightarrow> byte list \<Rightarrow> (nat \<times> byte list) option" where
  "decimal_digits_loop value position digits =
     (if position = 0 then None
      else
        let position = position - 1; digits = digits[position := byte_of (48 + value mod 10)];
            value = value div 10
        in if value \<noteq> 0 then decimal_digits_loop value position digits else Some (position, digits))"
  by pat_completeness auto
termination
  by (relation "measure (\<lambda>(value, position, digits). value)") auto

declare decimal_digits_loop.simps [simp del]

definition ij_builder_append_uint64_decimal :: "ij_json_builder_t \<Rightarrow> 64 word \<Rightarrow> append_result" where
  "ij_builder_append_uint64_decimal builder value =
     (case decimal_digits_loop (unat value) 20 (replicate 20 0) of
        None \<Rightarrow> None
      | Some (position, digits) \<Rightarrow>
          ij_builder_append_raw_n builder (c_ptr_add digits position) (20 - position))"

definition ij_builder_append_int64_decimal :: "ij_json_builder_t \<Rightarrow> 64 word \<Rightarrow> append_result" where
  "ij_builder_append_int64_decimal builder value =
     (if value <s 0 then
        and_then (\<lambda>b. ij_builder_append_char b 0x2d)
          (\<lambda>b. ij_builder_append_uint64_decimal b (0 - value)) builder
      else ij_builder_append_uint64_decimal builder value)"

section \<open>Strings\<close>

definition ij_builder_append_control_escape :: "ij_json_builder_t \<Rightarrow> byte \<Rightarrow> append_result" where
  "ij_builder_append_control_escape builder value =
     (let escaped = [0x5c, 0x75, 0x30, 0x30, ij_hex_digit (unat (drop_bit 4 value)),
                     ij_hex_digit (unat (value AND 0x0f))]
      in ij_builder_append_raw_n builder escaped 6)"

text \<open>The \<open>switch\<close> on the special byte.\<close>

definition append_special :: "byte \<Rightarrow> ij_json_builder_t \<Rightarrow> append_result" where
  "append_special c builder =
     (if c = 0x5c then ij_builder_append_raw_n builder [0x5c, 0x5c] 2
      else if c = 0x22 then ij_builder_append_raw_n builder [0x5c, 0x22] 2
      else if c = 0x0a then ij_builder_append_raw_n builder [0x5c, 0x6e] 2
      else if c = 0x0d then ij_builder_append_raw_n builder [0x5c, 0x72] 2
      else if c = 0x09 then ij_builder_append_raw_n builder [0x5c, 0x74] 2
      else if c < 0x20 then ij_builder_append_control_escape builder c
      else ij_builder_append_char builder c)"

function ij_builder_append_escaped_string_n ::
  "cpu \<Rightarrow> byte list \<Rightarrow> size_t \<Rightarrow> ij_json_builder_t \<Rightarrow> append_result" where
  "ij_builder_append_escaped_string_n cpu cursor remaining builder =
     (if remaining > 0 then
        let next = ij_json_escape_find_first_special cpu cursor remaining in
        case (if next > 0 then ij_builder_append_raw_n builder cursor next
              else Some (IJ_STATUS_OK, builder)) of
          None \<Rightarrow> None
        | Some (st, builder) \<Rightarrow>
            if st \<noteq> IJ_STATUS_OK then Some (IJ_STATUS_ENCODE_ERROR, builder)
            else
              let cursor = c_ptr_add cursor next; remaining = remaining - next in
              if remaining = 0 then Some (IJ_STATUS_OK, builder)
              else
                (case append_special (c_at cursor 0) builder of
                   None \<Rightarrow> None
                 | Some (st, builder) \<Rightarrow>
                     if st \<noteq> IJ_STATUS_OK then Some (IJ_STATUS_ENCODE_ERROR, builder)
                     else ij_builder_append_escaped_string_n cpu (c_ptr_add cursor 1) (remaining - 1) builder)
      else Some (IJ_STATUS_OK, builder))"
  by pat_completeness auto
termination
  by (relation "measure (\<lambda>(cpu, cursor, remaining, builder). remaining)") auto

declare ij_builder_append_escaped_string_n.simps [simp del]

definition ij_builder_append_json_string_known_escape ::
  "cpu \<Rightarrow> byte list \<Rightarrow> size_t \<Rightarrow> bool \<Rightarrow> ij_json_builder_t \<Rightarrow> append_result" where
  "ij_builder_append_json_string_known_escape cpu t len needs_json_escape builder =
     (if \<not> needs_json_escape then
        (if \<not> ij_builder_can_append builder (len + 2) then Some (IJ_STATUS_ENCODE_ERROR, builder)
         else builder_put builder ([0x22] @ c_mem t len @ [0x22]))
      else
        all_then
          [\<lambda>b. ij_builder_append_char b 0x22, ij_builder_append_escaped_string_n cpu t len,
           \<lambda>b. ij_builder_append_char b 0x22] builder)"

definition ij_builder_append_json_key_known_escape ::
  "cpu \<Rightarrow> byte list \<Rightarrow> size_t \<Rightarrow> bool \<Rightarrow> ij_json_builder_t \<Rightarrow> append_result" where
  "ij_builder_append_json_key_known_escape cpu key len needs_json_escape builder =
     (if \<not> needs_json_escape then
        (if \<not> ij_builder_can_append builder (len + 3) then Some (IJ_STATUS_ENCODE_ERROR, builder)
         else builder_put builder ([0x22] @ c_mem key len @ [0x22] @ [0x3a]))
      else
        all_then
          [ij_builder_append_json_string_known_escape cpu key len True,
           \<lambda>b. ij_builder_append_char b 0x3a] builder)"

section \<open>The contract of an appending routine\<close>

definition builder_ok :: "ij_json_builder_t \<Rightarrow> bool" where
  "builder_ok b \<longleftrightarrow> b_capacity b \<le> length (b_buffer b) \<and> b_length b < b_capacity b"

definition content :: "ij_json_builder_t \<Rightarrow> byte list" where
  "content b = take (b_length b) (b_buffer b)"

definition fits :: "ij_json_builder_t \<Rightarrow> byte list \<Rightarrow> bool" where
  "fits b bs \<longleftrightarrow> b_length b + length bs < b_capacity b"

text \<open>The builder after \<open>bs\<close> was appended: same buffer size, text longer by \<open>bs\<close>, terminated.\<close>

definition appended :: "ij_json_builder_t \<Rightarrow> byte list \<Rightarrow> ij_json_builder_t \<Rightarrow> bool" where
  "appended b bs b' \<longleftrightarrow>
     builder_ok b' \<and> b_capacity b' = b_capacity b \<and> length (b_buffer b') = length (b_buffer b) \<and>
     b_length b' = b_length b + length bs \<and> content b' = content b @ bs"

definition same_frame :: "ij_json_builder_t \<Rightarrow> ij_json_builder_t \<Rightarrow> bool" where
  "same_frame b b' \<longleftrightarrow>
     builder_ok b' \<and> b_capacity b' = b_capacity b \<and> length (b_buffer b') = length (b_buffer b)"

locale json_appender =
  fixes append :: "ij_json_builder_t \<Rightarrow> append_result"
    and out :: "byte list"
  assumes append_fits:
      "builder_ok b \<Longrightarrow> fits b out \<Longrightarrow> \<exists>b'. append b = Some (IJ_STATUS_OK, b') \<and> appended b out b'"
    and append_full:
      "builder_ok b \<Longrightarrow> \<not> fits b out \<Longrightarrow>
         \<exists>b'. append b = Some (IJ_STATUS_ENCODE_ERROR, b') \<and> same_frame b b'"
begin

lemma append_defined: "builder_ok b \<Longrightarrow> append b \<noteq> None"
  using append_fits append_full by (cases "fits b out") fastforce+

lemma append_status:
  "builder_ok b \<Longrightarrow> append b = Some (st, b') \<Longrightarrow>
     st = (if fits b out then IJ_STATUS_OK else IJ_STATUS_ENCODE_ERROR)"
  using append_fits [of b] append_full [of b] by fastforce

end

lemma builder_put_ok:
  assumes "builder_ok b" and "fits b bs"
  shows "\<exists>b'. builder_put b bs = Some (IJ_STATUS_OK, b') \<and> appended b bs b'"
proof -
  have room: "b_length b + length (bs @ [0]) \<le> length (b_buffer b)"
    using assms by (simp add: builder_ok_def fits_def)
  then obtain mem where w: "mem_write (b_buffer b) (b_length b) (bs @ [0]) = Some mem"
    and mem: "mem = take (b_length b) (b_buffer b) @ (bs @ [0]) @
                drop (b_length b + length (bs @ [0])) (b_buffer b)"
    by (simp add: mem_write_Some)
  have "take (b_length b + length bs) mem = take (b_length b) (b_buffer b) @ bs"
    using room by (simp add: mem)
  with assms w length_mem_write [OF w] show ?thesis
    by (simp add: builder_put_def appended_def builder_ok_def fits_def content_def)
qed

lemma appended_trans:
  "appended a xs b \<Longrightarrow> appended b ys c \<Longrightarrow> appended a (xs @ ys) c"
  by (simp add: appended_def)

lemma appended_refl: "builder_ok b \<Longrightarrow> appended b [] b"
  by (simp add: appended_def)

lemma appended_fits: "appended a xs b \<Longrightarrow> fits b ys \<longleftrightarrow> fits a (xs @ ys)"
  by (simp add: appended_def fits_def add.assoc)

lemma appended_same_frame: "appended a xs b \<Longrightarrow> same_frame b c \<Longrightarrow> same_frame a c"
  by (simp add: appended_def same_frame_def)

lemma fits_mono: "fits b (xs @ ys) \<Longrightarrow> fits b xs"
  by (simp add: fits_def)

lemma same_frame_refl: "builder_ok b \<Longrightarrow> same_frame b b"
  by (simp add: same_frame_def)

text \<open>The contract composes.\<close>

lemma appender_and_then:
  assumes f: "json_appender f xs" and g: "json_appender g ys"
  shows "json_appender (and_then f g) (xs @ ys)"
proof (unfold_locales, goal_cases)
  case (1 b)
  then obtain b1 where b1: "f b = Some (IJ_STATUS_OK, b1)" "appended b xs b1"
    using json_appender.append_fits [OF f, of b] fits_mono by blast
  with 1 obtain b2 where "g b1 = Some (IJ_STATUS_OK, b2)" "appended b1 ys b2"
    using json_appender.append_fits [OF g, of b1] appended_fits [OF b1(2)] by (auto simp: appended_def)
  with b1 show ?case using appended_trans by (fastforce simp: and_then_def)
next
  case (2 b)
  show ?case
  proof (cases "fits b xs")
    case True
    then obtain b1 where b1: "f b = Some (IJ_STATUS_OK, b1)" "appended b xs b1"
      using json_appender.append_fits [OF f, of b] 2 by blast
    with 2 obtain b2 where "g b1 = Some (IJ_STATUS_ENCODE_ERROR, b2)" "same_frame b1 b2"
      using json_appender.append_full [OF g, of b1] appended_fits [OF b1(2)] by (auto simp: appended_def)
    with b1 show ?thesis using appended_same_frame by (fastforce simp: and_then_def)
  next
    case False
    then show ?thesis using json_appender.append_full [OF f, of b] 2 by (fastforce simp: and_then_def)
  qed
qed

lemma appender_nothing: "json_appender (\<lambda>b. Some (IJ_STATUS_OK, b)) []"
  by unfold_locales (auto simp: appended_refl builder_ok_def fits_def)

lemma appender_all_then:
  "list_all2 json_appender fs outs \<Longrightarrow> json_appender (all_then fs) (concat outs)"
proof (induction rule: list_all2_induct)
  case Nil
  then show ?case using appender_nothing by (simp add: fun_eq_iff [symmetric, of "all_then []"] json_appender_def)
next
  case (Cons f fs out outs)
  have "all_then (f # fs) = and_then f (all_then fs)" by (rule ext) simp
  with appender_and_then [OF Cons(1,3)] show ?case by simp
qed

section \<open>The routines fulfil the contract\<close>

interpretation append_raw_n: json_appender "\<lambda>b. ij_builder_append_raw_n b t len" "c_mem t len"
  by unfold_locales
    (auto simp: ij_builder_append_raw_n_def fits_def builder_put_ok same_frame_refl)

interpretation append_char: json_appender "\<lambda>b. ij_builder_append_char b c" "[c]"
  by unfold_locales
    (auto simp: ij_builder_append_char_def fits_def builder_put_ok same_frame_refl)

interpretation append_raw: json_appender "\<lambda>b. ij_builder_append_raw b t" "c_text t"
  using append_raw_n.json_appender_axioms [of t "strlen t"]
  by (simp add: ij_builder_append_raw_def)

lemma decimal_digits_loop_spec:
  "length ds = 20 \<Longrightarrow> length (decimal v) \<le> pos \<Longrightarrow> pos \<le> 20 \<Longrightarrow>
   \<exists>ds'. decimal_digits_loop v pos ds = Some (pos - length (decimal v), ds') \<and> length ds' = 20 \<and>
     drop (pos - length (decimal v)) ds' = decimal v @ drop pos ds"
proof (induction v pos ds rule: decimal_digits_loop.induct)
  case (1 v pos ds)
  have pos: "pos \<noteq> 0" using "1.prems"(2) by (cases "decimal v") auto
  let ?ds = "ds[pos - 1 := byte_of (48 + v mod 10)]"
  have drop_ds: "drop (pos - 1) ?ds = byte_of (48 + v mod 10) # drop pos ds"
    using pos "1.prems" by (simp add: drop_update_cancel Cons_nth_drop_Suc [symmetric] drop_update_swap)
  note unfold = decimal_digits_loop.simps [of v pos ds]
  show ?case
  proof (cases "v div 10 = 0")
    case True
    then have "v < 10" by simp
    then show ?thesis using True pos drop_ds "1.prems" by (simp add: unfold decimal.simps [of v] Let_def)
  next
    case False
    then have v: "\<not> v < 10" by simp
    then have d: "decimal v = decimal (v div 10) @ [byte_of (48 + v mod 10)]" by (simp add: decimal.simps [of v])
    then have "length (decimal (v div 10)) + 1 \<le> pos" using "1.prems"(2) by simp
    then have "length (decimal (v div 10)) \<le> pos - 1" "pos - 1 \<le> 20" using "1.prems"(3) by linarith+
    with "1.prems" pos False "1.IH" [of "pos - 1" ?ds "v div 10"] obtain ds' where
      "decimal_digits_loop (v div 10) (pos - 1) ?ds = Some (pos - 1 - length (decimal (v div 10)), ds')"
      "length ds' = 20"
      "drop (pos - 1 - length (decimal (v div 10))) ds' = decimal (v div 10) @ drop (pos - 1) ?ds" by auto
    then show ?thesis using False pos drop_ds by (simp add: unfold d Let_def)
  qed
qed

lemma length_decimal_64: "length (decimal (unat (w :: 64 word))) \<le> 20"
proof (rule length_decimal)
  have "unat w < 2 ^ 64" using unsigned_less [of w] by simp
  also have "(2 :: nat) ^ 64 < 10 ^ 20" by simp
  finally show "unat w < 10 ^ 20" .
qed simp

interpretation append_uint64: json_appender "\<lambda>b. ij_builder_append_uint64_decimal b w" "decimal (unat w)"
proof -
  obtain ds where ds: "decimal_digits_loop (unat w) 20 (replicate 20 0) =
      Some (20 - length (decimal (unat w)), ds)" "length ds = 20"
      "drop (20 - length (decimal (unat w))) ds = decimal (unat w)"
    using decimal_digits_loop_spec [of "replicate 20 0" "unat w" 20] length_decimal_64 [of w] by auto
  let ?n = "length (decimal (unat w))"
  have n: "20 - (20 - ?n) = ?n" using length_decimal_64 [of w] by simp
  have "c_mem (c_ptr_add ds (20 - ?n)) ?n = decimal (unat w)"
    using ds(3) by (simp add: c_ptr_add_def)
  then show "json_appender (\<lambda>b. ij_builder_append_uint64_decimal b w) (decimal (unat w))"
    using append_raw_n.json_appender_axioms [of "c_ptr_add ds (20 - ?n)" ?n]
    by (simp add: ij_builder_append_uint64_decimal_def ds(1) n)
qed

lemma uint_sint_64: "uint (w :: 64 word) = sint w mod 2 ^ 64"
  using uint_sint [of w] by (simp add: take_bit_eq_mod)

lemma sint_64_range: "- (2 ^ 63) \<le> sint (w :: 64 word) \<and> sint w < 2 ^ 63"
  using sint_greater_eq [of w] sint_less [of w] by simp

lemma unat_minus_sint: "w <s (0 :: 64 word) \<Longrightarrow> unat (0 - w) = nat (- sint w)"
proof -
  assume "w <s 0"
  then have neg: "sint w < 0" by (simp add: word_sless_alt)
  have "uint (0 - w) = (0 - uint w) mod 2 ^ 64" by (simp only: uint_word_ariths) simp
  also have "\<dots> = (- sint w) mod 2 ^ 64" by (simp only: uint_sint_64 diff_0 mod_minus_eq)
  also have "\<dots> = - sint w" using neg sint_64_range [of w] by simp
  finally show ?thesis by (simp only: unat_eq_nat_uint)
qed

lemma unat_sint: "\<not> w <s (0 :: 64 word) \<Longrightarrow> unat w = nat (sint w)"
  using uint_sint_64 [of w] sint_64_range [of w] by (simp add: unat_eq_nat_uint word_sless_alt)

interpretation append_int64: json_appender "\<lambda>b. ij_builder_append_int64_decimal b w" "signed_decimal (sint w)"
proof (cases "w <s 0")
  case True
  then have "sint w < 0" by (simp add: word_sless_alt)
  with True unat_minus_sint [OF True] show "json_appender (\<lambda>b. ij_builder_append_int64_decimal b w) (signed_decimal (sint w))"
    using appender_and_then [OF append_char.json_appender_axioms [of "0x2d"]
        append_uint64.json_appender_axioms [of "0 - w"]]
    by (simp add: ij_builder_append_int64_decimal_def signed_decimal_def and_then_def [abs_def])
next
  case False
  then have "\<not> sint w < 0" by (simp add: word_sless_alt)
  with False unat_sint [OF False] show "json_appender (\<lambda>b. ij_builder_append_int64_decimal b w) (signed_decimal (sint w))"
    using append_uint64.json_appender_axioms [of w]
    by (simp add: ij_builder_append_int64_decimal_def signed_decimal_def)
qed

lemma hex_digit_eq: "ij_hex_digit n = hex n"
  by (simp add: ij_hex_digit_def hex_def)

lemma unat_and_0x0f: "unat (c AND 0x0f :: byte) = unat c mod 16"
proof -
  have "\<forall>c :: byte. unat (c AND 0x0f) = unat c mod 16" unfolding all_byte_iff by code_simp
  then show ?thesis by blast
qed

lemma unat_drop_bit_4: "unat (drop_bit 4 c :: byte) = unat c div 16"
  by (simp add: drop_bit_eq_div unat_div)

lemma appender_control_escape:
  "c < 0x20 \<Longrightarrow> c \<notin> {0x0a, 0x0d, 0x09} \<Longrightarrow>
   json_appender (\<lambda>b. ij_builder_append_control_escape b c) (escape_byte c)"
  using append_raw_n.json_appender_axioms
    [of "[0x5c, 0x75, 0x30, 0x30, hex (unat c div 16), hex (unat c mod 16)]" 6]
  by (auto simp: ij_builder_append_control_escape_def hex_digit_eq unat_and_0x0f unat_drop_bit_4 c_mem_take
      escape_byte_def)

lemma c_mem_two [simp]: "c_mem [a, b] 2 = [a, b]"
  by (simp add: c_mem_take)

lemma appender_special: "json_appender (append_special c) (escape_byte c)"
proof -
  note two = append_raw_n.json_appender_axioms [of "[_, _]" 2, unfolded c_mem_two]
  consider "c \<in> {0x5c, 0x22, 0x0a, 0x0d, 0x09}" | "c < 0x20" "c \<notin> {0x5c, 0x22, 0x0a, 0x0d, 0x09}"
    | "\<not> c < 0x20" "c \<notin> {0x5c, 0x22, 0x0a, 0x0d, 0x09}" by blast
  then show ?thesis
  proof cases
    case 1
    then show ?thesis
      using two by (elim insertE emptyE) (simp_all add: append_special_def [abs_def] escape_byte_def)
  next
    case 2
    then show ?thesis
      using appender_control_escape [of c] by (simp add: append_special_def [abs_def])
  next
    case 3
    then show ?thesis
      using append_char.json_appender_axioms [of c] by (simp add: append_special_def [abs_def] escape_byte_def)
  qed
qed

text \<open>The loop as a composition: the bytes before the first special one, that one escaped, the rest.\<close>

definition append_prefix :: "byte list \<Rightarrow> size_t \<Rightarrow> ij_json_builder_t \<Rightarrow> append_result" where
  "append_prefix cursor n b =
     (if n > 0 then ij_builder_append_raw_n b cursor n else Some (IJ_STATUS_OK, b))"

lemma appender_prefix: "json_appender (append_prefix cursor n) (c_mem cursor n)"
  using append_raw_n.json_appender_axioms [of cursor n] appender_nothing
  by (cases "n = 0") (simp_all add: append_prefix_def [abs_def])

lemma c_ptr_add_add: "c_ptr_add (c_ptr_add m i) j = c_ptr_add m (i + j)"
  by (simp add: c_ptr_add_def add.commute)

lemma escaped_string_unfold:
  "ij_builder_append_escaped_string_n cpu cursor remaining =
     (let n = ij_json_escape_find_first_special cpu cursor remaining in
      if remaining = 0 then (\<lambda>b. Some (IJ_STATUS_OK, b))
      else if remaining - n = 0 then and_then (append_prefix cursor n) (\<lambda>b. Some (IJ_STATUS_OK, b))
      else
        and_then (append_prefix cursor n)
          (and_then (append_special (c_at cursor n))
            (ij_builder_append_escaped_string_n cpu (c_ptr_add cursor (n + 1)) (remaining - n - 1))))"
proof
  fix b
  show "ij_builder_append_escaped_string_n cpu cursor remaining b =
     (let n = ij_json_escape_find_first_special cpu cursor remaining in
      if remaining = 0 then (\<lambda>b. Some (IJ_STATUS_OK, b))
      else if remaining - n = 0 then and_then (append_prefix cursor n) (\<lambda>b. Some (IJ_STATUS_OK, b))
      else
        and_then (append_prefix cursor n)
          (and_then (append_special (c_at cursor n))
            (ij_builder_append_escaped_string_n cpu (c_ptr_add cursor (n + 1)) (remaining - n - 1)))) b"
    using ij_builder_append_escaped_string_n.simps [of cpu cursor remaining b]
    by (simp add: Let_def and_then_def append_prefix_def c_at_ptr_add c_ptr_add_add
        split: option.split prod.split)
qed

lemma escape_at_special:
  assumes "n = first_index json_special (c_mem cursor r)"
  shows "escape (c_mem cursor r) =
    c_mem cursor n @ (if n < r then escape_byte (c_at cursor n) @
      escape (c_mem (c_ptr_add cursor (n + 1)) (r - n - 1)) else [])"
proof -
  have n: "n \<le> r" using first_index_le [of json_special "c_mem cursor r"] assms by simp
  have pre: "take n (c_mem cursor r) = c_mem cursor n"
    using take_drop_c_mem [of 0 n r cursor] n by (simp add: c_mem_eq_map)
  have clean: "escape (c_mem cursor n) = c_mem cursor n"
    using take_first_index [of _ json_special "c_mem cursor r"]
    by (intro escape_no_special) (simp add: assms [symmetric] pre)
  have post: "drop n (c_mem cursor r) =
      (if n < r then c_at cursor n # c_mem (c_ptr_add cursor (n + 1)) (r - n - 1) else [])"
    using drop_c_mem_Cons [of n r cursor] c_mem_ptr_add_drop [of "n + 1" r cursor] n by auto
  have "escape (c_mem cursor r) = escape (take n (c_mem cursor r)) @ escape (drop n (c_mem cursor r))"
    by (simp only: append_take_drop_id escape_simps(3) [symmetric])
  then show ?thesis unfolding pre clean post by simp
qed

lemma appender_escaped_string:
  "json_appender (ij_builder_append_escaped_string_n cpu cursor r) (escape (c_mem cursor r))"
proof (induction r arbitrary: cursor rule: less_induct)
  case (less r)
  define n where "n = ij_json_escape_find_first_special cpu cursor r"
  have n: "n = first_index json_special (c_mem cursor r)" by (simp add: n_def escape_dispatch.find_first_index)
  note spec = escape_at_special [OF n]
  have "n \<le> r" unfolding n_def by (rule escape_dispatch.find_first_le)
  then consider "r = 0" | "r > 0" "n = r" | "n < r" by linarith
  then show ?case
  proof cases
    case 1
    then show ?thesis using appender_nothing by (simp add: escaped_string_unfold)
  next
    case 2
    with appender_and_then [OF appender_prefix [of cursor n] appender_nothing] spec show ?thesis
      by (simp add: escaped_string_unfold [of cpu cursor r] n_def [symmetric] Let_def)
  next
    case 3
    have "json_appender (ij_builder_append_escaped_string_n cpu (c_ptr_add cursor (n + 1)) (r - n - 1))
        (escape (c_mem (c_ptr_add cursor (n + 1)) (r - n - 1)))"
      using 3 by (intro less.IH) simp
    from appender_and_then [OF appender_prefix [of cursor n]
        appender_and_then [OF appender_special [of "c_at cursor n"] this]] 3 spec show ?thesis
      by (simp add: escaped_string_unfold [of cpu cursor r] n_def [symmetric] Let_def)
  qed
qed

text \<open>A quoted string: with a clear flag the bytes are copied as they are, which is sound when none is special.\<close>

lemma appender_json_string:
  assumes "needs_escape \<or> (\<forall>b\<in>set (c_mem t len). \<not> json_special b)"
  shows "json_appender (ij_builder_append_json_string_known_escape cpu t len needs_escape)
           (quote (c_mem t len))"
proof (cases needs_escape)
  case True
  have "json_appender (all_then
      [\<lambda>b. ij_builder_append_char b 0x22, ij_builder_append_escaped_string_n cpu t len,
       \<lambda>b. ij_builder_append_char b 0x22]) (concat [[0x22], escape (c_mem t len), [0x22]])"
    by (rule appender_all_then)
      (simp add: append_char.json_appender_axioms appender_escaped_string)
  with True show ?thesis
    by (simp add: ij_builder_append_json_string_known_escape_def [abs_def] quote_def del: all_then.simps)
next
  case False
  with assms have q: "quote (c_mem t len) = [0x22] @ c_mem t len @ [0x22]"
    by (simp add: quote_def escape_no_special)
  show ?thesis
  proof (unfold_locales, goal_cases)
    case (1 b)
    then show ?case using False builder_put_ok [OF 1]
      by (simp add: ij_builder_append_json_string_known_escape_def q ij_builder_can_append_def fits_def)
  next
    case (2 b)
    then show ?case using False
      by (simp add: ij_builder_append_json_string_known_escape_def q ij_builder_can_append_def fits_def
          same_frame_refl)
  qed
qed

lemma appender_json_key:
  assumes "needs_escape \<or> (\<forall>b\<in>set (c_mem t len). \<not> json_special b)"
  shows "json_appender (ij_builder_append_json_key_known_escape cpu t len needs_escape)
           (quote (c_mem t len) @ [0x3a])"
proof (cases needs_escape)
  case True
  have "json_appender (all_then [ij_builder_append_json_string_known_escape cpu t len True,
      \<lambda>b. ij_builder_append_char b 0x3a]) (concat [quote (c_mem t len), [0x3a]])"
    by (rule appender_all_then) (simp add: append_char.json_appender_axioms appender_json_string)
  with True show ?thesis
    by (simp add: ij_builder_append_json_key_known_escape_def [abs_def] del: all_then.simps)
next
  case False
  with assms have q: "quote (c_mem t len) @ [0x3a] = [0x22] @ c_mem t len @ [0x22] @ [0x3a]"
    by (simp add: quote_def escape_no_special)
  show ?thesis
  proof (unfold_locales, goal_cases)
    case (1 b)
    then show ?case using False builder_put_ok [OF 1]
      unfolding q by (simp add: ij_builder_append_json_key_known_escape_def ij_builder_can_append_def fits_def)
  next
    case (2 b)
    then show ?case using False unfolding q
      by (simp add: ij_builder_append_json_key_known_escape_def ij_builder_can_append_def fits_def
          same_frame_refl)
  qed
qed

end
