(* ===== verification/Timestamp.thy ===== *)
theory Timestamp
  imports Ij_Types
begin

text \<open>
  RFC 3339 timestamps: \<open>ij_format_timestamp_rfc3339\<close> and its digit writers in
  \<open>src/encoders/ij_json_console.c\<close>. \<open>gmtime_r\<close> of the C library is modelled by the
  proleptic Gregorian calendar, in years that begin on the first of March. The formatted text
  is proved to have 24 characters and to read back as the second and millisecond it was made
  from.
\<close>

section \<open>Calendar\<close>

record tm =
  tm_year :: int \<comment> \<open>years since 1900\<close>
  tm_mon :: int \<comment> \<open>0 to 11\<close>
  tm_mday :: int
  tm_hour :: int
  tm_min :: int
  tm_sec :: int

text \<open>
  Day \<open>d\<close> of a cycle of 400 years that begins on the first of March, as the year of the cycle
  and the day of that year. Centuries but the last have 36524 days, groups of four years but the
  last of a century 1461, years but the last of a group 365.
\<close>

definition cycle_year :: "int \<Rightarrow> int \<times> int" where
  "cycle_year d =
     (let c = min 3 (d div 36524); d = d - 36524 * c;
          q = d div 1461; d = d - 1461 * q;
          y = min 3 (d div 365)
      in (100 * c + 4 * q + y, d - 365 * y))"

text \<open>Month (0 is March) and day of the month of day \<open>d\<close> of a year that begins in March.\<close>

definition march_month :: "int \<Rightarrow> int \<times> int" where
  "march_month d = (let m = (5 * d + 2) div 153 in (m, d - (153 * m + 2) div 5 + 1))"

definition gmtime :: "int \<Rightarrow> tm" where
  "gmtime seconds =
     (let days = seconds div 86400; rest = seconds mod 86400; z = days + 719468;
          cycle = z div 146097; (yoc, doy) = cycle_year (z mod 146097); (mp, day) = march_month doy;
          year = 400 * cycle + yoc + (if mp \<ge> 10 then 1 else 0)
      in \<lparr>tm_year = year - 1900, tm_mon = (mp + 2) mod 12, tm_mday = day,
          tm_hour = rest div 3600, tm_min = rest mod 3600 div 60, tm_sec = rest mod 60\<rparr>)"

text \<open>\<open>gmtime_r\<close> fails when the year does not fit an \<open>int\<close>.\<close>

definition gmtime_r :: "int \<Rightarrow> tm option" where
  "gmtime_r seconds =
     (let tm = gmtime seconds in
      if - 2147483648 \<le> tm_year tm \<and> tm_year tm \<le> 2147483647 then Some tm else None)"

section \<open>The formatter\<close>

definition ij_write_two_digits :: "nat \<Rightarrow> byte list" where
  "ij_write_two_digits value = [byte_of (48 + value div 10 mod 10), byte_of (48 + value mod 10)]"

definition ij_write_three_digits :: "nat \<Rightarrow> byte list" where
  "ij_write_three_digits value =
     [byte_of (48 + value div 100 mod 10), byte_of (48 + value div 10 mod 10),
      byte_of (48 + value mod 10)]"

definition ij_write_four_digits :: "nat \<Rightarrow> byte list" where
  "ij_write_four_digits value =
     [byte_of (48 + value div 1000 mod 10), byte_of (48 + value div 100 mod 10),
      byte_of (48 + value div 10 mod 10), byte_of (48 + value mod 10)]"

text \<open>
  The bytes stored at offsets 0 to 24, in the order of the source. The buffer of both callers has
  32 bytes; a null buffer is \<open>None\<close>. The result is the status and the bytes written.
\<close>

definition ij_format_timestamp_rfc3339 ::
  "ij_timestamp_t \<Rightarrow> byte list option \<Rightarrow> size_t \<Rightarrow> (ij_status_t \<times> byte list option) option" where
  "ij_format_timestamp_rfc3339 timestamp buffer buffer_size =
     (case buffer of
        None \<Rightarrow> Some (IJ_STATUS_INVALID_ARGUMENT, None)
      | Some mem \<Rightarrow>
          if buffer_size < 25 \<or> nanoseconds timestamp \<ge> 1000000000
          then Some (IJ_STATUS_INVALID_ARGUMENT, Some mem)
          else
            (case gmtime_r (sint (unix_seconds timestamp)) of
               None \<Rightarrow> Some (IJ_STATUS_ENCODE_ERROR, Some mem)
             | Some tm_utc \<Rightarrow>
                 let year = tm_year tm_utc + 1900 in
                 if year < 0 \<or> year > 9999 then Some (IJ_STATUS_ENCODE_ERROR, Some mem)
                 else
                   let milliseconds = unat (nanoseconds timestamp) div 1000000 in
                   map_option (\<lambda>mem'. (IJ_STATUS_OK, Some mem'))
                     (mem_write mem 0
                       (ij_write_four_digits (nat year) @ [0x2d] @
                        ij_write_two_digits (nat (tm_mon tm_utc + 1)) @ [0x2d] @
                        ij_write_two_digits (nat (tm_mday tm_utc)) @ [0x54] @
                        ij_write_two_digits (nat (tm_hour tm_utc)) @ [0x3a] @
                        ij_write_two_digits (nat (tm_min tm_utc)) @ [0x3a] @
                        ij_write_two_digits (nat (tm_sec tm_utc)) @ [0x2e] @
                        ij_write_three_digits milliseconds @ [0x5a] @ [0]))))"

section \<open>Reference\<close>

text \<open>Days from 1970-01-01 to a civil date.\<close>

definition days_from_civil :: "int \<Rightarrow> int \<Rightarrow> int \<Rightarrow> int" where
  "days_from_civil year month day =
     (let y = (if month \<le> 2 then year - 1 else year); mp = (month + 9) mod 12;
          yoc = y mod 400
      in 146097 * (y div 400) + (365 * yoc + yoc div 4 - yoc div 100) +
         ((153 * mp + 2) div 5 + day - 1) - 719468)"

definition tm_seconds :: "tm \<Rightarrow> int" where
  "tm_seconds t =
     86400 * days_from_civil (tm_year t + 1900) (tm_mon t + 1) (tm_mday t) +
     3600 * tm_hour t + 60 * tm_min t + tm_sec t"

definition leap_year :: "int \<Rightarrow> bool" where
  "leap_year y \<longleftrightarrow> y mod 4 = 0 \<and> (y mod 100 \<noteq> 0 \<or> y mod 400 = 0)"

definition digit :: "byte \<Rightarrow> nat" where
  "digit b = unat b - 48"

text \<open>A reader of the timestamp text: the second and the millisecond it denotes.\<close>

definition read_timestamp :: "byte list \<Rightarrow> int \<times> nat" where
  "read_timestamp t =
     (let n = (\<lambda>i. int (digit (t ! i)));
          n2 = (\<lambda>i. 10 * n i + n (i + 1))
      in (86400 * days_from_civil (100 * n2 0 + n2 2) (n2 5) (n2 8) +
          3600 * n2 11 + 60 * n2 14 + n2 17,
          digit (t ! 20) * 100 + digit (t ! 21) * 10 + digit (t ! 22)))"

section \<open>The calendar is correct\<close>

lemma cycle_year_bounds:
  assumes "0 \<le> d" "d < 146097" "cycle_year d = (y, r)"
  shows "0 \<le> y \<and> y < 400 \<and> 0 \<le> r \<and> r \<le> 365 \<and> d = 365 * y + y div 4 - y div 100 + r"
proof -
  define c where "c = min 3 (d div 36524)"
  define d1 where "d1 = d - 36524 * c"
  define q where "q = d1 div 1461"
  define d2 where "d2 = d1 - 1461 * q"
  define y0 where "y0 = min 3 (d2 div 365)"
  have c: "0 \<le> c" "c \<le> 3" "0 \<le> d1" "d1 \<le> 36524" "c < 3 \<longrightarrow> d1 < 36524"
    using assms(1,2) unfolding c_def d1_def by auto
  then have q: "0 \<le> q" "q \<le> 24" "0 \<le> d2" "d2 \<le> 1460" "q = 24 \<longrightarrow> d2 \<le> 1460"
    unfolding q_def d2_def by auto
  then have y0: "0 \<le> y0" "y0 \<le> 3" "0 \<le> d2 - 365 * y0" "d2 - 365 * y0 \<le> 365"
    unfolding y0_def by auto
  have yr: "y = 100 * c + 4 * q + y0" "r = d2 - 365 * y0"
    using assms(3) unfolding cycle_year_def Let_def c_def d1_def q_def d2_def y0_def by simp_all
  have "y div 4 = 25 * c + q" using yr(1) y0 by linarith
  moreover have "y div 100 = c" using yr(1) y0 q by linarith
  moreover have "d = 36524 * c + 1461 * q + d2" unfolding d2_def d1_def by simp
  ultimately show ?thesis using yr c q y0 by auto
qed

lemma twelve:
  "0 \<le> (m :: int) \<Longrightarrow> m \<le> 11 \<Longrightarrow>
   m = 0 \<or> m = 1 \<or> m = 2 \<or> m = 3 \<or> m = 4 \<or> m = 5 \<or> m = 6 \<or> m = 7 \<or> m = 8 \<or> m = 9 \<or> m = 10 \<or> m = 11"
  by presburger

lemma march_month_bounds:
  assumes "0 \<le> d" "d \<le> 365" "march_month d = (m, day)"
  shows "0 \<le> m \<and> m \<le> 11 \<and> 1 \<le> day \<and> day \<le> 31 \<and> (153 * m + 2) div 5 + day - 1 = d"
proof -
  have m: "m = (5 * d + 2) div 153" and day: "day = d - (153 * m + 2) div 5 + 1"
    using assms(3) by (auto simp: march_month_def Let_def)
  from m assms(1,2) have "0 \<le> m" "m \<le> 11" by auto
  moreover from m have "153 * m \<le> 5 * d + 2" "5 * d + 2 < 153 * m + 153" by linarith+
  ultimately show ?thesis using twelve [of m] day assms(2) by auto
qed

lemma march_to_civil:
  assumes "0 \<le> mp" "mp \<le> 11"
  shows "0 \<le> (mp + 2) mod 12" "(mp + 2) mod 12 \<le> (11 :: int)" "((mp + 2) mod 12 + 1 + 9) mod 12 = mp"
    "(mp + 2) mod 12 + 1 \<le> 2 \<longleftrightarrow> mp \<ge> 10"
proof -
  from twelve [OF assms] show "((mp + 2) mod 12 + 1 + 9) mod 12 = mp" "(mp + 2) mod 12 + 1 \<le> 2 \<longleftrightarrow> mp \<ge> 10" by auto
qed auto

definition tm_ok :: "tm \<Rightarrow> bool" where
  "tm_ok t \<longleftrightarrow>
     0 \<le> tm_mon t \<and> tm_mon t \<le> 11 \<and> 1 \<le> tm_mday t \<and> tm_mday t \<le> 31 \<and>
     0 \<le> tm_hour t \<and> tm_hour t \<le> 23 \<and> 0 \<le> tm_min t \<and> tm_min t \<le> 59 \<and>
     0 \<le> tm_sec t \<and> tm_sec t \<le> 59"

lemma cycle_div_mod: "0 \<le> y \<Longrightarrow> y < 400 \<Longrightarrow> (400 * c + y) div 400 = (c :: int) \<and> (400 * c + y) mod 400 = y"
  by auto

lemma clock_bounds:
  "0 \<le> s mod 86400 div 3600 \<and> s mod 86400 div 3600 \<le> 23 \<and> 0 \<le> s mod 86400 mod 3600 div 60 \<and>
   s mod 86400 mod 3600 div 60 \<le> 59 \<and> 0 \<le> s mod 86400 mod 60 \<and> s mod 86400 mod 60 \<le> (59 :: int)"
proof -
  have "0 \<le> s mod 86400" "s mod 86400 < 86400" by simp_all
  moreover have "0 \<le> s mod 86400 mod 3600" "s mod 86400 mod 3600 < 3600" by simp_all
  ultimately show ?thesis by auto
qed

lemma recombine:
  "3600 * a + b = r \<Longrightarrow> 60 * c + d = b \<Longrightarrow> 86400 * e + r = s \<Longrightarrow>
   86400 * e + 3600 * a + 60 * c + d = (s :: int)"
  by linarith

lemma gmtime_correct: "tm_ok (gmtime s) \<and> tm_seconds (gmtime s) = s"
proof -
  define z where "z = s div 86400 + 719468"
  obtain y r where y: "cycle_year (z mod 146097) = (y, r)" by force
  obtain m d where m: "march_month r = (m, d)" by force
  note yb = cycle_year_bounds [OF _ _ y]
  have y': "0 \<le> y" "y < 400" "0 \<le> r" "r \<le> 365" "z mod 146097 = 365 * y + y div 4 - y div 100 + r"
    using yb by auto
  note mb = march_month_bounds [OF y'(3,4) m]
  note mc = march_to_civil [of m]
  have g: "gmtime s =
     \<lparr>tm_year = 400 * (z div 146097) + y + (if m \<ge> 10 then 1 else 0) - 1900, tm_mon = (m + 2) mod 12,
      tm_mday = d, tm_hour = s mod 86400 div 3600, tm_min = s mod 86400 mod 3600 div 60,
      tm_sec = s mod 86400 mod 60\<rparr>"
    using y m by (simp add: gmtime_def Let_def z_def [symmetric])
  have "days_from_civil (tm_year (gmtime s) + 1900) (tm_mon (gmtime s) + 1) (tm_mday (gmtime s)) =
      146097 * (z div 146097) + (365 * y + y div 4 - y div 100) + ((153 * m + 2) div 5 + d - 1) - 719468"
  proof (cases "m \<ge> 10")
    case True
    then show ?thesis
      using mc mb cycle_div_mod [OF y'(1,2), of "z div 146097"]
      by (simp add: g days_from_civil_def Let_def)
  next
    case False
    then show ?thesis
      using mc mb cycle_div_mod [OF y'(1,2), of "z div 146097"]
      by (simp add: g days_from_civil_def Let_def)
  qed
  also have "\<dots> = 146097 * (z div 146097) + z mod 146097 - 719468"
    using mb y'(5) by linarith
  also have "\<dots> = s div 86400" by (simp add: z_def)
  finally have days: "days_from_civil (tm_year (gmtime s) + 1900) (tm_mon (gmtime s) + 1)
      (tm_mday (gmtime s)) = s div 86400" .
  have sec: "86400 * (s div 86400) + 3600 * (s mod 86400 div 3600) +
      60 * (s mod 86400 mod 3600 div 60) + s mod 86400 mod 60 = s"
  proof -
    let ?r = "s mod 86400"
    have 1: "3600 * (?r div 3600) + ?r mod 3600 = ?r" by simp
    have 2: "60 * (?r mod 3600 div 60) + ?r mod 3600 mod 60 = ?r mod 3600" by simp
    have 3: "?r mod 3600 mod 60 = ?r mod 60" by (rule mod_mod_cancel) simp
    have 4: "86400 * (s div 86400) + ?r = s" by simp
    show ?thesis using recombine [OF 1 2 4] unfolding 3 .
  qed
  have "tm_ok (gmtime s)"
    using mb mc clock_bounds [of s] by (simp add: g tm_ok_def)
  moreover have "tm_seconds (gmtime s) = s"
    unfolding tm_seconds_def days using sec by (simp only: g tm.simps)
  ultimately show ?thesis ..
qed

lemma div_plus_one:
  assumes "0 < n"
  shows "(r + 1) div n = r div n + (if (r + 1) mod n = 0 then 1 else (0 :: int))"
proof -
  have r: "r mod n < n" "0 \<le> r mod n" and rd: "r = n * (r div n) + r mod n" using assms by simp_all
  show ?thesis
  proof (cases "r mod n + 1 = n")
    case True
    then have "r + 1 = n * (r div n) + n" using rd by linarith
    then have "r + 1 = n * (r div n + 1)" by (simp only: distrib_left mult_1_right)
    then show ?thesis using assms by (metis mod_mult_self1_is_0 nonzero_mult_div_cancel_left less_irrefl)
  next
    case False
    then have "(r + 1) mod n = r mod n + 1" "(r + 1) div n = r div n"
      using r rd int_div_pos_eq [of "r + 1" n "r div n" "r mod n + 1"]
        int_mod_pos_eq [of "r + 1" n "r div n" "r mod n + 1"] by linarith+
    with r show ?thesis by simp
  qed
qed

lemma leap_arith:
  "a' = a + (if p then 1 else 0) \<Longrightarrow> b' = b + (if q then 1 else 0) \<Longrightarrow> (q \<Longrightarrow> p) \<Longrightarrow>
   146097 * c + (365 * (r + 1) + a' - b') - k - (146097 * c + (365 * r + a - b) - k) =
   (if p \<and> \<not> q then 366 else 365 :: int)"
  by auto

lemma leap_year_length:
  "days_from_civil (y + 1) 3 1 - days_from_civil y 3 1 = (if leap_year (y + 1) then 366 else 365)"
proof -
  have d: "days_from_civil y 3 1 =
      146097 * (y div 400) + (365 * (y mod 400) + y mod 400 div 4 - y mod 400 div 100) - 719468" for y
    by (simp add: days_from_civil_def Let_def)
  define c where "c = y div 400" define r where "r = y mod 400"
  have y: "y = 400 * c + r" "0 \<le> r" "r < 400" by (simp_all add: c_def r_def)
  show ?thesis
  proof (cases "r = 399")
    case True
    then have "y + 1 = 400 * (c + 1)" using y by simp
    then have "(y + 1) div 400 = c + 1" "(y + 1) mod 400 = 0" "leap_year (y + 1)"
      by (auto simp: leap_year_def)
    with True show ?thesis by (simp add: d c_def [symmetric] r_def [symmetric])
  next
    case False
    with y have r1: "(y + 1) div 400 = c" "(y + 1) mod 400 = r + 1"
      using cycle_div_mod [of "r + 1" c] by (simp_all add: add.assoc)
    have r0: "r + 1 \<noteq> 0" using y by simp
    have "(r + 1) div 4 = r div 4 + (if (r + 1) mod 4 = 0 then 1 else 0)"
      "(r + 1) div 100 = r div 100 + (if (r + 1) mod 100 = 0 then 1 else 0)"
      by (rule div_plus_one, simp)+
    moreover have "(y + 1) mod 4 = (r + 1) mod 4" "(y + 1) mod 100 = (r + 1) mod 100"
      using r1(2) mod_mod_cancel [of 4 400 "y + 1"] mod_mod_cancel [of 100 400 "y + 1"] by simp_all
    moreover have "(r + 1) mod 4 = 0" if "(r + 1) mod 100 = 0"
      using mod_mod_cancel [of 4 100 "r + 1"] that by simp
    ultimately show ?thesis
      using leap_arith [of "(r + 1) div 4" "r div 4" "(r + 1) mod 4 = 0" "(r + 1) div 100" "r div 100"
          "(r + 1) mod 100 = 0" c r 719468] r0
      unfolding d r1 leap_year_def c_def [symmetric] r_def [symmetric] by metis
  qed
qed

section \<open>The formatter\<close>

lemma year_range:
  "0 \<le> tm_year (gmtime s) + 1900 \<and> tm_year (gmtime s) + 1900 \<le> 9999 \<Longrightarrow>
   gmtime_r s = Some (gmtime s)"
  by (simp add: gmtime_r_def Let_def)

definition timestamp_text :: "ij_timestamp_t \<Rightarrow> byte list" where
  "timestamp_text ts =
     (let t = gmtime (sint (unix_seconds ts)) in
      ij_write_four_digits (nat (tm_year t + 1900)) @ [0x2d] @
      ij_write_two_digits (nat (tm_mon t + 1)) @ [0x2d] @ ij_write_two_digits (nat (tm_mday t)) @ [0x54] @
      ij_write_two_digits (nat (tm_hour t)) @ [0x3a] @ ij_write_two_digits (nat (tm_min t)) @ [0x3a] @
      ij_write_two_digits (nat (tm_sec t)) @ [0x2e] @
      ij_write_three_digits (unat (nanoseconds ts) div 1000000) @ [0x5a])"

definition timestamp_ok :: "ij_timestamp_t \<Rightarrow> bool" where
  "timestamp_ok ts \<longleftrightarrow>
     nanoseconds ts < 1000000000 \<and>
     (let year = tm_year (gmtime (sint (unix_seconds ts))) + 1900 in 0 \<le> year \<and> year \<le> 9999)"

lemmas digit_writers = ij_write_two_digits_def ij_write_three_digits_def ij_write_four_digits_def

lemma length_timestamp_text [simp]: "length (timestamp_text ts) = 24"
  by (simp add: timestamp_text_def Let_def digit_writers)

text \<open>With a buffer of at least 25 bytes the text and a terminating zero are written.\<close>

lemma format_timestamp_ok:
  assumes "timestamp_ok ts" and "25 \<le> n" and "n \<le> length mem"
  shows "ij_format_timestamp_rfc3339 ts (Some mem) n =
    Some (IJ_STATUS_OK, Some (timestamp_text ts @ 0 # drop 25 mem))"
proof -
  have "mem_write mem 0 (timestamp_text ts @ [0]) = Some (timestamp_text ts @ 0 # drop 25 mem)"
    using assms by (simp add: mem_write_def)
  then have "mem_write mem 0
      (let t = gmtime (sint (unix_seconds ts)) in
       ij_write_four_digits (nat (tm_year t + 1900)) @ [0x2d] @
       ij_write_two_digits (nat (tm_mon t + 1)) @ [0x2d] @ ij_write_two_digits (nat (tm_mday t)) @ [0x54] @
       ij_write_two_digits (nat (tm_hour t)) @ [0x3a] @ ij_write_two_digits (nat (tm_min t)) @ [0x3a] @
       ij_write_two_digits (nat (tm_sec t)) @ [0x2e] @
       ij_write_three_digits (unat (nanoseconds ts) div 1000000) @ [0x5a] @ [0]) =
      Some (timestamp_text ts @ 0 # drop 25 mem)"
    by (simp add: timestamp_text_def Let_def)
  with assms show ?thesis
    by (simp add: ij_format_timestamp_rfc3339_def timestamp_ok_def Let_def year_range not_le)
qed

lemma format_timestamp_error:
  assumes "\<not> timestamp_ok ts" and "25 \<le> n"
  shows "\<exists>st. ij_format_timestamp_rfc3339 ts (Some mem) n = Some (st, Some mem) \<and> st \<noteq> IJ_STATUS_OK"
  using assms
  by (auto simp: ij_format_timestamp_rfc3339_def timestamp_ok_def gmtime_r_def Let_def not_less)

lemma digit_byte_of [simp]: "v < 10 \<Longrightarrow> digit (byte_of (48 + v)) = v"
  by (simp add: digit_def)

lemma two_digits_value:
  "v < 100 \<Longrightarrow> 10 * digit (byte_of (48 + v div 10 mod 10)) + digit (byte_of (48 + v mod 10)) = v"
  by simp

lemma combine_digits: "10 * a + b = q \<Longrightarrow> 10 * q + c = v \<Longrightarrow> a * 100 + b * 10 + c = (v :: nat)"
  by simp

lemma three_digits_value:
  assumes "v < 1000"
  shows "digit (byte_of (48 + v div 100 mod 10)) * 100 +
     digit (byte_of (48 + v div 10 mod 10)) * 10 + digit (byte_of (48 + v mod 10)) = v"
proof -
  have 1: "10 * (v div 100) + v div 10 mod 10 = v div 10"
    using mult_div_mod_eq [of 10 "v div 10"] by (simp flip: div_mult2_eq)
  have 2: "10 * (v div 10) + v mod 10 = v" by simp
  have "v div 100 mod 10 = v div 100" using assms by simp
  then show ?thesis using combine_digits [OF 1 2] by simp
qed

lemma combine_four:
  "a * 100 + b * 10 + c = q \<Longrightarrow> 10 * q + d = v \<Longrightarrow> 100 * (10 * a + b) + (10 * c + d) = (v :: nat)"
  by simp

lemma four_digits_value:
  assumes "v < 10000"
  shows "100 * (10 * digit (byte_of (48 + v div 1000 mod 10)) +
     digit (byte_of (48 + v div 100 mod 10))) +
     (10 * digit (byte_of (48 + v div 10 mod 10)) + digit (byte_of (48 + v mod 10))) = v"
proof -
  have q: "v div 10 div 100 = v div 1000" "v div 10 div 10 = v div 100" by (simp_all flip: div_mult2_eq)
  have "v div 10 < 1000" using assms by simp
  from three_digits_value [OF this] have 1:
    "digit (byte_of (48 + v div 1000 mod 10)) * 100 + digit (byte_of (48 + v div 100 mod 10)) * 10 +
     digit (byte_of (48 + v div 10 mod 10)) = v div 10" unfolding q .
  have 2: "10 * (v div 10) + digit (byte_of (48 + v mod 10)) = v" by simp
  show ?thesis by (rule combine_four [OF 1 2])
qed

lemma two_digits_int:
  "0 \<le> v \<Longrightarrow> v < 100 \<Longrightarrow>
   10 * int (digit (byte_of (48 + nat v div 10 mod 10))) + int (digit (byte_of (48 + nat v mod 10))) = v"
  using arg_cong [OF two_digits_value [of "nat v"], of int] by (simp del: digit_byte_of)

lemma four_digits_int:
  "0 \<le> v \<Longrightarrow> v < 10000 \<Longrightarrow>
   100 * (10 * int (digit (byte_of (48 + nat v div 1000 mod 10))) +
     int (digit (byte_of (48 + nat v div 100 mod 10)))) +
   (10 * int (digit (byte_of (48 + nat v div 10 mod 10))) + int (digit (byte_of (48 + nat v mod 10)))) = v"
  using arg_cong [OF four_digits_value [of "nat v"], of int] by (simp del: digit_byte_of)

text \<open>The text reads back as the second and the millisecond.\<close>

lemma read_timestamp_list:
  "read_timestamp [y0, y1, y2, y3, s0, m0, m1, s1, d0, d1, s2, h0, h1, s3, n0, n1, s4, c0, c1, s5,
     t0, t1, t2, s6] =
   (86400 * days_from_civil
      (100 * (10 * int (digit y0) + int (digit y1)) + (10 * int (digit y2) + int (digit y3)))
      (10 * int (digit m0) + int (digit m1)) (10 * int (digit d0) + int (digit d1)) +
    3600 * (10 * int (digit h0) + int (digit h1)) + 60 * (10 * int (digit n0) + int (digit n1)) +
    (10 * int (digit c0) + int (digit c1)),
    digit t0 * 100 + digit t1 * 10 + digit t2)"
  by (simp add: read_timestamp_def Let_def)

lemma read_timestamp_text:
  assumes "timestamp_ok ts"
  shows "read_timestamp (timestamp_text ts) =
    (sint (unix_seconds ts), unat (nanoseconds ts) div 1000000)"
proof -
  let ?s = "sint (unix_seconds ts)" let ?t = "gmtime ?s"
  have year: "0 \<le> tm_year ?t + 1900" "tm_year ?t + 1900 < 10000"
    using assms by (auto simp: timestamp_ok_def Let_def)
  have ok: "tm_ok ?t" and sec: "tm_seconds ?t = ?s" using gmtime_correct by blast+
  have ns: "unat (nanoseconds ts) div 1000000 < 1000"
    using assms less_mult_imp_div_less [of "unat (nanoseconds ts)" 1000 1000000]
    by (simp add: timestamp_ok_def word_less_nat_alt)
  from ok have b: "0 \<le> tm_mon ?t + 1" "tm_mon ?t + 1 < 100" "0 \<le> tm_mday ?t" "tm_mday ?t < 100"
    "0 \<le> tm_hour ?t" "tm_hour ?t < 100" "0 \<le> tm_min ?t" "tm_min ?t < 100" "0 \<le> tm_sec ?t"
    "tm_sec ?t < 100" by (simp_all add: tm_ok_def)
  show ?thesis
    unfolding timestamp_text_def Let_def digit_writers append.simps read_timestamp_list
      four_digits_int [OF year] two_digits_int [OF b(1,2)] two_digits_int [OF b(3,4)]
      two_digits_int [OF b(5,6)] two_digits_int [OF b(7,8)] two_digits_int [OF b(9,10)]
      three_digits_value [OF ns] tm_seconds_def [symmetric] sec ..
qed

lemma timestamp_text_chars: "b \<in> set (timestamp_text ts) \<Longrightarrow> 0x20 < b \<and> b < 0x7f \<and> b \<noteq> 0x22 \<and> b \<noteq> 0x5c"
proof -
  have d: "0x20 < byte_of (48 + v mod 10) \<and> byte_of (48 + v mod 10) < 0x7f \<and>
      byte_of (48 + v mod 10) \<noteq> 0x22 \<and> byte_of (48 + v mod 10) \<noteq> 0x5c" for v
    by (auto simp: word_less_nat_alt word_unat_eq_iff)
  assume "b \<in> set (timestamp_text ts)"
  then show ?thesis using d by (auto simp: timestamp_text_def Let_def digit_writers)
qed

section \<open>Properties\<close>

text \<open>
  C26. A timestamp that is formatted reads back as the second and the millisecond it came from;
  nothing of the 32-byte buffer beyond the terminating zero is touched.
\<close>

theorem format_timestamp_roundtrip:
  assumes "ij_format_timestamp_rfc3339 ts (Some mem) (length mem) = Some (IJ_STATUS_OK, Some mem')"
  shows "read_timestamp (take 24 mem') = (sint (unix_seconds ts), unat (nanoseconds ts) div 1000000) \<and>
         mem' ! 24 = 0 \<and> drop 25 mem' = drop 25 mem"
proof -
  have len: "25 \<le> length mem"
    using assms by (auto simp: ij_format_timestamp_rfc3339_def split: if_splits)
  have ok: "timestamp_ok ts"
    using assms format_timestamp_error [of ts "length mem" mem] len by (cases "timestamp_ok ts") auto
  then have "mem' = timestamp_text ts @ 0 # drop 25 mem"
    using assms format_timestamp_ok [OF ok len] by simp
  then show ?thesis using read_timestamp_text [OF ok] by (simp add: nth_append)
qed

definition sample_timestamp :: ij_timestamp_t where
  "sample_timestamp = \<lparr>unix_seconds = 86399, nanoseconds = 7999999\<rparr>"

lemma sample_timestamp_ok: "timestamp_ok sample_timestamp"
proof -
  have "tm_year (gmtime 86399) = 70" by code_simp
  then show ?thesis by (simp add: timestamp_ok_def sample_timestamp_def)
qed

theorem format_timestamp_roundtrip_witness:
  "\<exists>mem'. ij_format_timestamp_rfc3339 sample_timestamp (Some (replicate 32 0)) 32 =
            Some (IJ_STATUS_OK, Some mem') \<and>
     read_timestamp (take 24 mem') = (86399, 7) \<and> mem' ! 24 = 0 \<and>
     drop 25 mem' = drop 25 (replicate 32 (0 :: byte))"
proof -
  let ?mem = "replicate 32 (0 :: byte)"
  let ?mem' = "timestamp_text sample_timestamp @ 0 # drop 25 ?mem"
  have f: "ij_format_timestamp_rfc3339 sample_timestamp (Some ?mem) 32 = Some (IJ_STATUS_OK, Some ?mem')"
    by (rule format_timestamp_ok [OF sample_timestamp_ok]) simp_all
  have v: "(sint (unix_seconds sample_timestamp), unat (nanoseconds sample_timestamp) div 1000000) = (86399, 7)"
    by (simp add: sample_timestamp_def)
  have "length ?mem = 32" by simp
  from format_timestamp_roundtrip [of sample_timestamp ?mem ?mem', unfolded this v, OF f] f show ?thesis
    by blast
qed

end
