(* ===== verification/Json_Encode.thy ===== *)
theory Json_Encode
  imports Json_Builder Timestamp
begin

text \<open>
  The JSON and NDJSON encoders: the last part of \<open>src/encoders/ij_json_console.c\<close> and
  \<open>src/encoders/ij_ndjson.c\<close>. The encoder is proved to write the printed JSON object of the
  event's abstract view when it fits the buffer, and to report an error otherwise, without
  writing outside the buffer in either case.
\<close>

section \<open>The encoder\<close>

fun ij_level_to_json_literal :: "ij_level_t \<Rightarrow> byte list" where
  \<open>ij_level_to_json_literal IJ_LEVEL_TRACE = bytes ''"trace"''\<close>
| \<open>ij_level_to_json_literal IJ_LEVEL_DEBUG = bytes ''"debug"''\<close>
| \<open>ij_level_to_json_literal IJ_LEVEL_INFO = bytes ''"info"''\<close>
| \<open>ij_level_to_json_literal IJ_LEVEL_WARN = bytes ''"warn"''\<close>
| \<open>ij_level_to_json_literal IJ_LEVEL_ERROR = bytes ''"error"''\<close>
| \<open>ij_level_to_json_literal IJ_LEVEL_FATAL = bytes ''"fatal"''\<close>
| \<open>ij_level_to_json_literal (IJ_LEVEL_OTHER n) = bytes ''"unknown"''\<close>

text \<open>The memory a string of the copy points at.\<close>

definition owned_ptr :: "byte list \<Rightarrow> ij_owned_string_t \<Rightarrow> byte list" where
  "owned_ptr mem s = (case str_data s of None \<Rightarrow> [] | Some off \<Rightarrow> c_ptr_add mem off)"

text \<open>\<open>snprintf\<close> into a buffer of \<open>n\<close> bytes: what it stores and what it returns.\<close>

definition snprintf :: "size_t \<Rightarrow> byte list \<Rightarrow> byte list \<times> nat" where
  "snprintf n t = (if n = 0 then [] else take (n - 1) t @ [0], length t)"

definition ij_builder_append_attr_value ::
  "cpu \<Rightarrow> byte list \<Rightarrow> ij_owned_attr_value_t \<Rightarrow> ij_json_builder_t \<Rightarrow> append_result" where
  "ij_builder_append_attr_value cpu mem value builder =
     (case value of
        OWNED_STRING s \<Rightarrow>
          ij_builder_append_json_string_known_escape cpu (owned_ptr mem s) (str_len s)
            (str_needs_json_escape s) builder
      | OWNED_SIGNED w \<Rightarrow> ij_builder_append_int64_decimal builder w
      | OWNED_UNSIGNED w \<Rightarrow> ij_builder_append_uint64_decimal builder w
      | OWNED_BOOL b \<Rightarrow>
          if b then ij_builder_append_raw_n builder (bytes ''true'') 4
          else ij_builder_append_raw_n builder (bytes ''false'') 5
      | OWNED_DOUBLE d \<Rightarrow>
          (let (number_buffer, written) = snprintf 64 (format_g17 d)
           in if written \<ge> 64 then Some (IJ_STATUS_ENCODE_ERROR, builder)
              else ij_builder_append_raw builder number_buffer))"

definition append_literal :: "string \<Rightarrow> ij_json_builder_t \<Rightarrow> append_result" where
  "append_literal lit builder = ij_builder_append_raw_n builder (bytes lit) (length lit)"

definition append_owned :: "cpu \<Rightarrow> byte list \<Rightarrow> ij_owned_string_t \<Rightarrow> ij_json_builder_t \<Rightarrow> append_result" where
  "append_owned cpu mem s builder =
     ij_builder_append_json_string_known_escape cpu (owned_ptr mem s) (str_len s)
       (str_needs_json_escape s) builder"

fun append_attributes ::
  "cpu \<Rightarrow> byte list \<Rightarrow> nat \<Rightarrow> ij_owned_attr_t list \<Rightarrow> ij_json_builder_t \<Rightarrow> append_result" where
  "append_attributes cpu mem i [] builder = Some (IJ_STATUS_OK, builder)"
| "append_attributes cpu mem i (a # as) builder =
     all_then
       [\<lambda>b. if i > 0 then ij_builder_append_char b 0x2c else Some (IJ_STATUS_OK, b),
        ij_builder_append_json_key_known_escape cpu (owned_ptr mem (own_key a)) (str_len (own_key a))
          (str_needs_json_escape (own_key a)),
        ij_builder_append_attr_value cpu mem (own_value a),
        append_attributes cpu mem (i + 1) as] builder"

definition json_body ::
  "cpu \<Rightarrow> ij_event_copy_t \<Rightarrow> byte list \<Rightarrow> ij_json_builder_t \<Rightarrow> append_result" where
  \<open>json_body cpu event timestamp =
     (let mem = arena event; level_text = ij_level_to_json_literal (cp_level event) in
      all_then
        [append_literal ''{"timestamp":"'',
         \<lambda>b. ij_builder_append_raw_n b timestamp 24,
         append_literal ''","level":'',
         \<lambda>b. ij_builder_append_raw_n b level_text (length level_text),
         append_literal '',"event_name":'',
         append_owned cpu mem (cp_event_name event),
         append_literal '',"message":'',
         append_owned cpu mem (cp_message event),
         \<lambda>b. if str_data (cp_logger_name event) \<noteq> None
              then all_then [append_literal '',"logger":'', append_owned cpu mem (cp_logger_name event)] b
              else Some (IJ_STATUS_OK, b),
         \<lambda>b. if length (cp_attributes event) > 0
              then all_then [append_literal '',"attributes":{'',
                     append_attributes cpu mem 0 (cp_attributes event),
                     \<lambda>b. ij_builder_append_char b 0x7d] b
              else Some (IJ_STATUS_OK, b),
         \<lambda>b. ij_builder_append_char b 0x7d])\<close>

text \<open>
  The result is the status, the buffer as it is then, and the value of \<open>*out_len\<close> when it was
  set. The local \<open>timestamp[32]\<close> is read only where the formatter has written it.
\<close>

definition ij_json_console_encode ::
  "cpu \<Rightarrow> ij_event_copy_t option \<Rightarrow> byte list option \<Rightarrow> size_t \<Rightarrow>
     (ij_status_t \<times> byte list option \<times> size_t option) option" where
  "ij_json_console_encode cpu event_ptr buffer buffer_size =
     (case (event_ptr, buffer) of
        (Some event, Some mem) \<Rightarrow>
          (case mem_write mem 0 [0] of
             None \<Rightarrow> None
           | Some mem \<Rightarrow>
          (case ij_format_timestamp_rfc3339 (cp_timestamp event) (Some (replicate 32 0)) 32 of
             Some (st, Some timestamp) \<Rightarrow>
               if st \<noteq> IJ_STATUS_OK then Some (IJ_STATUS_ENCODE_ERROR, Some mem, None)
               else
                 (case json_body cpu event timestamp
                         \<lparr>b_buffer = mem, b_capacity = buffer_size, b_length = 0\<rparr> of
                    None \<Rightarrow> None
                  | Some (st, builder) \<Rightarrow>
                      if st \<noteq> IJ_STATUS_OK
                      then Some (IJ_STATUS_ENCODE_ERROR, Some (b_buffer builder), None)
                      else Some (IJ_STATUS_OK, Some (b_buffer builder), Some (b_length builder)))
           | _ \<Rightarrow> None))
      | _ \<Rightarrow> Some (IJ_STATUS_INVALID_ARGUMENT, buffer, None))"

definition ij_ndjson_encode ::
  "cpu \<Rightarrow> ij_event_copy_t option \<Rightarrow> byte list option \<Rightarrow> size_t \<Rightarrow>
     (ij_status_t \<times> byte list option \<times> size_t option) option" where
  "ij_ndjson_encode cpu event_ptr buffer buffer_size =
     (if buffer = None then Some (IJ_STATUS_INVALID_ARGUMENT, None, None)
      else
        (case ij_json_console_encode cpu event_ptr buffer buffer_size of
           None \<Rightarrow> None
         | Some (st, buffer, len) \<Rightarrow>
             (case (st, buffer, len) of
                (IJ_STATUS_OK, Some mem, Some json_len) \<Rightarrow>
                  if json_len + 2 > buffer_size then Some (IJ_STATUS_ENCODE_ERROR, Some mem, None)
                  else
                    (case mem_write mem json_len [0x0a, 0] of
                       None \<Rightarrow> None
                     | Some mem \<Rightarrow> Some (IJ_STATUS_OK, Some mem, Some (json_len + 1)))
              | _ \<Rightarrow> Some (st, buffer, None))))"

section \<open>Reference\<close>

fun members_of :: "(byte list \<times> json) list \<Rightarrow> members" where
  "members_of [] = MNil"
| "members_of ((k, v) # kvs) = MCons k v (members_of kvs)"

fun value_json :: "value_view \<Rightarrow> json" where
  "value_json (VString s) = JString s"
| "value_json (VSigned w) = JToken (signed_decimal (sint w))"
| "value_json (VUnsigned w) = JToken (decimal (unat w))"
| "value_json (VBool b) = JToken (if b then bytes ''true'' else bytes ''false'')"
| "value_json (VDouble d) = JToken (format_g17 d)"

definition attr_json :: "byte list \<times> value_view \<Rightarrow> byte list \<times> json" where
  "attr_json a = (fst a, value_json (snd a))"

definition event_json :: "event_view \<Rightarrow> json" where
  "event_json v =
     JObject (members_of
       ([(bytes ''timestamp'', JString (timestamp_text (v_timestamp v))),
         (bytes ''level'', JString (ij_level_to_text (v_level v))),
         (bytes ''event_name'', JString (v_event_name v)),
         (bytes ''message'', JString (v_message v))] @
        (case v_logger v of None \<Rightarrow> [] | Some l \<Rightarrow> [(bytes ''logger'', JString l)]) @
        (if v_attributes v = [] then []
         else [(bytes ''attributes'', JObject (members_of (map attr_json (v_attributes v))))])))"

definition event_line :: "event_view \<Rightarrow> byte list" where
  "event_line v = print_json (event_json v)"

section \<open>The encoder prints the reference\<close>

lemma appender_literal: "json_appender (append_literal lit) (bytes lit)"
  using append_raw_n.json_appender_axioms [of "bytes lit" "length lit"] c_mem_full [of "bytes lit"]
  by (simp add: append_literal_def [abs_def])

lemma owned_ptr_bytes: "string_wf mem c s \<Longrightarrow> c_mem (owned_ptr mem s) (str_len s) = owned_bytes mem s"
  by (simp add: owned_ptr_def owned_bytes_def string_wf_def split: option.splits)

lemma string_wf_escape:
  "string_wf mem c s \<Longrightarrow>
   str_needs_json_escape s \<or> (\<forall>b\<in>set (c_mem (owned_ptr mem s) (str_len s)). \<not> json_special b)"
  using owned_ptr_bytes [of mem c s] by (auto simp: string_wf_def has_special_def)

lemma appender_owned:
  "string_wf mem c s \<Longrightarrow> json_appender (append_owned cpu mem s) (quote (owned_bytes mem s))"
  using appender_json_string [OF string_wf_escape, of mem c s cpu] owned_ptr_bytes [of mem c s]
  by (simp add: append_owned_def [abs_def])

lemma c_text_token: "token_ok t \<Longrightarrow> c_text (t @ [0]) = t"
proof -
  assume "token_ok t"
  moreover have "\<not> token_byte 0" by (simp add: token_byte_def)
  ultimately have "\<And>b. b \<in> set t \<Longrightarrow> b \<noteq> 0" by (metis token_ok_def)
  then show ?thesis by (simp add: c_text_def takeWhile_append2)
qed

lemma appender_value:
  assumes "owned_value_wf mem c v"
  shows "json_appender (ij_builder_append_attr_value cpu mem v)
           (print_json (value_json (owned_value_view mem v)))"
proof (cases v)
  case (OWNED_STRING s)
  then show ?thesis
    using appender_owned [of mem c s cpu] assms
    by (simp add: ij_builder_append_attr_value_def [abs_def] append_owned_def [abs_def])
next
  case (OWNED_SIGNED w)
  then show ?thesis
    using append_int64.json_appender_axioms [of w] by (simp add: ij_builder_append_attr_value_def [abs_def])
next
  case (OWNED_UNSIGNED w)
  then show ?thesis
    using append_uint64.json_appender_axioms [of w] by (simp add: ij_builder_append_attr_value_def [abs_def])
next
  case (OWNED_BOOL b)
  then show ?thesis
    using append_raw_n.json_appender_axioms [of "bytes ''true''" 4]
      append_raw_n.json_appender_axioms [of "bytes ''false''" 5]
    by (cases b) (simp_all add: ij_builder_append_attr_value_def [abs_def] c_mem_take)
next
  case (OWNED_DOUBLE d)
  have "length (format_g17 d) \<le> 24" "token_ok (format_g17 d)" using format_g17_ok by blast+
  then have "snprintf 64 (format_g17 d) = (format_g17 d @ [0], length (format_g17 d))"
    "\<not> 64 \<le> length (format_g17 d)" "c_text (format_g17 d @ [0]) = format_g17 d"
    by (simp_all add: snprintf_def c_text_token)
  with OWNED_DOUBLE append_raw.json_appender_axioms [of "format_g17 d @ [0]"] show ?thesis
    by (simp add: ij_builder_append_attr_value_def [abs_def])
qed

lemma appender_key:
  "string_wf mem c s \<Longrightarrow>
   json_appender (ij_builder_append_json_key_known_escape cpu (owned_ptr mem s) (str_len s)
     (str_needs_json_escape s)) (quote (owned_bytes mem s) @ [0x3a])"
  using appender_json_key [OF string_wf_escape, of mem c s cpu] owned_ptr_bytes [of mem c s] by simp

lemma appender_comma:
  "json_appender (\<lambda>b. if i > 0 then ij_builder_append_char b 0x2c else Some (IJ_STATUS_OK, b))
     (if i > (0 :: nat) then [0x2c] else [])"
  using append_char.json_appender_axioms [of "0x2c"] appender_nothing by (cases "i > 0") simp_all

definition attr_members :: "byte list \<Rightarrow> ij_owned_attr_t list \<Rightarrow> members" where
  "attr_members mem as = members_of (map attr_json (map (owned_attr_view mem) as))"

lemma print_attr_members:
  "print_members (attr_members mem (a # as)) =
     quote (owned_bytes mem (own_key a)) @ [0x3a] @
     print_json (value_json (owned_value_view mem (own_value a))) @
     (if as = [] then [] else [0x2c]) @ print_members (attr_members mem as)"
  by (cases as) (simp_all add: attr_members_def attr_json_def owned_attr_view_def)

lemma appender_attributes:
  "list_all (owned_attr_wf mem c) as \<Longrightarrow>
   json_appender (append_attributes cpu mem i as)
     ((if i > 0 \<and> as \<noteq> [] then [0x2c] else []) @ print_members (attr_members mem as))"
proof (induction as arbitrary: i)
  case Nil
  have "append_attributes cpu mem i [] = (\<lambda>b. Some (IJ_STATUS_OK, b))" by (rule ext) simp
  then show ?case using appender_nothing by (simp add: attr_members_def)
next
  case (Cons a as)
  let ?fs = "[\<lambda>b. if i > 0 then ij_builder_append_char b 0x2c else Some (IJ_STATUS_OK, b),
        ij_builder_append_json_key_known_escape cpu (owned_ptr mem (own_key a)) (str_len (own_key a))
          (str_needs_json_escape (own_key a)),
        ij_builder_append_attr_value cpu mem (own_value a), append_attributes cpu mem (i + 1) as]"
  from Cons.prems have key: "string_wf mem c (own_key a)" and val: "owned_value_wf mem c (own_value a)"
    by (simp_all add: owned_attr_wf_def)
  let ?outs = "[if i > 0 then [0x2c] else [], quote (owned_bytes mem (own_key a)) @ [0x3a],
        print_json (value_json (owned_value_view mem (own_value a))),
        (if i + 1 > 0 \<and> as \<noteq> [] then [0x2c] else []) @ print_members (attr_members mem as)]"
  have "json_appender (all_then ?fs) (concat ?outs)"
    using appender_comma [of i] appender_key [OF key] appender_value [OF val]
      Cons.IH [of "i + 1"] Cons.prems
    by (intro appender_all_then) (simp del: append_attributes.simps)
  moreover have "append_attributes cpu mem i (a # as) = all_then ?fs" by (rule ext) (simp del: all_then.simps)
  moreover have "concat ?outs =
      (if i > 0 \<and> a # as \<noteq> [] then [0x2c] else []) @ print_members (attr_members mem (a # as))"
    by (simp add: print_attr_members)
  ultimately show ?case by (simp only:)
qed

lemma level_literal: "ij_level_to_json_literal level = quote (ij_level_to_text level)"
  by (cases level) (simp_all add: quote_def escape_byte_def)

lemma timestamp_quote: "quote (timestamp_text ts) = 0x22 # timestamp_text ts @ [0x22]"
proof -
  have "\<forall>b\<in>set (timestamp_text ts). \<not> json_special b"
    using timestamp_text_chars [of _ ts] by (meson json_special_def order.asym)
  then show ?thesis by (simp add: quote_def escape_no_special)
qed

text \<open>The line written out, with the punctuation of the source's literals.\<close>

lemma event_line_text:
  \<open>event_line v =
     bytes ''{"timestamp":"'' @ timestamp_text (v_timestamp v) @ bytes ''","level":'' @
     ij_level_to_json_literal (v_level v) @ bytes '',"event_name":'' @ quote (v_event_name v) @
     bytes '',"message":'' @ quote (v_message v) @
     (case v_logger v of None \<Rightarrow> [] | Some l \<Rightarrow> bytes '',"logger":'' @ quote l) @
     (if v_attributes v = [] then []
      else bytes '',"attributes":{'' @ print_members (members_of (map attr_json (v_attributes v))) @ [0x7d]) @
     [0x7d]\<close>
  by (cases "v_logger v"; cases "v_attributes v = []")
    (simp_all add: event_line_def event_json_def level_literal timestamp_quote,
     simp_all add: quote_def escape_byte_def)

lemma appender_json_body:
  assumes "copy_wf cp" and "timestamp = timestamp_text (cp_timestamp cp) @ rest"
  shows "json_appender (json_body cpu cp timestamp) (event_line (copy_view cp))"
proof -
  let ?mem = "arena cp" and ?c = "cp_text_arena_size cp" and ?lvl = "ij_level_to_json_literal (cp_level cp)"
  from assms(1) have wf: "string_wf ?mem ?c (cp_event_name cp)" "string_wf ?mem ?c (cp_message cp)"
    "string_wf ?mem ?c (cp_logger_name cp)" "list_all (owned_attr_wf ?mem ?c) (cp_attributes cp)"
    by (simp_all add: copy_wf_def fields_wf_def)
  have ts: "c_mem timestamp 24 = timestamp_text (cp_timestamp cp)"
    using assms(2) by (simp add: c_mem_take)
  define logger where \<open>logger = (case opt_bytes ?mem (cp_logger_name cp) of None \<Rightarrow> []
    | Some l \<Rightarrow> bytes '',"logger":'' @ quote l)\<close>
  define attrs where \<open>attrs = (if cp_attributes cp = [] then []
    else bytes '',"attributes":{'' @ print_members (attr_members ?mem (cp_attributes cp)) @ [0x7d])\<close>
  have l: \<open>json_appender (\<lambda>b. if str_data (cp_logger_name cp) \<noteq> None
       then all_then [append_literal '',"logger":'', append_owned cpu ?mem (cp_logger_name cp)] b
       else Some (IJ_STATUS_OK, b)) logger\<close>
  proof (cases "str_data (cp_logger_name cp)")
    case (Some off)
    have \<open>json_appender (all_then [append_literal '',"logger":'', append_owned cpu ?mem (cp_logger_name cp)])
        (concat [bytes '',"logger":'', quote (owned_bytes ?mem (cp_logger_name cp))])\<close>
      using appender_literal appender_owned [OF wf(3)] by (intro appender_all_then) (simp del: bytes_Cons)
    with Some show ?thesis by (simp add: logger_def opt_bytes_def del: all_then.simps bytes_Cons)
  qed (simp add: logger_def opt_bytes_def appender_nothing)
  have a: \<open>json_appender (\<lambda>b. if length (cp_attributes cp) > 0
       then all_then [append_literal '',"attributes":{'', append_attributes cpu ?mem 0 (cp_attributes cp),
         \<lambda>b. ij_builder_append_char b 0x7d] b
       else Some (IJ_STATUS_OK, b)) attrs\<close>
  proof (cases "cp_attributes cp = []")
    case False
    have \<open>json_appender (all_then [append_literal '',"attributes":{'',
          append_attributes cpu ?mem 0 (cp_attributes cp), \<lambda>b. ij_builder_append_char b 0x7d])
        (concat [bytes '',"attributes":{'', print_members (attr_members ?mem (cp_attributes cp)), [0x7d]])\<close>
      using appender_literal appender_attributes [OF wf(4), of cpu 0] append_char.json_appender_axioms
      by (intro appender_all_then) (simp del: bytes_Cons)
    with False show ?thesis by (simp add: attrs_def del: all_then.simps bytes_Cons)
  qed (simp add: attrs_def appender_nothing)
  let ?outs = \<open>[bytes ''{"timestamp":"'', c_mem timestamp 24, bytes ''","level":'', ?lvl,
        bytes '',"event_name":'', quote (owned_bytes ?mem (cp_event_name cp)),
        bytes '',"message":'', quote (owned_bytes ?mem (cp_message cp)), logger, attrs, [0x7d]]\<close>
  have "json_appender (json_body cpu cp timestamp) (concat ?outs)"
    unfolding json_body_def Let_def
    using l a append_raw_n.json_appender_axioms [of timestamp 24] append_raw_n.json_appender_axioms [of ?lvl "length ?lvl"]
      appender_owned [OF wf(1), of cpu] appender_owned [OF wf(2), of cpu] append_char.json_appender_axioms [of "0x7d"]
    by (intro appender_all_then) (simp add: appender_literal del: bytes_Cons)
  moreover have "concat ?outs = event_line (copy_view cp)"
    unfolding event_line_text
    by (cases "cp_attributes cp = []")
      (simp_all add: copy_view_def Let_def ts logger_def attrs_def attr_members_def del: bytes_Cons)
  ultimately show ?thesis by (simp only:)
qed

text \<open>
  The encoder on a well-formed copy and a buffer of at least one byte: it writes the line when
  the timestamp can be formatted and the line and its terminating zero fit.
\<close>

lemma json_console_encode_spec:
  fixes cp :: ij_event_copy_t
  defines "line \<equiv> event_line (copy_view cp)"
  assumes wf: "copy_wf cp" and n: "0 < n" "n \<le> length mem"
  shows "\<exists>mem'. ij_json_console_encode cpu (Some cp) (Some mem) n =
      Some (if timestamp_ok (cp_timestamp cp) \<and> length line < n
            then (IJ_STATUS_OK, Some mem', Some (length line))
            else (IJ_STATUS_ENCODE_ERROR, Some mem', None)) \<and>
    length mem' = length mem \<and>
    (timestamp_ok (cp_timestamp cp) \<and> length line < n \<longrightarrow> take (length line) mem' = line)"
proof -
  obtain mem0 where mem0: "mem_write mem 0 [0] = Some mem0" "length mem0 = length mem"
    using n by (simp add: mem_write_def)
  let ?b = "\<lparr>b_buffer = mem0, b_capacity = n, b_length = 0\<rparr>"
  have ok: "builder_ok ?b" using n mem0(2) by (simp add: builder_ok_def)
  show ?thesis
  proof (cases "timestamp_ok (cp_timestamp cp)")
    case False
    with format_timestamp_error [OF this, of 32 "replicate 32 0"] mem0 show ?thesis
      by (auto simp: ij_json_console_encode_def)
  next
    case True
    let ?ts = "timestamp_text (cp_timestamp cp) @ 0 # drop 25 (replicate 32 0)"
    have ts: "ij_format_timestamp_rfc3339 (cp_timestamp cp) (Some (replicate 32 0)) 32 =
        Some (IJ_STATUS_OK, Some ?ts)"
      by (rule format_timestamp_ok [OF True]) simp_all
    have app: "json_appender (json_body cpu cp ?ts) line"
      unfolding line_def by (rule appender_json_body [OF wf]) (rule refl)
    show ?thesis
    proof (cases "length line < n")
      case fit: True
      then have "fits ?b line" by (simp add: fits_def)
      from json_appender.append_fits [OF app ok this] obtain b' where
        "json_body cpu cp ?ts ?b = Some (IJ_STATUS_OK, b')" "appended ?b line b'" by blast
      then show ?thesis
        using fit True ts mem0 by (auto simp: ij_json_console_encode_def appended_def content_def)
    next
      case full: False
      then have "\<not> fits ?b line" by (simp add: fits_def)
      from json_appender.append_full [OF app ok this] obtain b' where
        "json_body cpu cp ?ts ?b = Some (IJ_STATUS_ENCODE_ERROR, b')" "same_frame ?b b'" by blast
      then show ?thesis
        using full True ts mem0 by (simp add: ij_json_console_encode_def same_frame_def)
    qed
  qed
qed

lemma ndjson_encode_spec:
  fixes cp :: ij_event_copy_t
  defines "line \<equiv> event_line (copy_view cp)"
  assumes wf: "copy_wf cp" and n: "0 < n" "n \<le> length mem"
  shows "\<exists>mem'. ij_ndjson_encode cpu (Some cp) (Some mem) n =
      Some (if timestamp_ok (cp_timestamp cp) \<and> length line + 1 < n
            then (IJ_STATUS_OK, Some mem', Some (length line + 1))
            else (IJ_STATUS_ENCODE_ERROR, Some mem', None)) \<and>
    length mem' = length mem \<and>
    (timestamp_ok (cp_timestamp cp) \<and> length line + 1 < n \<longrightarrow>
       take (length line + 1) mem' = line @ [0x0a])"
proof -
  from json_console_encode_spec [OF wf n, of cpu] obtain mem1 where 1:
    "ij_json_console_encode cpu (Some cp) (Some mem) n =
      Some (if timestamp_ok (cp_timestamp cp) \<and> length line < n
            then (IJ_STATUS_OK, Some mem1, Some (length line))
            else (IJ_STATUS_ENCODE_ERROR, Some mem1, None))"
    "length mem1 = length mem"
    "timestamp_ok (cp_timestamp cp) \<and> length line < n \<longrightarrow> take (length line) mem1 = line"
    unfolding line_def by blast
  show ?thesis
  proof (cases "timestamp_ok (cp_timestamp cp) \<and> length line + 1 < n")
    case True
    let ?mem = "take (length line) mem1 @ [0x0a, 0] @ drop (length line + 2) mem1"
    have w: "mem_write mem1 (length line) [0x0a, 0] = Some ?mem"
      using True n 1(2) by (simp add: mem_write_def)
    then show ?thesis
      using True 1 n length_mem_write [OF w] by (intro exI [of _ ?mem]) (simp add: ij_ndjson_encode_def)
  next
    case False
    then show ?thesis using 1 by (auto simp: ij_ndjson_encode_def)
  qed
qed

section \<open>The line is one line of JSON\<close>

lemma value_json_ok: "json_ok (value_json v)"
proof (cases v)
  case (VSigned w)
  have "\<forall>b\<in>set (signed_decimal (sint w)). number_byte b"
    using decimal_digits by (auto simp: signed_decimal_def number_byte_def)
  then show ?thesis using VSigned number_byte_token
    by (auto simp: token_ok_def signed_decimal_def)
next
  case (VUnsigned w)
  have "\<forall>b\<in>set (decimal (unat w)). number_byte b" using decimal_digits by (auto simp: number_byte_def)
  then show ?thesis using VUnsigned number_byte_token by (auto simp: token_ok_def)
next
  case (VBool b)
  then show ?thesis by (cases b) (simp_all add: token_ok_def token_byte_def)
qed (simp_all add: format_g17_ok)

lemma members_of_ok: "members_ok (members_of kvs) \<longleftrightarrow> (\<forall>kv\<in>set kvs. json_ok (snd kv))"
  by (induction kvs rule: members_of.induct) auto

lemma event_json_ok: "json_ok (event_json v)"
  by (auto simp: event_json_def members_of_ok attr_json_def value_json_ok split: option.split)

text \<open>Reading a line gives the event's JSON value back.\<close>

lemma read_event_line: "read_json (json_weight (event_json v)) (event_line v) = Some (event_json v, [])"
  using read_print(1) [OF event_json_ok, of "[]"] by (simp add: event_line_def delimited_def)

lemma quote_clean: "b \<in> set (quote s) \<Longrightarrow> 0x20 \<le> b"
  using escape_clean by (auto simp: quote_def)

lemma token_clean: "token_ok t \<Longrightarrow> b \<in> set t \<Longrightarrow> 0x20 \<le> b"
  by (simp add: token_ok_def token_byte_def order.strict_implies_order)

lemma print_clean:
  "json_ok j \<Longrightarrow> b \<in> set (print_json j) \<Longrightarrow> 0x20 \<le> b"
  "members_ok ms \<Longrightarrow> b \<in> set (print_members ms) \<Longrightarrow> 0x20 \<le> b"
  by (induction j and ms) (auto simp: quote_clean token_clean split: members.splits)

lemma event_line_clean: "b \<in> set (event_line v) \<Longrightarrow> 0x20 \<le> b"
  unfolding event_line_def by (rule print_clean(1) [OF event_json_ok])

section \<open>Length of a line\<close>

lemma length_quote_plain: "\<not> has_special bs \<Longrightarrow> length (quote bs) = length bs + 2"
  by (simp add: quote_def has_special_def escape_no_special)

fun value_plain :: "value_view \<Rightarrow> bool" where
  "value_plain (VString s) = (\<not> has_special s)"
| "value_plain _ = True"

fun value_size :: "value_view \<Rightarrow> nat" where
  "value_size (VString s) = length s + 2"
| "value_size _ = 24"

text \<open>A view none of whose printed texts needs an escape.\<close>

definition view_plain :: "event_view \<Rightarrow> bool" where
  "view_plain v \<longleftrightarrow>
     \<not> has_special (v_event_name v) \<and> \<not> has_special (v_message v) \<and>
     (case v_logger v of None \<Rightarrow> True | Some l \<Rightarrow> \<not> has_special l) \<and>
     (\<forall>a\<in>set (v_attributes v). \<not> has_special (fst a) \<and> value_plain (snd a))"

lemma length_signed_decimal: "length (signed_decimal (sint (w :: 64 word))) \<le> 21"
proof (cases "sint w < 0")
  case True
  then have "nat (- sint w) < 10 ^ 20" using sint_64_range [of w] by auto
  then show ?thesis using True length_decimal [of "nat (- sint w)" 20] by (simp add: signed_decimal_def)
next
  case False
  then have "nat (sint w) < 10 ^ 20" using sint_64_range [of w] by auto
  then show ?thesis using False length_decimal [of "nat (sint w)" 20] by (simp add: signed_decimal_def)
qed

lemma length_value: "value_plain v \<Longrightarrow> length (print_json (value_json v)) \<le> value_size v"
  using le_trans [OF length_signed_decimal, of 24] le_trans [OF length_decimal_64, of 24] format_g17_ok
  by (cases v) (simp_all add: length_quote_plain)

lemma length_members:
  "(\<forall>a\<in>set as. \<not> has_special (fst a) \<and> value_plain (snd a)) \<Longrightarrow>
   length (print_members (members_of (map attr_json as))) \<le>
     sum_list (map (\<lambda>a. length (fst a) + value_size (snd a) + 4) as)"
proof (induction as)
  case (Cons a as)
  have "print_members (members_of (map attr_json (a # as))) =
      quote (fst a) @ [0x3a] @ print_json (value_json (snd a)) @
      (if as = [] then [] else [0x2c]) @ print_members (members_of (map attr_json as))"
    by (cases as) (simp_all add: attr_json_def)
  with Cons length_value [of "snd a"] show ?case by (simp add: length_quote_plain)
qed simp

lemma length_level_literal: "length (ij_level_to_json_literal level) \<le> 9"
  by (cases level) simp_all

lemma length_event_line:
  assumes "view_plain v"
  shows "length (event_line v) \<le>
    115 + length (v_event_name v) + length (v_message v) +
    (case v_logger v of None \<Rightarrow> 0 | Some l \<Rightarrow> length l) +
    sum_list (map (\<lambda>a. length (fst a) + value_size (snd a) + 4) (v_attributes v))"
proof -
  let ?S = "sum_list (map (\<lambda>a. length (fst a) + value_size (snd a) + 4) (v_attributes v))"
  define l where \<open>l = length (case v_logger v of None \<Rightarrow> [] | Some l \<Rightarrow> bytes '',"logger":'' @ quote l)\<close>
  define m where \<open>m = length (if v_attributes v = [] then []
    else bytes '',"attributes":{'' @ print_members (members_of (map attr_json (v_attributes v))) @ [0x7d])\<close>
  have "l \<le> 12 + (case v_logger v of None \<Rightarrow> 0 | Some l \<Rightarrow> length l)"
    using assms by (auto simp: l_def view_plain_def length_quote_plain split: option.splits)
  moreover have "m \<le> 16 + ?S"
    using assms length_members [of "v_attributes v"] by (auto simp: m_def view_plain_def)
  moreover have "length (event_line v) =
      14 + 24 + 10 + length (ij_level_to_json_literal (v_level v)) + 14 + length (quote (v_event_name v)) +
      11 + length (quote (v_message v)) + l + m + 1"
    unfolding event_line_text l_def m_def by simp
  moreover have "length (quote (v_event_name v)) = length (v_event_name v) + 2"
    "length (quote (v_message v)) = length (v_message v) + 2"
    using assms by (simp_all add: view_plain_def length_quote_plain)
  ultimately show ?thesis using length_level_literal [of "v_level v"] by linarith
qed

lemma input_attr_size:
  "valid_attr a \<Longrightarrow>
   length (fst (input_attr_view mode a)) + value_size (snd (input_attr_view mode a)) + 4 \<le> attr_text_size a + 28"
  by (cases "attr_value a")
    (auto simp: input_attr_view_def attr_name_def attr_text_size_def value_text_size_def strlen_def)

lemma input_attrs_size:
  "(\<forall>a\<in>set as. valid_attr a) \<Longrightarrow>
   sum_list (map (\<lambda>a. length (fst a) + value_size (snd a) + 4) (map (input_attr_view mode) as)) \<le>
     sum_list (map attr_text_size as) + 28 * length as"
proof (induction as)
  case (Cons a as)
  then show ?case using input_attr_size [of a mode] by (simp del: value_size.simps)
qed simp

lemma opt_text_size: "(case opt_text v of None \<Rightarrow> 0 | Some l \<Rightarrow> length l) = opt_strlen v"
  "length (text_of v) = opt_strlen v"
  by (simp_all add: opt_text_def text_of_def opt_strlen_def strlen_def split: option.split)

lemma valid_event_line_length:
  assumes "valid_event event" and "view_plain (input_view mode event)"
  shows "length (event_line (input_view mode event)) \<le> 5107"
proof -
  let ?as = "event_attributes event"
  have "length ?as \<le> 32"
    using assms(1) by (auto simp: valid_event_def valid_event_frame_def limit_defs event_attributes_def
        split: option.split)
  moreover have "sum_list (map (\<lambda>a. length (fst a) + value_size (snd a) + 4) (map (input_attr_view mode) ?as)) \<le>
      sum_list (map attr_text_size ?as) + 28 * length ?as"
    using assms(1) by (intro input_attrs_size) (simp add: valid_event_def)
  moreover have "fields_text_size event + sum_list (map attr_text_size ?as) \<le> 4096"
    using assms(1) by (simp add: valid_event_def limit_defs)
  moreover have "opt_strlen (ev_event_name event) + opt_strlen (ev_message event) + opt_strlen (ev_logger event)
      \<le> fields_text_size event" by (simp add: fields_text_size_def)
  ultimately show ?thesis
    using length_event_line [OF assms(2)] unfolding input_view_def event_view.simps opt_text_size
    by linarith
qed

section \<open>Properties\<close>

text \<open>
  C19. On a well-formed event copy and a non-empty buffer, \<open>ij_json_console_encode\<close> never touches a
  byte outside the buffer; it writes exactly the reference line of the event, the printed JSON
  object, when the timestamp can be formatted and the line with its terminating zero fits, and
  reports an encoding error otherwise.
\<close>

theorem json_console_encode_correct:
  assumes "copy_wf cp" and "0 < n" and "n \<le> length mem"
  shows "\<exists>st mem' len. ij_json_console_encode cpu (Some cp) (Some mem) n = Some (st, Some mem', len) \<and>
           length mem' = length mem \<and>
           (if timestamp_ok (cp_timestamp cp) \<and> length (event_line (copy_view cp)) < n
            then st = IJ_STATUS_OK \<and> len = Some (length (event_line (copy_view cp))) \<and>
                 take (length (event_line (copy_view cp))) mem' = event_line (copy_view cp)
            else st = IJ_STATUS_ENCODE_ERROR \<and> len = None)"
  using json_console_encode_spec [OF assms, of cpu] by (auto split: if_splits)

definition sample_cpu :: cpu where
  "sample_cpu = \<lparr>cpu_arch = X86, cpu_supports_avx2 = True, avx2_cached = -1\<rparr>"

lemma sample_copy:
  obtains cp where
    "ij_event_copy_from_input sample_cpu sample_alloc (Some sample_event) IJ_REDACTION_MODE_ENABLED = Some (IJ_STATUS_OK, cp)"
    "copy_view cp = input_view IJ_REDACTION_MODE_ENABLED sample_event" "copy_wf cp"
  using copy_from_input_ok [OF sample_event_valid, of sample_alloc sample_cpu IJ_REDACTION_MODE_ENABLED]
  by (auto simp: sample_alloc_def)

theorem json_console_encode_correct_witness:
  "\<exists>cp st mem' len. copy_wf cp \<and>
     ij_json_console_encode sample_cpu (Some cp) (Some (replicate 8192 0)) 8192 = Some (st, Some mem', len) \<and>
     length mem' = 8192"
proof (rule sample_copy)
  fix cp assume "copy_wf cp"
  with json_console_encode_correct [of cp 8192 "replicate 8192 0" sample_cpu] show ?thesis by auto
qed

text \<open>
  Round trip through the NDJSON encoder: when an event was copied and encoded, the output is one
  line, without any byte below the space character, ended by a newline, and a JSON reader gets from
  it exactly the JSON value of the input event with sensitive attributes redacted.
\<close>

theorem ndjson_roundtrip:
  assumes "ij_event_copy_from_input cpu al (Some event) mode = Some (IJ_STATUS_OK, cp)"
    and "0 < n" "n \<le> length mem"
    and "ij_ndjson_encode cpu (Some cp) (Some mem) n = Some (IJ_STATUS_OK, Some mem', Some len)"
  shows "\<exists>line. take len mem' = line @ [0x0a] \<and> (\<forall>b\<in>set line. 0x20 \<le> b) \<and>
           read_json (json_weight (event_json (input_view mode event))) line =
             Some (event_json (input_view mode event), [])"
proof -
  have v: "copy_view cp = input_view mode event" "copy_wf cp"
    using copy_from_input_cases [of cpu al event mode] assms(1) by auto
  let ?line = "event_line (input_view mode event)"
  have "take len mem' = ?line @ [0x0a]"
    using ndjson_encode_spec [OF v(2) assms(2,3), of cpu] assms(4) unfolding v(1)
    by (auto split: if_splits)
  moreover have "\<forall>b\<in>set ?line. 0x20 \<le> b" using event_line_clean by blast
  ultimately show ?thesis using read_event_line by blast
qed

lemma sample_view_plain: "view_plain (input_view IJ_REDACTION_MODE_ENABLED sample_event)"
  by (simp add: view_plain_def input_view_def sample_event_def has_special_def json_special_def text_of_def opt_text_def
      c_text_def event_attributes_def)

lemma sample_event_time: "timestamp_ok (v_timestamp (input_view IJ_REDACTION_MODE_ENABLED sample_event))"
proof -
  have "tm_year (gmtime 0) = 70" by code_simp
  then show ?thesis by (simp add: timestamp_ok_def input_view_def sample_event_def)
qed

theorem ndjson_roundtrip_witness:
  "\<exists>cp mem' len line. ij_ndjson_encode sample_cpu (Some cp) (Some (replicate 8192 0)) 8192 =
      Some (IJ_STATUS_OK, Some mem', Some len) \<and> take len mem' = line @ [0x0a] \<and> (\<forall>b\<in>set line. 0x20 \<le> b)"
proof (rule sample_copy)
  fix cp
  assume c: "ij_event_copy_from_input sample_cpu sample_alloc (Some sample_event) IJ_REDACTION_MODE_ENABLED =
      Some (IJ_STATUS_OK, cp)" and v: "copy_view cp = input_view IJ_REDACTION_MODE_ENABLED sample_event" "copy_wf cp"
  have t: "timestamp_ok (cp_timestamp cp)"
    using sample_event_time unfolding v(1) [symmetric] by (simp add: copy_view_def Let_def)
  have "length (event_line (copy_view cp)) \<le> 5107"
    unfolding v(1) by (rule valid_event_line_length [OF sample_event_valid sample_view_plain])
  with ndjson_encode_spec [OF v(2), of 8192 "replicate 8192 0" sample_cpu] t obtain mem' len where
    e: "ij_ndjson_encode sample_cpu (Some cp) (Some (replicate 8192 0)) 8192 = Some (IJ_STATUS_OK, Some mem', Some len)"
    by auto
  from ndjson_roundtrip [OF c _ _ e] e show ?thesis by auto
qed

text \<open>
  The payload buffer of the logger is large enough for every valid event whose texts need no
  escapes: for such an event with a timestamp that can be written, both JSON encoders succeed in
  8192 bytes.
\<close>

theorem valid_plain_event_fits:
  assumes "valid_event event" and "view_plain (input_view mode event)"
    and "ij_event_copy_from_input cpu al (Some event) mode = Some (IJ_STATUS_OK, cp)"
    and "timestamp_ok (cp_timestamp cp)" and "8192 \<le> length mem"
  shows "\<exists>mem' len. ij_ndjson_encode cpu (Some cp) (Some mem) 8192 = Some (IJ_STATUS_OK, Some mem', Some len)"
proof -
  have v: "copy_view cp = input_view mode event" "copy_wf cp"
    using copy_from_input_cases [of cpu al event mode] assms(3) by auto
  have "length (event_line (copy_view cp)) \<le> 5107"
    unfolding v(1) by (rule valid_event_line_length [OF assms(1,2)])
  then show ?thesis
    using ndjson_encode_spec [OF v(2), of 8192 mem cpu] assms(4,5) by auto
qed

theorem valid_plain_event_fits_witness:
  "\<exists>cp mem' len. ij_ndjson_encode sample_cpu (Some cp) (Some (replicate 8192 0)) 8192 = Some (IJ_STATUS_OK, Some mem', Some len)"
proof (rule sample_copy)
  fix cp
  assume c: "ij_event_copy_from_input sample_cpu sample_alloc (Some sample_event) IJ_REDACTION_MODE_ENABLED =
      Some (IJ_STATUS_OK, cp)" and v: "copy_view cp = input_view IJ_REDACTION_MODE_ENABLED sample_event"
  have t: "timestamp_ok (cp_timestamp cp)"
    using sample_event_time unfolding v [symmetric] by (simp add: copy_view_def Let_def)
  from valid_plain_event_fits [OF sample_event_valid sample_view_plain c t, of "replicate 8192 0"] show ?thesis
    by auto
qed

end
