(* ===== verification/Rfc5424.thy ===== *)
theory Rfc5424
  imports Json_Encode
begin

text \<open>
  The RFC 5424 formatter: \<open>src/encoders/ij_rfc5424.c\<close>. The formatted message is proved to be
  \<open><PRI>1 TIMESTAMP - APP-NAME - - -\<close> with the message text appended when there is one, with
  a priority value of at most 191 and an application name of printable characters.
\<close>

section \<open>The formatter\<close>

definition ij_syslog_severity_from_level :: "ij_level_t \<Rightarrow> int" where
  "ij_syslog_severity_from_level level =
     (case level of
        IJ_LEVEL_FATAL \<Rightarrow> 2
      | IJ_LEVEL_ERROR \<Rightarrow> 3
      | IJ_LEVEL_WARN \<Rightarrow> 4
      | IJ_LEVEL_INFO \<Rightarrow> 6
      | IJ_LEVEL_DEBUG \<Rightarrow> 7
      | IJ_LEVEL_TRACE \<Rightarrow> 7
      | IJ_LEVEL_OTHER _ \<Rightarrow> -1)"

definition ij_syslog_app_name :: "ij_event_copy_t \<Rightarrow> ij_logger_config_t \<Rightarrow> byte list" where
  "ij_syslog_app_name event config =
     (let logger = owned_ptr (arena event) (cp_logger_name event) in
      if str_data (cp_logger_name event) \<noteq> None \<and> c_at logger 0 \<noteq> 0 then logger
      else
        (case cfg_logger_name config of
           Some name \<Rightarrow> if c_at name 0 \<noteq> 0 then name else bytes ''-''
         | None \<Rightarrow> bytes ''-''))"

definition IJ_RFC5424_APP_NAME_MAX :: size_t where
  "IJ_RFC5424_APP_NAME_MAX = 48"

function sanitize_loop :: "byte list \<Rightarrow> size_t \<Rightarrow> size_t \<Rightarrow> byte list \<Rightarrow> byte list" where
  "sanitize_loop raw raw_len i out =
     (if i < raw_len then
        let c = c_at raw i in
        sanitize_loop raw raw_len (i + 1)
          (out[i := (if 33 \<le> c \<and> c \<le> 126 then c else 0x5f)])
      else out[i := 0])"
  by pat_completeness auto
termination
  by (relation "measure (\<lambda>(raw, raw_len, i, out). raw_len - i)") auto

declare sanitize_loop.simps [simp del]

definition ij_syslog_sanitize_app_name :: "byte list \<Rightarrow> byte list \<Rightarrow> size_t \<Rightarrow> byte list" where
  "ij_syslog_sanitize_app_name raw out out_size =
     (let raw_len = strlen raw;
          raw_len = (if raw_len > IJ_RFC5424_APP_NAME_MAX then IJ_RFC5424_APP_NAME_MAX else raw_len);
          raw_len = (if raw_len \<ge> out_size then out_size - 1 else raw_len)
      in sanitize_loop raw raw_len 0 out)"

text \<open>
  The text the two \<open>snprintf\<close> calls format: \<open><%u>%u %s - %s - - -\<close>, and the message after a
  space unless it is empty. The priority is an \<open>unsigned int\<close>.
\<close>

definition rfc5424_text :: "ij_event_copy_t \<Rightarrow> ij_logger_config_t \<Rightarrow> byte list \<Rightarrow> int \<Rightarrow> byte list" where
  "rfc5424_text event config timestamp severity =
     (let pri = (cfg_syslog_facility config * 8 + nat severity) mod 4294967296;
          safe_app_name = ij_syslog_sanitize_app_name (ij_syslog_app_name event config)
            (replicate 49 0) (IJ_RFC5424_APP_NAME_MAX + 1);
          message = (if str_data (cp_message event) \<noteq> None
                     then owned_ptr (arena event) (cp_message event) else []);
          head = bytes ''<'' @ decimal pri @ bytes ''>'' @ decimal IJ_SYSLOG_RFC5424_VERSION @
                 bytes '' '' @ c_text timestamp @ bytes '' - '' @ c_text safe_app_name @
                 bytes '' - - -''
      in if c_at message 0 = 0 then head else head @ bytes '' '' @ c_text message)"

text \<open>
  \<open>snprintf\<close> stores at most \<open>buffer_size - 1\<close> bytes and a zero and returns the full length,
  which is a few kilobytes at most and fits an \<open>int\<close>. The result is the status, the buffer,
  and \<open>*out_len\<close> when it was set.
\<close>

definition ij_rfc5424_encode ::
  "ij_event_copy_t option \<Rightarrow> ij_logger_config_t option \<Rightarrow> byte list option \<Rightarrow> size_t \<Rightarrow>
     (ij_status_t \<times> byte list option \<times> size_t option) option" where
  "ij_rfc5424_encode event_ptr config_ptr buffer buffer_size =
     (case (event_ptr, config_ptr, buffer) of
        (Some event, Some config, Some mem) \<Rightarrow>
          if buffer_size = 0 then Some (IJ_STATUS_INVALID_ARGUMENT, buffer, None)
          else
            let severity = ij_syslog_severity_from_level (cp_level event) in
            if severity < 0 then Some (IJ_STATUS_INVALID_ARGUMENT, buffer, None)
            else
              (case ij_format_timestamp_rfc3339 (cp_timestamp event) (Some (replicate 32 0)) 32 of
                 Some (st, Some timestamp) \<Rightarrow>
                   if st \<noteq> IJ_STATUS_OK then Some (IJ_STATUS_ENCODE_ERROR, buffer, None)
                   else
                     let (stored, written) =
                           snprintf buffer_size (rfc5424_text event config timestamp severity)
                     in
                     (case mem_write mem 0 stored of
                        None \<Rightarrow> None
                      | Some mem' \<Rightarrow>
                          if written \<ge> buffer_size then Some (IJ_STATUS_ENCODE_ERROR, Some mem', None)
                          else Some (IJ_STATUS_OK, Some mem', Some written))
               | _ \<Rightarrow> None)
      | _ \<Rightarrow> Some (IJ_STATUS_INVALID_ARGUMENT, buffer, None))"

section \<open>Reference\<close>

definition sanitize_byte :: "byte \<Rightarrow> byte" where
  "sanitize_byte c = (if 33 \<le> c \<and> c \<le> 126 then c else 0x5f)"

definition app_name :: "byte list \<Rightarrow> byte list" where
  "app_name raw = map sanitize_byte (take 48 (c_text raw))"

text \<open>What the C string at an owned string's pointer reads as.\<close>

definition owned_text :: "byte list \<Rightarrow> ij_owned_string_t \<Rightarrow> byte list" where
  "owned_text mem s = c_text (owned_ptr mem s)"

definition rfc5424_line :: "nat \<Rightarrow> byte list \<Rightarrow> byte list \<Rightarrow> byte list \<Rightarrow> byte list" where
  "rfc5424_line pri ts app msg =
     bytes ''<'' @ decimal pri @ bytes ''>1 '' @ ts @ bytes '' - '' @ app @ bytes '' - - -'' @
     (if msg = [] then [] else 0x20 # msg)"

section \<open>Lemmas\<close>

lemma severity_range:
  "ij_level_is_valid level \<Longrightarrow> 2 \<le> ij_syslog_severity_from_level level \<and> ij_syslog_severity_from_level level \<le> 7"
  by (cases level) (simp_all add: ij_level_is_valid_iff ij_syslog_severity_from_level_def)

lemma severity_negative: "ij_syslog_severity_from_level level < 0 \<longleftrightarrow> \<not> ij_level_is_valid level"
  by (cases level) (simp_all add: ij_level_is_valid_iff ij_syslog_severity_from_level_def)

lemma severity_antimono:
  "ij_level_is_valid b \<Longrightarrow> a \<le> b \<Longrightarrow> ij_syslog_severity_from_level b \<le> ij_syslog_severity_from_level a"
  by (cases a; cases b)
    (simp_all add: ij_level_is_valid_iff ij_syslog_severity_from_level_def less_eq_ij_level_t_def)

lemma sanitize_loop_spec:
  "i \<le> n \<Longrightarrow> n < length out \<Longrightarrow>
   sanitize_loop raw n i out =
     take i out @ map (\<lambda>k. sanitize_byte (c_at raw k)) [i..<n] @ 0 # drop (n + 1) out"
proof (induction raw n i out rule: sanitize_loop.induct)
  case (1 raw n i out)
  note unfold = sanitize_loop.simps [of raw n i out]
  show ?case
  proof (cases "i < n")
    case True
    let ?out = "out[i := sanitize_byte (c_at raw i)]"
    have "sanitize_loop raw n (i + 1) ?out =
        take (i + 1) ?out @ map (\<lambda>k. sanitize_byte (c_at raw k)) [i + 1..<n] @ 0 # drop (n + 1) ?out"
      using "1.IH" [OF True refl] "1.prems" True by (simp add: sanitize_byte_def)
    moreover have "take (i + 1) ?out = take i out @ [sanitize_byte (c_at raw i)]"
      using True "1.prems" by (simp add: take_Suc_conv_app_nth)
    moreover have "[i..<n] = i # [i + 1..<n]" using True by (simp add: upt_rec)
    ultimately show ?thesis using True by (simp add: unfold Let_def sanitize_byte_def)
  next
    case False
    with "1.prems" have "i = n" by simp
    with "1.prems" show ?thesis unfolding unfold by (simp add: upd_conv_take_nth_drop)
  qed
qed

lemma sanitize_nonzero: "sanitize_byte c \<noteq> 0"
  by (auto simp: sanitize_byte_def)

lemma sanitize_app_name:
  "c_text (ij_syslog_sanitize_app_name raw (replicate 49 0) (IJ_RFC5424_APP_NAME_MAX + 1)) = app_name raw"
proof -
  define n where "n = min 48 (strlen raw)"
  have "ij_syslog_sanitize_app_name raw (replicate 49 0) (IJ_RFC5424_APP_NAME_MAX + 1) =
      sanitize_loop raw n 0 (replicate 49 0)"
    by (auto simp: ij_syslog_sanitize_app_name_def IJ_RFC5424_APP_NAME_MAX_def Let_def n_def min_def)
  also have "\<dots> = map (\<lambda>k. sanitize_byte (c_at raw k)) [0..<n] @ 0 # drop (n + 1) (replicate 49 0)"
    by (subst sanitize_loop_spec) (simp_all add: n_def)
  also have "map (\<lambda>k. sanitize_byte (c_at raw k)) [0..<n] = app_name raw"
  proof -
    have "take 48 (c_text raw) = c_mem raw n"
      using le_trans [OF min.cobounded2 strlen_le, of 48 raw]
      unfolding n_def by (simp add: c_text_eq_take c_mem_take)
    then show ?thesis by (simp add: app_name_def c_mem_eq_map comp_def)
  qed
  finally have eq: "ij_syslog_sanitize_app_name raw (replicate 49 0) (IJ_RFC5424_APP_NAME_MAX + 1) =
      app_name raw @ 0 # drop (n + 1) (replicate 49 0)" .
  have "\<And>b. b \<in> set (app_name raw) \<Longrightarrow> b \<noteq> 0" using sanitize_nonzero by (auto simp: app_name_def)
  then show ?thesis unfolding eq by (simp add: c_text_def takeWhile_append2)
qed

lemma app_name_facts: "length (app_name raw) \<le> 48" "b \<in> set (app_name raw) \<Longrightarrow> 33 \<le> b \<and> b \<le> 126"
  by (auto simp: app_name_def sanitize_byte_def)

text \<open>The line for an event under a configuration.\<close>

definition syslog_pri :: "ij_event_copy_t \<Rightarrow> ij_logger_config_t \<Rightarrow> nat" where
  "syslog_pri cp config =
     (cfg_syslog_facility config * 8 + nat (ij_syslog_severity_from_level (cp_level cp))) mod 4294967296"

definition syslog_line :: "ij_event_copy_t \<Rightarrow> ij_logger_config_t \<Rightarrow> byte list" where
  "syslog_line cp config =
     rfc5424_line (syslog_pri cp config) (timestamp_text (cp_timestamp cp))
       (app_name (ij_syslog_app_name cp config)) (owned_text (arena cp) (cp_message cp))"

lemma timestamp_c_text: "c_text (timestamp_text ts @ 0 # rest) = timestamp_text ts"
proof -
  have "\<not> (0x20 :: byte) < 0" by simp
  then have "\<And>b. b \<in> set (timestamp_text ts) \<Longrightarrow> b \<noteq> 0" using timestamp_text_chars by metis
  then show ?thesis by (simp add: c_text_def takeWhile_append2)
qed

lemma c_text_empty_iff: "c_text m = [] \<longleftrightarrow> c_at m 0 = 0"
  by (cases m) (simp_all add: c_text_def c_at_def)

lemma owned_text_message:
  "(if str_data s \<noteq> None then owned_ptr mem s else []) = owned_ptr mem s"
  by (simp add: owned_ptr_def)

text \<open>A terminated string without a zero byte reads the same as a C string and as a slice.\<close>

lemma c_text_terminated: "c_at m n = 0 \<Longrightarrow> 0 \<notin> set (c_mem m n) \<Longrightarrow> c_text m = c_mem m n"
proof -
  assume z: "c_at m n = 0" and nz: "0 \<notin> set (c_mem m n)"
  have "\<forall>i<n. c_at m i \<noteq> 0" using nz by (auto simp: set_c_mem)
  then have "\<not> strlen m < n" using c_at_strlen [of m] by metis
  moreover have "\<not> n < strlen m" using z c_at_below_strlen by metis
  ultimately show ?thesis by (metis c_mem_strlen nat_neq_iff)
qed

lemma owned_text_bytes:
  assumes "string_wf mem c s" and "0 \<notin> set (owned_bytes mem s)"
  shows "owned_text mem s = owned_bytes mem s"
proof (cases "str_data s")
  case None
  then show ?thesis by (simp add: owned_text_def owned_ptr_def owned_bytes_def c_text_def)
next
  case (Some off)
  with assms have "c_at (c_ptr_add mem off) (str_len s) = 0" by (simp add: string_wf_def c_at_ptr_add)
  with Some assms(2) show ?thesis
    using c_text_terminated by (simp add: owned_text_def owned_ptr_def owned_bytes_def)
qed

lemma decimal_1: "decimal 1 = [0x31]"
  by (simp add: decimal.simps byte_of_def)

lemma rfc5424_text_line:
  "rfc5424_text cp config (timestamp_text (cp_timestamp cp) @ 0 # rest)
     (ij_syslog_severity_from_level (cp_level cp)) = syslog_line cp config"
  unfolding rfc5424_text_def Let_def owned_text_message sanitize_app_name timestamp_c_text
    IJ_SYSLOG_RFC5424_VERSION_def decimal_1
  by (simp add: syslog_line_def rfc5424_line_def syslog_pri_def owned_text_def c_text_empty_iff)

lemma rfc5424_encode_spec:
  assumes level: "ij_level_is_valid (cp_level cp)" and n: "0 < n" "n \<le> length mem"
  shows "\<exists>mem'. ij_rfc5424_encode (Some cp) (Some config) (Some mem) n =
      Some (if timestamp_ok (cp_timestamp cp) \<and> length (syslog_line cp config) < n
            then (IJ_STATUS_OK, Some mem', Some (length (syslog_line cp config)))
            else (IJ_STATUS_ENCODE_ERROR, Some mem', None)) \<and>
    length mem' = length mem \<and>
    (timestamp_ok (cp_timestamp cp) \<and> length (syslog_line cp config) < n \<longrightarrow>
       take (length (syslog_line cp config)) mem' = syslog_line cp config)"
proof (cases "timestamp_ok (cp_timestamp cp)")
  case False
  with format_timestamp_error [OF this, of 32 "replicate 32 0"] n level show ?thesis
    by (auto simp: ij_rfc5424_encode_def severity_negative Let_def)
next
  case True
  let ?ts = "timestamp_text (cp_timestamp cp) @ 0 # drop 25 (replicate 32 0)"
  let ?line = "syslog_line cp config"
  have ts: "ij_format_timestamp_rfc3339 (cp_timestamp cp) (Some (replicate 32 0)) 32 =
      Some (IJ_STATUS_OK, Some ?ts)"
    by (rule format_timestamp_ok [OF True]) simp_all
  have "length (take (n - 1) ?line @ [0]) \<le> length mem" using n by simp
  then obtain mem' where w: "mem_write mem 0 (take (n - 1) ?line @ [0]) = Some mem'"
    and mem': "mem' = (take (n - 1) ?line @ [0]) @ drop (length (take (n - 1) ?line @ [0])) mem"
    by (simp add: mem_write_def)
  have run: "ij_rfc5424_encode (Some cp) (Some config) (Some mem) n =
      Some (if length ?line < n then (IJ_STATUS_OK, Some mem', Some (length ?line))
            else (IJ_STATUS_ENCODE_ERROR, Some mem', None))"
    using w n level ts
    by (simp add: ij_rfc5424_encode_def severity_negative Let_def snprintf_def rfc5424_text_line
        del: drop_replicate)
  have "take (length ?line) mem' = ?line" if "length ?line < n"
    using that by (simp add: mem')
  with run True length_mem_write [OF w] show ?thesis by auto
qed

section \<open>Properties\<close>

text \<open>
  C20. \<open>ij_rfc5424_encode\<close> on a copy with a valid level and a configuration with a valid facility
  stays inside the buffer and writes exactly the RFC 5424 line when the timestamp can be formatted
  and the line fits. The priority in the line is at most 191 and gives facility and severity back,
  and the application name has at most 48 printable characters.
\<close>

theorem rfc5424_encode_correct:
  assumes "ij_level_is_valid (cp_level cp)" and "ij_syslog_facility_is_valid (cfg_syslog_facility config)"
    and "0 < n" "n \<le> length mem"
  shows "(\<exists>st mem' len. ij_rfc5424_encode (Some cp) (Some config) (Some mem) n = Some (st, Some mem', len) \<and>
            length mem' = length mem \<and>
            (if timestamp_ok (cp_timestamp cp) \<and> length (syslog_line cp config) < n
             then st = IJ_STATUS_OK \<and> len = Some (length (syslog_line cp config)) \<and>
                  take (length (syslog_line cp config)) mem' = syslog_line cp config
             else st = IJ_STATUS_ENCODE_ERROR \<and> len = None)) \<and>
         syslog_pri cp config \<le> 191 \<and> syslog_pri cp config div 8 = cfg_syslog_facility config \<and>
         int (syslog_pri cp config mod 8) = ij_syslog_severity_from_level (cp_level cp) \<and>
         length (app_name (ij_syslog_app_name cp config)) \<le> 48 \<and>
         (\<forall>b\<in>set (app_name (ij_syslog_app_name cp config)). 33 \<le> b \<and> b \<le> 126)"
proof -
  have f: "cfg_syslog_facility config \<le> 23" by (rule facility_valid_bound [OF assms(2)])
  have s: "2 \<le> ij_syslog_severity_from_level (cp_level cp)" "ij_syslog_severity_from_level (cp_level cp) \<le> 7"
    using severity_range [OF assms(1)] by auto
  then have "syslog_pri cp config = cfg_syslog_facility config * 8 + nat (ij_syslog_severity_from_level (cp_level cp))"
    using f by (simp add: syslog_pri_def)
  then have "syslog_pri cp config \<le> 191" "syslog_pri cp config div 8 = cfg_syslog_facility config"
    "int (syslog_pri cp config mod 8) = ij_syslog_severity_from_level (cp_level cp)"
    using f s by simp_all
  then show ?thesis
    using rfc5424_encode_spec [OF assms(1,3,4), of config] app_name_facts by (auto split: if_splits)
qed

definition sample_config :: ij_logger_config_t where
  "sample_config =
     \<lparr>cfg_min_level = IJ_LEVEL_TRACE, cfg_sink_kind = IJ_SINK_KIND_SYSLOG,
      cfg_redaction_mode = IJ_REDACTION_MODE_ENABLED, cfg_queue_capacity = 0, cfg_logger_name = Some (bytes ''app''),
      cfg_file_path = Some (bytes ''a.log''), cfg_file_rotate_bytes = 0, cfg_file_rotate_interval_seconds = 0,
      cfg_file_retention_files = 0, cfg_file_backend = IJ_FILE_BACKEND_AUTO,
      cfg_syslog_host = Some (bytes ''h''), cfg_syslog_port = 514, cfg_syslog_transport = IJ_SYSLOG_TRANSPORT_UDP,
      cfg_syslog_facility = IJ_SYSLOG_FACILITY_USER\<rparr>"

theorem rfc5424_encode_correct_witness:
  "syslog_pri zero_event_copy sample_config div 8 = 1"
  using rfc5424_encode_correct [of zero_event_copy sample_config 8192 "replicate 8192 0"]
  by (simp add: zero_event_copy_def sample_config_def ij_level_is_valid_iff ij_syslog_facility_is_valid_def
      facility_defs)

end
