(* ===== verification/Syslog_Sink.thy ===== *)
theory Syslog_Sink
  imports Console_Sink Rfc5424
begin

text \<open>
  The syslog sinks: \<open>src/sinks/ij_syslog_udp.c\<close> (one datagram per message, RFC 5426) and
  \<open>src/sinks/ij_syslog_tcp.c\<close> (octet-counting frames, RFC 6587). The addresses a name resolves to
  and the fate of each \<open>socket\<close>, \<open>connect\<close> and send are answers of the system.
\<close>

section \<open>State\<close>

text \<open>\<open>sl_address\<close> is the first \<open>address_len\<close> bytes of the stored address.\<close>

record ij_syslog_sink_t =
  sl_fd :: int
  sl_address :: address

definition getaddrinfo :: "os \<Rightarrow> byte list \<Rightarrow> byte list \<Rightarrow> world \<Rightarrow> address list option \<times> world" where
  "getaddrinfo os host service w = (os_getaddrinfo os (w_calls w) host service, tick w)"

definition socket :: "os \<Rightarrow> world \<Rightarrow> int \<times> world" where
  "socket os w = (os_socket os (w_calls w), tick w)"

definition connect :: "os \<Rightarrow> world \<Rightarrow> bool \<times> world" where
  "connect os w = (os_connect os (w_calls w), tick w)"

text \<open>The port as text, and whether it fits the buffer of six bytes.\<close>

definition service_text :: "16 word \<Rightarrow> byte list" where
  "service_text port = decimal (unat port)"

definition service_fits :: "16 word \<Rightarrow> bool" where
  "service_fits port \<longleftrightarrow> 0 < length (service_text port) \<and> length (service_text port) < 6"

section \<open>UDP\<close>

text \<open>The result is the status, the descriptor and the address; \<open>None\<close> when neither is stored.\<close>

fun resolve_udp_loop :: "os \<Rightarrow> address list \<Rightarrow> world \<Rightarrow> (int \<times> address) option \<times> world" where
  "resolve_udp_loop os [] w = (None, w)"
| "resolve_udp_loop os (entry # entries) w =
     (let (socket_fd, w) = socket os w in
      if socket_fd < 0 then resolve_udp_loop os entries w else (Some (socket_fd, entry), w))"

definition ij_syslog_resolve_udp ::
  "os \<Rightarrow> byte list option \<Rightarrow> 16 word \<Rightarrow> world \<Rightarrow> ij_status_t \<times> (int \<times> address) option \<times> world" where
  "ij_syslog_resolve_udp os host port w =
     (case host of
        None \<Rightarrow> (IJ_STATUS_INVALID_ARGUMENT, None, w)
      | Some host \<Rightarrow>
          if \<not> service_fits port then (IJ_STATUS_INVALID_ARGUMENT, None, w)
          else
            (case getaddrinfo os (c_text host) (service_text port) w of
               (None, w) \<Rightarrow> (IJ_STATUS_SINK_ERROR, None, w)
             | (Some entries, w) \<Rightarrow>
                 (case resolve_udp_loop os entries w of
                    (Some r, w) \<Rightarrow> (IJ_STATUS_OK, Some r, w)
                  | (None, w) \<Rightarrow> (IJ_STATUS_SINK_ERROR, None, w))))"

fun ij_syslog_udp_open ::
  "os \<Rightarrow> ij_syslog_sink_t option \<Rightarrow> byte list option \<Rightarrow> 16 word \<Rightarrow> world \<Rightarrow>
     ij_status_t \<times> ij_syslog_sink_t option \<times> world" where
  "ij_syslog_udp_open os None host port w = (IJ_STATUS_INVALID_ARGUMENT, None, w)"
| "ij_syslog_udp_open os (Some sink) host port w =
     (let sink = sink\<lparr>sl_fd := - 1, sl_address := []\<rparr> in
      case ij_syslog_resolve_udp os host port w of
        (st, None, w) \<Rightarrow> (st, Some sink, w)
      | (st, Some (fd, addr), w) \<Rightarrow> (st, Some (sink\<lparr>sl_fd := fd, sl_address := addr\<rparr>), w))"

fun ij_syslog_udp_write ::
  "os \<Rightarrow> ij_syslog_sink_t option \<Rightarrow> byte list option \<Rightarrow> size_t \<Rightarrow> world \<Rightarrow> ij_status_t \<times> world" where
  "ij_syslog_udp_write os (Some sink) (Some payload) payload_len w =
     (if payload_len = 0 then (IJ_STATUS_INVALID_ARGUMENT, w)
      else if sl_fd sink < 0 \<or> length (sl_address sink) = 0 then (IJ_STATUS_INVALID_STATE, w)
      else if payload_len > IJ_SYSLOG_UDP_TARGET_MAX then (IJ_STATUS_SINK_ERROR, w)
      else
        (let (bytes_sent, w) = sendto os (sl_address sink) (c_mem payload payload_len) w in
         if bytes_sent < 0 \<or> nat bytes_sent \<noteq> payload_len then (IJ_STATUS_SINK_ERROR, w)
         else (IJ_STATUS_OK, w)))"
| "ij_syslog_udp_write os _ _ payload_len w = (IJ_STATUS_INVALID_ARGUMENT, w)"

fun ij_syslog_sink_close :: "ij_syslog_sink_t option \<Rightarrow> world \<Rightarrow> ij_syslog_sink_t option \<times> world" where
  "ij_syslog_sink_close None w = (None, w)"
| "ij_syslog_sink_close (Some sink) w =
     (let w = (if sl_fd sink \<ge> 0 then close_fd (sl_fd sink) w else w)
      in (Some (sink\<lparr>sl_fd := - 1, sl_address := []\<rparr>), w))"

section \<open>TCP\<close>

fun connect_tcp_loop :: "os \<Rightarrow> address list \<Rightarrow> world \<Rightarrow> int option \<times> world" where
  "connect_tcp_loop os [] w = (None, w)"
| "connect_tcp_loop os (entry # entries) w =
     (let (socket_fd, w) = socket os w in
      if socket_fd < 0 then connect_tcp_loop os entries w
      else
        (let (connected, w) = connect os w in
         if connected then (Some socket_fd, w)
         else connect_tcp_loop os entries (close_fd socket_fd w)))"

definition ij_syslog_connect_tcp ::
  "os \<Rightarrow> byte list option \<Rightarrow> 16 word \<Rightarrow> world \<Rightarrow> ij_status_t \<times> int option \<times> world" where
  "ij_syslog_connect_tcp os host port w =
     (case host of
        None \<Rightarrow> (IJ_STATUS_INVALID_ARGUMENT, None, w)
      | Some host \<Rightarrow>
          if \<not> service_fits port then (IJ_STATUS_INVALID_ARGUMENT, None, w)
          else
            (case getaddrinfo os (c_text host) (service_text port) w of
               (None, w) \<Rightarrow> (IJ_STATUS_SINK_ERROR, None, w)
             | (Some entries, w) \<Rightarrow>
                 (case connect_tcp_loop os entries w of
                    (Some fd, w) \<Rightarrow> (IJ_STATUS_OK, Some fd, w)
                  | (None, w) \<Rightarrow> (IJ_STATUS_SINK_ERROR, None, w))))"

function (sequential) send_all_loop ::
  "os \<Rightarrow> int \<Rightarrow> byte list \<Rightarrow> size_t \<Rightarrow> size_t \<Rightarrow> world \<Rightarrow> ij_status_t \<times> world" where
  "send_all_loop os fd buffer buffer_len total_sent w =
     (if total_sent < buffer_len then
        let (bytes_sent, w) = send os fd (c_mem (c_ptr_add buffer total_sent) (buffer_len - total_sent)) w in
        if bytes_sent \<le> 0 then (IJ_STATUS_SINK_ERROR, w)
        else send_all_loop os fd buffer buffer_len (total_sent + nat bytes_sent) w
      else (IJ_STATUS_OK, w))"
  by pat_completeness auto
termination
  by (relation "measure (\<lambda>(os, fd, buffer, buffer_len, total_sent, w). buffer_len - total_sent)") auto

declare send_all_loop.simps [simp del]

definition ij_syslog_send_all :: "os \<Rightarrow> int \<Rightarrow> byte list \<Rightarrow> size_t \<Rightarrow> world \<Rightarrow> ij_status_t \<times> world" where
  "ij_syslog_send_all os fd buffer buffer_len w = send_all_loop os fd buffer buffer_len 0 w"

fun ij_syslog_tcp_open ::
  "os \<Rightarrow> ij_syslog_sink_t option \<Rightarrow> byte list option \<Rightarrow> 16 word \<Rightarrow> world \<Rightarrow>
     ij_status_t \<times> ij_syslog_sink_t option \<times> world" where
  "ij_syslog_tcp_open os None host port w = (IJ_STATUS_INVALID_ARGUMENT, None, w)"
| "ij_syslog_tcp_open os (Some sink) host port w =
     (let sink = sink\<lparr>sl_fd := - 1, sl_address := []\<rparr> in
      case ij_syslog_connect_tcp os host port w of
        (st, None, w) \<Rightarrow> (st, Some sink, w)
      | (st, Some fd, w) \<Rightarrow> (st, Some (sink\<lparr>sl_fd := fd\<rparr>), w))"

fun ij_syslog_tcp_write ::
  "os \<Rightarrow> ij_syslog_sink_t option \<Rightarrow> byte list option \<Rightarrow> size_t \<Rightarrow> world \<Rightarrow> ij_status_t \<times> world" where
  "ij_syslog_tcp_write os (Some sink) (Some payload) payload_len w =
     (if payload_len = 0 then (IJ_STATUS_INVALID_ARGUMENT, w)
      else if sl_fd sink < 0 then (IJ_STATUS_INVALID_STATE, w)
      else
        (let (frame_prefix, prefix_len) = snprintf 32 (decimal payload_len @ [0x20]) in
         if prefix_len \<le> 0 \<or> prefix_len \<ge> 32 then (IJ_STATUS_ENCODE_ERROR, w)
         else
           (let (status, w) = ij_syslog_send_all os (sl_fd sink) frame_prefix prefix_len w in
            if status \<noteq> IJ_STATUS_OK then (status, w)
            else ij_syslog_send_all os (sl_fd sink) payload payload_len w)))"
| "ij_syslog_tcp_write os _ _ payload_len w = (IJ_STATUS_INVALID_ARGUMENT, w)"

section \<open>Sending all of a buffer\<close>

lemma send_all_outcome:
  "t \<le> n \<Longrightarrow> stream_outcome (\<lambda>w. w_streams w fd) (w_streams w fd) (drop t (c_mem b n)) (send_all_loop os fd b n t w)"
proof (induction "n - t" arbitrary: t w rule: less_induct)
  case less
  let ?rest = "drop t (c_mem b n)"
  note unfold = send_all_loop.simps [of os fd b n t w]
  have vec: "c_mem (c_ptr_add b t) (n - t) = ?rest" using less.prems by (simp add: c_mem_ptr_add_drop)
  obtain r w' where s: "send os fd ?rest w = (r, w')" by fastforce
  have out: "w_streams w' fd = w_streams w fd @ take (nat r) ?rest"
    using s by (auto simp: send_def Let_def tick_def)
  consider "t = n" | (fail) "t < n" "r \<le> 0" | (all) "t < n" "0 < r" "t + nat r \<ge> n"
    | (part) "t < n" "0 < r" "t + nat r < n"
    using less.prems by linarith
  then show ?case
  proof cases
    case 1
    then show ?thesis unfolding unfold by (simp add: stream_outcome_def)
  next
    case fail
    then have "send_all_loop os fd b n t w = (IJ_STATUS_SINK_ERROR, w')"
      unfolding unfold vec using s by simp
    then show ?thesis using out fail by (simp add: stream_outcome_def strict_prefix_def)
  next
    case all
    then have "send_all_loop os fd b n t w = (IJ_STATUS_OK, w')"
      unfolding unfold vec using s by (simp add: send_all_loop.simps [of os fd b n "t + nat r"])
    then show ?thesis using out all by (simp add: stream_outcome_def)
  next
    case part
    then have step: "send_all_loop os fd b n t w = send_all_loop os fd b n (t + nat r) w'"
      unfolding unfold vec using s by simp
    have split: "?rest = take (nat r) ?rest @ drop (t + nat r) (c_mem b n)"
      by (metis add.commute append_take_drop_id drop_drop)
    have "stream_outcome (\<lambda>w. w_streams w fd) (w_streams w' fd) (drop (t + nat r) (c_mem b n))
        (send_all_loop os fd b n t w)"
      unfolding step using part by (intro less.hyps) auto
    then show ?thesis unfolding out by (subst split) (rule stream_outcome_prepend)
  qed
qed

text \<open>Two loops one after the other bring both parts onto the stream.\<close>

lemma stream_outcome_then:
  assumes "stream_outcome out before xs (st, w')"
    and "st = IJ_STATUS_OK \<Longrightarrow> stream_outcome out (out w') ys r"
    and "ys \<noteq> []"
  shows "stream_outcome out before (xs @ ys) (if st \<noteq> IJ_STATUS_OK then (st, w') else r)"
proof (cases "st = IJ_STATUS_OK")
  case True
  then have "out w' = before @ xs" using assms(1) by (auto simp: stream_outcome_def)
  with assms(2) True stream_outcome_prepend [of out before xs ys r] show ?thesis by simp
next
  case False
  then obtain more where "out w' = before @ more" "strict_prefix more xs" "st = IJ_STATUS_SINK_ERROR"
    using assms(1) by (auto simp: stream_outcome_def)
  moreover have "strict_prefix more (xs @ ys)"
    using \<open>strict_prefix more xs\<close> assms(3) by (auto simp: strict_prefix_def prefix_def)
  ultimately show ?thesis by (auto simp: stream_outcome_def)
qed

section \<open>Frames\<close>

definition tcp_frame :: "byte list \<Rightarrow> byte list" where
  "tcp_frame payload = decimal (length payload) @ [0x20] @ payload"

text \<open>A receiver of octet-counted frames: the payloads a stream holds, \<open>None\<close> for a malformed one.\<close>

definition read_frame :: "byte list \<Rightarrow> (byte list \<times> byte list) option" where
  "read_frame bs =
     (let digits = takeWhile is_digit bs; n = read_decimal digits in
      case dropWhile is_digit bs of
        [] \<Rightarrow> None
      | b # body \<Rightarrow>
          if digits \<noteq> [] \<and> b = 0x20 \<and> n \<le> length body then Some (take n body, drop n body) else None)"

lemma read_frame_shorter: "read_frame bs = Some (payload, rest) \<Longrightarrow> length rest < length bs"
proof -
  assume r: "read_frame bs = Some (payload, rest)"
  then obtain b body where d: "dropWhile is_digit bs = b # body" and
    rest: "rest = drop (read_decimal (takeWhile is_digit bs)) body"
    by (auto simp: read_frame_def Let_def split: list.splits if_splits)
  from d have "length body < length bs" using length_dropWhile_le [of is_digit bs] by simp
  then show ?thesis using rest by simp
qed

function (sequential) read_frames :: "byte list \<Rightarrow> byte list list option" where
  "read_frames bs =
     (if bs = [] then Some []
      else
        (case read_frame bs of
           None \<Rightarrow> None
         | Some (payload, rest) \<Rightarrow> map_option ((#) payload) (read_frames rest)))"
  by pat_completeness auto
termination
  by (relation "measure length") (auto simp: read_frame_shorter)

declare read_frames.simps [simp del]

lemma space_not_digit: "\<not> is_digit 0x20"
  by (simp add: is_digit_def)

lemma read_frame_frame: "read_frame (tcp_frame payload @ rest) = Some (payload, rest)"
proof -
  have d: "\<forall>b\<in>set (decimal (length payload)). is_digit b" using decimal_digits by blast
  then have "takeWhile is_digit (tcp_frame payload @ rest) = decimal (length payload)"
    "dropWhile is_digit (tcp_frame payload @ rest) = 0x20 # payload @ rest"
    by (simp_all add: tcp_frame_def space_not_digit)
  then show ?thesis by (simp add: read_frame_def)
qed

lemma read_frames_frames: "read_frames (concat (map tcp_frame payloads)) = Some payloads"
proof (induction payloads)
  case (Cons p ps)
  have "tcp_frame p \<noteq> []" by (simp add: tcp_frame_def)
  with Cons show ?case
    by (simp add: read_frames.simps [of "tcp_frame p @ concat (map tcp_frame ps)"] read_frame_frame)
qed (simp add: read_frames.simps)

lemma tcp_write_outcome:
  assumes "0 < n" "n < SIZE_MODULUS" "0 \<le> sl_fd sink"
  shows "stream_outcome (\<lambda>w. w_streams w (sl_fd sink)) (w_streams w (sl_fd sink)) (tcp_frame (c_mem p n))
           (ij_syslog_tcp_write os (Some sink) (Some p) n w)"
proof -
  let ?prefix = "decimal n @ [0x20]" and ?fd = "sl_fd sink"
  let ?out = "\<lambda>w. w_streams w ?fd"
  have "length (decimal n) \<le> 20" using assms(2) by (intro length_decimal) (simp_all add: SIZE_MODULUS_def)
  then have len: "length ?prefix < 32" by simp
  obtain st w' where s: "ij_syslog_send_all os ?fd (?prefix @ [0]) (length ?prefix) w = (st, w')" by fastforce
  have pre: "c_mem (?prefix @ [0]) (length ?prefix) = ?prefix"
    using c_mem_take [of "length ?prefix" "?prefix @ [0]"] by simp
  have 1: "stream_outcome ?out (?out w) ?prefix (st, w')"
    using send_all_outcome [of 0 "length ?prefix" ?fd w "?prefix @ [0]" os] s
    unfolding ij_syslog_send_all_def pre by (simp del: length_append)
  have 2: "stream_outcome ?out (?out w') (c_mem p n) (ij_syslog_send_all os ?fd p n w')"
    using send_all_outcome [of 0 n ?fd w' p os] by (simp add: ij_syslog_send_all_def)
  have "snprintf 32 ?prefix = (?prefix @ [0], length ?prefix)"
    using len by (simp add: snprintf_def)
  then have "ij_syslog_tcp_write os (Some sink) (Some p) n w =
      (if st \<noteq> IJ_STATUS_OK then (st, w') else ij_syslog_send_all os ?fd p n w')"
    using assms(1,3) len s by (simp add: Let_def)
  moreover have "c_mem p n \<noteq> []" using assms(1) by (metis length_c_mem length_greater_0_conv)
  ultimately show ?thesis
    using stream_outcome_then [OF 1 2] by (simp add: tcp_frame_def)
qed

section \<open>Both transports are sinks\<close>

definition tcp_emit ::
  "os \<Rightarrow> ij_syslog_sink_t \<Rightarrow> byte list \<Rightarrow> world \<Rightarrow> ij_status_t \<times> world" where
  "tcp_emit os sink payload w =
     (if length payload < SIZE_MODULUS then ij_syslog_tcp_write os (Some sink) (Some payload) (length payload) w
      else (IJ_STATUS_INVALID_ARGUMENT, w))"

definition udp_emit ::
  "os \<Rightarrow> ij_syslog_sink_t \<Rightarrow> byte list \<Rightarrow> world \<Rightarrow> ij_status_t \<times> world" where
  "udp_emit os sink payload w = ij_syslog_udp_write os (Some sink) (Some payload) (length payload) w"

interpretation tcp: append_only_sink "\<lambda>_. True" "tcp_emit os sink" "\<lambda>w. w_streams w (sl_fd sink)" tcp_frame
  for os sink
proof
  fix w :: world and payload st w'
  have *: "stream_outcome (\<lambda>w. w_streams w (sl_fd sink)) (w_streams w (sl_fd sink)) (tcp_frame payload)
      (tcp_emit os sink payload w) \<or> tcp_emit os sink payload w = (IJ_STATUS_INVALID_STATE, w) \<or>
      tcp_emit os sink payload w = (IJ_STATUS_INVALID_ARGUMENT, w)"
    using tcp_write_outcome [of "length payload" sink w payload os]
    by (cases "payload = []"; cases "sl_fd sink < 0") (auto simp: tcp_emit_def)
  show "True \<and> w_streams w' (sl_fd sink) = w_streams w (sl_fd sink) @ tcp_frame payload"
    if "tcp_emit os sink payload w = (IJ_STATUS_OK, w')"
    using * that by (auto simp: stream_outcome_def)
  show "True \<and> (\<exists>more. w_streams w' (sl_fd sink) = w_streams w (sl_fd sink) @ more)"
    if "tcp_emit os sink payload w = (st, w')"
    using * that by (auto simp: stream_outcome_def)
qed

lemma sendto_cases:
  "sendto os addr bs w = (r, w') \<Longrightarrow>
     w_datagrams w' = (if r < 0 then w_datagrams w else w_datagrams w @ [(addr, take (nat r) bs)])"
  by (auto simp: sendto_def Let_def tick_def)

lemma udp_write_cases:
  assumes "ij_syslog_udp_write os (Some sink) (Some p) n w = (st, w')"
  shows "(if st = IJ_STATUS_OK
          then w_datagrams w' = w_datagrams w @ [(sl_address sink, c_mem p n)] \<and> 0 < n \<and> n \<le> 2048
          else \<exists>more. w_datagrams w' = w_datagrams w @ more \<and> (\<forall>d\<in>set more. length (snd d) \<le> 2048))"
proof (cases "n = 0 \<or> sl_fd sink < 0 \<or> sl_address sink = [] \<or> n > 2048")
  case True
  then have "w' = w \<and> st \<noteq> IJ_STATUS_OK"
    using assms by (auto simp: IJ_SYSLOG_UDP_TARGET_MAX_def split: if_splits)
  then show ?thesis by simp
next
  case False
  obtain r w1 where s: "sendto os (sl_address sink) (c_mem p n) w = (r, w1)" by fastforce
  have "(st, w') = (if r < 0 \<or> nat r \<noteq> n then (IJ_STATUS_SINK_ERROR, w1) else (IJ_STATUS_OK, w1))"
    using assms False s by (simp add: IJ_SYSLOG_UDP_TARGET_MAX_def)
  then show ?thesis
    using sendto_cases [OF s] False by (cases "r < 0 \<or> nat r \<noteq> n") auto
qed

interpretation udp: append_only_sink "\<lambda>_. True" "udp_emit os sink" w_datagrams "\<lambda>p. [(sl_address sink, p)]"
  for os sink
proof
  fix w :: world and payload st w'
  show "True \<and> w_datagrams w' = w_datagrams w @ [(sl_address sink, payload)]"
    if "udp_emit os sink payload w = (IJ_STATUS_OK, w')"
    using udp_write_cases [of os sink payload "length payload" w IJ_STATUS_OK w'] that
    by (simp add: udp_emit_def del: ij_syslog_udp_write.simps)
  show "True \<and> (\<exists>more. w_datagrams w' = w_datagrams w @ more)" if "udp_emit os sink payload w = (st, w')"
    using udp_write_cases [of os sink payload "length payload" w st w'] that
    by (auto simp: udp_emit_def simp del: ij_syslog_udp_write.simps split: if_splits)
qed

section \<open>Opening and closing\<close>

lemma service_fits: "service_fits port"
proof -
  have "unat port < 10 ^ 5" using unsigned_less [of port, where 'a = nat] by simp
  then have "length (decimal (unat port)) \<le> 5" by (intro length_decimal) simp_all
  then show ?thesis by (simp add: service_fits_def service_text_def)
qed

lemma connect_loop_result:
  "connect_tcp_loop os entries w = (r, w') \<Longrightarrow>
     (case r of None \<Rightarrow> True | Some fd \<Rightarrow> 0 \<le> fd) \<and> w_streams w' = w_streams w \<and>
     (\<exists>fds. w_closed w' = w_closed w @ fds \<and> (\<forall>fd\<in>set fds. 0 \<le> fd))"
proof (induction entries arbitrary: w)
  case (Cons entry entries)
  let ?fd = "os_socket os (w_calls w)"
  let ?w1 = "tick w" let ?w2 = "tick ?w1"
  consider (skip) "?fd < 0" | (good) "0 \<le> ?fd" "os_connect os (w_calls ?w1)"
    | (retry) "0 \<le> ?fd" "\<not> os_connect os (w_calls ?w1)" by linarith
  then show ?case
  proof cases
    case skip
    then have "connect_tcp_loop os entries ?w1 = (r, w')" using Cons.prems by (simp add: socket_def)
    from Cons.IH [OF this] show ?thesis by (simp add: tick_def)
  next
    case good
    then have "(r, w') = (Some ?fd, ?w2)" using Cons.prems by (simp add: socket_def connect_def)
    with good show ?thesis by (simp add: tick_def)
  next
    case retry
    then have "connect_tcp_loop os entries (close_fd ?fd ?w2) = (r, w')"
      using Cons.prems by (simp add: socket_def connect_def)
    from Cons.IH [OF this] retry show ?thesis by (auto simp: tick_def close_fd_def)
  qed
qed simp

lemma resolve_loop_result:
  "resolve_udp_loop os entries w = (r, w') \<Longrightarrow>
     (case r of None \<Rightarrow> True | Some (fd, addr) \<Rightarrow> 0 \<le> fd \<and> addr \<in> set entries) \<and> w_closed w' = w_closed w"
proof (induction entries arbitrary: w)
  case (Cons entry entries)
  let ?fd = "os_socket os (w_calls w)"
  show ?case
  proof (cases "?fd < 0")
    case True
    then have "resolve_udp_loop os entries (tick w) = (r, w')" using Cons.prems by (simp add: socket_def)
    from Cons.IH [OF this] show ?thesis by (auto simp: tick_def split: option.splits)
  next
    case False
    then have "(r, w') = (Some (?fd, entry), tick w)" using Cons.prems by (simp add: socket_def)
    with False show ?thesis by (simp add: tick_def)
  qed
qed simp

lemma udp_open_result:
  assumes "ij_syslog_udp_open os (Some sink) host port w = (st, s', w')"
  shows "\<exists>sink'. s' = Some sink' \<and> w_closed w' = w_closed w \<and>
    (if st = IJ_STATUS_OK then 0 \<le> sl_fd sink' else sl_fd sink' = - 1 \<and> sl_address sink' = [])"
proof (cases host)
  case None
  then show ?thesis using assms by (auto simp: ij_syslog_resolve_udp_def)
next
  case (Some h)
  let ?w = "tick w"
  show ?thesis
  proof (cases "os_getaddrinfo os (w_calls w) (c_text h) (service_text port)")
    case None
    then show ?thesis
      using assms Some by (auto simp: ij_syslog_resolve_udp_def service_fits getaddrinfo_def tick_def)
  next
    case entries: (Some entries)
    obtain r w1 where l: "resolve_udp_loop os entries ?w = (r, w1)" by fastforce
    show ?thesis
      using assms Some entries l resolve_loop_result [OF l]
      by (cases r) (auto simp: ij_syslog_resolve_udp_def service_fits getaddrinfo_def tick_def)
  qed
qed

lemma tcp_open_result:
  assumes "ij_syslog_tcp_open os (Some sink) host port w = (st, s', w')"
  shows "\<exists>sink'. s' = Some sink' \<and> (\<exists>fds. w_closed w' = w_closed w @ fds \<and> (\<forall>fd\<in>set fds. 0 \<le> fd)) \<and>
    (if st = IJ_STATUS_OK then 0 \<le> sl_fd sink' else sl_fd sink' = - 1 \<and> sl_address sink' = [])"
proof (cases host)
  case None
  then show ?thesis using assms by (auto simp: ij_syslog_connect_tcp_def)
next
  case (Some h)
  let ?w = "tick w"
  show ?thesis
  proof (cases "os_getaddrinfo os (w_calls w) (c_text h) (service_text port)")
    case None
    then show ?thesis
      using assms Some by (auto simp: ij_syslog_connect_tcp_def service_fits getaddrinfo_def tick_def)
  next
    case entries: (Some entries)
    obtain r w1 where l: "connect_tcp_loop os entries ?w = (r, w1)" by fastforce
    show ?thesis
      using assms Some entries l connect_loop_result [OF l]
      by (cases r) (auto simp: ij_syslog_connect_tcp_def service_fits getaddrinfo_def tick_def)
  qed
qed

section \<open>Properties\<close>

definition sample_sink :: ij_syslog_sink_t where
  "sample_sink = \<lparr>sl_fd = 3, sl_address = [1]\<rparr>"

text \<open>
  Round trip of the TCP framing: when every payload written to a connection was accepted, a
  receiver that reads octet-counted frames from the connection's bytes gets exactly those payloads
  in order, however the bytes were split into segments.
\<close>

theorem tcp_stream_roundtrip:
  assumes "w_streams w (sl_fd sink) = []" and "[] \<notin> set payloads"
    and "record_sink.emit_all (tcp_emit os sink) payloads w = (IJ_STATUS_OK, w')"
  shows "read_frames (w_streams w' (sl_fd sink)) = Some payloads"
  using tcp.emit_all_ok [OF TrueI assms(2,3)] assms(1) by (simp add: read_frames_frames)

theorem tcp_stream_roundtrip_witness:
  "\<exists>w'. record_sink.emit_all (tcp_emit short_writer sample_sink) [[0x68, 0x69]] start_world = (IJ_STATUS_OK, w') \<and>
     read_frames (w_streams w' 3) = Some [[0x68, 0x69]]"
proof -
  define w' where "w' = snd (tcp_emit short_writer sample_sink [0x68, 0x69] start_world)"
  have "fst (ij_syslog_tcp_write short_writer (Some sample_sink) (Some [0x68, 0x69]) 2 start_world) = IJ_STATUS_OK"
    by code_simp
  then have "fst (tcp_emit short_writer sample_sink [0x68, 0x69] start_world) = IJ_STATUS_OK"
    by (simp add: tcp_emit_def SIZE_MODULUS_def numeral_2_eq_2 del: ij_syslog_tcp_write.simps)
  then have "record_sink.emit_all (tcp_emit short_writer sample_sink) [[0x68, 0x69]] start_world =
      (IJ_STATUS_OK, w')"
    by (simp add: w'_def split_beta)
  with tcp_stream_roundtrip [of start_world sample_sink "[[0x68, 0x69]]" short_writer w'] show ?thesis
    by (simp add: start_world_def sample_sink_def)
qed

text \<open>
  \<open>ij_syslog_tcp_write\<close> on an open connection ends for every behaviour of \<open>send\<close>; it answers OK
  exactly when the whole frame, length prefix and payload, is on the connection, and otherwise a
  proper prefix of the frame is there and the answer is a sink error.
\<close>

theorem tcp_write_correct:
  assumes "0 < n" "n < SIZE_MODULUS" "0 \<le> sl_fd sink"
  shows "\<exists>st w' more. ij_syslog_tcp_write os (Some sink) (Some p) n w = (st, w') \<and>
           w_streams w' (sl_fd sink) = w_streams w (sl_fd sink) @ more \<and>
           (st = IJ_STATUS_OK \<and> more = tcp_frame (c_mem p n) \<or>
            st = IJ_STATUS_SINK_ERROR \<and> strict_prefix more (tcp_frame (c_mem p n)))"
  using tcp_write_outcome [OF assms, of w p os]
  by (cases "ij_syslog_tcp_write os (Some sink) (Some p) n w")
    (auto simp: stream_outcome_def simp del: ij_syslog_tcp_write.simps split: if_splits)

theorem tcp_write_correct_witness:
  "\<exists>st w' more. ij_syslog_tcp_write short_writer (Some sample_sink) (Some [0x68]) 1 start_world = (st, w') \<and>
     w_streams w' 3 = more \<and>
     (st = IJ_STATUS_OK \<and> more = tcp_frame [0x68] \<or>
      st = IJ_STATUS_SINK_ERROR \<and> strict_prefix more (tcp_frame [0x68]))"
  using tcp_write_correct [of 1 sample_sink short_writer "[0x68]" start_world]
  by (auto simp: sample_sink_def start_world_def SIZE_MODULUS_def c_mem_def
      simp del: ij_syslog_tcp_write.simps)

definition broken_sender :: os where
  "broken_sender = short_writer\<lparr>os_send := (\<lambda>c k. if c = 1 then 1 else if c = 2 then - 1 else int k)\<rparr>"


text \<open>
  \<open>ij_syslog_udp_write\<close> answers OK exactly when one datagram holding the whole payload went to
  the sink's address, which is then at most 2048 bytes long; no datagram of any call is longer.
\<close>

theorem udp_write_correct:
  assumes "ij_syslog_udp_write os (Some sink) (Some p) n w = (st, w')"
  shows "\<exists>more. w_datagrams w' = w_datagrams w @ more \<and> (\<forall>d\<in>set more. length (snd d) \<le> 2048) \<and>
           (st = IJ_STATUS_OK \<longrightarrow> more = [(sl_address sink, c_mem p n)] \<and> 0 < n)"
  using udp_write_cases [OF assms] by (auto split: if_splits)

theorem udp_write_correct_witness:
  "\<exists>st w' more. ij_syslog_udp_write short_writer (Some sample_sink) (Some [0x68]) 1 start_world = (st, w') \<and>
     w_datagrams w' = more \<and> (\<forall>d\<in>set more. length (snd d) \<le> 2048)"
proof -
  obtain st w' where u: "ij_syslog_udp_write short_writer (Some sample_sink) (Some [0x68]) 1 start_world = (st, w')"
    by fastforce
  from udp_write_correct [OF u] show ?thesis unfolding u by (auto simp: start_world_def)
qed

text \<open>
  Opening a syslog sink over either transport answers OK exactly when the sink holds an open
  descriptor; otherwise the descriptor is -1, and closing the sink then closes nothing. Closing an
  open sink closes its descriptor once, and a second close closes nothing.
\<close>

theorem syslog_open_close:
  assumes "ij_syslog_open \<in> {ij_syslog_udp_open, ij_syslog_tcp_open}"
    and "ij_syslog_open os (Some sink) host port w = (st, s', w')"
  shows "\<exists>sink'. s' = Some sink' \<and> (st = IJ_STATUS_OK \<longleftrightarrow> 0 \<le> sl_fd sink') \<and>
           (let (s1, w1) = ij_syslog_sink_close s' w'; (s2, w2) = ij_syslog_sink_close s1 w1
            in w_closed w1 = w_closed w' @ (if st = IJ_STATUS_OK then [sl_fd sink'] else []) \<and>
               w_closed w2 = w_closed w1)"
proof -
  obtain sink' where "s' = Some sink'" "if st = IJ_STATUS_OK then 0 \<le> sl_fd sink' else sl_fd sink' = - 1"
    using assms udp_open_result [of os sink host port w st s' w'] tcp_open_result [of os sink host port w st s' w']
    by (auto split: if_splits)
  then show ?thesis by (auto simp: close_fd_def tick_def split: if_splits)
qed

theorem syslog_open_close_witness:
  "\<exists>st s' w' sink'. ij_syslog_tcp_open short_writer (Some sample_sink) (Some (bytes ''h'')) 514 start_world = (st, s', w') \<and>
     s' = Some sink' \<and> (st = IJ_STATUS_OK \<longleftrightarrow> 0 \<le> sl_fd sink')"
proof -
  obtain st s' w' where o: "ij_syslog_tcp_open short_writer (Some sample_sink) (Some (bytes ''h'')) 514 start_world = (st, s', w')"
    by (metis prod_cases3)
  from syslog_open_close [of ij_syslog_tcp_open, OF _ o] show ?thesis unfolding o by auto
qed

end
