(* ===== verification/File_Backend.thy ===== *)
theory File_Backend
  imports Console_Sink
begin

text \<open>
  The two back ends of the file sink: \<open>src/sinks/ij_file_sink_sync.c\<close> over a \<open>stdio\<close> stream and
  \<open>src/sinks/ij_file_sink_uring.c\<close> over \<open>io_uring\<close>. The table of operations the file sink dispatches
  through is a record of functions, and what the file sink relies on is a locale that both tables
  are proved to satisfy.

  The \<open>io_uring\<close> library is not part of the sources. Its calls are answers of the system, and the
  queues it keeps between two calls are part of the model: a submission that fails leaves its
  entry queued, a wait that fails leaves the completion queued.
\<close>

section \<open>State\<close>

text \<open>
  A queued write either still has its payload or belongs to an earlier call whose buffer is gone;
  the kernel would then read whatever is at that address.
\<close>

datatype sqe = Live "byte list" | Dead size_t

record io_uring =
  u_file :: "byte list"
  u_sq :: "sqe list"
  u_cq :: "int list"

text \<open>The array \<open>rotated_paths\<close> and its length \<open>rotated_path_count\<close> are one list.\<close>

record ij_file_sink_t =
  sk_path :: cstring
  sk_requested_backend :: ij_file_backend_t
  sk_active_backend :: ij_file_backend_t
  sk_stream :: "file_stream option"
  sk_fd :: int
  sk_uring :: "io_uring option"
  sk_rotate_bytes :: size_t
  sk_rotate_interval_seconds :: "32 word"
  sk_retention_files :: size_t
  sk_bytes_written :: size_t
  sk_rotation_sequence :: "64 word"
  sk_last_rotation_epoch :: int
  sk_rotated_paths :: "byte list list"

definition zero_file_sink :: ij_file_sink_t where
  "zero_file_sink =
     \<lparr>sk_path = None, sk_requested_backend = IJ_FILE_BACKEND_AUTO,
      sk_active_backend = IJ_FILE_BACKEND_AUTO, sk_stream = None, sk_fd = 0, sk_uring = None,
      sk_rotate_bytes = 0, sk_rotate_interval_seconds = 0, sk_retention_files = 0,
      sk_bytes_written = 0, sk_rotation_sequence = 0, sk_last_rotation_epoch = 0,
      sk_rotated_paths = []\<rparr>"

type_synonym sink_result = "ij_status_t \<times> ij_file_sink_t option \<times> world"

record ij_file_sink_ops_t =
  op_open :: "os \<Rightarrow> ij_file_sink_t option \<Rightarrow> world \<Rightarrow> sink_result"
  op_write :: "os \<Rightarrow> ij_file_sink_t option \<Rightarrow> byte list option \<Rightarrow> size_t \<Rightarrow> world \<Rightarrow> sink_result"
  op_flush :: "os \<Rightarrow> ij_file_sink_t option \<Rightarrow> world \<Rightarrow> sink_result"
  op_close :: "os \<Rightarrow> ij_file_sink_t option \<Rightarrow> world \<Rightarrow> ij_file_sink_t option \<times> world"

section \<open>The synchronous back end\<close>

fun ij_file_sink_sync_open :: "os \<Rightarrow> ij_file_sink_t option \<Rightarrow> world \<Rightarrow> sink_result" where
  "ij_file_sink_sync_open os None w = (IJ_STATUS_INVALID_ARGUMENT, None, w)"
| "ij_file_sink_sync_open os (Some sink) w =
     (case sk_path sink of
        None \<Rightarrow> (IJ_STATUS_INVALID_ARGUMENT, Some sink, w)
      | Some path \<Rightarrow>
          (let (stream, w) = fopen_ab os path w; sink = sink\<lparr>sk_stream := stream\<rparr> in
           if stream = None then (IJ_STATUS_SINK_ERROR, Some sink, w) else (IJ_STATUS_OK, Some sink, w)))"

fun ij_file_sink_sync_write ::
  "os \<Rightarrow> ij_file_sink_t option \<Rightarrow> byte list option \<Rightarrow> size_t \<Rightarrow> world \<Rightarrow> sink_result" where
  "ij_file_sink_sync_write os None payload payload_len w = (IJ_STATUS_INVALID_ARGUMENT, None, w)"
| "ij_file_sink_sync_write os (Some sink) payload payload_len w =
     (case (sk_stream sink, payload) of
        (Some stream, Some p) \<Rightarrow>
          if payload_len = 0 then (IJ_STATUS_INVALID_ARGUMENT, Some sink, w)
          else
            (let (n, stream, w) = fwrite os (c_mem p payload_len) stream w;
                 sink = sink\<lparr>sk_stream := Some stream\<rparr>
             in if n \<noteq> payload_len then (IJ_STATUS_SINK_ERROR, Some sink, w)
                else (IJ_STATUS_OK, Some sink, w))
      | _ \<Rightarrow> (IJ_STATUS_INVALID_ARGUMENT, Some sink, w))"

fun ij_file_sink_sync_flush :: "os \<Rightarrow> ij_file_sink_t option \<Rightarrow> world \<Rightarrow> sink_result" where
  "ij_file_sink_sync_flush os None w = (IJ_STATUS_INVALID_ARGUMENT, None, w)"
| "ij_file_sink_sync_flush os (Some sink) w =
     (case sk_stream sink of
        None \<Rightarrow> (IJ_STATUS_INVALID_ARGUMENT, Some sink, w)
      | Some stream \<Rightarrow>
          (let (ok, stream, w) = fflush os stream w
           in (if ok then IJ_STATUS_OK else IJ_STATUS_SINK_ERROR, Some (sink\<lparr>sk_stream := Some stream\<rparr>), w)))"

fun ij_file_sink_sync_close :: "os \<Rightarrow> ij_file_sink_t option \<Rightarrow> world \<Rightarrow> ij_file_sink_t option \<times> world" where
  "ij_file_sink_sync_close os None w = (None, w)"
| "ij_file_sink_sync_close os (Some sink) w =
     (case sk_stream sink of
        None \<Rightarrow> (Some sink, w)
      | Some stream \<Rightarrow> (Some (sink\<lparr>sk_stream := None\<rparr>), fclose os stream w))"

section \<open>The \<open>io_uring\<close> back end\<close>

definition UINT_MAX :: nat where
  "UINT_MAX = 4294967295"

fun sqe_bytes :: "os \<Rightarrow> nat \<Rightarrow> sqe \<Rightarrow> byte list" where
  "sqe_bytes os c (Live bs) = bs"
| "sqe_bytes os c (Dead n) = os_stale_bytes os c n"

text \<open>The kernel performs the queued appends and reports one result for each.\<close>

fun perform_writes :: "os \<Rightarrow> byte list \<Rightarrow> sqe list \<Rightarrow> world \<Rightarrow> int list \<times> world" where
  "perform_writes os file [] w = ([], w)"
| "perform_writes os file (e # es) w =
     (let bs = sqe_bytes os (w_calls w) e; r = os_uring_result os (w_calls w) (length bs);
          (rs, w) = perform_writes os file es (tick (file_append file (take (nat r) bs) w))
      in (r # rs, w))"

text \<open>Submission, the wait for one completion, and its result.\<close>

fun ij_file_sink_uring_drain :: "os \<Rightarrow> io_uring option \<Rightarrow> world \<Rightarrow> int \<times> io_uring option \<times> world" where
  "ij_file_sink_uring_drain os None w = (- 1, None, w)"
| "ij_file_sink_uring_drain os (Some ring) w =
     (let rc = os_uring_submit os (w_calls w); w = tick w in
      if rc < 0 then (rc, Some ring, w)
      else
        (let (results, w) = perform_writes os (u_file ring) (u_sq ring) w;
             ring = ring\<lparr>u_sq := [], u_cq := u_cq ring @ results\<rparr>;
             rc = os_uring_wait os (w_calls w); w = tick w
         in if rc < 0 then (rc, Some ring, w)
            else
              (case u_cq ring of
                 [] \<Rightarrow> (- 1, Some ring, w)
               | res # cq \<Rightarrow> (res, Some (ring\<lparr>u_cq := cq\<rparr>), w))))"

fun ij_file_sink_uring_open :: "os \<Rightarrow> ij_file_sink_t option \<Rightarrow> world \<Rightarrow> sink_result" where
  "ij_file_sink_uring_open os None w =
     (if os_has_liburing os then IJ_STATUS_INVALID_ARGUMENT else IJ_STATUS_SINK_ERROR, None, w)"
| "ij_file_sink_uring_open os (Some sink) w =
     (if \<not> os_has_liburing os then (IJ_STATUS_SINK_ERROR, Some sink, w)
      else
        (case sk_path sink of
           None \<Rightarrow> (IJ_STATUS_INVALID_ARGUMENT, Some sink, w)
         | Some path \<Rightarrow>
             (let (ring_ok, w) = malloc os w in
              if \<not> ring_ok then (IJ_STATUS_INTERNAL_ERROR, Some sink, w)
              else if \<not> os_uring_init os (w_calls w) then (IJ_STATUS_SINK_ERROR, Some sink, tick w)
              else
                (let w = tick w; fd = os_open os (w_calls w) in
                 if fd < 0 then (IJ_STATUS_SINK_ERROR, Some sink, tick w)
                 else (IJ_STATUS_OK,
                       Some (sink\<lparr>sk_fd := fd, sk_uring := Some \<lparr>u_file = path, u_sq = [], u_cq = []\<rparr>\<rparr>),
                       tick (file_append path [] w))))))"

text \<open>When the call returns, the caller's payload is gone from the entries still queued.\<close>

fun forget_payload :: "sqe \<Rightarrow> sqe" where
  "forget_payload (Live bs) = Dead (length bs)"
| "forget_payload (Dead n) = Dead n"

fun ij_file_sink_uring_write ::
  "os \<Rightarrow> ij_file_sink_t option \<Rightarrow> byte list option \<Rightarrow> size_t \<Rightarrow> world \<Rightarrow> sink_result" where
  "ij_file_sink_uring_write os None payload payload_len w =
     (if os_has_liburing os then IJ_STATUS_INVALID_ARGUMENT else IJ_STATUS_SINK_ERROR, None, w)"
| "ij_file_sink_uring_write os (Some sink) payload payload_len w =
     (if \<not> os_has_liburing os then (IJ_STATUS_SINK_ERROR, Some sink, w)
      else
        (case (sk_uring sink, payload) of
           (Some ring, Some p) \<Rightarrow>
             if sk_fd sink < 0 \<or> payload_len = 0 then (IJ_STATUS_INVALID_ARGUMENT, Some sink, w)
             else if payload_len > UINT_MAX then (IJ_STATUS_INVALID_ARGUMENT, Some sink, w)
             else if \<not> os_uring_sqe os (w_calls w) then (IJ_STATUS_SINK_ERROR, Some sink, tick w)
             else
               (let ring = ring\<lparr>u_sq := u_sq ring @ [Live (c_mem p payload_len)]\<rparr>;
                    (rc, uring, w) = ij_file_sink_uring_drain os (Some ring) (tick w);
                    uring = map_option (\<lambda>r. r\<lparr>u_sq := map forget_payload (u_sq r)\<rparr>) uring;
                    sink = sink\<lparr>sk_uring := uring\<rparr>
                in if rc < 0 \<or> nat rc \<noteq> payload_len then (IJ_STATUS_SINK_ERROR, Some sink, w)
                   else (IJ_STATUS_OK, Some sink, w))
         | _ \<Rightarrow> (IJ_STATUS_INVALID_ARGUMENT, Some sink, w)))"

fun ij_file_sink_uring_flush :: "os \<Rightarrow> ij_file_sink_t option \<Rightarrow> world \<Rightarrow> sink_result" where
  "ij_file_sink_uring_flush os None w =
     (if os_has_liburing os then IJ_STATUS_INVALID_ARGUMENT else IJ_STATUS_SINK_ERROR, None, w)"
| "ij_file_sink_uring_flush os (Some sink) w =
     (if \<not> os_has_liburing os then (IJ_STATUS_SINK_ERROR, Some sink, w)
      else if sk_uring sink = None \<or> sk_fd sink < 0 then (IJ_STATUS_INVALID_ARGUMENT, Some sink, w)
      else (IJ_STATUS_OK, Some sink, w))"

fun ij_file_sink_uring_close :: "os \<Rightarrow> ij_file_sink_t option \<Rightarrow> world \<Rightarrow> ij_file_sink_t option \<times> world" where
  "ij_file_sink_uring_close os None w = (None, w)"
| "ij_file_sink_uring_close os (Some sink) w =
     (if \<not> os_has_liburing os then (Some sink, w)
      else
        (let (sink, w) = (if sk_fd sink \<ge> 0 then (sink\<lparr>sk_fd := - 1\<rparr>, close_fd (sk_fd sink) w) else (sink, w))
         in (Some (sink\<lparr>sk_uring := None\<rparr>), w)))"

section \<open>The tables\<close>

definition IJ_FILE_SINK_SYNC_OPS :: ij_file_sink_ops_t where
  "IJ_FILE_SINK_SYNC_OPS =
     \<lparr>op_open = ij_file_sink_sync_open, op_write = ij_file_sink_sync_write,
      op_flush = ij_file_sink_sync_flush, op_close = ij_file_sink_sync_close\<rparr>"

definition IJ_FILE_SINK_IO_URING_OPS :: ij_file_sink_ops_t where
  "IJ_FILE_SINK_IO_URING_OPS =
     \<lparr>op_open = ij_file_sink_uring_open, op_write = ij_file_sink_uring_write,
      op_flush = ij_file_sink_uring_flush, op_close = ij_file_sink_uring_close\<rparr>"

definition ij_file_sink_ops :: "ij_file_sink_t \<Rightarrow> ij_file_sink_ops_t" where
  "ij_file_sink_ops sink =
     (if sk_active_backend sink = IJ_FILE_BACKEND_IO_URING then IJ_FILE_SINK_IO_URING_OPS
      else IJ_FILE_SINK_SYNC_OPS)"

section \<open>What the file sink relies on\<close>

text \<open>The fields of a sink that no back end touches.\<close>

definition sink_meta :: "ij_file_sink_t \<Rightarrow> ij_file_sink_t" where
  "sink_meta sink = sink\<lparr>sk_stream := None, sk_fd := - 1, sk_uring := None\<rparr>"

text \<open>
  \<open>healthy os p sink\<close>: the back end holds an open handle on the file \<open>p\<close> and owes no earlier call
  anything; \<open>pending\<close>: the bytes it has accepted and not yet passed to the file.
\<close>

locale file_backend =
  fixes ops :: ij_file_sink_ops_t
    and healthy :: "os \<Rightarrow> byte list \<Rightarrow> ij_file_sink_t \<Rightarrow> bool"
    and pending :: "ij_file_sink_t \<Rightarrow> byte list"
  assumes open_law: "sk_path sink = Some p \<Longrightarrow> op_open ops os (Some sink) w = (st, s', w') \<Longrightarrow>
      \<exists>sink'. s' = Some sink' \<and> sink_meta sink' = sink_meta sink \<and>
        (\<forall>q. file_content w' q = file_content w q) \<and>
        (st = IJ_STATUS_OK \<longrightarrow> healthy os p sink' \<and> pending sink' = [])"
    and write_law: "healthy os p sink \<Longrightarrow> op_write ops os (Some sink) (Some b) n w = (st, s', w') \<Longrightarrow>
      \<exists>sink' more. s' = Some sink' \<and> sink_meta sink' = sink_meta sink \<and>
        (\<forall>q. q \<noteq> p \<longrightarrow> file_content w' q = file_content w q) \<and>
        file_content w' p @ pending sink' = file_content w p @ pending sink @ more \<and>
        (st = IJ_STATUS_OK \<longrightarrow> more = c_mem b n \<and> healthy os p sink')"
    and flush_law: "healthy os p sink \<Longrightarrow> op_flush ops os (Some sink) w = (st, s', w') \<Longrightarrow>
      \<exists>sink'. s' = Some sink' \<and> sink_meta sink' = sink_meta sink \<and> healthy os p sink' \<and>
        (\<forall>q. q \<noteq> p \<longrightarrow> file_content w' q = file_content w q) \<and>
        file_content w' p @ pending sink' = file_content w p @ pending sink \<and>
        (st = IJ_STATUS_OK \<longrightarrow> pending sink' = [])"
    and close_law: "healthy os p sink \<Longrightarrow> pending sink = [] \<Longrightarrow> op_close ops os (Some sink) w = (s', w') \<Longrightarrow>
      \<exists>sink'. s' = Some sink' \<and> sink_meta sink' = sink_meta sink \<and>
        (\<forall>q. file_content w' q = file_content w q)"
begin

text \<open>
  Writes one after the other, all accepted, then a flush: the file has grown by exactly the
  payloads.
\<close>

fun write_all :: "os \<Rightarrow> byte list list \<Rightarrow> ij_file_sink_t option \<Rightarrow> world \<Rightarrow> sink_result" where
  "write_all os [] s w = (IJ_STATUS_OK, s, w)"
| "write_all os (p # ps) s w =
     (case op_write ops os s (Some p) (length p) w of
        (st, s', w') \<Rightarrow> if st = IJ_STATUS_OK then write_all os ps s' w' else (st, s', w'))"

lemma write_all_ok:
  "healthy os p sink \<Longrightarrow> write_all os ps (Some sink) w = (IJ_STATUS_OK, s', w') \<Longrightarrow>
     \<exists>sink'. s' = Some sink' \<and> healthy os p sink' \<and>
       file_content w' p @ pending sink' = file_content w p @ pending sink @ concat ps"
proof (induction ps arbitrary: sink w)
  case (Cons b ps)
  obtain st s1 w1 where e: "op_write ops os (Some sink) (Some b) (length b) w = (st, s1, w1)"
    by (metis prod_cases3)
  with Cons.prems(2) have st: "st = IJ_STATUS_OK" "write_all os ps s1 w1 = (IJ_STATUS_OK, s', w')"
    by (auto split: if_splits)
  from write_law [OF Cons.prems(1) e] st(1) obtain sink1 where
    "s1 = Some sink1" "healthy os p sink1"
    "file_content w1 p @ pending sink1 = file_content w p @ pending sink @ b" by auto
  with Cons.IH [of sink1 w1] st(2) show ?case by auto
qed auto

end

section \<open>Both back ends keep the contract\<close>

definition sync_healthy :: "os \<Rightarrow> byte list \<Rightarrow> ij_file_sink_t \<Rightarrow> bool" where
  "sync_healthy os p sink \<longleftrightarrow> (\<exists>f. sk_stream sink = Some f \<and> fs_path f = p)"

definition sync_pending :: "ij_file_sink_t \<Rightarrow> byte list" where
  "sync_pending sink = (case sk_stream sink of None \<Rightarrow> [] | Some f \<Rightarrow> fs_pending f)"

text \<open>What the stream operations do to the file and the held bytes.\<close>

lemma fwrite_facts:
  "fwrite os bs f w = (m, f', w') \<Longrightarrow>
     fs_path f' = fs_path f \<and> m \<le> length bs \<and> (\<forall>q. q \<noteq> fs_path f \<longrightarrow> file_content w' q = file_content w q) \<and>
     file_content w' (fs_path f) @ fs_pending f' = file_content w (fs_path f) @ fs_pending f @ take m bs"
  unfolding fwrite_def Let_def by (elim Pair_inject) (auto simp del: take_append drop_append)

lemma fflush_facts:
  "fflush os f w = (ok, f', w') \<Longrightarrow>
     fs_path f' = fs_path f \<and> (\<forall>q. q \<noteq> fs_path f \<longrightarrow> file_content w' q = file_content w q) \<and>
     file_content w' (fs_path f) @ fs_pending f' = file_content w (fs_path f) @ fs_pending f \<and>
     (ok \<longrightarrow> fs_pending f' = [])"
  by (auto simp: fflush_def Let_def split: if_splits)

interpretation sync: file_backend IJ_FILE_SINK_SYNC_OPS sync_healthy sync_pending
proof
  fix sink :: ij_file_sink_t and p os w st s' w' b n
  note defs = sync_healthy_def sync_pending_def sink_meta_def IJ_FILE_SINK_SYNC_OPS_def
  show "\<exists>sink'. s' = Some sink' \<and> sink_meta sink' = sink_meta sink \<and>
        (\<forall>q. file_content w' q = file_content w q) \<and>
        (st = IJ_STATUS_OK \<longrightarrow> sync_healthy os p sink' \<and> sync_pending sink' = [])"
    if "sk_path sink = Some p" "op_open IJ_FILE_SINK_SYNC_OPS os (Some sink) w = (st, s', w')"
    using that by (auto simp: defs fopen_ab_def split: if_splits)
  show "\<exists>sink' more. s' = Some sink' \<and> sink_meta sink' = sink_meta sink \<and>
        (\<forall>q. q \<noteq> p \<longrightarrow> file_content w' q = file_content w q) \<and>
        file_content w' p @ sync_pending sink' = file_content w p @ sync_pending sink @ more \<and>
        (st = IJ_STATUS_OK \<longrightarrow> more = c_mem b n \<and> sync_healthy os p sink')"
    if h: "sync_healthy os p sink" and "op_write IJ_FILE_SINK_SYNC_OPS os (Some sink) (Some b) n w = (st, s', w')"
  proof -
    obtain f where f: "sk_stream sink = Some f" "fs_path f = p" using h by (auto simp: sync_healthy_def)
    obtain m f' w1 where fw: "fwrite os (c_mem b n) f w = (m, f', w1)" by (metis prod_cases3)
    note F = fwrite_facts [OF fw]
    show ?thesis
    proof (cases "n = 0")
      case True
      then show ?thesis using that(2) f by (simp add: defs) auto
    next
      case False
      then have "(st, s', w') = (if m \<noteq> n then IJ_STATUS_SINK_ERROR else IJ_STATUS_OK,
          Some (sink\<lparr>sk_stream := Some f'\<rparr>), w1)"
        using that(2) f fw by (auto simp: IJ_FILE_SINK_SYNC_OPS_def split: if_splits)
      then show ?thesis using F f by (auto simp: defs)
    qed
  qed
  show "\<exists>sink'. s' = Some sink' \<and> sink_meta sink' = sink_meta sink \<and> sync_healthy os p sink' \<and>
        (\<forall>q. q \<noteq> p \<longrightarrow> file_content w' q = file_content w q) \<and>
        file_content w' p @ sync_pending sink' = file_content w p @ sync_pending sink \<and>
        (st = IJ_STATUS_OK \<longrightarrow> sync_pending sink' = [])"
    if h: "sync_healthy os p sink" and "op_flush IJ_FILE_SINK_SYNC_OPS os (Some sink) w = (st, s', w')"
  proof -
    obtain f where f: "sk_stream sink = Some f" "fs_path f = p" using h by (auto simp: sync_healthy_def)
    obtain ok f' w1 where fl: "fflush os f w = (ok, f', w1)" by (metis prod_cases3)
    then show ?thesis using that(2) f fflush_facts [OF fl] by (auto simp: defs)
  qed
  show "\<exists>sink'. s' = Some sink' \<and> sink_meta sink' = sink_meta sink \<and>
        (\<forall>q. file_content w' q = file_content w q)"
    if h: "sync_healthy os p sink" "sync_pending sink = []"
      and "op_close IJ_FILE_SINK_SYNC_OPS os (Some sink) w = (s', w')"
  proof -
    obtain f where f: "sk_stream sink = Some f" "fs_path f = p" using h by (auto simp: sync_healthy_def)
    then show ?thesis using that(2,3) by (auto simp: defs fclose_def)
  qed
qed

definition uring_healthy :: "os \<Rightarrow> byte list \<Rightarrow> ij_file_sink_t \<Rightarrow> bool" where
  "uring_healthy os p sink \<longleftrightarrow>
     os_has_liburing os \<and> 0 \<le> sk_fd sink \<and>
     sk_uring sink = Some \<lparr>u_file = p, u_sq = [], u_cq = []\<rparr>"

definition no_pending :: "ij_file_sink_t \<Rightarrow> byte list" where
  "no_pending sink = []"

lemma drain_single:
  "ij_file_sink_uring_drain os (Some \<lparr>u_file = p, u_sq = [Live bs], u_cq = []\<rparr>) w =
     (let r = os_uring_result os (w_calls w + 1) (length bs);
          w2 = tick (file_append p (take (nat r) bs) (tick w)) in
      if os_uring_submit os (w_calls w) < 0
      then (os_uring_submit os (w_calls w), Some \<lparr>u_file = p, u_sq = [Live bs], u_cq = []\<rparr>, tick w)
      else if os_uring_wait os (w_calls w2) < 0
      then (os_uring_wait os (w_calls w2), Some \<lparr>u_file = p, u_sq = [], u_cq = [r]\<rparr>, tick w2)
      else (r, Some \<lparr>u_file = p, u_sq = [], u_cq = []\<rparr>, tick w2))"
  by (simp add: Let_def tick_def)

lemma uring_write_step:
  assumes "uring_healthy os p sink" "0 < n" "n \<le> UINT_MAX" "os_uring_sqe os (w_calls w)"
    and "ij_file_sink_uring_drain os (Some \<lparr>u_file = p, u_sq = [Live (c_mem b n)], u_cq = []\<rparr>) (tick w) =
      (rc, Some ring, w3)"
  shows "ij_file_sink_uring_write os (Some sink) (Some b) n w =
      (if rc < 0 \<or> nat rc \<noteq> n then IJ_STATUS_SINK_ERROR else IJ_STATUS_OK,
       Some (sink\<lparr>sk_uring := Some (ring\<lparr>u_sq := map forget_payload (u_sq ring)\<rparr>)\<rparr>), w3)"
  using assms by (simp add: uring_healthy_def Let_def del: ij_file_sink_uring_drain.simps)

lemma uring_write_healthy:
  assumes h: "uring_healthy os p sink"
    and e: "ij_file_sink_uring_write os (Some sink) (Some b) n w = (st, s', w')"
  shows "\<exists>sink' more. s' = Some sink' \<and> sink_meta sink' = sink_meta sink \<and>
        (\<forall>q. q \<noteq> p \<longrightarrow> file_content w' q = file_content w q) \<and>
        file_content w' p = file_content w p @ more \<and>
        (st = IJ_STATUS_OK \<longrightarrow> more = c_mem b n \<and> uring_healthy os p sink')"
proof (cases "n = 0 \<or> n > UINT_MAX \<or> \<not> os_uring_sqe os (w_calls w)")
  case True
  then have "st \<noteq> IJ_STATUS_OK \<and> s' = Some sink \<and> (w' = w \<or> w' = tick w)"
    using e h by (cases "n = 0"; cases "n > UINT_MAX") (auto simp: uring_healthy_def)
  then show ?thesis by auto
next
  case False
  then have n: "0 < n" "n \<le> UINT_MAX" "os_uring_sqe os (w_calls w)" by auto
  let ?bs = "c_mem b n"
  let ?r = "os_uring_result os (w_calls (tick w) + 1) n"
  let ?w2 = "tick (file_append p (take (nat ?r) ?bs) (tick (tick w)))"
  obtain rc u w3 where d: "ij_file_sink_uring_drain os (Some \<lparr>u_file = p, u_sq = [Live ?bs], u_cq = []\<rparr>) (tick w) =
      (rc, u, w3)" by (metis prod_cases3)
  then consider (nosubmit) ring where "rc < 0" "u = Some ring" "w3 = tick (tick w)"
    | (nowait) ring where "rc < 0" "u = Some ring" "w3 = tick ?w2"
    | (finished) "rc = ?r" "u = Some \<lparr>u_file = p, u_sq = [], u_cq = []\<rparr>" "w3 = tick ?w2"
    unfolding drain_single Let_def by (auto split: if_splits)
  then show ?thesis
  proof cases
    case nosubmit
    have "st \<noteq> IJ_STATUS_OK \<and> (\<exists>u'. s' = Some (sink\<lparr>sk_uring := u'\<rparr>)) \<and> w' = tick (tick w)"
      using uring_write_step [OF h n d [unfolded nosubmit(2)]] e nosubmit(1,3) by auto
    then show ?thesis by (auto simp: sink_meta_def)
  next
    case nowait
    have "st \<noteq> IJ_STATUS_OK \<and> (\<exists>u'. s' = Some (sink\<lparr>sk_uring := u'\<rparr>)) \<and> w' = tick ?w2"
      using uring_write_step [OF h n d [unfolded nowait(2)]] e nowait(1,3) by auto
    then show ?thesis by (auto simp: sink_meta_def)
  next
    case finished
    have "st = (if ?r < 0 \<or> nat ?r \<noteq> n then IJ_STATUS_SINK_ERROR else IJ_STATUS_OK) \<and>
        s' = Some (sink\<lparr>sk_uring := Some \<lparr>u_file = p, u_sq = [], u_cq = []\<rparr>\<rparr>) \<and> w' = tick ?w2"
      using uring_write_step [OF h n d [unfolded finished(2)]] e finished(1,3) by simp
    then show ?thesis using h by (auto simp: sink_meta_def uring_healthy_def)
  qed
qed

interpretation uring: file_backend IJ_FILE_SINK_IO_URING_OPS uring_healthy no_pending
proof
  fix sink :: ij_file_sink_t and p os w st s' w' b n
  note defs = uring_healthy_def no_pending_def sink_meta_def IJ_FILE_SINK_IO_URING_OPS_def
  show "\<exists>sink'. s' = Some sink' \<and> sink_meta sink' = sink_meta sink \<and>
        (\<forall>q. file_content w' q = file_content w q) \<and>
        (st = IJ_STATUS_OK \<longrightarrow> uring_healthy os p sink' \<and> no_pending sink' = [])"
    if "sk_path sink = Some p" "op_open IJ_FILE_SINK_IO_URING_OPS os (Some sink) w = (st, s', w')"
    using that by (auto simp: defs malloc_def Let_def split: if_splits)
  show "\<exists>sink' more. s' = Some sink' \<and> sink_meta sink' = sink_meta sink \<and>
        (\<forall>q. q \<noteq> p \<longrightarrow> file_content w' q = file_content w q) \<and>
        file_content w' p @ no_pending sink' = file_content w p @ no_pending sink @ more \<and>
        (st = IJ_STATUS_OK \<longrightarrow> more = c_mem b n \<and> uring_healthy os p sink')"
    if "uring_healthy os p sink" "op_write IJ_FILE_SINK_IO_URING_OPS os (Some sink) (Some b) n w = (st, s', w')"
    using uring_write_healthy [of os p sink b n w st s' w'] that
    by (simp add: no_pending_def IJ_FILE_SINK_IO_URING_OPS_def del: ij_file_sink_uring_write.simps)
  show "\<exists>sink'. s' = Some sink' \<and> sink_meta sink' = sink_meta sink \<and> uring_healthy os p sink' \<and>
        (\<forall>q. q \<noteq> p \<longrightarrow> file_content w' q = file_content w q) \<and>
        file_content w' p @ no_pending sink' = file_content w p @ no_pending sink \<and>
        (st = IJ_STATUS_OK \<longrightarrow> no_pending sink' = [])"
    if "uring_healthy os p sink" "op_flush IJ_FILE_SINK_IO_URING_OPS os (Some sink) w = (st, s', w')"
    using that by (auto simp: defs)
  show "\<exists>sink'. s' = Some sink' \<and> sink_meta sink' = sink_meta sink \<and>
        (\<forall>q. file_content w' q = file_content w q)"
    if "uring_healthy os p sink" "op_close IJ_FILE_SINK_IO_URING_OPS os (Some sink) w = (s', w')"
    using that by (auto simp: defs close_fd_def file_content_def tick_def)
qed

section \<open>Properties\<close>

definition sample_file_sink :: ij_file_sink_t where
  "sample_file_sink = zero_file_sink\<lparr>sk_path := Some [0x61], sk_stream := Some \<lparr>fs_path = [0x61], fs_pending = []\<rparr>\<rparr>"

text \<open>
  The synchronous back end loses and reorders nothing: when every write was accepted and a
  flush succeeds, the file holds what it held before, the bytes still in the stream's buffer and
  all payloads in order, whatever part of the buffer the C library passed on at each call.
\<close>

theorem sync_writes_then_flush:
  assumes "sync_healthy os p sink"
    and "file_backend.write_all IJ_FILE_SINK_SYNC_OPS os payloads (Some sink) w = (IJ_STATUS_OK, s1, w1)"
    and "ij_file_sink_sync_flush os s1 w1 = (IJ_STATUS_OK, s2, w2)"
  shows "file_content w2 p = file_content w p @ sync_pending sink @ concat payloads"
proof -
  obtain sink1 where s1: "s1 = Some sink1" "sync_healthy os p sink1"
    "file_content w1 p @ sync_pending sink1 = file_content w p @ sync_pending sink @ concat payloads"
    using sync.write_all_ok [OF assms(1,2)] by blast
  have "op_flush IJ_FILE_SINK_SYNC_OPS os (Some sink1) w1 = (IJ_STATUS_OK, s2, w2)"
    using assms(3) s1(1) by (simp add: IJ_FILE_SINK_SYNC_OPS_def)
  from sync.flush_law [OF s1(2) this] s1(3) show ?thesis by auto
qed

theorem sync_writes_then_flush_witness:
  "\<exists>s1 w1 s2 w2.
     file_backend.write_all IJ_FILE_SINK_SYNC_OPS short_writer [[0x78], [0x79]] (Some sample_file_sink) start_world =
       (IJ_STATUS_OK, s1, w1) \<and>
     ij_file_sink_sync_flush short_writer s1 w1 = (IJ_STATUS_OK, s2, w2) \<and>
     file_content w2 [0x61] = [0x78, 0x79]"
proof -
  let ?r1 = "file_backend.write_all IJ_FILE_SINK_SYNC_OPS short_writer [[0x78], [0x79]] (Some sample_file_sink) start_world"
  obtain st1 s1 w1 where r1: "?r1 = (st1, s1, w1)" by (metis prod_cases3)
  have h: "sync_healthy short_writer [0x61] sample_file_sink"
    by (simp add: sync_healthy_def sample_file_sink_def)
  have ok1: "st1 = IJ_STATUS_OK"
    using r1 unfolding sync.write_all.simps
    by (simp add: IJ_FILE_SINK_SYNC_OPS_def sample_file_sink_def fwrite_def Let_def short_writer_def)
  obtain sink1 f where s1: "s1 = Some sink1" "sk_stream sink1 = Some f"
    using sync.write_all_ok [OF h r1 [unfolded ok1]] by (auto simp: sync_healthy_def)
  obtain st2 s2 w2 where r2: "ij_file_sink_sync_flush short_writer s1 w1 = (st2, s2, w2)" by (metis prod_cases3)
  have ok2: "st2 = IJ_STATUS_OK" using r2 s1 by (auto simp: fflush_def short_writer_def)
  from sync_writes_then_flush [OF h r1 [unfolded ok1] r2 [unfolded ok2]]
  have "file_content w2 [0x61] = [0x78, 0x79]"
    by (simp add: sync_pending_def sample_file_sink_def start_world_def file_content_def)
  with r1 r2 ok1 ok2 show ?thesis by blast
qed

definition interrupted_uring :: os where
  "interrupted_uring = short_writer\<lparr>os_has_liburing := True,
     os_uring_result := (\<lambda>c k. if c < 4 then int k else - 28),
     os_uring_wait := (\<lambda>c. if c < 4 then - 4 else 0)\<rparr>"

definition sample_uring_sink :: ij_file_sink_t where
  "sample_uring_sink = zero_file_sink\<lparr>sk_path := Some [0x61], sk_fd := 3,
     sk_uring := Some \<lparr>u_file = [0x61], u_sq = [], u_cq = []\<rparr>\<rparr>"


end
