(* ===== verification/File_Sink.thy ===== *)
theory File_Sink
  imports File_Backend Json_Encode
begin

text \<open>
  The file sink, \<open>src/sinks/ij_file_sink.c\<close>: opening with the choice of a back end, writing with
  rotation by size and by age, retention of rotated files, flushing and closing.

  The central result is a refinement: the rotated files the sink remembers, the active file and
  the bytes still in the stream's buffer together are the log; a write that is accepted appends its
  payload to the log, across rotations, and only retention removes whole oldest segments.
\<close>

section \<open>Model\<close>

definition pad_decimal :: "nat \<Rightarrow> nat \<Rightarrow> byte list" where
  "pad_decimal width n = replicate (width - length (decimal n)) 0x30 @ decimal n"

text \<open>\<open>printf\<close>'s \<open>%0<width>d\<close>: the sign counts for the width.\<close>

definition pad_signed :: "nat \<Rightarrow> int \<Rightarrow> byte list" where
  "pad_signed width i =
     (if i < 0 then 0x2d # pad_decimal (width - 1) (nat (- i)) else pad_decimal width (nat i))"

definition deref :: "'a option \<Rightarrow> 'a \<Rightarrow> 'a" where
  "deref ptr old = (case ptr of None \<Rightarrow> old | Some x \<Rightarrow> x)"

lemma deref_Some [simp]: "deref (Some x) d = x"
  by (simp add: deref_def)

definition ij_file_sink_reset_rotation_cache :: "ij_file_sink_t \<Rightarrow> ij_file_sink_t" where
  "ij_file_sink_reset_rotation_cache sink = sink\<lparr>sk_rotated_paths := []\<rparr>"

definition ij_file_sink_store_path ::
  "os \<Rightarrow> ij_file_sink_t \<Rightarrow> byte list \<Rightarrow> world \<Rightarrow> ij_status_t \<times> ij_file_sink_t \<times> world" where
  "ij_file_sink_store_path os sink path w =
     (let (ok, w) = malloc os w in
      if \<not> ok then (IJ_STATUS_INTERNAL_ERROR, sink\<lparr>sk_path := None\<rparr>, w)
      else (IJ_STATUS_OK, sink\<lparr>sk_path := Some (c_text path)\<rparr>, w))"

definition ij_file_sink_strdup :: "os \<Rightarrow> byte list \<Rightarrow> world \<Rightarrow> byte list option \<times> world" where
  "ij_file_sink_strdup os value w =
     (let (ok, w) = malloc os w in (if ok then Some (c_text value) else None, w))"

definition ij_file_sink_record_rotation ::
  "os \<Rightarrow> ij_file_sink_t \<Rightarrow> byte list \<Rightarrow> world \<Rightarrow> ij_status_t \<times> ij_file_sink_t \<times> world" where
  "ij_file_sink_record_rotation os sink rotated_path w =
     (case ij_file_sink_strdup os rotated_path w of
        (None, w) \<Rightarrow> (IJ_STATUS_INTERNAL_ERROR, sink, w)
      | (Some path_copy, w) \<Rightarrow>
          (let (ok, w) = malloc os w in
           if \<not> ok then (IJ_STATUS_INTERNAL_ERROR, sink, w)
           else (IJ_STATUS_OK, sink\<lparr>sk_rotated_paths := sk_rotated_paths sink @ [path_copy]\<rparr>, w)))"

fun retention_loop :: "os \<Rightarrow> size_t \<Rightarrow> byte list list \<Rightarrow> world \<Rightarrow> byte list list \<times> world" where
  "retention_loop os retention_files [] w = ([], w)"
| "retention_loop os retention_files (obsolete_path # rest) w =
     (if retention_files > 0 \<and> length (obsolete_path # rest) > retention_files
      then retention_loop os retention_files rest (unlink os obsolete_path w)
      else (obsolete_path # rest, w))"

definition ij_file_sink_apply_retention :: "os \<Rightarrow> ij_file_sink_t \<Rightarrow> world \<Rightarrow> ij_file_sink_t \<times> world" where
  "ij_file_sink_apply_retention os sink w =
     (let (paths, w) = retention_loop os (sk_retention_files sink) (sk_rotated_paths sink) w
      in (sink\<lparr>sk_rotated_paths := paths\<rparr>, w))"

definition rotation_text :: "byte list \<Rightarrow> tm \<Rightarrow> nat \<Rightarrow> byte list" where
  "rotation_text path tm_utc next_sequence =
     path @ bytes ''.'' @ pad_signed 4 (tm_year tm_utc + 1900) @ pad_signed 2 (tm_mon tm_utc + 1) @
     pad_signed 2 (tm_mday tm_utc) @ bytes ''T'' @ pad_signed 2 (tm_hour tm_utc) @
     pad_signed 2 (tm_min tm_utc) @ pad_signed 2 (tm_sec tm_utc) @ bytes ''Z.'' @
     pad_decimal 6 next_sequence"

text \<open>The result is the status, the buffer and the world.\<close>

definition ij_file_sink_make_rotation_path ::
  "os \<Rightarrow> ij_file_sink_t option \<Rightarrow> size_t \<Rightarrow> world \<Rightarrow> ij_status_t \<times> byte list \<times> world" where
  "ij_file_sink_make_rotation_path os sink_ptr buffer_size w =
     (let (now, w) = time_now os w in
      case sink_ptr of
        None \<Rightarrow> (IJ_STATUS_INVALID_ARGUMENT, [], w)
      | Some sink \<Rightarrow>
          (case sk_path sink of
             None \<Rightarrow> (IJ_STATUS_INVALID_ARGUMENT, [], w)
           | Some path \<Rightarrow>
               if buffer_size = 0 then (IJ_STATUS_INVALID_ARGUMENT, [], w)
               else
                 (case gmtime_r now of
                    None \<Rightarrow> (IJ_STATUS_SINK_ERROR, [], w)
                  | Some tm_utc \<Rightarrow>
                      (let path_len = strlen path; next_sequence = unat (sk_rotation_sequence sink + 1);
                           (buffer, written) = snprintf buffer_size (rotation_text (c_text path) tm_utc next_sequence)
                       in if written \<le> 0 \<or> written \<ge> buffer_size \<or> written \<le> path_len
                          then (IJ_STATUS_SINK_ERROR, buffer, w)
                          else (IJ_STATUS_OK, buffer, w)))))"

definition ij_file_sink_rotation_due :: "os \<Rightarrow> ij_file_sink_t \<Rightarrow> size_t \<Rightarrow> world \<Rightarrow> bool \<times> world" where
  "ij_file_sink_rotation_due os sink next_payload_len w =
     (let (now, w) = time_now os w in
      if (sk_active_backend sink = IJ_FILE_BACKEND_SYNC \<and> sk_stream sink = None) \<or>
         (sk_active_backend sink = IJ_FILE_BACKEND_IO_URING \<and> sk_fd sink < 0) then (False, w)
      else if sk_rotate_bytes sink > 0 \<and> sk_bytes_written sink > 0 \<and>
              size_add (sk_bytes_written sink) next_payload_len > sk_rotate_bytes sink then (True, w)
      else if sk_rotate_interval_seconds sink > 0 \<and> sk_bytes_written sink > 0 \<and>
              now > sk_last_rotation_epoch sink \<and>
              nat (now - sk_last_rotation_epoch sink) \<ge> unat (sk_rotate_interval_seconds sink) then (True, w)
      else (False, w))"

fun ij_file_sink_rotate :: "os \<Rightarrow> ij_file_sink_t option \<Rightarrow> world \<Rightarrow> sink_result" where
  "ij_file_sink_rotate os None w = (IJ_STATUS_INVALID_ARGUMENT, None, w)"
| "ij_file_sink_rotate os (Some sink) w =
     (case sk_path sink of
        None \<Rightarrow> (IJ_STATUS_INVALID_ARGUMENT, Some sink, w)
      | Some path \<Rightarrow>
          (let ops = ij_file_sink_ops sink;
               (status, rotated_path, w) = ij_file_sink_make_rotation_path os (Some sink) 4096 w
           in if status \<noteq> IJ_STATUS_OK then (IJ_STATUS_SINK_ERROR, Some sink, w)
              else
                (let (status, sink_ptr, w) = op_flush ops os (Some sink) w in
                 if status \<noteq> IJ_STATUS_OK then (status, sink_ptr, w)
                 else
                   (let (sink_ptr, w) = op_close ops os sink_ptr w;
                        (renamed, w) = rename os (c_text path) (c_text rotated_path) w
                    in if \<not> renamed then (IJ_STATUS_SINK_ERROR, sink_ptr, w)
                       else
                         (let (status, sink, w) =
                                ij_file_sink_record_rotation os (deref sink_ptr sink) rotated_path w
                          in if status \<noteq> IJ_STATUS_OK then (IJ_STATUS_INTERNAL_ERROR, Some sink, w)
                             else
                               (let (now, w) = time_now os w;
                                    sink = sink\<lparr>sk_rotation_sequence := sk_rotation_sequence sink + 1,
                                                sk_bytes_written := 0, sk_last_rotation_epoch := now\<rparr>;
                                    (sink, w) = ij_file_sink_apply_retention os sink w
                                in op_open ops os (Some sink) w))))))"

fun ij_file_sink_close :: "os \<Rightarrow> ij_file_sink_t option \<Rightarrow> world \<Rightarrow> ij_file_sink_t option \<times> world" where
  "ij_file_sink_close os None w = (None, w)"
| "ij_file_sink_close os (Some sink) w =
     (let (sink_ptr, w) = op_close (ij_file_sink_ops sink) os (Some sink) w;
          sink = ij_file_sink_reset_rotation_cache (deref sink_ptr sink)
      in (Some (sink\<lparr>sk_path := None\<rparr>), w))"

text \<open>The last part of \<open>ij_file_sink_open\<close>, after a back end has been opened.\<close>

definition open_finish :: "os \<Rightarrow> ij_file_sink_t option \<Rightarrow> ij_file_sink_t \<Rightarrow> world \<Rightarrow> sink_result" where
  "open_finish os sink_ptr sink w =
     (let (now, w) = time_now os w
      in (IJ_STATUS_OK,
          Some ((deref sink_ptr sink)\<lparr>sk_bytes_written := 0, sk_rotation_sequence := 0,
                                      sk_last_rotation_epoch := now\<rparr>), w))"

fun ij_file_sink_open :: "os \<Rightarrow> ij_file_sink_t option \<Rightarrow> byte list option \<Rightarrow> world \<Rightarrow> sink_result" where
  "ij_file_sink_open os (Some sink) (Some path) w =
     (if c_at path 0 = 0 then (IJ_STATUS_INVALID_ARGUMENT, Some sink, w)
      else
        (let sink = zero_file_sink\<lparr>sk_fd := - 1, sk_requested_backend := sk_requested_backend sink\<rparr>;
             (status, sink, w) = ij_file_sink_store_path os sink path w
         in if status \<noteq> IJ_STATUS_OK then (status, Some sink, w)
            else if sk_requested_backend sink = IJ_FILE_BACKEND_IO_URING then
              (let sink = sink\<lparr>sk_active_backend := IJ_FILE_BACKEND_IO_URING\<rparr>;
                   (status, sink_ptr, w) = op_open (ij_file_sink_ops sink) os (Some sink) w
               in if status \<noteq> IJ_STATUS_OK then
                    (let sink = (deref sink_ptr sink)
                           \<lparr>sk_active_backend := IJ_FILE_BACKEND_SYNC, sk_fd := - 1, sk_uring := None\<rparr>;
                         (status, sink_ptr, w) = op_open (ij_file_sink_ops sink) os (Some sink) w
                     in if status \<noteq> IJ_STATUS_OK
                        then (let (sink_ptr, w) = ij_file_sink_close os sink_ptr w in (status, sink_ptr, w))
                        else open_finish os sink_ptr sink w)
                  else open_finish os sink_ptr sink w)
            else
              (let sink = sink\<lparr>sk_active_backend := IJ_FILE_BACKEND_SYNC\<rparr>;
                   (status, sink_ptr, w) = op_open (ij_file_sink_ops sink) os (Some sink) w
               in if status \<noteq> IJ_STATUS_OK
                  then (let (sink_ptr, w) = ij_file_sink_close os sink_ptr w in (status, sink_ptr, w))
                  else open_finish os sink_ptr sink w)))"
| "ij_file_sink_open os sink_ptr _ w = (IJ_STATUS_INVALID_ARGUMENT, sink_ptr, w)"

fun ij_file_sink_write ::
  "os \<Rightarrow> ij_file_sink_t option \<Rightarrow> byte list option \<Rightarrow> size_t \<Rightarrow> world \<Rightarrow> sink_result" where
  "ij_file_sink_write os (Some sink) (Some payload) payload_len w =
     (if payload_len = 0 then (IJ_STATUS_INVALID_ARGUMENT, Some sink, w)
      else
        (let ops = ij_file_sink_ops sink; (due, w) = ij_file_sink_rotation_due os sink payload_len w;
             (status, sink_ptr, w) =
               (if due then ij_file_sink_rotate os (Some sink) w else (IJ_STATUS_OK, Some sink, w))
         in if status \<noteq> IJ_STATUS_OK then (status, sink_ptr, w)
            else
              (let (status, sink_ptr, w) = op_write ops os sink_ptr (Some payload) payload_len w in
               if status = IJ_STATUS_OK
               then (status,
                     map_option (\<lambda>s. s\<lparr>sk_bytes_written := size_add (sk_bytes_written s) payload_len\<rparr>) sink_ptr,
                     w)
               else (status, sink_ptr, w))))"
| "ij_file_sink_write os sink_ptr _ payload_len w = (IJ_STATUS_INVALID_ARGUMENT, sink_ptr, w)"

fun ij_file_sink_flush :: "os \<Rightarrow> ij_file_sink_t option \<Rightarrow> world \<Rightarrow> sink_result" where
  "ij_file_sink_flush os None w = (IJ_STATUS_INVALID_ARGUMENT, None, w)"
| "ij_file_sink_flush os (Some sink) w = op_flush (ij_file_sink_ops sink) os (Some sink) w"

declare ij_file_sink_rotate.simps [simp del] ij_file_sink_write.simps [simp del] ij_file_sink_open.simps [simp del]

section \<open>Names of rotated files\<close>

lemma read_decimal_pad [simp]: "read_decimal (pad_decimal width n) = n"
proof -
  have "read_decimal (replicate k 0x30 @ bs) = read_decimal bs" for k bs
    by (induction k) (simp_all add: read_decimal_def)
  then show ?thesis by (simp add: pad_decimal_def)
qed

lemma pad_decimal_digits: "b \<in> set (pad_decimal width n) \<Longrightarrow> is_digit b"
  using decimal_digits by (auto simp: pad_decimal_def is_digit_def)

lemma rotation_text_sequence:
  "read_decimal (rev (takeWhile (\<lambda>b. b \<noteq> 0x2e) (rev (rotation_text p tm s)))) = s"
proof -
  have "\<not> is_digit 0x2e" by (simp add: is_digit_def)
  then have "\<forall>b\<in>set (rev (pad_decimal 6 s)). b \<noteq> 0x2e"
    using pad_decimal_digits by (metis set_rev)
  then have "takeWhile (\<lambda>b. b \<noteq> 0x2e) (rev (pad_decimal 6 s) @ 0x2e # rest) = rev (pad_decimal 6 s)" for rest
    by (subst takeWhile_append2) auto
  then show ?thesis by (simp add: rotation_text_def)
qed

lemma rotation_text_inject: "rotation_text p tm s = rotation_text p tm' s' \<Longrightarrow> s = s'"
  using rotation_text_sequence [of p tm s] rotation_text_sequence [of p tm' s'] by simp

lemma rotation_text_longer: "length p < length (rotation_text p tm s)"
  by (simp add: rotation_text_def)

lemma pad_signed_nonzero: "b \<in> set (pad_signed width i) \<Longrightarrow> b \<noteq> 0"
  using pad_decimal_digits by (fastforce simp: pad_signed_def is_digit_def split: if_splits)

lemma rotation_text_nonzero: "0 \<notin> set p \<Longrightarrow> 0 \<notin> set (rotation_text p tm s)"
  using pad_signed_nonzero pad_decimal_digits by (fastforce simp: rotation_text_def is_digit_def)

text \<open>
  The names a sink remembers: pairwise different, made from its path with sequence numbers up to
  its counter.
\<close>

definition names_ok :: "byte list \<Rightarrow> nat \<Rightarrow> byte list list \<Rightarrow> bool" where
  "names_ok p n names \<longleftrightarrow>
     distinct names \<and> (\<forall>q\<in>set names. \<exists>tm s. q = rotation_text p tm s \<and> s \<le> n)"

lemma names_ok_not_path: "names_ok p n names \<Longrightarrow> p \<notin> set names"
  by (auto simp: names_ok_def) (metis less_irrefl rotation_text_longer)

lemma names_ok_fresh: "names_ok p n names \<Longrightarrow> n < s \<Longrightarrow> rotation_text p tm s \<notin> set names"
  using rotation_text_inject by (fastforce simp: names_ok_def)

lemma names_ok_snoc: "names_ok p n names \<Longrightarrow> names_ok p (n + 1) (names @ [rotation_text p tm (n + 1)])"
  using names_ok_fresh [of p n names "n + 1" tm] by (fastforce simp: names_ok_def)

lemma names_ok_drop: "names_ok p n names \<Longrightarrow> names_ok p n (drop k names)"
  by (auto simp: names_ok_def dest: in_set_dropD)

lemma make_rotation_path_ok:
  assumes "ij_file_sink_make_rotation_path os (Some sink) room w = (IJ_STATUS_OK, buffer, w')"
    and "sk_path sink = Some p" "0 \<notin> set p"
  shows "w' = tick w \<and> (\<exists>tm. gmtime_r (os_time os (w_calls w)) = Some tm \<and>
           c_text buffer = rotation_text p tm (unat (sk_rotation_sequence sink + 1)))"
proof -
  obtain tm where tm: "gmtime_r (os_time os (w_calls w)) = Some tm" "w' = tick w" and
    fit: "length (rotation_text p tm (unat (sk_rotation_sequence sink + 1))) < room"
    and buf: "buffer = fst (snprintf room (rotation_text p tm (unat (sk_rotation_sequence sink + 1))))"
    using assms
    by (auto simp: ij_file_sink_make_rotation_path_def time_now_def Let_def snprintf_def c_text_id
        split: option.splits if_splits)
  have "c_text (t @ [0]) = t" if "0 \<notin> set t" for t :: "byte list"
    unfolding c_text_def using that by (subst takeWhile_append2) auto
  then have "c_text buffer = rotation_text p tm (unat (sk_rotation_sequence sink + 1))"
    using fit buf rotation_text_nonzero [OF assms(3)] by (simp add: snprintf_def)
  with tm show ?thesis by blast
qed

section \<open>Retention\<close>

lemma file_content_unlink: "q \<noteq> p \<Longrightarrow> file_content (unlink os p w) q = file_content w q"
  by (simp add: unlink_def file_content_def tick_def)

lemma retention_loop_result:
  "retention_loop os k names w = (names', w') \<Longrightarrow>
     names' = drop (if k = 0 then 0 else length names - k) names \<and>
     (\<forall>q. q \<notin> set (take (if k = 0 then 0 else length names - k) names) \<longrightarrow>
        file_content w' q = file_content w q)"
proof (induction names arbitrary: w)
  case (Cons p names)
  show ?case
  proof (cases "0 < k \<and> k < length (p # names)")
    case True
    then have "retention_loop os k names (unlink os p w) = (names', w')" using Cons.prems by simp
    from Cons.IH [OF this] True show ?thesis
      by (auto simp: Suc_diff_le file_content_unlink)
  next
    case False
    then show ?thesis using Cons.prems by auto
  qed
qed auto

section \<open>Rotation\<close>

lemma sink_meta_fields:
  assumes "sink_meta a = sink_meta b"
  shows "sk_path a = sk_path b" "sk_requested_backend a = sk_requested_backend b"
    "sk_active_backend a = sk_active_backend b" "sk_rotate_bytes a = sk_rotate_bytes b"
    "sk_rotate_interval_seconds a = sk_rotate_interval_seconds b"
    "sk_retention_files a = sk_retention_files b" "sk_bytes_written a = sk_bytes_written b"
    "sk_rotation_sequence a = sk_rotation_sequence b"
    "sk_last_rotation_epoch a = sk_last_rotation_epoch b" "sk_rotated_paths a = sk_rotated_paths b"
  using assms by (cases a; cases b; simp add: sink_meta_def)+

lemma rotate_steps:
  assumes "ij_file_sink_rotate os (Some sink) w = (IJ_STATUS_OK, s', w')" "sk_path sink = Some p"
  obtains rot w1 s2 w2 s3 w3 w4 sink5 w5 sink6 w6 where
    "ij_file_sink_make_rotation_path os (Some sink) 4096 w = (IJ_STATUS_OK, rot, w1)"
    "op_flush (ij_file_sink_ops sink) os (Some sink) w1 = (IJ_STATUS_OK, s2, w2)"
    "op_close (ij_file_sink_ops sink) os s2 w2 = (s3, w3)"
    "rename os (c_text p) (c_text rot) w3 = (True, w4)"
    "ij_file_sink_record_rotation os (deref s3 sink) rot w4 = (IJ_STATUS_OK, sink5, w5)"
    "ij_file_sink_apply_retention os (sink5\<lparr>sk_rotation_sequence := sk_rotation_sequence sink5 + 1,
       sk_bytes_written := 0, sk_last_rotation_epoch := os_time os (w_calls w5)\<rparr>) (tick w5) = (sink6, w6)"
    "op_open (ij_file_sink_ops sink) os (Some sink6) w6 = (IJ_STATUS_OK, s', w')"
  using assms
  by (auto simp: ij_file_sink_rotate.simps time_now_def Let_def split: prod.splits if_splits)

lemma rename_ok:
  "rename os old new w = (True, w') \<Longrightarrow>
     w_files w' = (w_files w)(old := None, new := w_files w old)"
  by (auto simp: rename_def tick_def split: option.splits if_splits)

lemma record_rotation_ok:
  "ij_file_sink_record_rotation os sink rot w = (IJ_STATUS_OK, sink', w') \<Longrightarrow>
     sink' = sink\<lparr>sk_rotated_paths := sk_rotated_paths sink @ [c_text rot]\<rparr> \<and> w' = tick (tick w)"
  by (auto simp: ij_file_sink_record_rotation_def ij_file_sink_strdup_def malloc_def split: if_splits)

lemma apply_retention_result:
  assumes "ij_file_sink_apply_retention os sink w = (sink', w')" "sk_rotated_paths sink = names"
    "k = (if sk_retention_files sink = 0 then 0 else length names - sk_retention_files sink)"
  shows "sink' = sink\<lparr>sk_rotated_paths := drop k names\<rparr> \<and>
     (\<forall>q. q \<notin> set (take k names) \<longrightarrow> file_content w' q = file_content w q)"
proof -
  obtain names' w1 where l: "retention_loop os (sk_retention_files sink) names w = (names', w1)" by fastforce
  then have "sink' = sink\<lparr>sk_rotated_paths := names'\<rparr>" "w' = w1"
    using assms(1,2) by (simp_all add: ij_file_sink_apply_retention_def)
  with retention_loop_result [OF l] show ?thesis unfolding assms(3) by blast
qed

text \<open>How many of the oldest rotated files retention removes.\<close>

definition retired :: "ij_file_sink_t \<Rightarrow> nat" where
  "retired sink =
     (if sk_retention_files sink = 0 then 0 else length (sk_rotated_paths sink) + 1 - sk_retention_files sink)"

text \<open>What a rotation leaves of a sink: a new segment is started, the old one is remembered.\<close>

definition rotated_sink :: "ij_file_sink_t \<Rightarrow> byte list \<Rightarrow> ij_file_sink_t \<Rightarrow> bool" where
  "rotated_sink sink new sink' \<longleftrightarrow>
     sk_path sink' = sk_path sink \<and> sk_active_backend sink' = sk_active_backend sink \<and>
     sk_rotate_bytes sink' = sk_rotate_bytes sink \<and> sk_retention_files sink' = sk_retention_files sink \<and>
     sk_bytes_written sink' = 0 \<and> sk_rotation_sequence sink' = sk_rotation_sequence sink + 1 \<and>
     sk_rotated_paths sink' = drop (retired sink) (sk_rotated_paths sink @ [new])"

lemma distinct_drop_take: "distinct xs \<Longrightarrow> x \<in> set (drop k xs) \<Longrightarrow> x \<notin> set (take k xs)"
  by (metis append_take_drop_id disjoint_iff distinct_append)

context file_backend
begin

lemma rotate_ok:
  assumes ops: "ij_file_sink_ops sink = ops" and path: "sk_path sink = Some p" "0 \<notin> set p"
    and h: "healthy os p sink"
    and names: "names_ok p (unat (sk_rotation_sequence sink)) (sk_rotated_paths sink)"
    and room: "unat (sk_rotation_sequence sink + 1) = unat (sk_rotation_sequence sink) + 1"
    and r: "ij_file_sink_rotate os (Some sink) w = (IJ_STATUS_OK, s', w')"
  shows "\<exists>sink' tm. gmtime_r (os_time os (w_calls w)) = Some tm \<and> s' = Some sink' \<and> healthy os p sink' \<and> pending sink' = [] \<and>
     rotated_sink sink (rotation_text p tm (unat (sk_rotation_sequence sink) + 1)) sink' \<and>
     file_content w' p = [] \<and>
     map (file_content w') (sk_rotated_paths sink') =
       drop (retired sink) (map (file_content w) (sk_rotated_paths sink) @ [file_content w p @ pending sink])"
proof -
  obtain rot w1 s2 w2 s3 w3 w4 sink5 w5 sink6 w6 where
    1: "ij_file_sink_make_rotation_path os (Some sink) 4096 w = (IJ_STATUS_OK, rot, w1)" and
    2: "op_flush ops os (Some sink) w1 = (IJ_STATUS_OK, s2, w2)" and
    3: "op_close ops os s2 w2 = (s3, w3)" and
    4: "rename os (c_text p) (c_text rot) w3 = (True, w4)" and
    5: "ij_file_sink_record_rotation os (deref s3 sink) rot w4 = (IJ_STATUS_OK, sink5, w5)" and
    6: "ij_file_sink_apply_retention os (sink5\<lparr>sk_rotation_sequence := sk_rotation_sequence sink5 + 1,
       sk_bytes_written := 0, sk_last_rotation_epoch := os_time os (w_calls w5)\<rparr>) (tick w5) = (sink6, w6)" and
    7: "op_open ops os (Some sink6) w6 = (IJ_STATUS_OK, s', w')"
    by (rule rotate_steps [OF r path(1), unfolded ops])
  obtain tm where m: "w1 = tick w" "c_text rot = rotation_text p tm (unat (sk_rotation_sequence sink) + 1)" and
    now: "gmtime_r (os_time os (w_calls w)) = Some tm"
    using make_rotation_path_ok [OF 1 path] unfolding room by blast
  define new where "new = rotation_text p tm (unat (sk_rotation_sequence sink) + 1)"
  have "length p < length new" unfolding new_def by (rule rotation_text_longer)
  then have new: "new \<notin> set (sk_rotated_paths sink)" "new \<noteq> p" "p \<notin> set (sk_rotated_paths sink)"
    using names_ok_fresh [OF names, of "unat (sk_rotation_sequence sink) + 1" tm] names_ok_not_path [OF names]
    by (auto simp: new_def)
  obtain sink2 where s2: "s2 = Some sink2" "sink_meta sink2 = sink_meta sink" "healthy os p sink2"
    "\<forall>q. q \<noteq> p \<longrightarrow> file_content w2 q = file_content w q" "file_content w2 p = file_content w p @ pending sink"
    "pending sink2 = []"
    using flush_law [OF h 2] m(1) by auto
  obtain sink3 where s3: "s3 = Some sink3" "sink_meta sink3 = sink_meta sink"
    "\<forall>q. file_content w3 q = file_content w2 q"
    using close_law [OF s2(3,6) 3 [unfolded s2(1)]] s2(2) by auto
  note meta = sink_meta_fields [OF s3(2)]
  have s5: "sink5 = sink3\<lparr>sk_rotated_paths := sk_rotated_paths sink @ [new]\<rparr>" "w5 = tick (tick w4)"
    using record_rotation_ok [OF 5] s3(1) m(2) meta by (simp_all add: new_def)
  have c4: "file_content w5 q = (if q = new then file_content w p @ pending sink
      else if q = p then [] else file_content w q)" for q
  proof -
    have "w_files w5 = (w_files w3)(p := None, new := w_files w3 p)"
      using rename_ok [OF 4] unfolding m(2) new_def [symmetric] c_text_id [OF path(2)]
      by (simp add: s5(2) tick_def)
    then have "file_content w5 q = (if q = new then file_content w3 p else if q = p then [] else file_content w3 q)"
      using new(2) by (simp add: file_content_def)
    then show ?thesis using s2(4,5) s3(3) by simp
  qed
  let ?all = "sk_rotated_paths sink @ [new]"
  have s6: "sink6 = sink5\<lparr>sk_rotation_sequence := sk_rotation_sequence sink5 + 1, sk_bytes_written := 0,
      sk_last_rotation_epoch := os_time os (w_calls w5), sk_rotated_paths := drop (retired sink) ?all\<rparr>"
    and c6: "q \<notin> set (take (retired sink) ?all) \<Longrightarrow> file_content w6 q = file_content w5 q" for q
  proof -
    let ?s = "sink5\<lparr>sk_rotation_sequence := sk_rotation_sequence sink5 + 1, sk_bytes_written := 0,
        sk_last_rotation_epoch := os_time os (w_calls w5)\<rparr>"
    have p: "sk_rotated_paths ?s = ?all"
      "retired sink = (if sk_retention_files ?s = 0 then 0 else length ?all - sk_retention_files ?s)"
      using s5(1) meta(6) by (simp_all add: retired_def)
    note R = apply_retention_result [OF 6 p, unfolded file_content_tick]
    show "sink6 = ?s\<lparr>sk_rotated_paths := drop (retired sink) ?all\<rparr>" by (rule conjunct1 [OF R])
    show "q \<notin> set (take (retired sink) ?all) \<Longrightarrow> file_content w6 q = file_content w5 q" for q
      using conjunct2 [OF R] by blast
  qed
  obtain sink' where s': "s' = Some sink'" "sink_meta sink' = sink_meta sink6"
    "\<forall>q. file_content w' q = file_content w6 q" "healthy os p sink'" "pending sink' = []"
    using open_law [OF _ 7, of p] s6 s5(1) meta(1) path(1) by auto
  have rs: "rotated_sink sink new sink'"
    using sink_meta_fields [OF s'(2)] meta s6 s5(1) by (simp add: rotated_sink_def)
  have dist: "distinct ?all" using names new by (simp add: names_ok_def)
  have "p \<notin> set ?all" using new by simp
  then have "p \<notin> set (take (retired sink) ?all)" by (meson in_set_takeD)
  then have cp: "file_content w' p = []" using s'(3) c6 c4 new(2) by simp
  have "file_content w' q = file_content w5 q" if "q \<in> set (drop (retired sink) ?all)" for q
    using s'(3) c6 distinct_drop_take [OF dist that] by simp
  then have "map (file_content w') (drop (retired sink) ?all) = map (file_content w5) (drop (retired sink) ?all)"
    by simp
  also have "\<dots> = drop (retired sink) (map (file_content w5) ?all)" by (rule drop_map [symmetric])
  also have "map (file_content w5) ?all = map (file_content w) (sk_rotated_paths sink) @ [file_content w p @ pending sink]"
    using new by (auto simp: c4)
  finally have "map (file_content w') (sk_rotated_paths sink') =
      drop (retired sink) (map (file_content w) (sk_rotated_paths sink) @ [file_content w p @ pending sink])"
    using rs by (simp only: rotated_sink_def)
  then show ?thesis
    using now s'(1,4,5) rs cp unfolding new_def by (intro exI [of _ sink'] exI [of _ tm]) simp
qed

end

section \<open>The sink as a log\<close>

definition sink_healthy :: "os \<Rightarrow> byte list \<Rightarrow> ij_file_sink_t \<Rightarrow> bool" where
  "sink_healthy os p sink =
     (if sk_active_backend sink = IJ_FILE_BACKEND_IO_URING then uring_healthy os p sink else sync_healthy os p sink)"

definition sink_pending :: "ij_file_sink_t \<Rightarrow> byte list" where
  "sink_pending sink = (if sk_active_backend sink = IJ_FILE_BACKEND_IO_URING then [] else sync_pending sink)"

text \<open>The segments of the log, oldest first, and the whole log.\<close>

definition log_segments :: "world \<Rightarrow> ij_file_sink_t \<Rightarrow> byte list list" where
  "log_segments w sink =
     (case sk_path sink of
        None \<Rightarrow> []
      | Some p \<Rightarrow> map (file_content w) (sk_rotated_paths sink) @ [file_content w p @ sink_pending sink])"

definition sink_log :: "world \<Rightarrow> ij_file_sink_t \<Rightarrow> byte list" where
  "sink_log w sink = concat (log_segments w sink)"

definition sink_inv :: "os \<Rightarrow> world \<Rightarrow> ij_file_sink_t \<Rightarrow> bool" where
  "sink_inv os w sink \<longleftrightarrow>
     (\<exists>p. sk_path sink = Some p \<and> 0 \<notin> set p \<and> sink_healthy os p sink \<and>
        names_ok p (unat (sk_rotation_sequence sink)) (sk_rotated_paths sink) \<and>
        sk_bytes_written sink \<le> length (file_content w p @ sink_pending sink) \<and>
        (sk_retention_files sink = 0 \<or> length (sk_rotated_paths sink) \<le> sk_retention_files sink))"

lemma sink_counters [simp]:
  "sink_healthy os p (sink\<lparr>sk_bytes_written := v\<rparr>) = sink_healthy os p sink"
  "sink_pending (sink\<lparr>sk_bytes_written := v\<rparr>) = sink_pending sink"
  by (simp_all add: sink_healthy_def sink_pending_def sync_healthy_def uring_healthy_def sync_pending_def)

text \<open>A sequence number that can still be counted up.\<close>

definition sequence_room :: "ij_file_sink_t \<Rightarrow> bool" where
  "sequence_room sink \<longleftrightarrow> unat (sk_rotation_sequence sink + 1) = unat (sk_rotation_sequence sink) + 1"

lemma sink_rotate_ok:
  assumes path: "sk_path sink = Some p" "0 \<notin> set p" and h: "sink_healthy os p sink"
    and names: "names_ok p (unat (sk_rotation_sequence sink)) (sk_rotated_paths sink)"
    and room: "sequence_room sink"
    and r: "ij_file_sink_rotate os (Some sink) w = (IJ_STATUS_OK, s', w')"
  shows "\<exists>sink' tm. gmtime_r (os_time os (w_calls w)) = Some tm \<and> s' = Some sink' \<and> sink_healthy os p sink' \<and> sink_pending sink' = [] \<and>
     rotated_sink sink (rotation_text p tm (unat (sk_rotation_sequence sink) + 1)) sink' \<and>
     file_content w' p = [] \<and>
     map (file_content w') (sk_rotated_paths sink') = drop (retired sink) (log_segments w sink)"
proof (cases "sk_active_backend sink = IJ_FILE_BACKEND_IO_URING")
  case True
  have "ij_file_sink_ops sink = IJ_FILE_SINK_IO_URING_OPS" using True by (simp add: ij_file_sink_ops_def)
  from uring.rotate_ok [OF this path _ names room [unfolded sequence_room_def] r] h True show ?thesis
    by (fastforce simp: sink_healthy_def sink_pending_def no_pending_def rotated_sink_def log_segments_def path)
next
  case False
  have "ij_file_sink_ops sink = IJ_FILE_SINK_SYNC_OPS" using False by (simp add: ij_file_sink_ops_def)
  from sync.rotate_ok [OF this path _ names room [unfolded sequence_room_def] r] h False show ?thesis
    by (fastforce simp: sink_healthy_def sink_pending_def rotated_sink_def log_segments_def path)
qed

lemma sink_op_write:
  assumes h: "sink_healthy os p sink"
    and e: "op_write (ij_file_sink_ops sink) os (Some sink) (Some b) n w = (IJ_STATUS_OK, s', w')"
  shows "\<exists>sink'. s' = Some sink' \<and> sink_meta sink' = sink_meta sink \<and> sink_healthy os p sink' \<and>
     (\<forall>q. q \<noteq> p \<longrightarrow> file_content w' q = file_content w q) \<and>
     file_content w' p @ sink_pending sink' = file_content w p @ sink_pending sink @ c_mem b n"
proof (cases "sk_active_backend sink = IJ_FILE_BACKEND_IO_URING")
  case True
  then obtain sink' where "s' = Some sink'" and m: "sink_meta sink' = sink_meta sink" and
    "uring_healthy os p sink'" "\<forall>q. q \<noteq> p \<longrightarrow> file_content w' q = file_content w q"
    "file_content w' p = file_content w p @ c_mem b n"
    using uring.write_law [of os p sink b n w IJ_STATUS_OK s' w'] h e
    by (auto simp: sink_healthy_def ij_file_sink_ops_def no_pending_def)
  with True sink_meta_fields [OF m] show ?thesis by (auto simp: sink_healthy_def sink_pending_def)
next
  case False
  then obtain sink' where "s' = Some sink'" and m: "sink_meta sink' = sink_meta sink" and
    "sync_healthy os p sink'" "\<forall>q. q \<noteq> p \<longrightarrow> file_content w' q = file_content w q"
    "file_content w' p @ sync_pending sink' = file_content w p @ sync_pending sink @ c_mem b n"
    using sync.write_law [of os p sink b n w IJ_STATUS_OK s' w'] h e
    by (auto simp: sink_healthy_def ij_file_sink_ops_def)
  with False sink_meta_fields [OF m] show ?thesis by (auto simp: sink_healthy_def sink_pending_def)
qed

lemma rotation_due_world: "snd (ij_file_sink_rotation_due os sink n w) = tick w"
  by (simp add: ij_file_sink_rotation_due_def time_now_def Let_def)

lemma rotation_not_due:
  assumes "sink_healthy os p sink" "\<not> fst (ij_file_sink_rotation_due os sink n w)"
  shows "sk_rotate_bytes sink = 0 \<or> sk_bytes_written sink = 0 \<or>
    size_add (sk_bytes_written sink) n \<le> sk_rotate_bytes sink"
proof -
  have "\<not> ((sk_active_backend sink = IJ_FILE_BACKEND_SYNC \<and> sk_stream sink = None) \<or>
      (sk_active_backend sink = IJ_FILE_BACKEND_IO_URING \<and> sk_fd sink < 0))"
    using assms(1) by (auto simp: sink_healthy_def sync_healthy_def uring_healthy_def split: if_splits)
  then show ?thesis
    using assms(2) by (auto simp: ij_file_sink_rotation_due_def time_now_def Let_def split: if_splits)
qed

text \<open>The steps of an accepted write.\<close>

lemma write_steps:
  assumes "ij_file_sink_write os (Some sink) (Some b) n w = (IJ_STATUS_OK, s', w')"
  obtains (plain) s2 where "0 < n" "\<not> fst (ij_file_sink_rotation_due os sink n w)"
      "op_write (ij_file_sink_ops sink) os (Some sink) (Some b) n (tick w) = (IJ_STATUS_OK, s2, w')"
      "s' = map_option (\<lambda>s. s\<lparr>sk_bytes_written := size_add (sk_bytes_written s) n\<rparr>) s2"
  | (rotated) s1 w1 s2 where "0 < n" "fst (ij_file_sink_rotation_due os sink n w)"
      "ij_file_sink_rotate os (Some sink) (tick w) = (IJ_STATUS_OK, s1, w1)"
      "op_write (ij_file_sink_ops sink) os s1 (Some b) n w1 = (IJ_STATUS_OK, s2, w')"
      "s' = map_option (\<lambda>s. s\<lparr>sk_bytes_written := size_add (sk_bytes_written s) n\<rparr>) s2"
proof -
  obtain due where d: "ij_file_sink_rotation_due os sink n w = (due, tick w)"
    by (metis rotation_due_world prod.collapse)
  have n: "0 < n"
  proof (rule ccontr)
    assume "\<not> 0 < n"
    then show False using assms by (simp add: ij_file_sink_write.simps)
  qed
  obtain st1 s1 w1 where r: "(if due then ij_file_sink_rotate os (Some sink) (tick w)
      else (IJ_STATUS_OK, Some sink, tick w)) = (st1, s1, w1)" by (metis prod_cases3)
  obtain st2 s2 w2 where e: "op_write (ij_file_sink_ops sink) os s1 (Some b) n w1 = (st2, s2, w2)"
    by (metis prod_cases3)
  have res: "(if st1 \<noteq> IJ_STATUS_OK then (st1, s1, w1)
      else if st2 = IJ_STATUS_OK
      then (st2, map_option (\<lambda>s. s\<lparr>sk_bytes_written := size_add (sk_bytes_written s) n\<rparr>) s2, w2)
      else (st2, s2, w2)) = (IJ_STATUS_OK, s', w')"
  proof -
    have eq: "ij_file_sink_write os (Some sink) (Some b) n w =
      (if st1 \<noteq> IJ_STATUS_OK then (st1, s1, w1)
       else if st2 = IJ_STATUS_OK
       then (st2, map_option (\<lambda>s. s\<lparr>sk_bytes_written := size_add (sk_bytes_written s) n\<rparr>) s2, w2)
       else (st2, s2, w2))"
      unfolding ij_file_sink_write.simps Let_def d split_conv r e using n by simp
    show ?thesis using assms unfolding eq .
  qed
  then have ok: "st1 = IJ_STATUS_OK" "st2 = IJ_STATUS_OK" "w2 = w'"
    "s' = map_option (\<lambda>s. s\<lparr>sk_bytes_written := size_add (sk_bytes_written s) n\<rparr>) s2"
    by (auto split: if_splits)
  show thesis
  proof (cases due)
    case True
    show thesis by (rule rotated [OF n]) (use d r e ok True in auto)
  next
    case False
    show thesis by (rule plain [OF n]) (use d r e ok False in auto)
  qed
qed

lemma size_add_le: "size_add a b \<le> a + b"
  by (simp add: size_add_def)

text \<open>
  An accepted write keeps the invariant and appends its payload to the log; a rotation in between
  lets retention drop whole oldest segments and nothing else.
\<close>

lemma file_sink_write_ok:
  assumes inv: "sink_inv os w sink" and room: "sequence_room sink"
    and e: "ij_file_sink_write os (Some sink) (Some b) n w = (IJ_STATUS_OK, s', w')"
  shows "\<exists>sink' k. s' = Some sink' \<and> sink_inv os w' sink' \<and>
     sink_log w' sink' = concat (drop k (log_segments w sink)) @ c_mem b n \<and> k \<le> retired sink \<and>
     sk_retention_files sink' = sk_retention_files sink \<and> sk_rotate_bytes sink' = sk_rotate_bytes sink \<and>
     sk_path sink' = sk_path sink \<and> sk_active_backend sink' = sk_active_backend sink \<and>
     (sk_rotate_bytes sink > 0 \<longrightarrow> sk_bytes_written sink' \<le> sk_rotate_bytes sink \<or> sk_bytes_written sink' \<le> n)"
proof -
  obtain p where path: "sk_path sink = Some p" "0 \<notin> set p" and h: "sink_healthy os p sink" and
    names: "names_ok p (unat (sk_rotation_sequence sink)) (sk_rotated_paths sink)" and
    size: "sk_bytes_written sink \<le> length (file_content w p @ sink_pending sink)" and
    ret: "sk_retention_files sink = 0 \<or> length (sk_rotated_paths sink) \<le> sk_retention_files sink"
    using inv by (auto simp: sink_inv_def)
  from e show ?thesis
  proof (cases rule: write_steps)
    case (plain s2)
    obtain sink2 where s2: "s2 = Some sink2" and m: "sink_meta sink2 = sink_meta sink" and
      h2: "sink_healthy os p sink2" and c: "\<forall>q. q \<noteq> p \<longrightarrow> file_content w' q = file_content w q"
      "file_content w' p @ sink_pending sink2 = file_content w p @ sink_pending sink @ c_mem b n"
      using sink_op_write [OF h plain(3)] by auto
    note M = sink_meta_fields [OF m]
    define sink' where "sink' = sink2\<lparr>sk_bytes_written := size_add (sk_bytes_written sink) n\<rparr>"
    have s': "s' = Some sink'" using plain(4) s2 M by (simp add: sink'_def)
    have F: "sink_healthy os p sink'" "sink_pending sink' = sink_pending sink2"
      using h2 by (simp_all add: sink'_def)
    have "p \<notin> set (sk_rotated_paths sink)" by (rule names_ok_not_path [OF names])
    then have "map (file_content w') (sk_rotated_paths sink) = map (file_content w) (sk_rotated_paths sink)"
      using c(1) by auto
    then have log: "sink_log w' sink' = concat (drop 0 (log_segments w sink)) @ c_mem b n"
      using M path F c(2) by (simp add: sink_log_def log_segments_def sink'_def cong: map_cong)
    have "length (file_content w' p @ sink_pending sink') = length (file_content w p @ sink_pending sink) + n"
      using F(2) c(2) by simp
    then have inv': "sink_inv os w' sink'"
      using path F(1) names size ret M size_add_le [of "sk_bytes_written sink" n]
      by (auto simp: sink_inv_def sink'_def)
    show ?thesis
      using s' inv' log M rotation_not_due [OF h plain(2)] size_add_le [of 0 n]
      by (intro exI [of _ sink'] exI [of _ 0]) (auto simp: sink'_def)
  next
    case (rotated s1 w1 s2)
    obtain sink1 tm where s1: "s1 = Some sink1" "sink_healthy os p sink1" "sink_pending sink1 = []" and
      rs: "rotated_sink sink (rotation_text p tm (unat (sk_rotation_sequence sink) + 1)) sink1" and
      c1: "file_content w1 p = []"
        "map (file_content w1) (sk_rotated_paths sink1) = drop (retired sink) (log_segments (tick w) sink)"
      using sink_rotate_ok [OF path h names room rotated(3)] by blast
    have ops: "ij_file_sink_ops sink = ij_file_sink_ops sink1"
      using rs by (simp add: ij_file_sink_ops_def rotated_sink_def)
    obtain sink2 where s2: "s2 = Some sink2" and m: "sink_meta sink2 = sink_meta sink1" and
      h2: "sink_healthy os p sink2" and c: "\<forall>q. q \<noteq> p \<longrightarrow> file_content w' q = file_content w1 q"
      "file_content w' p @ sink_pending sink2 = c_mem b n"
      using sink_op_write [OF s1(2) rotated(4) [unfolded ops s1(1)]] c1(1) s1(3) by auto
    note M = sink_meta_fields [OF m]
    define sink' where "sink' = sink2\<lparr>sk_bytes_written := size_add 0 n\<rparr>"
    have s': "s' = Some sink'" using rotated(5) s2 M rs by (simp add: sink'_def rotated_sink_def)
    have F: "sink_healthy os p sink'" "sink_pending sink' = sink_pending sink2"
      using h2 by (simp_all add: sink'_def)
    have names1: "names_ok p (unat (sk_rotation_sequence sink1)) (sk_rotated_paths sink1)"
      using names_ok_drop [OF names_ok_snoc [OF names]] rs room
      by (simp add: rotated_sink_def sequence_room_def)
    then have "p \<notin> set (sk_rotated_paths sink1)" by (rule names_ok_not_path)
    then have "map (file_content w') (sk_rotated_paths sink1) = map (file_content w1) (sk_rotated_paths sink1)"
      using c(1) by auto
    moreover have "log_segments (tick w) sink = log_segments w sink"
      by (simp add: log_segments_def split: option.split)
    ultimately have log: "sink_log w' sink' = concat (drop (retired sink) (log_segments w sink)) @ c_mem b n"
      using M path F c(2) c1(2) rs
      by (simp add: sink_log_def log_segments_def [of w'] sink'_def rotated_sink_def cong: map_cong)
    have len: "length (sk_rotated_paths sink1) = length (sk_rotated_paths sink) + 1 - retired sink"
      using rs by (simp add: rotated_sink_def)
    have "length (file_content w' p @ sink_pending sink') = n" using F(2) c(2) by simp
    then have inv': "sink_inv os w' sink'"
      using path F(1) names1 ret M rs size_add_le [of 0 n] len
      by (auto simp: sink_inv_def sink'_def rotated_sink_def retired_def)
    show ?thesis
      using s' inv' log M rs size_add_le [of 0 n]
      by (intro exI [of _ sink'] exI [of _ "retired sink"]) (auto simp: sink'_def rotated_sink_def)
  qed
qed

section \<open>Opening\<close>

text \<open>What a back end's open gives, for the back end the sink has chosen.\<close>

lemma sink_op_open:
  assumes path: "sk_path sink = Some p" and e: "op_open (ij_file_sink_ops sink) os (Some sink) w = (st, s', w')"
  shows "\<exists>sink'. s' = Some sink' \<and> sink_meta sink' = sink_meta sink \<and> file_content w' = file_content w \<and>
     (st = IJ_STATUS_OK \<longrightarrow> sink_healthy os p sink' \<and> sink_pending sink' = [])"
proof (cases "sk_active_backend sink = IJ_FILE_BACKEND_IO_URING")
  case True
  then obtain sink' where "s' = Some sink'" and m: "sink_meta sink' = sink_meta sink" and
    "\<forall>q. file_content w' q = file_content w q" "st = IJ_STATUS_OK \<longrightarrow> uring_healthy os p sink'"
    using uring.open_law [OF path] e by (fastforce simp: ij_file_sink_ops_def)
  with True sink_meta_fields [OF m] show ?thesis by (auto simp: sink_healthy_def sink_pending_def)
next
  case False
  then obtain sink' where "s' = Some sink'" and m: "sink_meta sink' = sink_meta sink" and
    "\<forall>q. file_content w' q = file_content w q" "st = IJ_STATUS_OK \<longrightarrow> sync_healthy os p sink' \<and> sync_pending sink' = []"
    using sync.open_law [OF path] e by (fastforce simp: ij_file_sink_ops_def)
  with False sink_meta_fields [OF m] show ?thesis by (auto simp: sink_healthy_def sink_pending_def)
qed

lemma open_finish_inv:
  assumes "sk_path sink = Some p" "0 \<notin> set p" "sink_healthy os p sink" "sink_pending sink = []"
    and "sk_rotated_paths sink = []"
  shows "\<exists>sink' w'. open_finish os (Some sink) old w = (IJ_STATUS_OK, Some sink', w') \<and> sink_inv os w' sink' \<and>
     sink_log w' sink' = file_content w p \<and> sk_bytes_written sink' = 0 \<and> sk_rotation_sequence sink' = 0 \<and>
     sk_path sink' = Some p \<and> sk_active_backend sink' = sk_active_backend sink \<and> sk_rotated_paths sink' = []"
  using assms
  by (auto simp: open_finish_def time_now_def sink_inv_def sink_healthy_def sink_pending_def sync_healthy_def
      uring_healthy_def sync_pending_def sink_log_def log_segments_def names_ok_def)

definition fresh_sink :: "ij_file_sink_t \<Rightarrow> byte list \<Rightarrow> ij_file_backend_t \<Rightarrow> ij_file_sink_t" where
  "fresh_sink sink path backend =
     zero_file_sink\<lparr>sk_fd := - 1, sk_requested_backend := sk_requested_backend sink,
       sk_path := Some (c_text path), sk_active_backend := backend\<rparr>"

text \<open>The steps of a successful open: one back end is open, the second one only as a fallback.\<close>

lemma open_steps:
  assumes "ij_file_sink_open os (Some sink) (Some path) w = (IJ_STATUS_OK, s', w')"
  obtains (direct) backend s1 w1 where
      "backend = (if sk_requested_backend sink = IJ_FILE_BACKEND_IO_URING then IJ_FILE_BACKEND_IO_URING
         else IJ_FILE_BACKEND_SYNC)"
      "op_open (ij_file_sink_ops (fresh_sink sink path backend)) os (Some (fresh_sink sink path backend)) (tick w) =
         (IJ_STATUS_OK, s1, w1)"
      "(IJ_STATUS_OK, s', w') = open_finish os s1 (fresh_sink sink path backend) w1"
  | (fallback) s1 w1 sink1 s2 w2 st1 where
      "sk_requested_backend sink = IJ_FILE_BACKEND_IO_URING" "st1 \<noteq> IJ_STATUS_OK"
      "op_open (ij_file_sink_ops (fresh_sink sink path IJ_FILE_BACKEND_IO_URING)) os
         (Some (fresh_sink sink path IJ_FILE_BACKEND_IO_URING)) (tick w) = (st1, s1, w1)"
      "sink1 = (deref s1 (fresh_sink sink path IJ_FILE_BACKEND_IO_URING))
         \<lparr>sk_active_backend := IJ_FILE_BACKEND_SYNC, sk_fd := - 1, sk_uring := None\<rparr>"
      "op_open (ij_file_sink_ops sink1) os (Some sink1) w1 = (IJ_STATUS_OK, s2, w2)"
      "(IJ_STATUS_OK, s', w') = open_finish os s2 sink1 w2"
  using assms
  by (auto simp: ij_file_sink_open.simps ij_file_sink_store_path_def malloc_def fresh_sink_def Let_def
      split: if_splits prod.splits)

lemma file_sink_open_ok:
  assumes e: "ij_file_sink_open os (Some sink) (Some path) w = (IJ_STATUS_OK, s', w')"
  shows "\<exists>sink'. s' = Some sink' \<and> sink_inv os w' sink' \<and> sink_log w' sink' = file_content w (c_text path) \<and>
     sk_bytes_written sink' = 0 \<and> sk_rotation_sequence sink' = 0 \<and> sk_path sink' = Some (c_text path) \<and>
     sk_rotated_paths sink' = [] \<and>
     (sk_active_backend sink' = IJ_FILE_BACKEND_IO_URING \<longrightarrow> sk_requested_backend sink = IJ_FILE_BACKEND_IO_URING)"
proof -
  have nz: "0 \<notin> set (c_text path)" using c_text_nonzero by blast
  from e show ?thesis
  proof (cases rule: open_steps)
    case (direct backend s1 w1)
    let ?f = "fresh_sink sink path backend"
    have "sk_path ?f = Some (c_text path)" by (simp add: fresh_sink_def)
    from sink_op_open [OF this direct(2)] obtain sink1 where s1: "s1 = Some sink1" and
      m: "sink_meta sink1 = sink_meta ?f" and "file_content w1 = file_content (tick w)"
      "sink_healthy os (c_text path) sink1" "sink_pending sink1 = []" by auto
    with open_finish_inv [of sink1 "c_text path" os ?f w1] nz sink_meta_fields [OF m] direct(1,3)
    show ?thesis by (auto simp: fresh_sink_def zero_file_sink_def)
  next
    case (fallback s1 w1 sink1 s2 w2 st1)
    let ?f = "fresh_sink sink path IJ_FILE_BACKEND_IO_URING"
    have "sk_path ?f = Some (c_text path)" by (simp add: fresh_sink_def)
    from sink_op_open [OF this fallback(3)] obtain sinkx where sx: "s1 = Some sinkx" and
      m: "sink_meta sinkx = sink_meta ?f" and c1: "file_content w1 = file_content (tick w)" by auto
    have f1: "sk_path sink1 = Some (c_text path)" "sk_rotated_paths sink1 = []"
      using sink_meta_fields [OF m] fallback(4) sx by (simp_all add: fresh_sink_def zero_file_sink_def)
    from sink_op_open [OF f1(1) fallback(5)] obtain sink2 where s2: "s2 = Some sink2" and
      m2: "sink_meta sink2 = sink_meta sink1" and "file_content w2 = file_content w1"
      "sink_healthy os (c_text path) sink2" "sink_pending sink2 = []" by auto
    with open_finish_inv [of sink2 "c_text path" os sink1 w2] nz sink_meta_fields [OF m2] f1 c1 fallback(1,6)
    show ?thesis by auto
  qed
qed

section \<open>A sink whose stream is gone\<close>

lemma dead_sink_write:
  assumes "sk_active_backend sink = IJ_FILE_BACKEND_SYNC" "sk_stream sink = None" "0 < n"
  shows "ij_file_sink_write os (Some sink) (Some b) n w = (IJ_STATUS_INVALID_ARGUMENT, Some sink, tick w)"
proof -
  have "ij_file_sink_rotation_due os sink n w = (False, tick w)"
    using assms by (simp add: ij_file_sink_rotation_due_def time_now_def)
  then show ?thesis
    using assms by (simp add: ij_file_sink_write.simps ij_file_sink_ops_def IJ_FILE_SINK_SYNC_OPS_def)
qed

lemma rotate_rename_fails:
  assumes "sk_active_backend sink = IJ_FILE_BACKEND_SYNC" "sk_stream sink = Some f" "sk_path sink = Some p"
    and "fst (ij_file_sink_make_rotation_path os (Some sink) 4096 w) = IJ_STATUS_OK"
    and "\<And>c. os_fflush os c" "\<And>c. \<not> os_rename os c"
  shows "\<exists>w'. ij_file_sink_rotate os (Some sink) w = (IJ_STATUS_SINK_ERROR, Some (sink\<lparr>sk_stream := None\<rparr>), w')"
proof -
  obtain rot w1 where m: "ij_file_sink_make_rotation_path os (Some sink) 4096 w = (IJ_STATUS_OK, rot, w1)"
    using assms(4) by (metis prod.collapse)
  have r: "\<exists>w'. rename os old new w2 = (False, w')" for old new w2
    using assms(6) by (simp add: rename_def split: option.split)
  obtain f2 w2 where fl: "fflush os f w1 = (True, f2, w2)" using assms(5) by (simp add: fflush_def)
  from r obtain w3 where "rename os (c_text p) (c_text rot) (fclose os f2 w2) = (False, w3)" by blast
  then show ?thesis
    using assms(1-3) m fl
    by (simp add: ij_file_sink_rotate.simps ij_file_sink_ops_def IJ_FILE_SINK_SYNC_OPS_def)
qed

section \<open>The file sink as a sink of records\<close>

text \<open>
  Without retention the whole log is kept. The state is the sink and the world; the counter of
  rotations has 64 bits and a sink that has used them all up is not written to any more.
\<close>

fun file_emit :: "os \<Rightarrow> byte list \<Rightarrow> ij_file_sink_t \<times> world \<Rightarrow> ij_status_t \<times> (ij_file_sink_t \<times> world)" where
  "file_emit os payload (sink, w) =
     (if sequence_room sink then
        (case ij_file_sink_write os (Some sink) (Some payload) (length payload) w of
           (st, s', w') \<Rightarrow> (st, (deref s' sink, w')))
      else (IJ_STATUS_INTERNAL_ERROR, (sink, w)))"

interpretation filelog: record_sink
  "\<lambda>(sink, w). sink_inv os w sink \<and> sk_retention_files sink = 0" "file_emit os"
  "\<lambda>(sink, w). sink_log w sink" "\<lambda>p. p" for os
proof
  fix s :: "ij_file_sink_t \<times> world" and payload s'
  assume inv: "case s of (sink, w) \<Rightarrow> sink_inv os w sink \<and> sk_retention_files sink = 0"
    and e: "file_emit os payload s = (IJ_STATUS_OK, s')"
  obtain sink w where s: "s = (sink, w)" by fastforce
  obtain s1 w1 where wr: "ij_file_sink_write os (Some sink) (Some payload) (length payload) w = (IJ_STATUS_OK, s1, w1)"
    and s': "s' = (deref s1 sink, w1)" and room: "sequence_room sink"
    using e s by (auto split: if_splits prod.splits)
  have "sink_inv os w sink" "retired sink = 0" using inv s by (simp_all add: retired_def)
  with file_sink_write_ok [OF _ room wr] inv s s' show
    "(case s' of (sink, w) \<Rightarrow> sink_inv os w sink \<and> sk_retention_files sink = 0) \<and>
     (case s' of (sink, w) \<Rightarrow> sink_log w sink) = (case s of (sink, w) \<Rightarrow> sink_log w sink) @ payload"
    by (auto simp: sink_log_def)
qed

section \<open>Properties\<close>

text \<open>
  Refinement of the file sink to a log: an accepted \<open>ij_file_sink_write\<close> keeps the sink's
  invariant and appends exactly its payload to the log made of the remembered rotated files, the
  active file and the stream's buffer. A rotation on the way moves the active file and starts a
  new one without losing a byte; only retention drops whole oldest segments, and none when it is
  switched off. This holds for both back ends and every answer of the system.
\<close>

theorem file_sink_write_refines_log:
  assumes "sink_inv os w sink" and "sequence_room sink"
    and "ij_file_sink_write os (Some sink) (Some payload) n w = (IJ_STATUS_OK, s', w')"
  shows "\<exists>sink' k. s' = Some sink' \<and> sink_inv os w' sink' \<and>
           sink_log w' sink' = concat (drop k (log_segments w sink)) @ c_mem payload n \<and>
           (sk_retention_files sink = 0 \<longrightarrow> sink_log w' sink' = sink_log w sink @ c_mem payload n)"
proof -
  obtain sink' k where r: "s' = Some sink'" "sink_inv os w' sink'"
    "sink_log w' sink' = concat (drop k (log_segments w sink)) @ c_mem payload n" "k \<le> retired sink"
    using file_sink_write_ok [OF assms] by blast
  then have "k = 0" if "sk_retention_files sink = 0" using that by (simp add: retired_def)
  with r show ?thesis by (auto simp: sink_log_def)
qed

definition small_sink :: ij_file_sink_t where
  "small_sink = zero_file_sink\<lparr>sk_path := Some [0x61], sk_fd := - 1, sk_active_backend := IJ_FILE_BACKEND_SYNC,
     sk_stream := Some \<lparr>fs_path = [0x61], fs_pending = [0x78]\<rparr>, sk_bytes_written := 1, sk_rotate_bytes := 1,
     sk_retention_files := 1\<rparr>"

lemma small_sink_inv: "sink_inv short_writer start_world small_sink" "sequence_room small_sink"
  by (simp_all add: sink_inv_def small_sink_def zero_file_sink_def sink_healthy_def sync_healthy_def
      sink_pending_def sync_pending_def names_ok_def sequence_room_def)

definition quiet_sink :: ij_file_sink_t where
  "quiet_sink = small_sink\<lparr>sk_rotate_bytes := 100, sk_retention_files := 0\<rparr>"

lemma quiet_sink_inv: "sink_inv short_writer start_world quiet_sink" "sequence_room quiet_sink"
  by (simp_all add: quiet_sink_def small_sink_def sink_inv_def zero_file_sink_def sink_healthy_def
      sync_healthy_def sink_pending_def sync_pending_def names_ok_def sequence_room_def)

lemma quiet_sink_write:
  "fst (ij_file_sink_write short_writer (Some quiet_sink) (Some [0x79]) 1 start_world) = IJ_STATUS_OK"
  by (simp add: ij_file_sink_write.simps ij_file_sink_rotation_due_def time_now_def quiet_sink_def small_sink_def
      zero_file_sink_def ij_file_sink_ops_def IJ_FILE_SINK_SYNC_OPS_def fwrite_def Let_def short_writer_def
      size_add_def SIZE_MODULUS_def)

lemma quiet_sink_log: "sink_log start_world quiet_sink = [0x78]" "sk_retention_files quiet_sink = 0"
  by (simp_all add: sink_log_def log_segments_def quiet_sink_def small_sink_def zero_file_sink_def
      sink_pending_def sync_pending_def file_content_def start_world_def)

theorem file_sink_write_refines_log_witness:
  "\<exists>sink' w'. ij_file_sink_write short_writer (Some quiet_sink) (Some [0x79]) 1 start_world =
      (IJ_STATUS_OK, Some sink', w') \<and> sink_log w' sink' = [0x78, 0x79]"
proof -
  obtain s' w' where e: "ij_file_sink_write short_writer (Some quiet_sink) (Some [0x79]) 1 start_world =
      (IJ_STATUS_OK, s', w')"
    using quiet_sink_write by (metis prod.collapse)
  from file_sink_write_refines_log [OF quiet_sink_inv e] e show ?thesis
    by (auto simp: quiet_sink_log c_mem_def)
qed



text \<open>
  A successful \<open>ij_file_sink_open\<close> establishes the invariant with the content the file already
  had as the log; \<open>io_uring\<close> is used only when it was requested, a failed attempt falls back to the
  synchronous back end. The byte counter starts at zero whatever the file already holds.
\<close>

theorem file_sink_open_establishes:
  assumes "ij_file_sink_open os (Some sink) (Some path) w = (IJ_STATUS_OK, s', w')"
  shows "\<exists>sink'. s' = Some sink' \<and> sink_inv os w' sink' \<and> sequence_room sink' \<and>
           sink_log w' sink' = file_content w (c_text path) \<and> sk_bytes_written sink' = 0 \<and>
           (sk_active_backend sink' = IJ_FILE_BACKEND_IO_URING \<longrightarrow>
              sk_requested_backend sink = IJ_FILE_BACKEND_IO_URING)"
  using file_sink_open_ok [OF assms] by (auto simp: sequence_room_def)

theorem file_sink_open_establishes_witness:
  "\<exists>sink' w'. ij_file_sink_open short_writer (Some (zero_file_sink\<lparr>sk_requested_backend := IJ_FILE_BACKEND_IO_URING\<rparr>))
      (Some [0x61]) start_world = (IJ_STATUS_OK, Some sink', w') \<and> sink_inv short_writer w' sink'"
proof -
  let ?r = "ij_file_sink_open short_writer (Some (zero_file_sink\<lparr>sk_requested_backend := IJ_FILE_BACKEND_IO_URING\<rparr>))
      (Some [0x61]) start_world"
  have "fst ?r = IJ_STATUS_OK"
    by (simp add: ij_file_sink_open.simps ij_file_sink_store_path_def malloc_def short_writer_def c_at_def
        zero_file_sink_def ij_file_sink_ops_def IJ_FILE_SINK_SYNC_OPS_def IJ_FILE_SINK_IO_URING_OPS_def
        fopen_ab_def open_finish_def time_now_def Let_def)
  then obtain s' w' where e: "?r = (IJ_STATUS_OK, s', w')" by (metis prod.collapse)
  from file_sink_open_establishes [OF e] e show ?thesis by auto
qed

text \<open>
  C36. A rename that fails during a rotation kills the sink: the write reports a sink error, the
  stream has been closed and is not opened again, and every later write is refused as an invalid
  argument, however the system behaves from then on.
\<close>

theorem file_sink_dead_after_failed_rename:
  assumes "sk_active_backend sink = IJ_FILE_BACKEND_SYNC" "sk_stream sink = Some f" "sk_path sink = Some p"
    and "0 < n" "fst (ij_file_sink_rotation_due os sink n w)"
    and "fst (ij_file_sink_make_rotation_path os (Some sink) 4096 (tick w)) = IJ_STATUS_OK"
    and "\<And>c. os_fflush os c" "\<And>c. \<not> os_rename os c"
  shows "\<exists>sink' w'. ij_file_sink_write os (Some sink) (Some payload) n w = (IJ_STATUS_SINK_ERROR, Some sink', w') \<and>
           (\<forall>os2 payload2 n2 w2. 0 < n2 \<longrightarrow>
              ij_file_sink_write os2 (Some sink') (Some payload2) n2 w2 = (IJ_STATUS_INVALID_ARGUMENT, Some sink', tick w2))"
proof -
  obtain w1 where r: "ij_file_sink_rotate os (Some sink) (tick w) =
      (IJ_STATUS_SINK_ERROR, Some (sink\<lparr>sk_stream := None\<rparr>), w1)"
    using rotate_rename_fails [OF assms(1-3,6-8)] by blast
  have d: "ij_file_sink_rotation_due os sink n w = (True, tick w)"
    using assms(5) rotation_due_world by (metis prod.collapse)
  have "ij_file_sink_write os (Some sink) (Some payload) n w =
      (IJ_STATUS_SINK_ERROR, Some (sink\<lparr>sk_stream := None\<rparr>), w1)"
    using assms(4) d r by (simp add: ij_file_sink_write.simps)
  moreover have "ij_file_sink_write os2 (Some (sink\<lparr>sk_stream := None\<rparr>)) (Some payload2) n2 w2 =
      (IJ_STATUS_INVALID_ARGUMENT, Some (sink\<lparr>sk_stream := None\<rparr>), tick w2)" if "0 < n2" for os2 payload2 n2 w2
    using assms(1) that by (intro dead_sink_write) simp_all
  ultimately show ?thesis by blast
qed

definition no_rename :: os where
  "no_rename = short_writer\<lparr>os_rename := (\<lambda>_. False)\<rparr>"

lemma small_sink_rotation_path:
  "fst (ij_file_sink_make_rotation_path no_rename (Some small_sink) 4096 (tick start_world)) = IJ_STATUS_OK"
proof -
  obtain tm where tm: "gmtime_r 0 = Some tm" "rotation_text [0x61] tm (Suc 0) = bytes ''a.19700101T000000Z.000001''"
  proof
    show "gmtime_r 0 = Some (gmtime 0)" by code_simp
    show "rotation_text [0x61] (gmtime 0) (Suc 0) = bytes ''a.19700101T000000Z.000001''" by code_simp
  qed
  have t: "c_text [0x61] = [0x61]" by (simp add: c_text_def)
  show ?thesis
    by (simp add: ij_file_sink_make_rotation_path_def time_now_def no_rename_def short_writer_def small_sink_def
        zero_file_sink_def Let_def snprintf_def strlen_def tm t)
qed

theorem file_sink_dead_after_failed_rename_witness:
  "\<exists>sink' w'. ij_file_sink_write no_rename (Some small_sink) (Some [0x79]) 1 start_world =
      (IJ_STATUS_SINK_ERROR, Some sink', w')"
proof -
  have due: "fst (ij_file_sink_rotation_due no_rename small_sink 1 start_world)"
    by (simp add: ij_file_sink_rotation_due_def time_now_def small_sink_def zero_file_sink_def size_add_def
        SIZE_MODULUS_def Let_def)
  show ?thesis
    using file_sink_dead_after_failed_rename [OF _ _ _ _ due small_sink_rotation_path, of _ "[0x61]" "[0x79]"]
    by (auto simp: small_sink_def zero_file_sink_def no_rename_def short_writer_def)
qed

text \<open>
  A history of accepted writes, with as many rotations as the limits ask for and retention
  switched off, leaves the log it started from followed by all payloads in order.
\<close>

theorem file_sink_history:
  assumes "sink_inv os w sink" "sk_retention_files sink = 0" "[] \<notin> set payloads"
    and "record_sink.emit_all (file_emit os) payloads (sink, w) = (IJ_STATUS_OK, (sink', w'))"
  shows "sink_log w' sink' = sink_log w sink @ concat payloads \<and> sink_inv os w' sink'"
  using filelog.emit_all_ok [of os "(sink, w)" payloads "(sink', w')"] assms by auto

theorem file_sink_history_witness:
  "\<exists>sink' w'. record_sink.emit_all (file_emit short_writer) [[0x79]] (quiet_sink, start_world) =
      (IJ_STATUS_OK, (sink', w')) \<and> sink_log w' sink' = sink_log start_world quiet_sink @ [0x79]"
proof -
  obtain s' w' where e: "ij_file_sink_write short_writer (Some quiet_sink) (Some [0x79]) 1 start_world =
      (IJ_STATUS_OK, s', w')"
    using quiet_sink_write by (metis prod.collapse)
  then have "record_sink.emit_all (file_emit short_writer) [[0x79]] (quiet_sink, start_world) =
      (IJ_STATUS_OK, (deref s' quiet_sink, w'))"
    using quiet_sink_inv(2) by simp
  with file_sink_history [OF quiet_sink_inv(1) _ _ this] show ?thesis
    by (auto simp: quiet_sink_log)
qed

text \<open>
  A rotation replaces what is there: the name is made of the path, the second and the sequence number,
  and whatever a file of this name held before, after the rotation it holds the active segment. Since
  every open starts the sequence at 0, the first rotations of two sinks opened one after the other on
  the same path that fall into the same second have the same name.
\<close>

theorem rotation_replaces_file:
  assumes "sink_inv os w sink" "sequence_room sink" "sk_retention_files sink = 0"
    and "sk_path sink = Some p" "gmtime_r (os_time os (w_calls w)) = Some tm"
    and "ij_file_sink_rotate os (Some sink) w = (IJ_STATUS_OK, s', w')"
  shows "file_content w' (rotation_text p tm (unat (sk_rotation_sequence sink) + 1)) =
           file_content w p @ sink_pending sink"
proof -
  obtain sink' where r: "rotated_sink sink (rotation_text p tm (unat (sk_rotation_sequence sink) + 1)) sink'"
    "map (file_content w') (sk_rotated_paths sink') = drop (retired sink) (log_segments w sink)"
    using sink_rotate_ok [of sink p os w s' w'] assms unfolding sink_inv_def by auto
  have "retired sink = 0" using assms(3) by (simp add: retired_def)
  with r assms(4) show ?thesis by (simp add: rotated_sink_def log_segments_def)
qed

lemma epoch_name: "gmtime_r 0 = Some (gmtime 0)" "rotation_text [0x61] (gmtime 0) (Suc 0) = bytes ''a.19700101T000000Z.000001''"
  by code_simp+

definition occupied_world :: world where
  "occupied_world = start_world\<lparr>w_files := [[0x61] \<mapsto> [0x79], bytes ''a.19700101T000000Z.000001'' \<mapsto> [0x7a]]\<rparr>"

lemma occupied_rotation:
  "fst (ij_file_sink_rotate short_writer (Some quiet_sink) occupied_world) = IJ_STATUS_OK"
proof -
  have t: "c_text [0x61] = [0x61]" by (simp add: c_text_def)
  obtain rot where "ij_file_sink_make_rotation_path short_writer (Some quiet_sink) 4096 occupied_world =
      (IJ_STATUS_OK, rot, tick occupied_world)"
    by (simp add: ij_file_sink_make_rotation_path_def time_now_def short_writer_def quiet_sink_def small_sink_def
        zero_file_sink_def Let_def snprintf_def strlen_def epoch_name t)
  then show ?thesis
    by (simp add: ij_file_sink_rotate.simps quiet_sink_def small_sink_def zero_file_sink_def ij_file_sink_ops_def
        IJ_FILE_SINK_SYNC_OPS_def ij_file_sink_record_rotation_def ij_file_sink_strdup_def malloc_def rename_def
        ij_file_sink_apply_retention_def time_now_def fflush_def fclose_def Let_def short_writer_def t
        occupied_world_def tick_def file_append_def fopen_ab_def split: prod.splits)
qed

theorem rotation_replaces_file_witness:
  "\<exists>s' w'. ij_file_sink_rotate short_writer (Some quiet_sink) occupied_world = (IJ_STATUS_OK, s', w') \<and>
     file_content occupied_world (bytes ''a.19700101T000000Z.000001'') = [0x7a] \<and>
     file_content w' (bytes ''a.19700101T000000Z.000001'') = [0x79, 0x78]"
proof -
  obtain s' w' where r: "ij_file_sink_rotate short_writer (Some quiet_sink) occupied_world = (IJ_STATUS_OK, s', w')"
    using occupied_rotation by (metis prod.collapse)
  have "sink_inv short_writer occupied_world quiet_sink"
    by (simp add: quiet_sink_def small_sink_def sink_inv_def zero_file_sink_def sink_healthy_def
        sync_healthy_def sink_pending_def sync_pending_def names_ok_def)
  moreover have "gmtime_r (os_time short_writer (w_calls occupied_world)) = Some (gmtime 0)"
    by (simp add: short_writer_def epoch_name)
  moreover have "sk_path quiet_sink = Some [0x61]" "sk_rotation_sequence quiet_sink = 0" "sink_pending quiet_sink = [0x78]"
    by (simp_all add: quiet_sink_def small_sink_def zero_file_sink_def sink_pending_def sync_pending_def)
  moreover have "file_content occupied_world [0x61] = [0x79]"
    "file_content occupied_world (bytes ''a.19700101T000000Z.000001'') = [0x7a]"
    by (simp_all add: occupied_world_def file_content_def)
  ultimately show ?thesis
    using rotation_replaces_file [OF _ quiet_sink_inv(2) quiet_sink_log(2) _ _ r, of "[0x61]" "gmtime 0"] r by (simp add: epoch_name)
qed

end
