(* ===== verification/Logger.thy ===== *)
theory Logger
  imports Syslog_Sink File_Sink
begin

text \<open>
  The logger: \<open>src/core/ij_logger.c\<close> and \<open>src/core/ij_version.c\<close>. Configuration, construction with
  every failure path, shutdown, flush, and the path of an event from the level filter through the
  copy and the encoder of the configured sink to the sink.

  The blocks a logger owns on the heap are tracked by name, so that what is freed and what is not
  can be stated. \<open>None\<close> as the result of an operation is an access outside an object.
\<close>

section \<open>Version\<close>

definition IJ_VERSION_MAJOR :: int where "IJ_VERSION_MAJOR = 0"
definition IJ_VERSION_MINOR :: int where "IJ_VERSION_MINOR = 1"
definition IJ_VERSION_PATCH :: int where "IJ_VERSION_PATCH = 0"
definition IJ_VERSION_STRING :: "byte list" where "IJ_VERSION_STRING = bytes ''0.1.0''"

definition ij_version :: "byte list" where
  "ij_version = IJ_VERSION_STRING"

definition ij_version_num :: int where
  "ij_version_num = or (or (push_bit 16 IJ_VERSION_MAJOR) (push_bit 8 IJ_VERSION_MINOR)) IJ_VERSION_PATCH"

section \<open>Configuration\<close>

definition ij_is_power_of_two :: "size_t \<Rightarrow> bool" where
  "ij_is_power_of_two value \<longleftrightarrow> value \<noteq> 0 \<and> and value (value - 1) = 0"

definition empty_cstring :: "cstring \<Rightarrow> bool" where
  "empty_cstring s \<longleftrightarrow> (case s of None \<Rightarrow> True | Some t \<Rightarrow> c_at t 0 = 0)"

definition ij_validate_logger_config :: "ij_logger_config_t option \<Rightarrow> ij_status_t" where
  "ij_validate_logger_config config_ptr =
     (case config_ptr of
        None \<Rightarrow> IJ_STATUS_INVALID_ARGUMENT
      | Some config \<Rightarrow>
          if \<not> ij_level_is_valid (cfg_min_level config) \<or> \<not> ij_sink_kind_is_valid (cfg_sink_kind config) \<or>
             \<not> ij_redaction_mode_is_valid (cfg_redaction_mode config) \<or>
             \<not> ij_file_backend_is_valid (cfg_file_backend config) then IJ_STATUS_INVALID_ARGUMENT
          else if cfg_queue_capacity config \<noteq> 0 \<and>
             (cfg_queue_capacity config < IJ_QUEUE_CAPACITY_MIN \<or>
              cfg_queue_capacity config > IJ_QUEUE_CAPACITY_MAX \<or>
              \<not> ij_is_power_of_two (cfg_queue_capacity config)) then IJ_STATUS_INVALID_ARGUMENT
          else if cfg_sink_kind config = IJ_SINK_KIND_FILE \<and> empty_cstring (cfg_file_path config)
          then IJ_STATUS_INVALID_ARGUMENT
          else if cfg_sink_kind config = IJ_SINK_KIND_SYSLOG \<and>
             (\<not> ij_syslog_transport_is_valid (cfg_syslog_transport config) \<or>
              \<not> ij_syslog_facility_is_valid (cfg_syslog_facility config) \<or>
              empty_cstring (cfg_syslog_host config) \<or> cfg_syslog_port config = 0)
          then IJ_STATUS_INVALID_ARGUMENT
          else IJ_STATUS_OK)"

section \<open>The logger\<close>

record ij_logger =
  lg_config :: ij_logger_config_t
  lg_active :: bool
  lg_ring :: ij_ring_t
  lg_file_sink :: ij_file_sink_t
  lg_syslog_sink :: ij_syslog_sink_t

text \<open>The blocks of the heap that belong to a logger.\<close>

datatype block = LOGGER | LOGGER_NAME | SYSLOG_HOST

definition strdup :: "os \<Rightarrow> cstring \<Rightarrow> block \<Rightarrow> block list \<Rightarrow> world \<Rightarrow> cstring \<times> block list \<times> world" where
  "strdup os s block live w =
     (case s of
        None \<Rightarrow> (None, live, w)
      | Some t \<Rightarrow>
          (let (ok, w) = malloc os w
           in if ok then (Some (c_text t), live @ [block], w) else (None, live, w)))"

text \<open>\<open>free\<close> of a pointer; a null pointer is no block.\<close>

definition free_block :: "cstring \<Rightarrow> block \<Rightarrow> block list \<Rightarrow> block list" where
  "free_block ptr block live = (if ptr = None then live else remove1 block live)"

definition zero_logger :: "ij_logger_config_t \<Rightarrow> ij_logger" where
  "zero_logger config =
     \<lparr>lg_config = config, lg_active = False, lg_ring = zero_ring, lg_file_sink = zero_file_sink,
      lg_syslog_sink = \<lparr>sl_fd = 0, sl_address = []\<rparr>\<rparr>"

text \<open>The logger comes from \<open>calloc\<close>; its configuration is overwritten at once.\<close>

definition ij_apply_logger_defaults ::
  "os \<Rightarrow> ij_logger \<Rightarrow> ij_logger_config_t \<Rightarrow> block list \<Rightarrow> world \<Rightarrow> ij_logger \<times> block list \<times> world" where
  "ij_apply_logger_defaults os logger config live w =
     (let cfg = config;
          cfg = (if cfg_queue_capacity cfg = 0
                 then cfg\<lparr>cfg_queue_capacity := IJ_QUEUE_CAPACITY_DEFAULT\<rparr> else cfg);
          (name, live, w) = strdup os (cfg_logger_name config) LOGGER_NAME live w;
          cfg = cfg\<lparr>cfg_logger_name := name\<rparr>;
          (host, live, w) = strdup os (cfg_syslog_host config) SYSLOG_HOST live w;
          cfg = cfg\<lparr>cfg_syslog_host := host\<rparr>
      in (logger\<lparr>lg_config := cfg, lg_active := True\<rparr>, live, w))"

text \<open>The sink that the configuration asks for is opened.\<close>

definition open_sink :: "os \<Rightarrow> ij_logger \<Rightarrow> world \<Rightarrow> ij_status_t \<times> ij_logger \<times> world" where
  "open_sink os logger w =
     (let cfg = lg_config logger in
      if cfg_sink_kind cfg = IJ_SINK_KIND_FILE then
        (let sink = (lg_file_sink logger)\<lparr>sk_requested_backend := cfg_file_backend cfg\<rparr>;
             (status, sink_ptr, w) = ij_file_sink_open os (Some sink) (cfg_file_path cfg) w;
             sink = deref sink_ptr sink
         in if status \<noteq> IJ_STATUS_OK then (status, logger\<lparr>lg_file_sink := sink\<rparr>, w)
            else (IJ_STATUS_OK,
                  logger\<lparr>lg_file_sink := sink\<lparr>sk_rotate_bytes := cfg_file_rotate_bytes cfg,
                    sk_rotate_interval_seconds := cfg_file_rotate_interval_seconds cfg,
                    sk_retention_files := cfg_file_retention_files cfg\<rparr>\<rparr>, w))
      else if cfg_sink_kind cfg = IJ_SINK_KIND_SYSLOG then
        (let (status, sink_ptr, w) =
               (if cfg_syslog_transport cfg = IJ_SYSLOG_TRANSPORT_UDP
                then ij_syslog_udp_open os (Some (lg_syslog_sink logger)) (cfg_syslog_host cfg) (cfg_syslog_port cfg) w
                else if cfg_syslog_transport cfg = IJ_SYSLOG_TRANSPORT_TCP
                then ij_syslog_tcp_open os (Some (lg_syslog_sink logger)) (cfg_syslog_host cfg) (cfg_syslog_port cfg) w
                else (IJ_STATUS_SINK_ERROR, Some (lg_syslog_sink logger), w))
         in (status, logger\<lparr>lg_syslog_sink := deref sink_ptr (lg_syslog_sink logger)\<rparr>, w))
      else (IJ_STATUS_OK, logger, w))"

text \<open>
  The result is the status, what \<open>*out_logger\<close> holds, the blocks still allocated and the world;
  the first argument says whether \<open>out_logger\<close> is not null.
\<close>

definition ij_logger_init ::
  "os \<Rightarrow> bool \<Rightarrow> ij_logger_config_t option \<Rightarrow> world \<Rightarrow>
     (ij_status_t \<times> ij_logger option \<times> block list \<times> world) option" where
  "ij_logger_init os out_logger config_ptr w =
     (if \<not> out_logger then Some (IJ_STATUS_INVALID_ARGUMENT, None, [], w)
      else if ij_validate_logger_config config_ptr \<noteq> IJ_STATUS_OK
      then Some (ij_validate_logger_config config_ptr, None, [], w)
      else
        (case config_ptr of
           None \<Rightarrow> None
         | Some config \<Rightarrow>
             (let (ok, w) = malloc os w in
              if \<not> ok then Some (IJ_STATUS_INTERNAL_ERROR, None, [], w)
              else
                (let (logger, live, w) = ij_apply_logger_defaults os (zero_logger config) config [LOGGER] w;
                     name = cfg_logger_name (lg_config logger); host = cfg_syslog_host (lg_config logger)
                 in if (cfg_logger_name config \<noteq> None \<and> name = None) \<or> (cfg_syslog_host config \<noteq> None \<and> host = None)
                    then Some (IJ_STATUS_INTERNAL_ERROR, None,
                               remove1 LOGGER (free_block host SYSLOG_HOST (free_block name LOGGER_NAME live)), w)
                    else
                      (let (status, ring) = ij_ring_init (os_ring os (w_calls w)) (Some (lg_ring logger))
                             (cfg_queue_capacity (lg_config logger));
                           w = tick w; logger = logger\<lparr>lg_ring := deref ring (lg_ring logger)\<rparr>
                       in if status \<noteq> IJ_STATUS_OK then Some (status, None, remove1 LOGGER live, w)
                          else
                            (let (status, logger, w) = open_sink os logger w in
                             if status \<noteq> IJ_STATUS_OK then
                               (case ij_ring_destroy (os_ring os (w_calls w)) (Some (lg_ring logger)) of
                                  None \<Rightarrow> None
                                | Some _ \<Rightarrow> Some (status, None, remove1 LOGGER live, tick w))
                             else Some (IJ_STATUS_OK, Some logger, live, w)))))))"

definition ij_logger_shutdown ::
  "os \<Rightarrow> ij_logger option \<Rightarrow> block list \<Rightarrow> world \<Rightarrow> (ij_status_t \<times> block list \<times> world) option" where
  "ij_logger_shutdown os logger_ptr live w =
     (case logger_ptr of
        None \<Rightarrow> Some (IJ_STATUS_OK, live, w)
      | Some logger \<Rightarrow>
          if \<not> lg_active logger then Some (IJ_STATUS_INVALID_STATE, live, w)
          else
            (let (_, w) = ij_file_sink_close os (Some (lg_file_sink logger)) w;
                 (_, w) = ij_syslog_sink_close (Some (lg_syslog_sink logger)) w
             in case ij_ring_destroy (os_ring os (w_calls w)) (Some (lg_ring logger)) of
                  None \<Rightarrow> None
                | Some _ \<Rightarrow>
                    (let live = free_block (cfg_logger_name (lg_config logger)) LOGGER_NAME live;
                         live = free_block (cfg_syslog_host (lg_config logger)) SYSLOG_HOST live
                     in Some (IJ_STATUS_OK, remove1 LOGGER live, tick w))))"

definition ij_logger_flush :: "os \<Rightarrow> ij_logger option \<Rightarrow> world \<Rightarrow> ij_status_t \<times> ij_logger option \<times> world" where
  "ij_logger_flush os logger_ptr w =
     (case logger_ptr of
        None \<Rightarrow> (IJ_STATUS_INVALID_ARGUMENT, None, w)
      | Some logger \<Rightarrow>
          if \<not> lg_active logger then (IJ_STATUS_INVALID_STATE, Some logger, w)
          else if cfg_sink_kind (lg_config logger) = IJ_SINK_KIND_FILE then
            (let (status, sink_ptr, w) = ij_file_sink_flush os (Some (lg_file_sink logger)) w
             in (status, Some (logger\<lparr>lg_file_sink := deref sink_ptr (lg_file_sink logger)\<rparr>), w))
          else (IJ_STATUS_OK, Some logger, w))"

section \<open>Logging\<close>

text \<open>
  The \<open>switch\<close> over the sink kind: the copied event is encoded into the payload buffer and handed
  to the sink.
\<close>

definition log_to_sink ::
  "cpu \<Rightarrow> os \<Rightarrow> ij_logger \<Rightarrow> ij_event_copy_t \<Rightarrow> byte list \<Rightarrow> world \<Rightarrow> (ij_status_t \<times> ij_logger \<times> world) option" where
  "log_to_sink cpu os logger copied_event payload w =
     (case cfg_sink_kind (lg_config logger) of
        IJ_SINK_KIND_CONSOLE \<Rightarrow>
          (case ij_json_console_encode cpu (Some copied_event) (Some payload) (length payload) of
             None \<Rightarrow> None
           | Some (status, payload, payload_len) \<Rightarrow>
               if status = IJ_STATUS_OK then
                 (let (status, w) = ij_console_sink_write os payload (deref payload_len 0) w
                  in Some (status, logger, w))
               else Some (status, logger, w))
      | IJ_SINK_KIND_FILE \<Rightarrow>
          (case ij_ndjson_encode cpu (Some copied_event) (Some payload) (length payload) of
             None \<Rightarrow> None
           | Some (status, payload, payload_len) \<Rightarrow>
               if status = IJ_STATUS_OK then
                 (let (status, sink_ptr, w) =
                        ij_file_sink_write os (Some (lg_file_sink logger)) payload (deref payload_len 0) w
                  in Some (status, logger\<lparr>lg_file_sink := deref sink_ptr (lg_file_sink logger)\<rparr>, w))
               else Some (status, logger, w))
      | IJ_SINK_KIND_SYSLOG \<Rightarrow>
          (case ij_rfc5424_encode (Some copied_event) (Some (lg_config logger)) (Some payload) (length payload) of
             None \<Rightarrow> None
           | Some (status, payload, payload_len) \<Rightarrow>
               if status = IJ_STATUS_OK then
                 (let (status, w) =
                        (if cfg_syslog_transport (lg_config logger) = IJ_SYSLOG_TRANSPORT_UDP
                         then ij_syslog_udp_write os (Some (lg_syslog_sink logger)) payload (deref payload_len 0) w
                         else if cfg_syslog_transport (lg_config logger) = IJ_SYSLOG_TRANSPORT_TCP
                         then ij_syslog_tcp_write os (Some (lg_syslog_sink logger)) payload (deref payload_len 0) w
                         else (IJ_STATUS_SINK_ERROR, w))
                  in Some (status, logger, w))
               else Some (status, logger, w))
      | IJ_SINK_KIND_OTHER _ \<Rightarrow> Some (IJ_STATUS_INVALID_ARGUMENT, logger, w))"

text \<open>
  The payload buffer is a local array with indeterminate content. The fourth component of the
  result is the local event copy when the call returns.
\<close>

definition payload_buffer :: "os \<Rightarrow> world \<Rightarrow> byte list" where
  "payload_buffer os w = map (fresh (os_alloc os (w_calls w))) [0..<8192]"

definition ij_logger_log ::
  "cpu \<Rightarrow> os \<Rightarrow> ij_logger option \<Rightarrow> ij_event_t option \<Rightarrow> world \<Rightarrow>
     (ij_status_t \<times> ij_logger option \<times> world \<times> ij_event_copy_t) option" where
  "ij_logger_log cpu os logger_ptr event_ptr w =
     (case (logger_ptr, event_ptr) of
        (Some logger, Some event) \<Rightarrow>
          if \<not> lg_active logger then Some (IJ_STATUS_INVALID_STATE, logger_ptr, w, zero_event_copy)
          else if \<not> ij_level_is_enabled (cfg_min_level (lg_config logger)) (ev_level event)
          then Some (IJ_STATUS_OK, logger_ptr, w, zero_event_copy)
          else
            (case ij_event_copy_from_input cpu (os_alloc os (w_calls w)) (Some event)
                    (cfg_redaction_mode (lg_config logger)) of
               None \<Rightarrow> None
             | Some (status, copied_event) \<Rightarrow>
                 if status \<noteq> IJ_STATUS_OK then Some (status, logger_ptr, tick w, copied_event)
                 else
                   (case log_to_sink cpu os logger copied_event (payload_buffer os w) (tick w) of
                      None \<Rightarrow> None
                    | Some (status, logger, w) \<Rightarrow>
                        Some (status, Some logger, w, ij_event_copy_dispose copied_event)))
      | _ \<Rightarrow> Some (IJ_STATUS_INVALID_ARGUMENT, logger_ptr, w, zero_event_copy))"

section \<open>The path of an event\<close>

lemma length_payload_buffer [simp]: "length (payload_buffer os w) = 8192"
  by (simp add: payload_buffer_def)

lemma enabled_valid: "ij_level_is_enabled m l \<Longrightarrow> ij_level_is_valid l"
  by (simp add: ij_level_is_enabled_def split: if_splits)

lemma copy_view_sel:
  "v_timestamp (copy_view cp) = cp_timestamp cp" "v_level (copy_view cp) = cp_level cp"
  by (simp_all add: copy_view_def Let_def)

lemma input_view_sel:
  "v_timestamp (input_view mode event) = ev_timestamp event" "v_level (input_view mode event) = ev_level event"
  by (simp_all add: input_view_def)

text \<open>The steps of a call that gets past the filter and the copy.\<close>

lemma log_accepted:
  assumes "lg_active logger" "ij_level_is_enabled (cfg_min_level (lg_config logger)) (ev_level event)"
    and "ij_event_copy_from_input cpu (os_alloc os (w_calls w)) (Some event) (cfg_redaction_mode (lg_config logger)) =
      Some (IJ_STATUS_OK, cp)"
  shows "ij_logger_log cpu os (Some logger) (Some event) w =
    map_option (\<lambda>(status, logger, w). (status, Some logger, w, zero_event_copy))
      (log_to_sink cpu os logger cp (payload_buffer os w) (tick w))"
  using assms
  by (simp add: ij_logger_log_def ij_event_copy_dispose_def split: option.split)

text \<open>A call that answers anything after the filter had either a failed copy or a well-formed one.\<close>

lemma copy_cases:
  obtains (copied) cp where "ij_event_copy_from_input cpu al (Some event) mode = Some (IJ_STATUS_OK, cp)"
      "valid_event event" "copy_view cp = input_view mode event" "copy_wf cp"
  | (refused) st cp where "ij_event_copy_from_input cpu al (Some event) mode = Some (st, cp)"
      "st \<noteq> IJ_STATUS_OK" "owns_nothing cp"
  using copy_from_input_cases [of cpu al event mode] by blast

text \<open>What each kind of sink does with a well-formed copy.\<close>

lemma log_to_console:
  assumes kind: "cfg_sink_kind (lg_config logger) = IJ_SINK_KIND_CONSOLE" and wf: "copy_wf cp"
    and len: "0 < length payload"
  shows "\<exists>st w'. log_to_sink cpu os logger cp payload w = Some (st, logger, w') \<and>
    (if timestamp_ok (cp_timestamp cp) \<and> length (event_line (copy_view cp)) < length payload
     then stream_outcome w_stdout (w_stdout w) (event_line (copy_view cp) @ [0x0a]) (st, w')
     else st = IJ_STATUS_ENCODE_ERROR \<and> w' = w)"
proof -
  let ?line = "event_line (copy_view cp)"
  obtain mem' where e: "ij_json_console_encode cpu (Some cp) (Some payload) (length payload) =
      Some (if timestamp_ok (cp_timestamp cp) \<and> length ?line < length payload
            then (IJ_STATUS_OK, Some mem', Some (length ?line)) else (IJ_STATUS_ENCODE_ERROR, Some mem', None))"
    and m: "length mem' = length payload"
      "timestamp_ok (cp_timestamp cp) \<and> length ?line < length payload \<longrightarrow> take (length ?line) mem' = ?line"
    using json_console_encode_spec [OF wf len order_refl, of cpu] by blast
  show ?thesis
  proof (cases "timestamp_ok (cp_timestamp cp) \<and> length ?line < length payload")
    case True
    then have line: "c_mem mem' (length ?line) = ?line" using m by (simp add: c_mem_take)
    have "0 < length ?line" unfolding event_line_text by simp
    from console_write_outcome [OF this, of "w" mem' os] line
    have "stream_outcome w_stdout (w_stdout w) (?line @ [0x0a]) (ij_console_sink_write os (Some mem') (length ?line) w)"
      by simp
    then show ?thesis
      using e True kind
      by (cases "ij_console_sink_write os (Some mem') (length ?line) w") (simp add: log_to_sink_def)
  next
    case False
    then show ?thesis using e kind by (simp add: log_to_sink_def) auto
  qed
qed

lemma log_to_file:
  assumes kind: "cfg_sink_kind (lg_config logger) = IJ_SINK_KIND_FILE" and wf: "copy_wf cp"
    and len: "0 < length payload"
  shows "\<exists>mem'. log_to_sink cpu os logger cp payload w = Some
    (if timestamp_ok (cp_timestamp cp) \<and> length (event_line (copy_view cp)) + 1 < length payload
     then (case ij_file_sink_write os (Some (lg_file_sink logger)) (Some mem') (length (event_line (copy_view cp)) + 1) w of
             (st, s', w') \<Rightarrow> (st, logger\<lparr>lg_file_sink := deref s' (lg_file_sink logger)\<rparr>, w'))
     else (IJ_STATUS_ENCODE_ERROR, logger, w)) \<and>
    (timestamp_ok (cp_timestamp cp) \<and> length (event_line (copy_view cp)) + 1 < length payload \<longrightarrow>
       c_mem mem' (length (event_line (copy_view cp)) + 1) = event_line (copy_view cp) @ [0x0a])"
proof -
  let ?line = "event_line (copy_view cp)"
  obtain mem' where e: "ij_ndjson_encode cpu (Some cp) (Some payload) (length payload) =
      Some (if timestamp_ok (cp_timestamp cp) \<and> length ?line + 1 < length payload
            then (IJ_STATUS_OK, Some mem', Some (length ?line + 1)) else (IJ_STATUS_ENCODE_ERROR, Some mem', None))"
    and m: "length mem' = length payload"
      "timestamp_ok (cp_timestamp cp) \<and> length ?line + 1 < length payload \<longrightarrow>
         take (length ?line + 1) mem' = ?line @ [0x0a]"
    using ndjson_encode_spec [OF wf len order_refl, of cpu] by blast
  show ?thesis
  proof (cases "timestamp_ok (cp_timestamp cp) \<and> length ?line + 1 < length payload")
    case True
    then have "c_mem mem' (length ?line + 1) = ?line @ [0x0a]" using m by (simp add: c_mem_take)
    with e True kind show ?thesis
      by (intro exI [of _ mem']) (simp add: log_to_sink_def split: prod.split)
  next
    case False
    then show ?thesis using e kind by (simp add: log_to_sink_def) auto
  qed
qed

lemma log_to_syslog:
  assumes kind: "cfg_sink_kind (lg_config logger) = IJ_SINK_KIND_SYSLOG"
    and level: "ij_level_is_valid (cp_level cp)" and len: "0 < length payload"
  shows "\<exists>mem'. log_to_sink cpu os logger cp payload w = Some
    (if timestamp_ok (cp_timestamp cp) \<and> length (syslog_line cp (lg_config logger)) < length payload
     then (case (if cfg_syslog_transport (lg_config logger) = IJ_SYSLOG_TRANSPORT_UDP
                 then ij_syslog_udp_write os (Some (lg_syslog_sink logger)) (Some mem') (length (syslog_line cp (lg_config logger))) w
                 else if cfg_syslog_transport (lg_config logger) = IJ_SYSLOG_TRANSPORT_TCP
                 then ij_syslog_tcp_write os (Some (lg_syslog_sink logger)) (Some mem') (length (syslog_line cp (lg_config logger))) w
                 else (IJ_STATUS_SINK_ERROR, w)) of (st, w') \<Rightarrow> (st, logger, w'))
     else (IJ_STATUS_ENCODE_ERROR, logger, w)) \<and>
    (timestamp_ok (cp_timestamp cp) \<and> length (syslog_line cp (lg_config logger)) < length payload \<longrightarrow>
       c_mem mem' (length (syslog_line cp (lg_config logger))) = syslog_line cp (lg_config logger))"
proof -
  let ?line = "syslog_line cp (lg_config logger)"
  obtain mem' where e: "ij_rfc5424_encode (Some cp) (Some (lg_config logger)) (Some payload) (length payload) =
      Some (if timestamp_ok (cp_timestamp cp) \<and> length ?line < length payload
            then (IJ_STATUS_OK, Some mem', Some (length ?line)) else (IJ_STATUS_ENCODE_ERROR, Some mem', None))"
    and m: "length mem' = length payload"
      "timestamp_ok (cp_timestamp cp) \<and> length ?line < length payload \<longrightarrow> take (length ?line) mem' = ?line"
    using rfc5424_encode_spec [OF level len order_refl, of "lg_config logger"] by blast
  show ?thesis
  proof (cases "timestamp_ok (cp_timestamp cp) \<and> length ?line < length payload")
    case True
    then have "c_mem mem' (length ?line) = ?line" using m by (simp add: c_mem_take)
    with e True kind show ?thesis
      by (intro exI [of _ mem'])
        (simp add: log_to_sink_def split: prod.split del: ij_syslog_udp_write.simps ij_syslog_tcp_write.simps)
  next
    case False
    then show ?thesis using e kind by (simp add: log_to_sink_def) auto
  qed
qed

lemma log_to_sink_some:
  assumes "copy_wf cp" "ij_level_is_valid (cp_level cp)" "0 < length payload"
  shows "log_to_sink cpu os logger cp payload w \<noteq> None"
proof (cases "cfg_sink_kind (lg_config logger)")
  case IJ_SINK_KIND_CONSOLE
  from log_to_console [OF this assms(1,3), of cpu os w] show ?thesis by (elim exE conjE) simp
next
  case IJ_SINK_KIND_FILE
  from log_to_file [OF this assms(1,3), of cpu os w] show ?thesis by (elim exE conjE) simp
next
  case IJ_SINK_KIND_SYSLOG
  from log_to_syslog [OF this assms(2,3), of cpu os w] show ?thesis by (elim exE conjE) simp
qed (simp add: log_to_sink_def)

section \<open>The syslog line of an event\<close>

text \<open>The application name and the line as functions of the abstract event and the configuration.\<close>

definition view_app :: "event_view \<Rightarrow> ij_logger_config_t \<Rightarrow> byte list" where
  "view_app v config =
     (case v_logger v of
        Some (b # l) \<Rightarrow> b # l
      | _ \<Rightarrow> (case cfg_logger_name config of
               None \<Rightarrow> bytes ''-''
             | Some name \<Rightarrow> if c_at name 0 \<noteq> 0 then c_text name else bytes ''-''))"

definition view_syslog_line :: "event_view \<Rightarrow> ij_logger_config_t \<Rightarrow> byte list" where
  "view_syslog_line v config =
     rfc5424_line ((cfg_syslog_facility config * 8 + nat (ij_syslog_severity_from_level (v_level v))) mod 4294967296)
       (timestamp_text (v_timestamp v)) (app_name (view_app v config)) (v_message v)"

lemma input_texts_nonzero:
  "0 \<notin> set (v_message (input_view mode event))"
  "v_logger (input_view mode event) = Some l \<Longrightarrow> 0 \<notin> set l"
  using c_text_nonzero
  by (auto simp: input_view_def text_of_def opt_text_def split: option.splits)

lemma app_name_c_text: "app_name (c_text m) = app_name m"
  by (simp add: app_name_def)

lemma syslog_line_view:
  assumes wf: "copy_wf cp" and v: "copy_view cp = input_view mode event"
  shows "syslog_line cp config = view_syslog_line (input_view mode event) config"
proof -
  have m: "v_message (input_view mode event) = owned_bytes (arena cp) (cp_message cp)"
    and l: "v_logger (input_view mode event) = opt_bytes (arena cp) (cp_logger_name cp)"
    and t: "v_timestamp (input_view mode event) = cp_timestamp cp" "v_level (input_view mode event) = cp_level cp"
    unfolding v [symmetric] by (simp_all add: copy_view_def Let_def)
  have wfs: "string_wf (arena cp) (cp_text_arena_size cp) (cp_message cp)"
    "string_wf (arena cp) (cp_text_arena_size cp) (cp_logger_name cp)"
    using wf by (simp_all add: copy_wf_def fields_wf_def)
  have msg: "owned_text (arena cp) (cp_message cp) = v_message (input_view mode event)"
    using owned_text_bytes [OF wfs(1)] input_texts_nonzero(1) [of mode event] unfolding m by simp
  have app: "app_name (ij_syslog_app_name cp config) = app_name (view_app (input_view mode event) config)"
  proof (cases "str_data (cp_logger_name cp)")
    case None
    then show ?thesis
      unfolding view_app_def l ij_syslog_app_name_def
      by (simp add: opt_bytes_def app_name_c_text split: option.split)
  next
    case (Some off)
    then have vl: "v_logger (input_view mode event) = Some (owned_bytes (arena cp) (cp_logger_name cp))"
      unfolding l by (simp add: opt_bytes_def)
    have "c_text (owned_ptr (arena cp) (cp_logger_name cp)) = owned_bytes (arena cp) (cp_logger_name cp)"
      using owned_text_bytes [OF wfs(2)] input_texts_nonzero(2) [OF vl] by (simp add: owned_text_def)
    then show ?thesis
      using Some c_text_empty_iff [of "owned_ptr (arena cp) (cp_logger_name cp)"]
        app_name_c_text [of "owned_ptr (arena cp) (cp_logger_name cp)"]
      unfolding view_app_def vl ij_syslog_app_name_def Let_def
      by (cases "owned_bytes (arena cp) (cp_logger_name cp)") (auto simp: app_name_c_text split: option.split)
  qed
  show ?thesis
    by (simp add: syslog_line_def view_syslog_line_def syslog_pri_def msg app t)
qed

section \<open>Construction and destruction\<close>

definition string_blocks :: "cstring \<Rightarrow> cstring \<Rightarrow> block list" where
  "string_blocks name host = (if name = None then [] else [LOGGER_NAME]) @ (if host = None then [] else [SYSLOG_HOST])"

lemma strdup_result:
  "strdup os s b live w = (s', live', w') \<Longrightarrow>
     live' = live @ (if s' = None then [] else [b]) \<and> (s' \<noteq> None \<longrightarrow> s \<noteq> None)"
  by (auto simp: strdup_def malloc_def split: option.splits if_splits)

lemma defaults_result:
  assumes "ij_apply_logger_defaults os logger config live w = (logger', live', w')"
  shows "live' = live @ string_blocks (cfg_logger_name (lg_config logger')) (cfg_syslog_host (lg_config logger')) \<and>
     lg_active logger' \<and> lg_ring logger' = lg_ring logger \<and> lg_file_sink logger' = lg_file_sink logger \<and>
     lg_syslog_sink logger' = lg_syslog_sink logger \<and>
     cfg_sink_kind (lg_config logger') = cfg_sink_kind config \<and>
     cfg_min_level (lg_config logger') = cfg_min_level config \<and>
     cfg_redaction_mode (lg_config logger') = cfg_redaction_mode config \<and>
     cfg_file_path (lg_config logger') = cfg_file_path config \<and>
     cfg_queue_capacity (lg_config logger') =
       (if cfg_queue_capacity config = 0 then IJ_QUEUE_CAPACITY_DEFAULT else cfg_queue_capacity config)"
proof -
  obtain name l1 w1 where n: "strdup os (cfg_logger_name config) LOGGER_NAME live w = (name, l1, w1)"
    by (metis prod_cases3)
  obtain host l2 w2 where h: "strdup os (cfg_syslog_host config) SYSLOG_HOST l1 w1 = (host, l2, w2)"
    by (metis prod_cases3)
  from assms n h have "lg_active logger'" "live' = l2"
    "logger' = logger\<lparr>lg_config := (if cfg_queue_capacity config = 0
        then config\<lparr>cfg_queue_capacity := IJ_QUEUE_CAPACITY_DEFAULT\<rparr> else config)
        \<lparr>cfg_logger_name := name, cfg_syslog_host := host\<rparr>, lg_active := True\<rparr>"
    by (auto simp: ij_apply_logger_defaults_def Let_def)
  then show ?thesis
    using strdup_result [OF n] strdup_result [OF h] by (simp add: string_blocks_def)
qed

lemma open_sink_frame:
  assumes "open_sink os logger w = (st, logger', w')"
  shows "lg_config logger' = lg_config logger \<and> lg_active logger' = lg_active logger \<and> lg_ring logger' = lg_ring logger \<and>
     (cfg_sink_kind (lg_config logger) \<noteq> IJ_SINK_KIND_FILE \<longrightarrow> lg_file_sink logger' = lg_file_sink logger) \<and>
     (cfg_sink_kind (lg_config logger) \<noteq> IJ_SINK_KIND_SYSLOG \<longrightarrow> lg_syslog_sink logger' = lg_syslog_sink logger)"
  using assms
  by (auto simp: open_sink_def Let_def split: prod.splits if_splits
      simp del: ij_syslog_udp_open.simps ij_syslog_tcp_open.simps)

text \<open>The stages a successful construction has gone through.\<close>

lemma init_steps:
  assumes "ij_logger_init os out_logger config_ptr w = Some (IJ_STATUS_OK, l, live, w')"
  obtains config logger1 w1 ring logger where "config_ptr = Some config" "out_logger"
    "ij_validate_logger_config (Some config) = IJ_STATUS_OK"
    "ij_apply_logger_defaults os (zero_logger config) config [LOGGER] (tick w) = (logger1, live, w1)"
    "ij_ring_init (os_ring os (w_calls w1)) (Some zero_ring) (cfg_queue_capacity (lg_config logger1)) =
       (IJ_STATUS_OK, Some ring)"
    "open_sink os (logger1\<lparr>lg_ring := ring\<rparr>) (tick w1) = (IJ_STATUS_OK, logger, w')" "l = Some logger"
proof -
  obtain config where c: "config_ptr = Some config" "out_logger"
    "ij_validate_logger_config (Some config) = IJ_STATUS_OK" "os_malloc os (w_calls w)"
    using assms by (auto simp: ij_logger_init_def malloc_def split: if_splits option.splits)
  obtain logger1 live1 w1 where d: "ij_apply_logger_defaults os (zero_logger config) config [LOGGER] (tick w) =
      (logger1, live1, w1)" by (metis prod_cases3)
  have r1: "lg_ring logger1 = zero_ring" using defaults_result [OF d] by (simp add: zero_logger_def)
  obtain st ring where r: "ij_ring_init (os_ring os (w_calls w1)) (Some zero_ring) (cfg_queue_capacity (lg_config logger1)) =
      (st, ring)" by fastforce
  obtain st2 logger w2 where o: "open_sink os (logger1\<lparr>lg_ring := deref ring zero_ring\<rparr>) (tick w1) = (st2, logger, w2)"
    by (metis prod_cases3)
  have all: "st = IJ_STATUS_OK" "st2 = IJ_STATUS_OK" "l = Some logger" "live = live1" "w' = w2"
    using assms c d r o unfolding ij_logger_init_def malloc_def
    by (auto simp: r1 Let_def split: if_splits option.splits)
  with r ring_init_result obtain ring' where "ring = Some ring'" by blast
  with all c d r o show thesis by (intro that [of config logger1 w1 ring' logger]) simp_all
qed

lemma ring_destroy_some: "ring_inv ring \<Longrightarrow> ij_ring_destroy env (Some ring) \<noteq> None"
  by (auto simp: ring_inv_def ij_ring_destroy_def Let_def)

text \<open>What a constructed logger is like, and which blocks it owns.\<close>

definition logger_ok :: "os \<Rightarrow> world \<Rightarrow> ij_logger \<Rightarrow> bool" where
  "logger_ok os w logger \<longleftrightarrow>
     lg_active logger \<and> ring_inv (lg_ring logger) \<and> ring_list (lg_ring logger) = [] \<and>
     r_capacity (lg_ring logger) = cfg_queue_capacity (lg_config logger) \<and>
     (case cfg_sink_kind (lg_config logger) of
        IJ_SINK_KIND_CONSOLE \<Rightarrow> True
      | IJ_SINK_KIND_FILE \<Rightarrow> sink_inv os w (lg_file_sink logger) \<and> sequence_room (lg_file_sink logger)
      | IJ_SINK_KIND_SYSLOG \<Rightarrow> 0 \<le> sl_fd (lg_syslog_sink logger)
      | IJ_SINK_KIND_OTHER _ \<Rightarrow> False)"

lemma configured_sink_inv:
  assumes "sink_inv os w sink" "sk_rotated_paths sink = []"
  shows "sink_inv os w (sink\<lparr>sk_rotate_bytes := b, sk_rotate_interval_seconds := i, sk_retention_files := r\<rparr>)"
proof -
  let ?s = "sink\<lparr>sk_rotate_bytes := b, sk_rotate_interval_seconds := i, sk_retention_files := r\<rparr>"
  have "sink_healthy os p ?s = sink_healthy os p sink" for p
    by (simp add: sink_healthy_def sync_healthy_def uring_healthy_def)
  moreover have "sink_pending ?s = sink_pending sink" by (simp add: sink_pending_def sync_pending_def)
  ultimately show ?thesis using assms by (simp add: sink_inv_def)
qed

lemma open_sink_ok:
  assumes "open_sink os logger w = (IJ_STATUS_OK, logger', w')" "ij_sink_kind_is_valid (cfg_sink_kind (lg_config logger))"
  shows "case cfg_sink_kind (lg_config logger) of
        IJ_SINK_KIND_CONSOLE \<Rightarrow> w' = w
      | IJ_SINK_KIND_FILE \<Rightarrow> sink_inv os w' (lg_file_sink logger') \<and> sequence_room (lg_file_sink logger') \<and>
          sk_retention_files (lg_file_sink logger') = cfg_file_retention_files (lg_config logger)
      | IJ_SINK_KIND_SYSLOG \<Rightarrow> 0 \<le> sl_fd (lg_syslog_sink logger')
      | IJ_SINK_KIND_OTHER _ \<Rightarrow> False"
proof (cases "cfg_sink_kind (lg_config logger)")
  case IJ_SINK_KIND_CONSOLE
  then show ?thesis using assms by (simp add: open_sink_def)
next
  case IJ_SINK_KIND_FILE
  let ?cfg = "lg_config logger"
  let ?sink = "(lg_file_sink logger)\<lparr>sk_requested_backend := cfg_file_backend ?cfg\<rparr>"
  obtain st s' w1 where o: "ij_file_sink_open os (Some ?sink) (cfg_file_path ?cfg) w = (st, s', w1)" by (metis prod_cases3)
  have ok: "st = IJ_STATUS_OK" "w1 = w'" "lg_file_sink logger' = (deref s' ?sink)\<lparr>sk_rotate_bytes := cfg_file_rotate_bytes ?cfg,
      sk_rotate_interval_seconds := cfg_file_rotate_interval_seconds ?cfg, sk_retention_files := cfg_file_retention_files ?cfg\<rparr>"
    using assms(1) IJ_SINK_KIND_FILE o by (auto simp: open_sink_def Let_def split: if_splits)
  then obtain path where p: "cfg_file_path ?cfg = Some path"
    using o by (cases "cfg_file_path ?cfg") (simp_all add: ij_file_sink_open.simps)
  from file_sink_open_ok [OF o [unfolded ok p]] obtain sink' where
    "s' = Some sink'" "sink_inv os w' sink'" "sk_rotated_paths sink' = []" "sk_rotation_sequence sink' = 0" by auto
  with ok(3) configured_sink_inv IJ_SINK_KIND_FILE show ?thesis by (simp add: sequence_room_def)
next
  case IJ_SINK_KIND_SYSLOG
  let ?cfg = "lg_config logger"
  obtain st s' w1 where o: "(if cfg_syslog_transport ?cfg = IJ_SYSLOG_TRANSPORT_UDP
      then ij_syslog_udp_open os (Some (lg_syslog_sink logger)) (cfg_syslog_host ?cfg) (cfg_syslog_port ?cfg) w
      else if cfg_syslog_transport ?cfg = IJ_SYSLOG_TRANSPORT_TCP
      then ij_syslog_tcp_open os (Some (lg_syslog_sink logger)) (cfg_syslog_host ?cfg) (cfg_syslog_port ?cfg) w
      else (IJ_STATUS_SINK_ERROR, Some (lg_syslog_sink logger), w)) = (st, s', w1)" by (metis prod_cases3)
  have ok: "st = IJ_STATUS_OK" "lg_syslog_sink logger' = deref s' (lg_syslog_sink logger)"
    using assms(1) IJ_SINK_KIND_SYSLOG unfolding open_sink_def Let_def o by auto
  with o udp_open_result tcp_open_result show ?thesis
    by (fastforce simp: IJ_SINK_KIND_SYSLOG split: if_splits
        simp del: ij_syslog_udp_open.simps ij_syslog_tcp_open.simps)
next
  case (IJ_SINK_KIND_OTHER n)
  then show ?thesis using assms(2) by (simp add: ij_sink_kind_is_valid_iff)
qed

lemma logger_init_ok:
  assumes "ij_logger_init os out_logger config_ptr w = Some (IJ_STATUS_OK, l, live, w')"
  shows "\<exists>logger config. l = Some logger \<and> config_ptr = Some config \<and> logger_ok os w' logger \<and>
     live = LOGGER # string_blocks (cfg_logger_name (lg_config logger)) (cfg_syslog_host (lg_config logger)) \<and>
     cfg_sink_kind (lg_config logger) = cfg_sink_kind config \<and> cfg_min_level (lg_config logger) = cfg_min_level config \<and>
     cfg_redaction_mode (lg_config logger) = cfg_redaction_mode config \<and>
     (cfg_sink_kind config \<noteq> IJ_SINK_KIND_SYSLOG \<longrightarrow> sl_fd (lg_syslog_sink logger) = 0) \<and>
     (cfg_sink_kind config \<noteq> IJ_SINK_KIND_FILE \<longrightarrow> lg_file_sink logger = zero_file_sink)"
  using assms
proof (rule init_steps)
  fix config logger1 w1 ring logger
  assume c: "config_ptr = Some config" and v: "ij_validate_logger_config (Some config) = IJ_STATUS_OK"
    and d: "ij_apply_logger_defaults os (zero_logger config) config [LOGGER] (tick w) = (logger1, live, w1)"
    and r: "ij_ring_init (os_ring os (w_calls w1)) (Some zero_ring) (cfg_queue_capacity (lg_config logger1)) =
       (IJ_STATUS_OK, Some ring)"
    and o: "open_sink os (logger1\<lparr>lg_ring := ring\<rparr>) (tick w1) = (IJ_STATUS_OK, logger, w')" and l: "l = Some logger"
  note D = defaults_result [OF d] and F = open_sink_frame [OF o]
  have k: "ij_sink_kind_is_valid (cfg_sink_kind config)"
    using v by (simp add: ij_validate_logger_config_def split: if_splits)
  have R: "ring_inv ring" "ring_list ring = []" "r_capacity ring = cfg_queue_capacity (lg_config logger1)"
    using ring_init_result [OF r] by auto
  have "case cfg_sink_kind config of
        IJ_SINK_KIND_CONSOLE \<Rightarrow> w' = tick w1
      | IJ_SINK_KIND_FILE \<Rightarrow> sink_inv os w' (lg_file_sink logger) \<and> sequence_room (lg_file_sink logger) \<and>
          sk_retention_files (lg_file_sink logger) = cfg_file_retention_files (lg_config logger1)
      | IJ_SINK_KIND_SYSLOG \<Rightarrow> 0 \<le> sl_fd (lg_syslog_sink logger)
      | IJ_SINK_KIND_OTHER _ \<Rightarrow> False"
    using open_sink_ok [OF o] k D by (cases "cfg_sink_kind config") simp_all
  then have "logger_ok os w' logger"
    using D F R by (cases "cfg_sink_kind config") (simp_all add: logger_ok_def)
  with c l D F show ?thesis by (auto simp: zero_logger_def)
qed

section \<open>Properties\<close>

lemma power_of_two_iff: "ij_is_power_of_two n \<longleftrightarrow> (\<exists>k. n = 2 ^ k)"
proof
  assume "ij_is_power_of_two n"
  then show "\<exists>k. n = 2 ^ k" using and_pred_eq_0 [of n] by (simp add: ij_is_power_of_two_def)
next
  assume "\<exists>k. n = 2 ^ k"
  then obtain k where "n = 2 ^ k" ..
  then show "ij_is_power_of_two n"
    using and_mask_mod [of "2 ^ k" k] by (simp add: ij_is_power_of_two_def)
qed

lemma capacity_ok_iff:
  "(\<not> (n < IJ_QUEUE_CAPACITY_MIN) \<and> \<not> (n > IJ_QUEUE_CAPACITY_MAX) \<and> ij_is_power_of_two n) \<longleftrightarrow>
     (\<exists>k. 8 \<le> k \<and> k \<le> 16 \<and> n = 2 ^ k)"
proof -
  have "256 \<le> (2 :: nat) ^ k \<longleftrightarrow> 8 \<le> k" "(2 :: nat) ^ k \<le> 65536 \<longleftrightarrow> k \<le> 16" for k
    using power_increasing_iff [of "2 :: nat" 8 k] power_increasing_iff [of "2 :: nat" k 16] by simp_all
  then show ?thesis
    unfolding power_of_two_iff IJ_QUEUE_CAPACITY_MIN_def IJ_QUEUE_CAPACITY_MAX_def
    by (metis linorder_not_less)
qed

text \<open>The documented conditions on a configuration.\<close>

definition sink_settings_ok :: "ij_logger_config_t \<Rightarrow> bool" where
  "sink_settings_ok config \<longleftrightarrow>
     (case cfg_sink_kind config of
        IJ_SINK_KIND_CONSOLE \<Rightarrow> True
      | IJ_SINK_KIND_FILE \<Rightarrow> (\<exists>path. cfg_file_path config = Some path \<and> c_text path \<noteq> [])
      | IJ_SINK_KIND_SYSLOG \<Rightarrow>
          cfg_syslog_transport config \<in> {IJ_SYSLOG_TRANSPORT_UDP, IJ_SYSLOG_TRANSPORT_TCP} \<and>
          (cfg_syslog_facility config \<le> 11 \<or> cfg_syslog_facility config \<in> {16..23}) \<and>
          (\<exists>host. cfg_syslog_host config = Some host \<and> c_text host \<noteq> []) \<and> cfg_syslog_port config \<noteq> 0
      | IJ_SINK_KIND_OTHER _ \<Rightarrow> False)"

definition config_ok :: "ij_logger_config_t \<Rightarrow> bool" where
  "config_ok config \<longleftrightarrow>
     (\<forall>n. cfg_min_level config \<noteq> IJ_LEVEL_OTHER n) \<and>
     cfg_redaction_mode config \<in> {IJ_REDACTION_MODE_DISABLED, IJ_REDACTION_MODE_ENABLED} \<and>
     cfg_file_backend config \<in> {IJ_FILE_BACKEND_AUTO, IJ_FILE_BACKEND_SYNC, IJ_FILE_BACKEND_IO_URING} \<and>
     (cfg_queue_capacity config = 0 \<or> (\<exists>k. 8 \<le> k \<and> k \<le> 16 \<and> cfg_queue_capacity config = 2 ^ k)) \<and>
     sink_settings_ok config"

lemma empty_cstring_iff: "empty_cstring s \<longleftrightarrow> \<not> (\<exists>t. s = Some t \<and> c_text t \<noteq> [])"
  by (cases s) (simp_all add: empty_cstring_def c_text_empty_iff)

lemma facility_valid_iff: "ij_syslog_facility_is_valid n \<longleftrightarrow> n \<le> 11 \<or> n \<in> {16..23}"
  by (auto simp: ij_syslog_facility_is_valid_def facility_defs)

lemma sink_settings_ok_iff:
  "sink_settings_ok config \<longleftrightarrow>
     ij_sink_kind_is_valid (cfg_sink_kind config) \<and>
     \<not> (cfg_sink_kind config = IJ_SINK_KIND_FILE \<and> empty_cstring (cfg_file_path config)) \<and>
     \<not> (cfg_sink_kind config = IJ_SINK_KIND_SYSLOG \<and>
         (\<not> ij_syslog_transport_is_valid (cfg_syslog_transport config) \<or>
          \<not> ij_syslog_facility_is_valid (cfg_syslog_facility config) \<or>
          empty_cstring (cfg_syslog_host config) \<or> cfg_syslog_port config = 0))"
  unfolding sink_settings_ok_def empty_cstring_iff facility_valid_iff ij_sink_kind_is_valid_iff
    ij_syslog_transport_is_valid_def
  by (cases "cfg_sink_kind config") simp_all

lemma config_ok_iff: "ij_validate_logger_config (Some config) = IJ_STATUS_OK \<longleftrightarrow> config_ok config"
  unfolding ij_validate_logger_config_def option.case config_ok_def sink_settings_ok_iff ij_level_is_valid_iff
    capacity_ok_iff [symmetric] ij_redaction_mode_is_valid_def ij_file_backend_is_valid_def
  by (simp split: if_split) blast

text \<open>
  C21. \<open>ij_validate_logger_config\<close> decides the documented conditions: enumerations in range, a queue
  capacity of zero or a power of two from 256 to 65536, a path that is not empty for a file logger,
  and a transport, facility, host and port for a syslog logger. Everything else, the null pointer
  included, is an invalid argument.
\<close>

theorem validate_logger_config_correct:
  "ij_validate_logger_config config_ptr =
     (case config_ptr of
        None \<Rightarrow> IJ_STATUS_INVALID_ARGUMENT
      | Some config \<Rightarrow> if config_ok config then IJ_STATUS_OK else IJ_STATUS_INVALID_ARGUMENT)"
proof (cases config_ptr)
  case (Some config)
  have "ij_validate_logger_config (Some config) \<in> {IJ_STATUS_OK, IJ_STATUS_INVALID_ARGUMENT}"
    by (simp add: ij_validate_logger_config_def)
  with config_ok_iff [of config] Some show ?thesis by auto
qed (simp add: ij_validate_logger_config_def)


lemma open_sink_ring: "open_sink os logger w = (st, logger', w') \<Longrightarrow> lg_ring logger' = lg_ring logger"
  using open_sink_frame by blast

lemma init_failure:
  assumes "ij_logger_init os out_logger config_ptr w = Some (st, l, live, w')" "st \<noteq> IJ_STATUS_OK"
  shows "l = None \<and> LOGGER \<notin> set live"
proof -
  consider "live = []" "l = None"
    | config logger1 live1 w1 where "config_ptr = Some config"
      "ij_apply_logger_defaults os (zero_logger config) config [LOGGER] (tick w) = (logger1, live1, w1)" "l = None"
      "live = remove1 LOGGER (free_block (cfg_syslog_host (lg_config logger1)) SYSLOG_HOST
          (free_block (cfg_logger_name (lg_config logger1)) LOGGER_NAME live1)) \<or> live = remove1 LOGGER live1"
    using assms
    by (auto simp: ij_logger_init_def malloc_def Let_def split: if_splits option.splits prod.splits)
  then show ?thesis
  proof cases
    case 2
    from defaults_result [OF 2(2)] have "live1 = LOGGER # string_blocks (cfg_logger_name (lg_config logger1))
        (cfg_syslog_host (lg_config logger1))" by simp
    with 2(3,4) show ?thesis by (auto simp: free_block_def string_blocks_def split: if_splits)
  qed simp
qed

lemma init_some: "ij_logger_init os out_logger config_ptr w \<noteq> None"
proof (cases "out_logger \<and> ij_validate_logger_config config_ptr = IJ_STATUS_OK \<and> os_malloc os (w_calls w)")
  case True
  then obtain config where c: "config_ptr = Some config"
    by (cases config_ptr) (simp_all add: ij_validate_logger_config_def)
  obtain logger1 live1 w1 where d: "ij_apply_logger_defaults os (zero_logger config) config [LOGGER] (tick w) =
      (logger1, live1, w1)" by (metis prod_cases3)
  have r1: "lg_ring logger1 = zero_ring" using defaults_result [OF d] by (simp add: zero_logger_def)
  obtain st ring where r: "ij_ring_init (os_ring os (w_calls w1)) (Some zero_ring) (cfg_queue_capacity (lg_config logger1)) =
      (st, ring)" by fastforce
  obtain st2 logger w2 where o: "open_sink os (logger1\<lparr>lg_ring := deref ring zero_ring\<rparr>) (tick w1) = (st2, logger, w2)"
    by (metis prod_cases3)
  show ?thesis
  proof (cases "st = IJ_STATUS_OK")
    case ok: True
    with r ring_init_result obtain ring' where "ring = Some ring'" "ring_inv ring'" by blast
    with open_sink_ring [OF o] have "ring_inv (lg_ring logger)" by simp
    then obtain gone where "ij_ring_destroy (os_ring os (w_calls w2)) (Some (lg_ring logger)) = Some gone"
      using ring_destroy_some by blast
    then show ?thesis
      using True c d r o r1 ok by (simp add: ij_logger_init_def malloc_def Let_def split: option.split)
  next
    case False
    then show ?thesis using True c d r r1 by (simp add: ij_logger_init_def malloc_def Let_def)
  qed
next
  case False
  then show ?thesis
    by (cases config_ptr) (auto simp: ij_logger_init_def malloc_def ij_validate_logger_config_def)
qed

text \<open>
  C22. \<open>ij_logger_init\<close> never reads or writes outside its objects, whatever the allocator, the mutex
  and the system answer. When it answers OK the logger is active, its ring is well-formed, empty and
  of the configured or the default capacity, its sink is open, and it owns exactly its own block and
  those of the copied strings. When it fails it hands out no logger and the logger's block is free.
\<close>

theorem logger_init_correct:
  "\<exists>st l live w'. ij_logger_init os out_logger config_ptr w = Some (st, l, live, w') \<and>
     (case l of
        None \<Rightarrow> st \<noteq> IJ_STATUS_OK \<and> LOGGER \<notin> set live
      | Some logger \<Rightarrow> st = IJ_STATUS_OK \<and> logger_ok os w' logger \<and>
          live = LOGGER # string_blocks (cfg_logger_name (lg_config logger)) (cfg_syslog_host (lg_config logger)))"
proof -
  obtain st l live w' where e: "ij_logger_init os out_logger config_ptr w = Some (st, l, live, w')"
    using init_some by (metis option.exhaust prod_cases4)
  show ?thesis
  proof (cases "st = IJ_STATUS_OK")
    case True
    from logger_init_ok [OF e [unfolded True]] e True show ?thesis by auto
  next
    case False
    from init_failure [OF e False] e False show ?thesis by auto
  qed
qed

text \<open>What closing the sinks of a logger does to the descriptors.\<close>

lemma shutdown_steps:
  assumes "lg_active logger" "ring_inv (lg_ring logger)"
    and "live = LOGGER # string_blocks (cfg_logger_name (lg_config logger)) (cfg_syslog_host (lg_config logger))"
  shows "ij_logger_shutdown os (Some logger) live w =
    Some (IJ_STATUS_OK, [], tick (snd (ij_syslog_sink_close (Some (lg_syslog_sink logger))
      (snd (ij_file_sink_close os (Some (lg_file_sink logger)) w)))))"
proof -
  obtain r1 w1 where f: "ij_file_sink_close os (Some (lg_file_sink logger)) w = (r1, w1)" by fastforce
  obtain r2 w2 where s: "ij_syslog_sink_close (Some (lg_syslog_sink logger)) w1 = (r2, w2)" by fastforce
  obtain r where r: "ij_ring_destroy (os_ring os (w_calls w2)) (Some (lg_ring logger)) = Some r"
    using ring_destroy_some [OF assms(2)] by blast
  show ?thesis
    unfolding ij_logger_shutdown_def f s assms(3)
    using assms(1) r f s by (simp add: free_block_def string_blocks_def Let_def)
qed

text \<open>
  Life cycle: shutting down a logger that was constructed successfully answers OK and frees every
  block construction allocated, whatever the mutex and the streams answer.
\<close>

theorem logger_lifecycle:
  assumes "ij_logger_init os out_logger config_ptr w = Some (IJ_STATUS_OK, l, live, w')"
  shows "\<exists>w''. ij_logger_shutdown os l live w' = Some (IJ_STATUS_OK, [], w'')"
proof -
  obtain logger where "l = Some logger" "logger_ok os w' logger"
    "live = LOGGER # string_blocks (cfg_logger_name (lg_config logger)) (cfg_syslog_host (lg_config logger))"
    using logger_init_ok [OF assms] by blast
  then show ?thesis using shutdown_steps [of logger live os w'] by (simp add: logger_ok_def)
qed


text \<open>Construction when memory is available: what remains is the ring and the sink.\<close>

definition default_config :: "ij_logger_config_t \<Rightarrow> ij_logger_config_t" where
  "default_config config =
     (if cfg_queue_capacity config = 0 then config\<lparr>cfg_queue_capacity := IJ_QUEUE_CAPACITY_DEFAULT\<rparr> else config)
       \<lparr>cfg_logger_name := map_option c_text (cfg_logger_name config),
        cfg_syslog_host := map_option c_text (cfg_syslog_host config)\<rparr>"

lemma default_config_sel [simp]:
  "cfg_sink_kind (default_config config) = cfg_sink_kind config"
  "cfg_min_level (default_config config) = cfg_min_level config"
  "cfg_redaction_mode (default_config config) = cfg_redaction_mode config"
  "cfg_file_path (default_config config) = cfg_file_path config"
  "cfg_file_backend (default_config config) = cfg_file_backend config"
  "cfg_syslog_transport (default_config config) = cfg_syslog_transport config"
  "cfg_syslog_port (default_config config) = cfg_syslog_port config"
  "cfg_syslog_host (default_config config) = map_option c_text (cfg_syslog_host config)"
  "cfg_logger_name (default_config config) = map_option c_text (cfg_logger_name config)"
  by (simp_all add: default_config_def)

lemma strdup_works:
  "(\<And>c. os_malloc os c) \<Longrightarrow> \<exists>w'. strdup os s b live w = (map_option c_text s, live @ (if s = None then [] else [b]), w')"
  by (cases s) (simp_all add: strdup_def malloc_def)

lemma defaults_work:
  assumes "\<And>c. os_malloc os c"
  shows "\<exists>w'. ij_apply_logger_defaults os logger config live w =
    (logger\<lparr>lg_config := default_config config, lg_active := True\<rparr>,
     live @ string_blocks (cfg_logger_name config) (cfg_syslog_host config), w')"
proof -
  obtain w1 where n: "strdup os (cfg_logger_name config) LOGGER_NAME live w =
      (map_option c_text (cfg_logger_name config), live @ (if cfg_logger_name config = None then [] else [LOGGER_NAME]), w1)"
    using strdup_works [OF assms] by blast
  obtain w2 where "strdup os (cfg_syslog_host config) SYSLOG_HOST
      (live @ (if cfg_logger_name config = None then [] else [LOGGER_NAME])) w1 =
      (map_option c_text (cfg_syslog_host config), (live @ (if cfg_logger_name config = None then [] else [LOGGER_NAME])) @
        (if cfg_syslog_host config = None then [] else [SYSLOG_HOST]), w2)"
    using strdup_works [OF assms] by blast
  with n show ?thesis
    by (simp add: ij_apply_logger_defaults_def default_config_def string_blocks_def Let_def)
qed

definition init_rest ::
  "os \<Rightarrow> ij_logger_config_t \<Rightarrow> world \<Rightarrow> (ij_status_t \<times> ij_logger option \<times> block list \<times> world) option" where
  "init_rest os config w1 =
    (case ij_ring_init (os_ring os (w_calls w1)) (Some zero_ring) (cfg_queue_capacity (default_config config)) of
       (st, ring) \<Rightarrow>
         if st \<noteq> IJ_STATUS_OK then Some (st, None, string_blocks (cfg_logger_name config) (cfg_syslog_host config), tick w1)
         else
           (case open_sink os ((zero_logger config)\<lparr>lg_config := default_config config, lg_active := True,
                    lg_ring := deref ring zero_ring\<rparr>) (tick w1) of
              (st, logger, w2) \<Rightarrow>
                if st = IJ_STATUS_OK
                then Some (IJ_STATUS_OK, Some logger, LOGGER # string_blocks (cfg_logger_name config) (cfg_syslog_host config), w2)
                else map_option (\<lambda>_. (st, None, string_blocks (cfg_logger_name config) (cfg_syslog_host config), tick w2))
                  (ij_ring_destroy (os_ring os (w_calls w2)) (Some (lg_ring logger)))))"

lemma init_with_memory:
  assumes "\<And>c. os_malloc os c" "config_ok config"
  obtains w1 where "ij_logger_init os True (Some config) w = init_rest os config w1"
proof -
  obtain w1 where d: "ij_apply_logger_defaults os (zero_logger config) config [LOGGER] (tick w) =
    ((zero_logger config)\<lparr>lg_config := default_config config, lg_active := True\<rparr>,
     LOGGER # string_blocks (cfg_logger_name config) (cfg_syslog_host config), w1)"
    using defaults_work [OF assms(1), of "zero_logger config" config "[LOGGER]" "tick w"] by auto
  have z: "lg_ring (zero_logger config) = zero_ring" by (simp add: zero_logger_def)
  obtain st ring where r: "ij_ring_init (os_ring os (w_calls w1)) (Some zero_ring)
      (cfg_queue_capacity (default_config config)) = (st, ring)" by fastforce
  obtain st2 logger w2 where o: "open_sink os ((zero_logger config)\<lparr>lg_config := default_config config,
      lg_active := True, lg_ring := deref ring zero_ring\<rparr>) (tick w1) = (st2, logger, w2)" by (metis prod_cases3)
  have v: "ij_validate_logger_config (Some config) = IJ_STATUS_OK" using assms(2) by (simp add: config_ok_iff)
  show thesis
    by (rule that [of w1], cases "cfg_logger_name config"; cases "cfg_syslog_host config")
      (simp_all add: ij_logger_init_def init_rest_def assms(1) v malloc_def d z Let_def r o split: option.split)
qed

lemma init_ring_works:
  assumes "config_ok config" "os_ring os c = working_mutex"
  obtains ring where "ij_ring_init (os_ring os c) (Some zero_ring) (cfg_queue_capacity (default_config config)) =
    (IJ_STATUS_OK, Some ring)"
proof -
  have "(\<exists>k. 8 \<le> k \<and> k \<le> 16 \<and> cfg_queue_capacity (default_config config) = 2 ^ k)"
  proof (cases "cfg_queue_capacity config = 0")
    case True
    then show ?thesis by (intro exI [of _ 10]) (simp add: default_config_def IJ_QUEUE_CAPACITY_DEFAULT_def)
  next
    case False
    with assms(1) show ?thesis by (auto simp: config_ok_def default_config_def)
  qed
  then show thesis
    unfolding capacity_ok_iff [symmetric] ij_is_power_of_two_def
    by (intro that) (auto simp: ij_ring_init_def assms(2) working_mutex_def)
qed

lemma sync_open_works:
  "(\<And>c. os_fopen os c) \<Longrightarrow> sk_path sink = Some p \<Longrightarrow> sk_active_backend sink \<noteq> IJ_FILE_BACKEND_IO_URING \<Longrightarrow>
     \<exists>sink' w'. op_open (ij_file_sink_ops sink) os (Some sink) w = (IJ_STATUS_OK, Some sink', w')"
  by (simp add: ij_file_sink_ops_def IJ_FILE_SINK_SYNC_OPS_def fopen_ab_def Let_def)

lemma file_sink_open_works:
  assumes "\<And>c. os_malloc os c" "\<And>c. os_fopen os c" "c_text path \<noteq> []"
  shows "fst (ij_file_sink_open os (Some sink) (Some path) w) = IJ_STATUS_OK"
proof -
  have p: "c_at path 0 \<noteq> 0" using assms(3) by (simp add: c_text_empty_iff)
  let ?f = "zero_file_sink\<lparr>sk_fd := - 1, sk_requested_backend := sk_requested_backend sink, sk_path := Some (c_text path)\<rparr>"
  show ?thesis
  proof (cases "sk_requested_backend sink = IJ_FILE_BACKEND_IO_URING")
    case True
    let ?u = "?f\<lparr>sk_active_backend := IJ_FILE_BACKEND_IO_URING\<rparr>"
    obtain st s1 w1 where u: "op_open (ij_file_sink_ops ?u) os (Some ?u) (tick w) = (st, s1, w1)" by (metis prod_cases3)
    have "sk_path ?u = Some (c_text path)" by simp
    from sink_op_open [OF this u] obtain sink1 where s1: "s1 = Some sink1" and m: "sink_meta sink1 = sink_meta ?u" by blast
    let ?g = "sink1\<lparr>sk_active_backend := IJ_FILE_BACKEND_SYNC, sk_fd := - 1, sk_uring := None\<rparr>"
    have "sk_path ?g = Some (c_text path)" "sk_active_backend ?g \<noteq> IJ_FILE_BACKEND_IO_URING"
      using sink_meta_fields [OF m] by simp_all
    from sync_open_works [OF assms(2) this] obtain sink2 w2
      where "op_open (ij_file_sink_ops ?g) os (Some ?g) w1 = (IJ_STATUS_OK, Some sink2, w2)" by blast
    then show ?thesis
      using True p u s1 assms(1)
      by (simp add: ij_file_sink_open.simps ij_file_sink_store_path_def malloc_def open_finish_def time_now_def Let_def)
  next
    case False
    let ?g = "?f\<lparr>sk_active_backend := IJ_FILE_BACKEND_SYNC\<rparr>"
    obtain sink2 w2 where "op_open (ij_file_sink_ops ?g) os (Some ?g) (tick w) = (IJ_STATUS_OK, Some sink2, w2)"
      using sync_open_works [OF assms(2), of ?g "c_text path" "tick w"] by auto
    then show ?thesis
      using False p assms(1)
      by (simp add: ij_file_sink_open.simps ij_file_sink_store_path_def malloc_def open_finish_def time_now_def Let_def)
  qed
qed

lemma syslog_open_works:
  assumes "\<forall>c host service. (\<exists>a as. os_getaddrinfo os c host service = Some (a # as)) \<and> 0 \<le> os_socket os c \<and> os_connect os c"
  shows "fst (ij_syslog_udp_open os (Some sink) (Some host) port w) = IJ_STATUS_OK"
    and "fst (ij_syslog_tcp_open os (Some sink) (Some host) port w) = IJ_STATUS_OK"
proof -
  obtain a as where a: "os_getaddrinfo os (w_calls w) (c_text host) (service_text port) = Some (a # as)" using assms by blast
  have n: "\<not> os_socket os c < 0" "os_connect os c" for c using assms by (auto simp: not_less)
  show "fst (ij_syslog_udp_open os (Some sink) (Some host) port w) = IJ_STATUS_OK"
    "fst (ij_syslog_tcp_open os (Some sink) (Some host) port w) = IJ_STATUS_OK"
    using a n by (simp_all add: ij_syslog_resolve_udp_def ij_syslog_connect_tcp_def getaddrinfo_def socket_def connect_def
        service_fits)
qed

lemma open_sink_works:
  assumes "sink_settings_ok config" "lg_config logger = default_config config" "\<And>c. os_malloc os c"
    and "cfg_sink_kind config = IJ_SINK_KIND_FILE \<Longrightarrow> \<forall>c. os_fopen os c"
    and "cfg_sink_kind config = IJ_SINK_KIND_SYSLOG \<Longrightarrow>
      \<forall>c host service. (\<exists>a as. os_getaddrinfo os c host service = Some (a # as)) \<and> 0 \<le> os_socket os c \<and> os_connect os c"
  shows "fst (open_sink os logger w) = IJ_STATUS_OK"
proof (cases "cfg_sink_kind config")
  case IJ_SINK_KIND_FILE
  then obtain path where p: "cfg_file_path config = Some path" "c_text path \<noteq> []"
    using assms(1) by (auto simp: sink_settings_ok_def)
  let ?s = "(lg_file_sink logger)\<lparr>sk_requested_backend := cfg_file_backend config\<rparr>"
  have "fst (ij_file_sink_open os (Some ?s) (Some path) w) = IJ_STATUS_OK"
    using assms(3,4) IJ_SINK_KIND_FILE p(2) by (intro file_sink_open_works) simp_all
  then show ?thesis
    using IJ_SINK_KIND_FILE p(1) assms(2)
    by (cases "ij_file_sink_open os (Some ?s) (Some path) w") (simp add: open_sink_def Let_def)
next
  case IJ_SINK_KIND_SYSLOG
  then obtain host where h: "cfg_syslog_host config = Some host"
    and t: "cfg_syslog_transport config = IJ_SYSLOG_TRANSPORT_UDP \<or> cfg_syslog_transport config = IJ_SYSLOG_TRANSPORT_TCP"
    using assms(1) by (auto simp: sink_settings_ok_def)
  note ok = syslog_open_works [OF assms(5) [OF IJ_SINK_KIND_SYSLOG], of "lg_syslog_sink logger" "c_text host" "cfg_syslog_port config" w]
  show ?thesis
    using t IJ_SINK_KIND_SYSLOG h assms(2) ok
    by (auto simp: open_sink_def split_beta simp del: ij_syslog_udp_open.simps ij_syslog_tcp_open.simps)
qed (use assms(1,2) in \<open>simp_all add: open_sink_def sink_settings_ok_def\<close>)

lemma init_works:
  assumes "config_ok config" and "\<And>c. os_malloc os c" "\<And>c. os_ring os c = working_mutex"
    and "cfg_sink_kind config = IJ_SINK_KIND_FILE \<Longrightarrow> \<forall>c. os_fopen os c"
    and "cfg_sink_kind config = IJ_SINK_KIND_SYSLOG \<Longrightarrow>
      \<forall>c host service. (\<exists>a as. os_getaddrinfo os c host service = Some (a # as)) \<and> 0 \<le> os_socket os c \<and> os_connect os c"
  shows "\<exists>logger live w'. ij_logger_init os True (Some config) w = Some (IJ_STATUS_OK, Some logger, live, w')"
proof -
  obtain w1 where i: "ij_logger_init os True (Some config) w = init_rest os config w1"
    using init_with_memory [OF assms(2,1)] by blast
  obtain ring where r: "ij_ring_init (os_ring os (w_calls w1)) (Some zero_ring)
      (cfg_queue_capacity (default_config config)) = (IJ_STATUS_OK, Some ring)"
    using init_ring_works [OF assms(1,3)] by blast
  let ?logger = "(zero_logger config)\<lparr>lg_config := default_config config, lg_active := True, lg_ring := ring\<rparr>"
  have "fst (open_sink os ?logger (tick w1)) = IJ_STATUS_OK"
    by (rule open_sink_works) (use assms in \<open>simp_all add: config_ok_def sink_settings_ok_def\<close>)
  then show ?thesis unfolding i init_rest_def r by (cases "open_sink os ?logger (tick w1)") simp
qed


text \<open>
  Construction succeeds when it can: with a valid configuration, memory and a working mutex the
  answer is OK for a console logger, for a file logger whose file can be opened, and for a syslog
  logger whose host resolves and whose socket can be created and connected.
\<close>

theorem logger_init_succeeds:
  assumes "config_ok config" and "\<And>c. os_malloc os c" "\<And>c. os_ring os c = working_mutex"
    and "cfg_sink_kind config = IJ_SINK_KIND_FILE \<Longrightarrow> \<forall>c. os_fopen os c"
    and "cfg_sink_kind config = IJ_SINK_KIND_SYSLOG \<Longrightarrow>
      \<forall>c host service. (\<exists>a as. os_getaddrinfo os c host service = Some (a # as)) \<and> 0 \<le> os_socket os c \<and> os_connect os c"
  shows "\<exists>logger live w'. ij_logger_init os True (Some config) w = Some (IJ_STATUS_OK, Some logger, live, w')"
  using assms by (rule init_works)

definition console_config :: ij_logger_config_t where
  "console_config = sample_config\<lparr>cfg_sink_kind := IJ_SINK_KIND_CONSOLE\<rparr>"

definition file_config :: ij_logger_config_t where
  "file_config = sample_config\<lparr>cfg_sink_kind := IJ_SINK_KIND_FILE\<rparr>"

lemma sample_configs_ok: "config_ok sample_config" "config_ok console_config" "config_ok file_config"
  by (simp_all add: config_ok_def sink_settings_ok_def console_config_def file_config_def sample_config_def
      facility_defs c_text_def)

theorem logger_init_succeeds_witness:
  "\<exists>logger live w'. ij_logger_init short_writer True (Some file_config) start_world =
     Some (IJ_STATUS_OK, Some logger, live, w')"
  by (rule logger_init_succeeds [OF sample_configs_ok(3)]) (simp_all add: short_writer_def file_config_def)

lemma console_init:
  obtains logger live w' where "ij_logger_init short_writer True (Some console_config) start_world =
     Some (IJ_STATUS_OK, Some logger, live, w')"
  using init_works [OF sample_configs_ok(2), of short_writer start_world]
  by (auto simp: short_writer_def console_config_def)

theorem logger_lifecycle_witness:
  "\<exists>l live w' w''. ij_logger_init short_writer True (Some console_config) start_world = Some (IJ_STATUS_OK, l, live, w') \<and>
     ij_logger_shutdown short_writer l live w' = Some (IJ_STATUS_OK, [], w'')"
  by (rule console_init) (blast dest: logger_lifecycle)

text \<open>
  C38. The strings of a failed construction are lost: when memory is available but the ring or the
  sink cannot be set up, the copies of the logger name and of the syslog host stay allocated, and
  no pointer to them is handed out.
\<close>

theorem logger_init_leaks_strings:
  assumes "config_ok config" and "\<And>c. os_malloc os c"
    and "ij_logger_init os True (Some config) w = Some (st, None, live, w')"
  shows "live = string_blocks (cfg_logger_name config) (cfg_syslog_host config)"
proof -
  obtain w1 where i: "ij_logger_init os True (Some config) w = init_rest os config w1"
    using init_with_memory [OF assms(2,1)] by blast
  from assms(3) show ?thesis unfolding i init_rest_def by (auto split: prod.splits if_splits)
qed

definition unreachable_host :: os where
  "unreachable_host = short_writer\<lparr>os_getaddrinfo := (\<lambda>_ _ _. None)\<rparr>"


lemma unreachable_init:
  "\<exists>st live w'. ij_logger_init unreachable_host True (Some sample_config) start_world = Some (st, None, live, w')"
proof -
  have m: "os_malloc unreachable_host c" for c by (simp add: unreachable_host_def short_writer_def)
  obtain w1 where i: "ij_logger_init unreachable_host True (Some sample_config) start_world =
      init_rest unreachable_host sample_config w1"
    using init_with_memory [OF m sample_configs_ok(1)] by blast
  obtain ring where r: "ij_ring_init (os_ring unreachable_host (w_calls w1)) (Some zero_ring)
      (cfg_queue_capacity (default_config sample_config)) = (IJ_STATUS_OK, Some ring)"
    using init_ring_works [OF sample_configs_ok(1), of unreachable_host "w_calls w1"]
    by (auto simp: unreachable_host_def short_writer_def)
  let ?logger = "(zero_logger sample_config)\<lparr>lg_config := default_config sample_config, lg_active := True, lg_ring := ring\<rparr>"
  have "fst (open_sink unreachable_host ?logger (tick w1)) \<noteq> IJ_STATUS_OK"
    by (simp add: open_sink_def sample_config_def ij_syslog_resolve_udp_def getaddrinfo_def unreachable_host_def)
  then obtain st logger w2 where o: "open_sink unreachable_host ?logger (tick w1) = (st, logger, w2)" "st \<noteq> IJ_STATUS_OK"
    by (metis prod.collapse)
  have "ring_inv (lg_ring logger)" using ring_init_result [OF r] open_sink_ring [OF o(1)] by auto
  then obtain gone where "ij_ring_destroy (os_ring unreachable_host (w_calls w2)) (Some (lg_ring logger)) = Some gone"
    using ring_destroy_some by blast
  then show ?thesis unfolding i init_rest_def r using o by simp
qed

theorem logger_init_leaks_strings_witness:
  "\<exists>st w'. ij_logger_init unreachable_host True (Some sample_config) start_world =
     Some (st, None, [LOGGER_NAME, SYSLOG_HOST], w')"
proof -
  obtain st live w' where i: "ij_logger_init unreachable_host True (Some sample_config) start_world = Some (st, None, live, w')"
    using unreachable_init by blast
  have "live = string_blocks (cfg_logger_name sample_config) (cfg_syslog_host sample_config)"
    by (rule logger_init_leaks_strings [OF sample_configs_ok(1) _ i]) (simp add: unreachable_host_def short_writer_def)
  then show ?thesis unfolding i by (simp add: string_blocks_def sample_config_def)
qed

lemma file_close_descriptors:
  "\<exists>more. w_closed (snd (ij_file_sink_close os (Some sink) w)) = w_closed w @ more"
  by (auto simp: ij_file_sink_ops_def IJ_FILE_SINK_SYNC_OPS_def IJ_FILE_SINK_IO_URING_OPS_def fclose_def file_append_def
      close_fd_def tick_def Let_def split: option.split)

text \<open>
  C37. Shutting down a logger with a console or a file sink closes descriptor 0: the syslog sink of
  such a logger was never opened, but its zeroed descriptor counts as open.
\<close>

theorem logger_shutdown_closes_zero:
  assumes "ij_logger_init os out_logger (Some config) w = Some (IJ_STATUS_OK, l, live, w')"
    and "cfg_sink_kind config \<noteq> IJ_SINK_KIND_SYSLOG"
  shows "\<exists>w'' more. ij_logger_shutdown os l live w' = Some (IJ_STATUS_OK, [], w'') \<and>
           w_closed w'' = w_closed w' @ more @ [0]"
proof -
  obtain logger where l: "l = Some logger" "logger_ok os w' logger"
    "live = LOGGER # string_blocks (cfg_logger_name (lg_config logger)) (cfg_syslog_host (lg_config logger))"
    and z: "sl_fd (lg_syslog_sink logger) = 0"
    using logger_init_ok [OF assms(1)] assms(2) by auto
  from shutdown_steps [of logger live os w'] l file_close_descriptors [of os "lg_file_sink logger" w'] show ?thesis
    by (auto simp: logger_ok_def z close_fd_def tick_def)
qed

theorem logger_shutdown_closes_zero_witness:
  "\<exists>l live w' w'' more. ij_logger_init short_writer True (Some console_config) start_world = Some (IJ_STATUS_OK, l, live, w') \<and>
     ij_logger_shutdown short_writer l live w' = Some (IJ_STATUS_OK, [], w'') \<and> w_closed w'' = w_closed w' @ more @ [0]"
proof (rule console_init)
  fix logger live w'
  assume i: "ij_logger_init short_writer True (Some console_config) start_world = Some (IJ_STATUS_OK, Some logger, live, w')"
  from logger_shutdown_closes_zero [OF i] i show ?thesis by (auto simp: console_config_def)
qed

end
