(* ===== verification/Event_Path.thy ===== *)
theory Event_Path
  imports Logger
begin

text \<open>
  The path of an event through the whole library, \<open>ij_logger_log\<close> seen from outside: what arrives on
  the console, in the log file and on the syslog connection for an event the caller hands over. The
  lemmas compose those of the copy, the encoders and the sinks. What a caller may rely on over a
  history of calls is stated as the locale \<open>event_log\<close> and interpreted for console, file and TCP
  loggers; a reader of log files gives back the JSON values of the events.
\<close>

section \<open>Reading a log\<close>

text \<open>One JSON value per line; a line without its newline, or one that is no JSON value, is refused.\<close>

fun read_log :: "byte list \<Rightarrow> byte list \<Rightarrow> json list option" where
  "read_log line [] = (if line = [] then Some [] else None)"
| "read_log line (b # bs) =
     (if b = 0x0a then
        (case read_json (length line) line of
           Some (j, []) \<Rightarrow> map_option ((#) j) (read_log [] bs)
         | _ \<Rightarrow> None)
      else read_log (line @ [b]) bs)"

lemma weight_le_length:
  "json_ok j \<Longrightarrow> json_weight j \<le> length (print_json j)"
  "members_ok ms \<Longrightarrow> members_weight ms \<le> Suc (length (print_members ms))"
proof (induction j and ms)
  case (JToken t)
  then show ?case by (cases t) (simp_all add: token_ok_def)
next
  case (MCons k v ms)
  then show ?case by (cases ms) (simp_all add: quote_def)
qed (simp_all add: quote_def)

lemma read_line: "read_json (length (event_line v)) (event_line v) = Some (event_json v, [])"
  using read_print(1) [OF event_json_ok _ weight_le_length(1) [OF event_json_ok], of "[]" v]
  by (simp add: event_line_def delimited_def)

lemma read_log_line:
  "0x0a \<notin> set xs \<Longrightarrow> read_log line (xs @ 0x0a # rest) =
     (case read_json (length (line @ xs)) (line @ xs) of
        Some (j, []) \<Rightarrow> map_option ((#) j) (read_log [] rest)
      | _ \<Rightarrow> None)"
  by (induction xs arbitrary: line) simp_all

lemma read_log_lines:
  "read_log [] (concat (map (\<lambda>v. event_line v @ [0x0a]) vs)) = Some (map event_json vs)"
proof (induction vs)
  case (Cons v vs)
  have "0x0a \<notin> set (event_line v)" using event_line_clean [of "0x0a" v] by auto
  with Cons show ?case by (simp add: read_log_line read_line)
qed simp

section \<open>One call\<close>

text \<open>The line of an event under a configuration: nothing when the level is filtered out.\<close>

definition logged_line :: "ij_logger_config_t \<Rightarrow> ij_event_t \<Rightarrow> byte list" where
  "logged_line config event =
     (if ij_level_is_enabled (cfg_min_level config) (ev_level event)
      then event_line (input_view (cfg_redaction_mode config) event) @ [0x0a] else [])"

text \<open>The three ways a call with an active logger and an event can go.\<close>

lemma log_cases:
  assumes "lg_active logger"
  obtains (disabled) "\<not> ij_level_is_enabled (cfg_min_level (lg_config logger)) (ev_level event)"
      "ij_logger_log cpu os (Some logger) (Some event) w = Some (IJ_STATUS_OK, Some logger, w, zero_event_copy)"
  | (refused) st cp where "ij_level_is_enabled (cfg_min_level (lg_config logger)) (ev_level event)"
      "ij_logger_log cpu os (Some logger) (Some event) w = Some (st, Some logger, tick w, cp)"
      "st \<noteq> IJ_STATUS_OK" "owns_nothing cp"
  | (copied) cp where "ij_level_is_enabled (cfg_min_level (lg_config logger)) (ev_level event)"
      "ij_logger_log cpu os (Some logger) (Some event) w =
        map_option (\<lambda>(status, logger, w). (status, Some logger, w, zero_event_copy))
          (log_to_sink cpu os logger cp (payload_buffer os w) (tick w))"
      "copy_view cp = input_view (cfg_redaction_mode (lg_config logger)) event" "copy_wf cp"
      "ij_level_is_valid (cp_level cp)" "valid_event event" "cp_timestamp cp = ev_timestamp event"
proof (cases "ij_level_is_enabled (cfg_min_level (lg_config logger)) (ev_level event)")
  case False
  then show thesis using assms by (intro disabled) (simp_all add: ij_logger_log_def)
next
  case True
  show thesis
  proof (cases rule: copy_cases [of cpu "os_alloc os (w_calls w)" event "cfg_redaction_mode (lg_config logger)"])
    case (copied cp)
    have "cp_level cp = ev_level event" "cp_timestamp cp = ev_timestamp event"
      using copy_view_sel [of cp] input_view_sel unfolding copied(3) by metis+
    with that(3) [of cp] True copied log_accepted [OF assms True copied(1)] enabled_valid [OF True] show thesis by simp
  next
    case (refused st cp)
    then show thesis using assms True by (intro that(2) [of st cp]) (simp_all add: ij_logger_log_def)
  qed
qed

lemma logged_line_enabled:
  "ij_level_is_enabled (cfg_min_level config) (ev_level event) \<Longrightarrow>
     logged_line config event = event_line (input_view (cfg_redaction_mode config) event) @ [0x0a]"
  "\<not> ij_level_is_enabled (cfg_min_level config) (ev_level event) \<Longrightarrow> logged_line config event = []"
  by (simp_all add: logged_line_def)

lemma log_console:
  assumes "lg_active logger" "cfg_sink_kind (lg_config logger) = IJ_SINK_KIND_CONSOLE"
  shows "\<exists>st w' cp more. ij_logger_log cpu os (Some logger) (Some event) w = Some (st, Some logger, w', cp) \<and>
    owns_nothing cp \<and> w_stdout w' = w_stdout w @ more \<and>
    (if st = IJ_STATUS_OK then more = logged_line (lg_config logger) event
     else strict_prefix more (logged_line (lg_config logger) event))"
  using assms(1)
proof (cases rule: log_cases [where event = event and cpu = cpu and os = os and w = w])
  case disabled
  then show ?thesis by (simp add: logged_line_enabled)
next
  case (refused st cp)
  then show ?thesis by (simp add: logged_line_enabled tick_def strict_prefix_def)
next
  case (copied cp)
  from log_to_console [OF assms(2) copied(4), of "payload_buffer os w" cpu os "tick w"] obtain st w' where
    l: "log_to_sink cpu os logger cp (payload_buffer os w) (tick w) = Some (st, logger, w')" and
    o: "if timestamp_ok (cp_timestamp cp) \<and> length (event_line (copy_view cp)) < 8192
     then stream_outcome w_stdout (w_stdout (tick w)) (event_line (copy_view cp) @ [0x0a]) (st, w')
     else st = IJ_STATUS_ENCODE_ERROR \<and> w' = tick w" by auto
  then have "\<exists>more. w_stdout w' = w_stdout w @ more \<and>
      (if st = IJ_STATUS_OK then more = logged_line (lg_config logger) event
       else strict_prefix more (logged_line (lg_config logger) event))"
    using copied(1) unfolding copied(3)
    by (auto simp: logged_line_enabled stream_outcome_def tick_def strict_prefix_def split: if_splits)
  with l copied(2) show ?thesis by auto
qed

lemma log_file:
  assumes "lg_active logger" "cfg_sink_kind (lg_config logger) = IJ_SINK_KIND_FILE"
    and "sink_inv os w (lg_file_sink logger)" "sequence_room (lg_file_sink logger)"
  shows "\<exists>st sink' w' cp. ij_logger_log cpu os (Some logger) (Some event) w =
      Some (st, Some (logger\<lparr>lg_file_sink := sink'\<rparr>), w', cp) \<and> owns_nothing cp \<and>
    (st = IJ_STATUS_OK \<longrightarrow> (\<exists>k. sink_inv os w' sink' \<and>
      sk_retention_files sink' = sk_retention_files (lg_file_sink logger) \<and> k \<le> retired (lg_file_sink logger) \<and>
      sink_log w' sink' = concat (drop k (log_segments w (lg_file_sink logger))) @ logged_line (lg_config logger) event))"
  using assms(1)
proof (cases rule: log_cases [where event = event and cpu = cpu and os = os and w = w])
  case disabled
  then show ?thesis
    using assms(3) by (intro exI [of _ IJ_STATUS_OK] exI [of _ "lg_file_sink logger"])
      (auto simp: logged_line_enabled sink_log_def intro!: exI [of _ 0])
next
  case (refused st cp)
  then show ?thesis by (intro exI [of _ st] exI [of _ "lg_file_sink logger"]) simp
next
  case (copied cp)
  let ?line = "event_line (copy_view cp)" and ?sink = "lg_file_sink logger"
  from log_to_file [OF assms(2) copied(4), of "payload_buffer os w" cpu os "tick w"] obtain mem where
    l: "log_to_sink cpu os logger cp (payload_buffer os w) (tick w) = Some
    (if timestamp_ok (cp_timestamp cp) \<and> length ?line + 1 < 8192
     then (case ij_file_sink_write os (Some ?sink) (Some mem) (length ?line + 1) (tick w) of
             (st, s', w') \<Rightarrow> (st, logger\<lparr>lg_file_sink := deref s' ?sink\<rparr>, w'))
     else (IJ_STATUS_ENCODE_ERROR, logger, tick w))" and
    m: "timestamp_ok (cp_timestamp cp) \<and> length ?line + 1 < 8192 \<longrightarrow> c_mem mem (length ?line + 1) = ?line @ [0x0a]"
    by (auto simp del: Suc_eq_plus1_left add.commute)
  show ?thesis
  proof (cases "timestamp_ok (cp_timestamp cp) \<and> length ?line + 1 < 8192")
    case True
    obtain st s' w' where e: "ij_file_sink_write os (Some ?sink) (Some mem) (length ?line + 1) (tick w) = (st, s', w')"
      by (metis prod_cases3)
    have inv: "sink_inv os (tick w) ?sink" using assms(3) by (simp add: sink_inv_def)
    have seg: "log_segments (tick w) ?sink = log_segments w ?sink"
      by (simp add: log_segments_def split: option.split)
    have "\<exists>k. sink_inv os w' (deref s' ?sink) \<and>
        sk_retention_files (deref s' ?sink) = sk_retention_files ?sink \<and> k \<le> retired ?sink \<and>
        sink_log w' (deref s' ?sink) = concat (drop k (log_segments w ?sink)) @ ?line @ [0x0a]" if "st = IJ_STATUS_OK"
      using file_sink_write_ok [OF inv assms(4) e [unfolded that]] m True unfolding seg by auto
    then show ?thesis
      using l e True copied(1,2) unfolding copied(3) logged_line_enabled(1) [OF copied(1)] by auto
  next
    case False
    then show ?thesis
      using l copied(2) by (intro exI [of _ IJ_STATUS_ENCODE_ERROR] exI [of _ ?sink]) auto
  qed
qed

text \<open>The syslog line of an event under a configuration.\<close>

definition logged_syslog :: "ij_logger_config_t \<Rightarrow> ij_event_t \<Rightarrow> byte list" where
  "logged_syslog config event = view_syslog_line (input_view (cfg_redaction_mode config) event) config"

lemma log_syslog:
  assumes "lg_active logger" "cfg_sink_kind (lg_config logger) = IJ_SINK_KIND_SYSLOG"
    and "ij_level_is_enabled (cfg_min_level (lg_config logger)) (ev_level event)"
    and "ij_logger_log cpu os (Some logger) (Some event) w = Some (st, l', w', cp)"
  obtains (unsent) "st \<noteq> IJ_STATUS_OK" "w' = tick w" "l' = Some logger" "owns_nothing cp"
  | (sent) mem where "0 < length (logged_syslog (lg_config logger) event)"
      "length (logged_syslog (lg_config logger) event) < 8192" "l' = Some logger" "owns_nothing cp"
      "c_mem mem (length (logged_syslog (lg_config logger) event)) = logged_syslog (lg_config logger) event"
      "(st, w') = (if cfg_syslog_transport (lg_config logger) = IJ_SYSLOG_TRANSPORT_UDP
         then ij_syslog_udp_write os (Some (lg_syslog_sink logger)) (Some mem) (length (logged_syslog (lg_config logger) event)) (tick w)
         else if cfg_syslog_transport (lg_config logger) = IJ_SYSLOG_TRANSPORT_TCP
         then ij_syslog_tcp_write os (Some (lg_syslog_sink logger)) (Some mem) (length (logged_syslog (lg_config logger) event)) (tick w)
         else (IJ_STATUS_SINK_ERROR, tick w))"
  using assms(1)
proof (cases rule: log_cases [where event = event and cpu = cpu and os = os and w = w])
  case disabled
  then show thesis using assms(3) by simp
next
  case (refused st cp)
  then show thesis using assms(4) by (intro unsent) auto
next
  case (copied cp1)
  let ?line = "logged_syslog (lg_config logger) event"
  have line: "syslog_line cp1 (lg_config logger) = ?line"
    unfolding logged_syslog_def by (rule syslog_line_view [OF copied(4,3)])
  have "0 < length (payload_buffer os w)" by simp
  from log_to_syslog [OF assms(2) copied(5) this, of cpu os "tick w"] obtain mem where
    l: "log_to_sink cpu os logger cp1 (payload_buffer os w) (tick w) = Some
    (if timestamp_ok (cp_timestamp cp1) \<and> length ?line < 8192
     then (case (if cfg_syslog_transport (lg_config logger) = IJ_SYSLOG_TRANSPORT_UDP
                 then ij_syslog_udp_write os (Some (lg_syslog_sink logger)) (Some mem) (length ?line) (tick w)
                 else if cfg_syslog_transport (lg_config logger) = IJ_SYSLOG_TRANSPORT_TCP
                 then ij_syslog_tcp_write os (Some (lg_syslog_sink logger)) (Some mem) (length ?line) (tick w)
                 else (IJ_STATUS_SINK_ERROR, tick w)) of (st, w') \<Rightarrow> (st, logger, w'))
     else (IJ_STATUS_ENCODE_ERROR, logger, tick w))" and
    m: "timestamp_ok (cp_timestamp cp1) \<and> length ?line < 8192 \<longrightarrow> c_mem mem (length ?line) = ?line"
    unfolding line length_payload_buffer by blast
  have pos: "0 < length ?line"
    by (simp add: logged_syslog_def view_syslog_line_def rfc5424_line_def)
  show thesis
  proof (cases "timestamp_ok (cp_timestamp cp1) \<and> length ?line < 8192")
    case True
    then show thesis
      using l m assms(4) copied(2) pos
      by (intro sent [of mem]) (auto split: prod.splits simp del: ij_syslog_udp_write.simps ij_syslog_tcp_write.simps)
  next
    case False
    then show thesis using l assms(4) copied(2) by (intro unsent) auto
  qed
qed

lemma log_safe:
  "\<exists>st l' w' cp. ij_logger_log cpu os logger_ptr event_ptr w = Some (st, l', w', cp) \<and> owns_nothing cp"
proof (cases logger_ptr; cases event_ptr)
  fix logger event
  assume ptr: "logger_ptr = Some logger" "event_ptr = Some event"
  show ?thesis
  proof (cases "lg_active logger")
    case True
    then show ?thesis
    proof (cases rule: log_cases [where event = event and cpu = cpu and os = os and w = w])
      case (copied cp)
      obtain r where "log_to_sink cpu os logger cp (payload_buffer os w) (tick w) = Some r"
        using log_to_sink_some [OF copied(4,5), of "payload_buffer os w" cpu os logger "tick w"] by auto
      then show ?thesis using copied(2) ptr by (cases r) simp
    qed (use ptr in auto)
  next
    case False
    then show ?thesis by (simp add: ij_logger_log_def ptr)
  qed
qed (simp_all add: ij_logger_log_def)

section \<open>Histories of calls\<close>

text \<open>
  What a caller relies on: a call is safe, and one that answers OK appends the entry of its event
  to the output and leaves the logger usable. The entry of a filtered event is empty.
\<close>

locale event_log =
  fixes inv :: "'s \<Rightarrow> bool"
    and log_event :: "ij_event_t \<Rightarrow> 's \<Rightarrow> (ij_status_t \<times> 's) option"
    and out :: "'s \<Rightarrow> 'o list"
    and entry :: "ij_event_t \<Rightarrow> 'o list"
  assumes log_some: "inv s \<Longrightarrow> log_event e s \<noteq> None"
    and log_ok: "inv s \<Longrightarrow> log_event e s = Some (IJ_STATUS_OK, s') \<Longrightarrow> inv s' \<and> out s' = out s @ entry e"
begin

fun log_all :: "ij_event_t list \<Rightarrow> 's \<Rightarrow> (ij_status_t \<times> 's) option" where
  "log_all [] s = Some (IJ_STATUS_OK, s)"
| "log_all (e # es) s =
     (case log_event e s of
        None \<Rightarrow> None
      | Some (st, s') \<Rightarrow> if st = IJ_STATUS_OK then log_all es s' else Some (st, s'))"

lemma log_all_some: "inv s \<Longrightarrow> log_all es s \<noteq> None"
proof (induction es arbitrary: s)
  case (Cons e es)
  obtain st s1 where l: "log_event e s = Some (st, s1)" using log_some [OF Cons.prems] by fastforce
  with Cons.IH [of s1] log_ok [OF Cons.prems, of e s1] show ?case by simp
qed simp

lemma log_all_ok:
  "inv s \<Longrightarrow> log_all es s = Some (IJ_STATUS_OK, s') \<Longrightarrow> inv s' \<and> out s' = out s @ concat (map entry es)"
proof (induction es arbitrary: s)
  case (Cons e es)
  obtain st s1 where l: "log_event e s = Some (st, s1)" using log_some [OF Cons.prems(1)] by fastforce
  with Cons.prems(2) have st: "st = IJ_STATUS_OK" "log_all es s1 = Some (IJ_STATUS_OK, s')"
    by (auto split: if_splits)
  from log_ok [OF Cons.prems(1) l [unfolded st(1)]] Cons.IH [OF _ st(2)] show ?case by auto
qed simp

end

text \<open>A call as a step of the pair of logger and world.\<close>

definition log_step :: "cpu \<Rightarrow> os \<Rightarrow> ij_event_t \<Rightarrow> ij_logger \<times> world \<Rightarrow> (ij_status_t \<times> (ij_logger \<times> world)) option" where
  "log_step cpu os event = (\<lambda>(logger, w).
     map_option (\<lambda>(st, l', w', cp). (st, (deref l' logger, w'))) (ij_logger_log cpu os (Some logger) (Some event) w))"

text \<open>
  The file logger as long as its sequence number can be counted up: after 2^64 - 1 rotations the names
  of rotated files start to repeat.
\<close>

definition file_log_step :: "cpu \<Rightarrow> os \<Rightarrow> ij_event_t \<Rightarrow> ij_logger \<times> world \<Rightarrow> (ij_status_t \<times> (ij_logger \<times> world)) option" where
  "file_log_step cpu os event = (\<lambda>(logger, w).
     if sequence_room (lg_file_sink logger) then log_step cpu os event (logger, w)
     else Some (IJ_STATUS_INTERNAL_ERROR, (logger, w)))"

definition console_ready :: "ij_logger_config_t \<Rightarrow> ij_logger \<times> world \<Rightarrow> bool" where
  "console_ready config = (\<lambda>(logger, w).
     lg_active logger \<and> lg_config logger = config \<and> cfg_sink_kind config = IJ_SINK_KIND_CONSOLE)"

definition file_ready :: "os \<Rightarrow> ij_logger_config_t \<Rightarrow> ij_logger \<times> world \<Rightarrow> bool" where
  "file_ready os config = (\<lambda>(logger, w).
     lg_active logger \<and> lg_config logger = config \<and> cfg_sink_kind config = IJ_SINK_KIND_FILE \<and>
     sink_inv os w (lg_file_sink logger) \<and> sk_retention_files (lg_file_sink logger) = 0)"

interpretation console_log: event_log "console_ready config" "log_step cpu os" "\<lambda>(logger, w). w_stdout w"
  "logged_line config" for cpu os config
proof
  fix s :: "ij_logger \<times> world" and e s'
  assume inv: "console_ready config s"
  obtain logger w where s: "s = (logger, w)" by fastforce
  from inv s log_console [of logger cpu os e w] obtain st w' cp more where
    l: "ij_logger_log cpu os (Some logger) (Some e) w = Some (st, Some logger, w', cp)"
    "w_stdout w' = w_stdout w @ more" "st = IJ_STATUS_OK \<longrightarrow> more = logged_line config e"
    by (auto simp: console_ready_def)
  then show "log_step cpu os e s \<noteq> None" by (simp add: log_step_def s)
  show "console_ready config s' \<and>
      (case s' of (logger, w) \<Rightarrow> w_stdout w) = (case s of (logger, w) \<Rightarrow> w_stdout w) @ logged_line config e"
    if "log_step cpu os e s = Some (IJ_STATUS_OK, s')"
    using that l inv by (auto simp: log_step_def s console_ready_def)
qed

interpretation file_log: event_log "file_ready os config" "file_log_step cpu os"
  "\<lambda>(logger, w). sink_log w (lg_file_sink logger)" "logged_line config" for cpu os config
proof
  fix s :: "ij_logger \<times> world" and e s'
  assume inv: "file_ready os config s"
  obtain logger w where s: "s = (logger, w)" by fastforce
  show "file_log_step cpu os e s \<noteq> None"
    using log_safe [of cpu os "Some logger" "Some e" w] by (auto simp: file_log_step_def log_step_def s)
  assume ok: "file_log_step cpu os e s = Some (IJ_STATUS_OK, s')"
  then have room: "sequence_room (lg_file_sink logger)" by (auto simp: file_log_step_def s split: if_splits)
  have ready: "lg_active logger" "cfg_sink_kind (lg_config logger) = IJ_SINK_KIND_FILE" "lg_config logger = config"
    "sink_inv os w (lg_file_sink logger)" using inv by (auto simp: file_ready_def s)
  from log_file [OF ready(1,2,4) room, of cpu e] obtain st sink' w' cp where
    l: "ij_logger_log cpu os (Some logger) (Some e) w = Some (st, Some (logger\<lparr>lg_file_sink := sink'\<rparr>), w', cp)"
    "st = IJ_STATUS_OK \<longrightarrow> (\<exists>k. sink_inv os w' sink' \<and>
      sk_retention_files sink' = sk_retention_files (lg_file_sink logger) \<and> k \<le> retired (lg_file_sink logger) \<and>
      sink_log w' sink' = concat (drop k (log_segments w (lg_file_sink logger))) @ logged_line config e)"
    unfolding ready(3) by blast
  moreover have "retired (lg_file_sink logger) = 0" using inv by (simp add: file_ready_def s retired_def)
  ultimately show "file_ready os config s' \<and> (case s' of (logger, w) \<Rightarrow> sink_log w (lg_file_sink logger)) =
      (case s of (logger, w) \<Rightarrow> sink_log w (lg_file_sink logger)) @ logged_line config e"
    using ok room inv by (auto simp: file_log_step_def log_step_def s file_ready_def sink_log_def)
qed

text \<open>The two syslog transports: frames on the connection, one datagram for each event.\<close>

definition syslog_ready ::
  "ij_syslog_transport_t \<Rightarrow> ij_logger_config_t \<Rightarrow> ij_syslog_sink_t \<Rightarrow> ij_logger \<times> world \<Rightarrow> bool" where
  "syslog_ready transport config sink = (\<lambda>(logger, w).
     lg_active logger \<and> lg_config logger = config \<and> cfg_sink_kind config = IJ_SINK_KIND_SYSLOG \<and>
     cfg_syslog_transport config = transport \<and> lg_syslog_sink logger = sink \<and> 0 \<le> sl_fd sink)"

definition when_enabled :: "ij_logger_config_t \<Rightarrow> (ij_event_t \<Rightarrow> 'a) \<Rightarrow> ij_event_t \<Rightarrow> 'a list" where
  "when_enabled config f event =
     (if ij_level_is_enabled (cfg_min_level config) (ev_level event) then [f event] else [])"

lemma when_enabled_concat:
  "concat (map (\<lambda>e. concat (map g (when_enabled config f e))) es) =
     concat (map (\<lambda>e. g (f e)) (filter (\<lambda>e. ij_level_is_enabled (cfg_min_level config) (ev_level e)) es))"
  by (induction es) (simp_all add: when_enabled_def)

lemma logged_line_when: "logged_line config e = concat (map (\<lambda>v. event_line v @ [0x0a])
    (when_enabled config (input_view (cfg_redaction_mode config)) e))"
  by (simp add: logged_line_def when_enabled_def)

lemma tcp_step:
  assumes inv: "syslog_ready IJ_SYSLOG_TRANSPORT_TCP config sink (logger, w)"
    and ok: "log_step cpu os e (logger, w) = Some (IJ_STATUS_OK, (logger', w'))"
  shows "logger' = logger \<and> w_streams w' (sl_fd sink) =
    w_streams w (sl_fd sink) @ concat (map tcp_frame (when_enabled config (logged_syslog config) e))"
proof (cases "ij_level_is_enabled (cfg_min_level config) (ev_level e)")
  case True
  have r: "lg_active logger" "cfg_sink_kind (lg_config logger) = IJ_SINK_KIND_SYSLOG"
    "ij_level_is_enabled (cfg_min_level (lg_config logger)) (ev_level e)" using inv True by (auto simp: syslog_ready_def)
  obtain l' cp where l: "ij_logger_log cpu os (Some logger) (Some e) w = Some (IJ_STATUS_OK, l', w', cp)"
    "logger' = deref l' logger" using ok by (auto simp: log_step_def)
  from r l(1) show ?thesis
  proof (cases rule: log_syslog)
    case (sent mem)
    have "(IJ_STATUS_OK, w') = ij_syslog_tcp_write os (Some sink) (Some mem) (length (logged_syslog config e)) (tick w)"
      using sent(6) inv by (simp add: syslog_ready_def)
    then show ?thesis
      using tcp_write_outcome [of "length (logged_syslog config e)" sink "tick w" mem os] sent inv l(2) True
      by (auto simp: syslog_ready_def stream_outcome_def when_enabled_def tick_def SIZE_MODULUS_def
          simp del: ij_syslog_tcp_write.simps dest: sym)
  qed simp
next
  case False
  then show ?thesis
    using ok inv by (auto simp: log_step_def ij_logger_log_def syslog_ready_def when_enabled_def)
qed

interpretation tcp_log: event_log "syslog_ready IJ_SYSLOG_TRANSPORT_TCP config sink" "log_step cpu os"
  "\<lambda>(logger, w). w_streams w (sl_fd sink)"
  "\<lambda>e. concat (map tcp_frame (when_enabled config (logged_syslog config) e))" for cpu os config sink
proof
  fix s :: "ij_logger \<times> world" and e
  assume "syslog_ready IJ_SYSLOG_TRANSPORT_TCP config sink s"
  show "log_step cpu os e s \<noteq> None"
    using log_safe [of cpu os "Some (fst s)" "Some e" "snd s"] by (auto simp: log_step_def split_beta)
next
  fix s s' :: "ij_logger \<times> world" and e
  assume inv: "syslog_ready IJ_SYSLOG_TRANSPORT_TCP config sink s" and ok: "log_step cpu os e s = Some (IJ_STATUS_OK, s')"
  from tcp_step [of config sink "fst s" "snd s" cpu os e "fst s'" "snd s'"] inv ok
  show "syslog_ready IJ_SYSLOG_TRANSPORT_TCP config sink s' \<and> (case s' of (logger, w) \<Rightarrow> w_streams w (sl_fd sink)) =
      (case s of (logger, w) \<Rightarrow> w_streams w (sl_fd sink)) @ concat (map tcp_frame (when_enabled config (logged_syslog config) e))"
    by (cases s; cases s') (simp add: syslog_ready_def)
qed

section \<open>When a call succeeds\<close>

lemma log_console_works:
  assumes "lg_active logger" "cfg_sink_kind (lg_config logger) = IJ_SINK_KIND_CONSOLE"
    and "ij_level_is_enabled (cfg_min_level (lg_config logger)) (ev_level event)"
    and "valid_event event" "view_plain (input_view (cfg_redaction_mode (lg_config logger)) event)"
    and "timestamp_ok (ev_timestamp event)"
    and "\<And>c. arena_ok (os_alloc os c) \<and> attrs_ok (os_alloc os c)" "\<And>c k. 0 < k \<Longrightarrow> 0 < os_writev os c k"
  shows "\<exists>w' cp. ij_logger_log cpu os (Some logger) (Some event) w = Some (IJ_STATUS_OK, Some logger, w', cp)"
proof -
  obtain cp where c: "ij_event_copy_from_input cpu (os_alloc os (w_calls w)) (Some event) (cfg_redaction_mode (lg_config logger)) =
      Some (IJ_STATUS_OK, cp)" and v: "copy_view cp = input_view (cfg_redaction_mode (lg_config logger)) event" "copy_wf cp"
    using copy_from_input_ok [OF assms(4), of "os_alloc os (w_calls w)" cpu] assms(7) by blast
  have t: "timestamp_ok (cp_timestamp cp)"
    using assms(6) copy_view_sel(1) [of cp] input_view_sel(1) unfolding v(1) by simp
  let ?n = "length (event_line (copy_view cp))"
  have "?n \<le> 5107" unfolding v(1) by (rule valid_event_line_length [OF assms(4,5)])
  with json_console_encode_spec [OF v(2), of 8192 "payload_buffer os w" cpu] t obtain mem where
    e: "ij_json_console_encode cpu (Some cp) (Some (payload_buffer os w)) 8192 = Some (IJ_STATUS_OK, Some mem, Some ?n)"
    by auto
  have "0 < ?n" unfolding event_line_text by simp
  then have "fst (ij_console_sink_write os (Some mem) ?n (tick w)) = IJ_STATUS_OK"
    using console_loop_ok [of 0 ?n "?n + 1" os mem "tick w"] assms(8) by (simp add: ij_console_sink_write_def)
  then show ?thesis
    using log_accepted [OF assms(1,3) c] e assms(2)
    by (cases "ij_console_sink_write os (Some mem) ?n (tick w)") (simp add: log_to_sink_def)
qed

section \<open>Secrets\<close>

text \<open>The event with another value for its \<open>i\<close>-th attribute.\<close>

definition set_value :: "nat \<Rightarrow> ij_attr_value_t \<Rightarrow> ij_event_t \<Rightarrow> ij_event_t" where
  "set_value i v event =
     event\<lparr>ev_attributes := map_option (\<lambda>as. as[i := (as ! i)\<lparr>attr_value := v\<rparr>]) (ev_attributes event)\<rparr>"

lemma set_value_attributes:
  "i < length (event_attributes event) \<Longrightarrow>
     event_attributes (set_value i v event) =
       (event_attributes event)[i := (event_attributes event ! i)\<lparr>attr_value := v\<rparr>]"
  by (auto simp: event_attributes_def set_value_def take_update_swap split: option.splits)

lemma secret_view:
  assumes "i < length (event_attributes event)" "sensitive (attr_name (event_attributes event ! i))" "is_string_value v"
  shows "input_view IJ_REDACTION_MODE_ENABLED (set_value i v event) =
    (input_view IJ_REDACTION_MODE_ENABLED event)
      \<lparr>v_attributes := (v_attributes (input_view IJ_REDACTION_MODE_ENABLED event))
         [i := (attr_name (event_attributes event ! i), VString IJ_REDACTED_LITERAL)]\<rparr>"
proof -
  let ?a = "(event_attributes event ! i)\<lparr>attr_value := v\<rparr>"
  have "attr_name ?a = attr_name (event_attributes event ! i)" by (simp add: attr_name_def key_mem_def)
  then have "input_attr_view IJ_REDACTION_MODE_ENABLED ?a =
      (attr_name (event_attributes event ! i), VString IJ_REDACTED_LITERAL)"
    using assms(2,3) by (simp add: input_attr_view_def must_redact_def)
  then show ?thesis
    unfolding input_view_def set_value_attributes [OF assms(1)]
    by (simp add: set_value_def map_update)
qed

section \<open>A file logger after its construction\<close>

lemma strdup_files: "strdup os s b live w = (s', live', w') \<Longrightarrow> file_content w' = file_content w"
  by (auto simp: strdup_def malloc_def split: option.splits if_splits)

lemma defaults_files:
  assumes "ij_apply_logger_defaults os logger config live w = (logger', live', w')"
  shows "file_content w' = file_content w \<and>
    cfg_file_retention_files (lg_config logger') = cfg_file_retention_files config \<and>
    cfg_file_backend (lg_config logger') = cfg_file_backend config"
proof -
  obtain name l1 w1 where n: "strdup os (cfg_logger_name config) LOGGER_NAME live w = (name, l1, w1)"
    by (metis prod_cases3)
  obtain host l2 w2 where h: "strdup os (cfg_syslog_host config) SYSLOG_HOST l1 w1 = (host, l2, w2)"
    by (metis prod_cases3)
  from assms n h have "w' = w2"
    "logger' = logger\<lparr>lg_config := (if cfg_queue_capacity config = 0
        then config\<lparr>cfg_queue_capacity := IJ_QUEUE_CAPACITY_DEFAULT\<rparr> else config)
        \<lparr>cfg_logger_name := name, cfg_syslog_host := host\<rparr>, lg_active := True\<rparr>"
    by (auto simp: ij_apply_logger_defaults_def Let_def)
  then show ?thesis using strdup_files [OF n] strdup_files [OF h] by simp
qed

definition fresh_file_log :: "ij_logger_config_t \<Rightarrow> ij_file_sink_t \<Rightarrow> bool" where
  "fresh_file_log config sink \<longleftrightarrow>
     sk_retention_files sink = cfg_file_retention_files config \<and> sk_bytes_written sink = 0 \<and>
     sk_rotated_paths sink = [] \<and> sk_path sink = map_option c_text (cfg_file_path config) \<and>
     (sk_active_backend sink = IJ_FILE_BACKEND_IO_URING \<longrightarrow> cfg_file_backend config = IJ_FILE_BACKEND_IO_URING)"

lemma open_file_sink:
  assumes "open_sink os logger w = (IJ_STATUS_OK, logger', w')" "cfg_sink_kind (lg_config logger) = IJ_SINK_KIND_FILE"
    and "cfg_file_path (lg_config logger) = Some path"
  shows "fresh_file_log (lg_config logger) (lg_file_sink logger') \<and>
    sink_log w' (lg_file_sink logger') = file_content w (c_text path)"
proof -
  let ?cfg = "lg_config logger"
  let ?sink = "(lg_file_sink logger)\<lparr>sk_requested_backend := cfg_file_backend ?cfg\<rparr>"
  obtain st s' w1 where o: "ij_file_sink_open os (Some ?sink) (Some path) w = (st, s', w1)" by (metis prod_cases3)
  have ok: "st = IJ_STATUS_OK" "w1 = w'" "lg_file_sink logger' = (deref s' ?sink)\<lparr>sk_rotate_bytes := cfg_file_rotate_bytes ?cfg,
      sk_rotate_interval_seconds := cfg_file_rotate_interval_seconds ?cfg, sk_retention_files := cfg_file_retention_files ?cfg\<rparr>"
    using assms o by (auto simp: open_sink_def Let_def split: if_splits)
  from file_sink_open_ok [OF o [unfolded ok]] show ?thesis
    unfolding ok(3)
    by (auto simp: fresh_file_log_def sink_log_def log_segments_def sink_pending_def sync_pending_def assms(3))
qed

lemma file_init:
  assumes "ij_logger_init os out_logger (Some config) w = Some (IJ_STATUS_OK, Some logger, live, w')"
    and "cfg_sink_kind config = IJ_SINK_KIND_FILE" "cfg_file_path config = Some path"
  shows "fresh_file_log config (lg_file_sink logger) \<and> sink_log w' (lg_file_sink logger) = file_content w (c_text path)"
  using assms(1)
proof (rule init_steps)
  fix config' logger1 w1 ring logger'
  assume c: "Some config = Some config'"
    and d: "ij_apply_logger_defaults os (zero_logger config') config' [LOGGER] (tick w) = (logger1, live, w1)"
    and o: "open_sink os (logger1\<lparr>lg_ring := ring\<rparr>) (tick w1) = (IJ_STATUS_OK, logger', w')" and l: "Some logger = Some logger'"
  have k: "cfg_sink_kind (lg_config (logger1\<lparr>lg_ring := ring\<rparr>)) = IJ_SINK_KIND_FILE"
    "cfg_file_path (lg_config (logger1\<lparr>lg_ring := ring\<rparr>)) = Some path"
    using defaults_result [OF d] assms(2,3) c by simp_all
  from open_file_sink [OF o k] defaults_files [OF d] defaults_result [OF d] c l show ?thesis
    by (simp add: fresh_file_log_def)
qed

lemma file_logger_ready:
  assumes "ij_logger_init os out_logger (Some config) w = Some (IJ_STATUS_OK, Some logger, live, w')"
    and "cfg_sink_kind config = IJ_SINK_KIND_FILE" "cfg_file_path config = Some path" "cfg_file_retention_files config = 0"
  shows "file_ready os (lg_config logger) (logger, w') \<and> sequence_room (lg_file_sink logger) \<and>
    cfg_min_level (lg_config logger) = cfg_min_level config \<and> cfg_redaction_mode (lg_config logger) = cfg_redaction_mode config"
  using logger_init_ok [OF assms(1)] file_init [OF assms(1-3)] assms(2,4)
  by (auto simp: file_ready_def logger_ok_def fresh_file_log_def)

text \<open>The first write after opening goes through on a stream that takes it.\<close>

lemma first_write_works:
  assumes "sink_inv os w' sink" "sk_bytes_written sink = 0" "sk_active_backend sink \<noteq> IJ_FILE_BACKEND_IO_URING"
    and "\<And>c k. k \<le> os_fwrite os c k" "0 < n"
  shows "fst (ij_file_sink_write os (Some sink) (Some mem) n w) = IJ_STATUS_OK"
proof -
  obtain f where "sk_stream sink = Some f" using assms(1,3) by (auto simp: sink_inv_def sink_healthy_def sync_healthy_def)
  moreover have "min (os_fwrite os c k) k = k" for c k using assms(4) by (simp add: min_absorb2)
  ultimately show ?thesis
    using assms(2,3,5)
    by (simp add: ij_file_sink_write.simps ij_file_sink_rotation_due_def time_now_def ij_file_sink_ops_def
        IJ_FILE_SINK_SYNC_OPS_def fwrite_def Let_def)
qed

lemma log_file_works:
  assumes "lg_active logger" "cfg_sink_kind (lg_config logger) = IJ_SINK_KIND_FILE"
    and "ij_level_is_enabled (cfg_min_level (lg_config logger)) (ev_level event)"
    and "valid_event event" "view_plain (input_view (cfg_redaction_mode (lg_config logger)) event)"
    and "timestamp_ok (ev_timestamp event)" and "\<And>c. arena_ok (os_alloc os c) \<and> attrs_ok (os_alloc os c)"
    and "\<And>mem n w. 0 < n \<Longrightarrow> fst (ij_file_sink_write os (Some (lg_file_sink logger)) (Some mem) n w) = IJ_STATUS_OK"
  shows "\<exists>logger' w' cp. ij_logger_log cpu os (Some logger) (Some event) w = Some (IJ_STATUS_OK, Some logger', w', cp)"
proof -
  obtain cp where c: "ij_event_copy_from_input cpu (os_alloc os (w_calls w)) (Some event) (cfg_redaction_mode (lg_config logger)) =
      Some (IJ_STATUS_OK, cp)" and v: "copy_view cp = input_view (cfg_redaction_mode (lg_config logger)) event" "copy_wf cp"
    using copy_from_input_ok [OF assms(4), of "os_alloc os (w_calls w)" cpu] assms(7) by blast
  have t: "timestamp_ok (cp_timestamp cp)"
    using assms(6) copy_view_sel(1) [of cp] input_view_sel(1) unfolding v(1) by simp
  let ?n = "length (event_line (copy_view cp)) + 1"
  have n: "?n < 8192" using valid_event_line_length [OF assms(4,5)] unfolding v(1) by simp
  have "0 < length (payload_buffer os w)" by simp
  from log_to_file [OF assms(2) v(2) this, of cpu os "tick w"] t n obtain mem where
    "log_to_sink cpu os logger cp (payload_buffer os w) (tick w) =
      Some (case ij_file_sink_write os (Some (lg_file_sink logger)) (Some mem) ?n (tick w) of
             (st, s', w') \<Rightarrow> (st, logger\<lparr>lg_file_sink := deref s' (lg_file_sink logger)\<rparr>, w'))"
    by auto
  with assms(8) [of ?n mem "tick w"] log_accepted [OF assms(1,3) c] show ?thesis by (auto split: prod.splits)
qed

lemma send_all_works:
  "(\<And>c k. 0 < k \<Longrightarrow> 0 < os_send os c k) \<Longrightarrow> fst (send_all_loop os fd b n t w) = IJ_STATUS_OK"
proof (induction "n - t" arbitrary: t w rule: less_induct)
  case less
  obtain r w' where s: "send os fd (c_mem (c_ptr_add b t) (n - t)) w = (r, w')" by fastforce
  have "0 < r" if "t < n" using s less.prems [of "n - t" "w_calls w"] that by (auto simp: send_def Let_def)
  with less.hyps [of "t + nat r" w'] less.prems s show ?case
    by (cases "t < n") (simp_all add: send_all_loop.simps [of os fd b n t w])
qed

lemma tcp_write_works:
  assumes "\<And>c k. 0 < k \<Longrightarrow> 0 < os_send os c k" "0 < n" "n < SIZE_MODULUS" "0 \<le> sl_fd sink"
  shows "fst (ij_syslog_tcp_write os (Some sink) (Some p) n w) = IJ_STATUS_OK"
proof -
  have "length (decimal n) \<le> 20" using assms(3) by (intro length_decimal) (simp_all add: SIZE_MODULUS_def)
  then have "snprintf 32 (decimal n @ [0x20]) = (decimal n @ [0x20, 0], length (decimal n) + 1)" "length (decimal n) + 1 < 32"
    by (simp_all add: snprintf_def)
  then show ?thesis
    using assms(2,4) send_all_works [OF assms(1)] by (simp add: ij_syslog_send_all_def split_beta not_le)
qed

text \<open>The syslog line of a valid event always fits the payload buffer.\<close>

lemma valid_message_length: "valid_event event \<Longrightarrow> length (v_message (input_view mode event)) \<le> 2048"
  by (auto simp: valid_event_def valid_event_fields_def valid_text_def limit_defs input_view_def text_of_def strlen_def
      split: option.splits)

lemma logged_syslog_length:
  assumes "valid_event event"
  shows "length (logged_syslog config event) \<le> 2146"
proof -
  let ?v = "input_view (cfg_redaction_mode config) event"
  have pri: "length (decimal (n mod 4294967296)) \<le> 10" for n
    by (rule length_decimal) (auto intro: le_less_trans [OF less_imp_le [OF mod_less_divisor]])
  show ?thesis
    using pri [of "cfg_syslog_facility config * 8 + nat (ij_syslog_severity_from_level (v_level ?v))"]
      valid_message_length [OF assms, of "cfg_redaction_mode config"] app_name_facts(1) [of "view_app ?v config"]
    unfolding logged_syslog_def view_syslog_line_def rfc5424_line_def by simp
qed

lemma log_tcp_works:
  assumes "lg_active logger" "cfg_sink_kind (lg_config logger) = IJ_SINK_KIND_SYSLOG"
    and "ij_level_is_enabled (cfg_min_level (lg_config logger)) (ev_level event)"
    and "cfg_syslog_transport (lg_config logger) = IJ_SYSLOG_TRANSPORT_TCP" "0 \<le> sl_fd (lg_syslog_sink logger)"
    and "valid_event event" "timestamp_ok (ev_timestamp event)"
    and "\<And>c. arena_ok (os_alloc os c) \<and> attrs_ok (os_alloc os c)" "\<And>c k. 0 < k \<Longrightarrow> 0 < os_send os c k"
  shows "\<exists>w' cp. ij_logger_log cpu os (Some logger) (Some event) w = Some (IJ_STATUS_OK, Some logger, w', cp)"
proof -
  let ?line = "logged_syslog (lg_config logger) event"
  obtain cp where c: "ij_event_copy_from_input cpu (os_alloc os (w_calls w)) (Some event) (cfg_redaction_mode (lg_config logger)) =
      Some (IJ_STATUS_OK, cp)" and v: "copy_view cp = input_view (cfg_redaction_mode (lg_config logger)) event" "copy_wf cp"
    using copy_from_input_ok [OF assms(6), of "os_alloc os (w_calls w)" cpu] assms(8) by blast
  have t: "timestamp_ok (cp_timestamp cp)" "ij_level_is_valid (cp_level cp)"
    using assms(7) copy_view_sel [of cp] input_view_sel enabled_valid [OF assms(3)] unfolding v(1) by simp_all
  have line: "syslog_line cp (lg_config logger) = ?line"
    unfolding logged_syslog_def by (rule syslog_line_view [OF v(2,1)])
  have n: "0 < length ?line" "length ?line < 8192"
    using logged_syslog_length [OF assms(6), of "lg_config logger"]
    by (simp_all add: logged_syslog_def view_syslog_line_def rfc5424_line_def)
  have "0 < length (payload_buffer os w)" by simp
  from log_to_syslog [OF assms(2) t(2) this, of cpu os "tick w"] t(1) n(2) obtain mem where
    "log_to_sink cpu os logger cp (payload_buffer os w) (tick w) =
      Some (case ij_syslog_tcp_write os (Some (lg_syslog_sink logger)) (Some mem) (length ?line) (tick w) of
             (st, w') \<Rightarrow> (st, logger, w'))"
    by (auto simp: line assms(4) simp del: ij_syslog_tcp_write.simps)
  with tcp_write_works [OF assms(9) n(1) _ assms(5), of mem "tick w"] n(2) log_accepted [OF assms(1,3) c]
  show ?thesis
    by (cases "ij_syslog_tcp_write os (Some (lg_syslog_sink logger)) (Some mem) (length ?line) (tick w)")
      (simp add: SIZE_MODULUS_def del: ij_syslog_tcp_write.simps)
qed

section \<open>Flushing and shutting down\<close>

text \<open>What the files of a sink hold on disk, oldest first.\<close>

definition disk_log :: "world \<Rightarrow> ij_file_sink_t \<Rightarrow> byte list" where
  "disk_log w sink =
     (case sk_path sink of
        None \<Rightarrow> []
      | Some p \<Rightarrow> concat (map (file_content w) (sk_rotated_paths sink @ [p])))"

lemma disk_log_no_pending: "sink_pending sink = [] \<Longrightarrow> disk_log w sink = sink_log w sink"
  by (simp add: disk_log_def sink_log_def log_segments_def split: option.split)

lemma sink_op_flush:
  assumes h: "sink_healthy os p sink"
    and e: "op_flush (ij_file_sink_ops sink) os (Some sink) w = (st, s', w')"
  shows "\<exists>sink'. s' = Some sink' \<and> sink_meta sink' = sink_meta sink \<and> sink_healthy os p sink' \<and>
     (\<forall>q. q \<noteq> p \<longrightarrow> file_content w' q = file_content w q) \<and>
     file_content w' p @ sink_pending sink' = file_content w p @ sink_pending sink \<and>
     (st = IJ_STATUS_OK \<longrightarrow> sink_pending sink' = [])"
proof (cases "sk_active_backend sink = IJ_FILE_BACKEND_IO_URING")
  case True
  then obtain sink' where s: "s' = Some sink'" and m: "sink_meta sink' = sink_meta sink" and "uring_healthy os p sink'"
    "\<forall>q. q \<noteq> p \<longrightarrow> file_content w' q = file_content w q" "file_content w' p = file_content w p"
    using uring.flush_law [of os p sink w st s' w'] h e
    by (auto simp: ij_file_sink_ops_def sink_healthy_def no_pending_def)
  with True sink_meta_fields [OF m] show ?thesis by (simp add: sink_healthy_def sink_pending_def)
next
  case False
  then obtain sink' where s: "s' = Some sink'" and m: "sink_meta sink' = sink_meta sink" and "sync_healthy os p sink'"
    "\<forall>q. q \<noteq> p \<longrightarrow> file_content w' q = file_content w q"
    "file_content w' p @ sync_pending sink' = file_content w p @ sync_pending sink"
    "st = IJ_STATUS_OK \<longrightarrow> sync_pending sink' = []"
    using sync.flush_law [of os p sink w st s' w'] h e by (auto simp: ij_file_sink_ops_def sink_healthy_def)
  with False sink_meta_fields [OF m] show ?thesis by (simp add: sink_healthy_def sink_pending_def)
qed

lemma sink_op_close:
  assumes h: "sink_healthy os p sink" and "sink_pending sink = []"
  shows "file_content (snd (op_close (ij_file_sink_ops sink) os (Some sink) w)) = file_content w"
proof (cases "sk_active_backend sink = IJ_FILE_BACKEND_IO_URING")
  case True
  then show ?thesis
    using uring.close_law [of os p sink w] h
    by (cases "op_close IJ_FILE_SINK_IO_URING_OPS os (Some sink) w")
      (auto simp: ij_file_sink_ops_def sink_healthy_def no_pending_def)
next
  case False
  then show ?thesis
    using sync.close_law [of os p sink w] assms
    by (cases "op_close IJ_FILE_SINK_SYNC_OPS os (Some sink) w")
      (auto simp: ij_file_sink_ops_def sink_healthy_def sink_pending_def)
qed

lemma sink_close_files:
  "sink_healthy os p sink \<Longrightarrow> sink_pending sink = [] \<Longrightarrow>
     file_content (snd (ij_file_sink_close os (Some sink) w)) = file_content w"
  using sink_op_close [of os p sink w] by (simp add: Let_def split_beta)

lemma syslog_close_files: "file_content (snd (ij_syslog_sink_close (Some sink) w)) = file_content w"
  by (rule ext) (simp add: Let_def close_fd_def file_content_def tick_def)

text \<open>An accepted flush of a file logger.\<close>

lemma flush_file:
  assumes "lg_active logger" "cfg_sink_kind (lg_config logger) = IJ_SINK_KIND_FILE" "sink_inv os w (lg_file_sink logger)"
    and "ij_logger_flush os (Some logger) w = (IJ_STATUS_OK, l', w')"
  shows "\<exists>sink'. l' = Some (logger\<lparr>lg_file_sink := sink'\<rparr>) \<and> sink_inv os w' sink' \<and> sink_pending sink' = [] \<and>
    sink_meta sink' = sink_meta (lg_file_sink logger) \<and> sink_log w' sink' = sink_log w (lg_file_sink logger)"
proof -
  let ?s = "lg_file_sink logger"
  obtain st s' w1 where e: "op_flush (ij_file_sink_ops ?s) os (Some ?s) w = (st, s', w1)" by (metis prod_cases3)
  then have ok: "st = IJ_STATUS_OK" "w1 = w'" "l' = Some (logger\<lparr>lg_file_sink := deref s' ?s\<rparr>)"
    using assms by (auto simp: ij_logger_flush_def)
  obtain p where p: "sk_path ?s = Some p" "0 \<notin> set p" "sink_healthy os p ?s"
    "names_ok p (unat (sk_rotation_sequence ?s)) (sk_rotated_paths ?s)"
    "sk_bytes_written ?s \<le> length (file_content w p @ sink_pending ?s)"
    "sk_retention_files ?s = 0 \<or> length (sk_rotated_paths ?s) \<le> sk_retention_files ?s"
    using assms(3) by (auto simp: sink_inv_def)
  from sink_op_flush [OF p(3) e] ok obtain sink' where s': "s' = Some sink'" and m: "sink_meta sink' = sink_meta ?s" and
    h: "sink_healthy os p sink'" "sink_pending sink' = []" and
    c: "\<forall>q. q \<noteq> p \<longrightarrow> file_content w' q = file_content w q" "file_content w' p = file_content w p @ sink_pending ?s" by auto
  note F = sink_meta_fields [OF m]
  have "p \<notin> set (sk_rotated_paths ?s)" by (rule names_ok_not_path [OF p(4)])
  then have "map (file_content w') (sk_rotated_paths ?s) = map (file_content w) (sk_rotated_paths ?s)" using c(1) by auto
  with F p c h have "sink_log w' sink' = sink_log w ?s" by (simp add: sink_log_def log_segments_def cong: map_cong)
  moreover have "sink_inv os w' sink'" using F p c h by (simp add: sink_inv_def)
  ultimately show ?thesis using ok(3) s' m h by auto
qed

lemma flush_not_file:
  "lg_active logger \<Longrightarrow> cfg_sink_kind (lg_config logger) \<noteq> IJ_SINK_KIND_FILE \<Longrightarrow>
     ij_logger_flush os (Some logger) w = (IJ_STATUS_OK, Some logger, w)"
  by (simp add: ij_logger_flush_def)

text \<open>Shutting down a logger whose stream holds nothing back leaves the files alone.\<close>

lemma shutdown_files:
  assumes "lg_active logger" "ring_inv (lg_ring logger)"
    and "live = LOGGER # string_blocks (cfg_logger_name (lg_config logger)) (cfg_syslog_host (lg_config logger))"
    and "sink_healthy os p (lg_file_sink logger)" "sink_pending (lg_file_sink logger) = []"
  shows "\<exists>w'. ij_logger_shutdown os (Some logger) live w = Some (IJ_STATUS_OK, [], w') \<and> file_content w' = file_content w"
  unfolding shutdown_steps [OF assms(1-3)]
  using sink_close_files [OF assms(4,5), of w] syslog_close_files by simp

text \<open>The first accepted event of a file logger does not rotate.\<close>

lemma first_write_plain:
  assumes "sink_inv os w0 sink" "sk_bytes_written sink = 0"
    and "ij_file_sink_write os (Some sink) (Some b) n w = (IJ_STATUS_OK, Some sink', w')"
  shows "sk_rotated_paths sink' = sk_rotated_paths sink \<and> sk_path sink' = sk_path sink \<and>
    sk_active_backend sink' = sk_active_backend sink"
proof -
  obtain p where h: "sink_healthy os p sink" using assms(1) by (auto simp: sink_inv_def)
  have nd: "\<not> fst (ij_file_sink_rotation_due os sink n w)"
    using assms(2) by (simp add: ij_file_sink_rotation_due_def time_now_def Let_def)
  from assms(3) show ?thesis
  proof (cases rule: write_steps)
    case (plain s2)
    from sink_op_write [OF h plain(3)] plain(4) show ?thesis by (auto dest: sink_meta_fields)
  qed (use nd in simp)
qed

lemma first_event_plain:
  assumes "lg_active logger" "cfg_sink_kind (lg_config logger) = IJ_SINK_KIND_FILE"
    and "sink_inv os w0 (lg_file_sink logger)" "sk_bytes_written (lg_file_sink logger) = 0"
    and "ij_logger_log cpu os (Some logger) (Some event) w = Some (IJ_STATUS_OK, Some logger', w', cp)"
  shows "sk_rotated_paths (lg_file_sink logger') = sk_rotated_paths (lg_file_sink logger) \<and>
    sk_path (lg_file_sink logger') = sk_path (lg_file_sink logger) \<and>
    sk_active_backend (lg_file_sink logger') = sk_active_backend (lg_file_sink logger)"
  using assms(1)
proof (cases rule: log_cases [where event = event and cpu = cpu and os = os and w = w])
  case (copied cp1)
  let ?line = "event_line (copy_view cp1)" and ?sink = "lg_file_sink logger"
  have "0 < length (payload_buffer os w)" by simp
  from log_to_file [OF assms(2) copied(4) this, of cpu os "tick w"] obtain mem where
    l: "log_to_sink cpu os logger cp1 (payload_buffer os w) (tick w) = Some
    (if timestamp_ok (cp_timestamp cp1) \<and> length ?line + 1 < length (payload_buffer os w)
     then (case ij_file_sink_write os (Some ?sink) (Some mem) (length ?line + 1) (tick w) of
             (st, s', w') \<Rightarrow> (st, logger\<lparr>lg_file_sink := deref s' ?sink\<rparr>, w'))
     else (IJ_STATUS_ENCODE_ERROR, logger, tick w))" by blast
  obtain st s' w1 where e: "ij_file_sink_write os (Some ?sink) (Some mem) (length ?line + 1) (tick w) = (st, s', w1)"
    by (metis prod_cases3)
  have ok: "st = IJ_STATUS_OK" "logger' = logger\<lparr>lg_file_sink := deref s' ?sink\<rparr>"
    using l e copied(2) assms(5) by (auto split: if_splits)
  show ?thesis
  proof (cases s')
    case (Some sink')
    with first_write_plain [OF assms(3,4) e [unfolded ok(1) Some]] ok(2) show ?thesis by (simp add: deref_def)
  qed (simp add: ok(2) deref_def)
qed (use assms(5) in auto)

end
