(* ===== verification/Examples.thy ===== *)
theory Examples
  imports Event_Path
begin

text \<open>
  The example programs \<open>examples/basic_console.c\<close> and \<open>examples/file_sink.c\<close>: construction of a
  logger, one event, flush and shutdown, as whole programs. Their results are stated as the exact
  bytes that reach the console or the file. The reference lines are also compared with the golden
  files of the unit tests.
\<close>

section \<open>The program over the public interface\<close>

text \<open>
  The common body of the examples: the exit status, the world and the blocks that are still
  allocated. \<open>None\<close> is an access outside an object.
\<close>

definition run_logger ::
  "cpu \<Rightarrow> os \<Rightarrow> ij_logger_config_t \<Rightarrow> ij_event_t \<Rightarrow> world \<Rightarrow> (int \<times> block list \<times> world) option" where
  "run_logger cpu os config event w =
     (case ij_logger_init os True (Some config) w of
        None \<Rightarrow> None
      | Some (status, logger, live, w) \<Rightarrow>
          if status \<noteq> IJ_STATUS_OK then Some (1, live, w)
          else
            (case ij_logger_log cpu os logger (Some event) w of
               None \<Rightarrow> None
             | Some (status, logger, w, _) \<Rightarrow>
                 if status \<noteq> IJ_STATUS_OK then
                   map_option (\<lambda>(_, live, w). (2, live, w)) (ij_logger_shutdown os logger live w)
                 else
                   (let (status, logger, w) = ij_logger_flush os logger w in
                    if status \<noteq> IJ_STATUS_OK then
                      map_option (\<lambda>(_, live, w). (3, live, w)) (ij_logger_shutdown os logger live w)
                    else
                      (case ij_logger_shutdown os logger live w of
                         None \<Rightarrow> None
                       | Some (status, live, w) \<Rightarrow>
                           if status \<noteq> IJ_STATUS_OK then Some (4, live, w) else Some (0, live, w)))))"

section \<open>\<open>basic_console.c\<close>\<close>

definition console_attributes :: "ij_attr_t list" where
  "console_attributes =
     [\<lparr>attr_key = Some (bytes ''request_id''), attr_value = IJ_ATTR_VALUE_STRING (Some (bytes ''req-42'')) 6\<rparr>,
      \<lparr>attr_key = Some (bytes ''auth.token''), attr_value = IJ_ATTR_VALUE_STRING (Some (bytes ''secret-token'')) 12\<rparr>]"

definition console_event :: ij_event_t where
  "console_event =
     \<lparr>ev_timestamp = \<lparr>unix_seconds = 0, nanoseconds = 123000000\<rparr>, ev_level = IJ_LEVEL_INFO,
      ev_event_name = Some (bytes ''example.start''), ev_message = Some (bytes ''example emitted one console event''),
      ev_logger = Some (bytes ''examples.basic_console''),
      ev_attributes = Some console_attributes, ev_attribute_count = 2,
      ev_trace_id = Some [0x10, 0x32, 0x54, 0x76, 0x98, 0xba, 0xdc, 0xfe, 0x10, 0x32, 0x54, 0x76, 0x98, 0xba, 0xdc, 0xfe],
      ev_span_id = Some [0x10, 0x32, 0x54, 0x76, 0x98, 0xba, 0xdc, 0xfe],
      ev_trace_flags = 1, ev_has_trace_context = True, ev_source_file = Some (bytes ''examples/basic_console.c''),
      ev_source_line = 1, ev_source_function = Some (bytes ''main'')\<rparr>"

text \<open>Fields that the initialiser does not name are zero.\<close>

definition basic_console_config :: ij_logger_config_t where
  "basic_console_config =
     \<lparr>cfg_min_level = IJ_LEVEL_INFO, cfg_sink_kind = IJ_SINK_KIND_CONSOLE,
      cfg_redaction_mode = IJ_REDACTION_MODE_ENABLED, cfg_queue_capacity = IJ_QUEUE_CAPACITY_DEFAULT,
      cfg_logger_name = Some (bytes ''examples.basic_console''),
      cfg_file_path = None, cfg_file_rotate_bytes = 0, cfg_file_rotate_interval_seconds = 0,
      cfg_file_retention_files = 0, cfg_file_backend = IJ_FILE_BACKEND_AUTO,
      cfg_syslog_host = None, cfg_syslog_port = 0, cfg_syslog_transport = IJ_SYSLOG_TRANSPORT_UDP,
      cfg_syslog_facility = IJ_SYSLOG_FACILITY_LOCAL0\<rparr>"

definition basic_console_main :: "cpu \<Rightarrow> os \<Rightarrow> world \<Rightarrow> (int \<times> block list \<times> world) option" where
  "basic_console_main cpu os w = run_logger cpu os basic_console_config console_event w"

section \<open>\<open>file_sink.c\<close>\<close>

definition file_attributes :: "ij_attr_t list" where
  "file_attributes =
     [\<lparr>attr_key = Some (bytes ''request_id''), attr_value = IJ_ATTR_VALUE_STRING (Some (bytes ''req-example-42'')) 14\<rparr>,
      \<lparr>attr_key = Some (bytes ''auth.token''), attr_value = IJ_ATTR_VALUE_STRING (Some (bytes ''secret-token'')) 12\<rparr>]"

definition file_event :: ij_event_t where
  "file_event =
     \<lparr>ev_timestamp = \<lparr>unix_seconds = 0, nanoseconds = 123000000\<rparr>, ev_level = IJ_LEVEL_INFO,
      ev_event_name = Some (bytes ''example.file''), ev_message = Some (bytes ''example emitted one file event''),
      ev_logger = Some (bytes ''examples.file_sink''),
      ev_attributes = Some file_attributes, ev_attribute_count = 2, ev_trace_id = None, ev_span_id = None,
      ev_trace_flags = 0, ev_has_trace_context = False, ev_source_file = Some (bytes ''examples/file_sink.c''),
      ev_source_line = 1, ev_source_function = Some (bytes ''main'')\<rparr>"

definition file_sink_config :: "byte list \<Rightarrow> ij_logger_config_t" where
  "file_sink_config path =
     \<lparr>cfg_min_level = IJ_LEVEL_INFO, cfg_sink_kind = IJ_SINK_KIND_FILE,
      cfg_redaction_mode = IJ_REDACTION_MODE_ENABLED, cfg_queue_capacity = IJ_QUEUE_CAPACITY_DEFAULT,
      cfg_logger_name = Some (bytes ''examples.file_sink''),
      cfg_file_path = Some path, cfg_file_rotate_bytes = 0, cfg_file_rotate_interval_seconds = 0,
      cfg_file_retention_files = 0, cfg_file_backend = IJ_FILE_BACKEND_AUTO,
      cfg_syslog_host = None, cfg_syslog_port = 0, cfg_syslog_transport = IJ_SYSLOG_TRANSPORT_UDP,
      cfg_syslog_facility = IJ_SYSLOG_FACILITY_LOCAL0\<rparr>"

text \<open>\<open>puts\<close> hands the line to standard output; how much of it comes out is up to the system.\<close>

definition puts :: "os \<Rightarrow> byte list \<Rightarrow> world \<Rightarrow> world" where
  "puts os s w = snd (writev os (c_text s @ [0x0a]) w)"

definition example_path :: "int \<Rightarrow> byte list" where
  "example_path pid = bytes ''/tmp/iojournal-example-file-sink-'' @ signed_decimal pid @ bytes ''.ndjson''"

text \<open>\<open>pid\<close> is what \<open>getpid\<close> answers.\<close>

definition file_sink_main :: "cpu \<Rightarrow> os \<Rightarrow> int \<Rightarrow> world \<Rightarrow> (int \<times> block list \<times> world) option" where
  "file_sink_main cpu os pid w =
     (let (path, written) = snprintf 256 (example_path pid) in
      if written \<le> 0 \<or> written \<ge> 256 then Some (10, [], w)
      else
        (case run_logger cpu os (file_sink_config path) file_event w of
           None \<Rightarrow> None
         | Some (code, live, w) \<Rightarrow> if code \<noteq> 0 then Some (code, live, w) else Some (0, live, puts os path w)))"

section \<open>The lines\<close>

definition console_line :: "byte list" where
  "console_line =
     bytes ''{\"timestamp\":\"1970-01-01T00:00:00.123Z\",\"level\":\"info\",\"event_name\":\"example.start\",'' @
     bytes ''\"message\":\"example emitted one console event\",\"logger\":\"examples.basic_console\",'' @
     bytes ''\"attributes\":{\"request_id\":\"req-42\",\"auth.token\":\"[REDACTED]\"}}''"

definition file_line :: "byte list" where
  "file_line =
     bytes ''{\"timestamp\":\"1970-01-01T00:00:00.123Z\",\"level\":\"info\",\"event_name\":\"example.file\",'' @
     bytes ''\"message\":\"example emitted one file event\",\"logger\":\"examples.file_sink\",'' @
     bytes ''\"attributes\":{\"request_id\":\"req-example-42\",\"auth.token\":\"[REDACTED]\"}}''"

lemma token_sensitive: "sensitive (bytes ''auth.token'')"
proof -
  have "bytes ''auth.token'' = bytes ''auth.'' @ bytes ''token''" "lower (bytes ''token'') \<in> denylist"
    by (simp_all add: denylist_def lower_def tolower_def)
  moreover have "0x2e \<in> set (bytes ''auth.token'')" "bytes ''auth.'' \<noteq> []" by simp_all
  ultimately show ?thesis unfolding sensitive_def by blast
qed

lemma request_id_plain: "\<not> sensitive (bytes ''request_id'')"
  by (simp add: sensitive_def denylist_def lower_def tolower_def)

definition token_view :: "byte list \<Rightarrow> (byte list \<times> value_view) list" where
  "token_view request =
     [(bytes ''request_id'', VString request), (bytes ''auth.token'', VString IJ_REDACTED_LITERAL)]"

lemma name_of_key: "c_text k = k \<Longrightarrow> attr_name \<lparr>attr_key = Some k, attr_value = v\<rparr> = k"
  by (simp add: attr_name_def key_mem_def)

lemma token_attributes_view:
  assumes "c_mem r n = r"
  shows "map (input_attr_view IJ_REDACTION_MODE_ENABLED)
      [\<lparr>attr_key = Some (bytes ''request_id''), attr_value = IJ_ATTR_VALUE_STRING (Some r) n\<rparr>,
       \<lparr>attr_key = Some (bytes ''auth.token''), attr_value = IJ_ATTR_VALUE_STRING (Some d) m\<rparr>] = token_view r"
proof -
  have "c_text (bytes ''request_id'') = bytes ''request_id''" "c_text (bytes ''auth.token'') = bytes ''auth.token''"
    by (simp_all add: c_text_def)
  note names = this [THEN name_of_key]
  show ?thesis
    unfolding list.map input_attr_view_def must_redact_def names token_view_def
    using token_sensitive request_id_plain assms by (simp add: is_string_value_def)
qed

definition console_view :: event_view where
  "console_view =
     \<lparr>v_timestamp = \<lparr>unix_seconds = 0, nanoseconds = 123000000\<rparr>, v_level = IJ_LEVEL_INFO,
      v_event_name = bytes ''example.start'', v_message = bytes ''example emitted one console event'',
      v_logger = Some (bytes ''examples.basic_console''), v_attributes = token_view (bytes ''req-42''),
      v_trace = Some ([0x10, 0x32, 0x54, 0x76, 0x98, 0xba, 0xdc, 0xfe, 0x10, 0x32, 0x54, 0x76, 0x98, 0xba, 0xdc, 0xfe],
                      [0x10, 0x32, 0x54, 0x76, 0x98, 0xba, 0xdc, 0xfe]),
      v_trace_flags = 1, v_source_file = Some (bytes ''examples/basic_console.c''), v_source_line = 1,
      v_source_function = Some (bytes ''main'')\<rparr>"

lemma console_event_view: "input_view IJ_REDACTION_MODE_ENABLED console_event = console_view"
proof -
  have "map (input_attr_view IJ_REDACTION_MODE_ENABLED) (event_attributes console_event) = token_view (bytes ''req-42'')"
    unfolding console_event_def event_attributes_def console_attributes_def
    using token_attributes_view [of "bytes ''req-42''" 6] by (simp add: c_mem_def)
  then show ?thesis
    unfolding input_view_def console_view_def
    by (simp add: console_event_def text_of_def opt_text_def c_text_def c_mem_def limit_defs)
qed

lemma epoch: "gmtime 0 = \<lparr>tm_year = 70, tm_mon = 0, tm_mday = 1, tm_hour = 0, tm_min = 0, tm_sec = 0\<rparr>"
  by code_simp

lemma example_timestamp:
  "timestamp_text \<lparr>unix_seconds = 0, nanoseconds = 123000000\<rparr> = bytes ''1970-01-01T00:00:00.123Z''"
  "timestamp_ok \<lparr>unix_seconds = 0, nanoseconds = 123000000\<rparr>"
  by (simp_all add: timestamp_text_def timestamp_ok_def epoch digit_writers byte_of_def)

lemma quote_plain: "\<not> has_special bs \<Longrightarrow> quote bs = 0x22 # bs @ [0x22]"
  by (simp add: quote_def has_special_def escape_no_special)

lemma print_token_view:
  "\<not> has_special r \<Longrightarrow> print_members (members_of (map attr_json (token_view r))) =
     bytes ''\"request_id\":\"'' @ r @ bytes ''\",\"auth.token\":\"[REDACTED]\"''"
proof -
  assume r: "\<not> has_special r"
  have "\<not> has_special (bytes ''request_id'')" "\<not> has_special (bytes ''auth.token'')" "\<not> has_special IJ_REDACTED_LITERAL"
    by (simp_all add: has_special_def json_special_def IJ_REDACTED_LITERAL_def)
  note q = this [THEN quote_plain]
  have "print_members (members_of (map attr_json (token_view r))) =
      (quote (bytes ''request_id'') @ [0x3a] @ quote r) @ 0x2c # quote (bytes ''auth.token'') @ [0x3a] @ quote IJ_REDACTED_LITERAL"
    unfolding token_view_def by (simp add: attr_json_def)
  also have "\<dots> = bytes ''\"request_id\":\"'' @ r @ bytes ''\",\"auth.token\":\"[REDACTED]\"''"
    unfolding q quote_plain [OF r] by (simp add: IJ_REDACTED_LITERAL_def)
  finally show ?thesis .
qed

lemma token_line:
  assumes "v_timestamp v = \<lparr>unix_seconds = 0, nanoseconds = 123000000\<rparr>" "v_level v = IJ_LEVEL_INFO"
    and "v_logger v = Some l" "v_attributes v = token_view r"
    and "\<not> has_special (v_event_name v)" "\<not> has_special (v_message v)" "\<not> has_special l" "\<not> has_special r"
  shows "event_line v =
     bytes ''{\"timestamp\":\"1970-01-01T00:00:00.123Z\",\"level\":\"info\",\"event_name\":\"'' @ v_event_name v @
     bytes ''\",\"message\":\"'' @ v_message v @ bytes ''\",\"logger\":\"'' @ l @
     bytes ''\",\"attributes\":{\"request_id\":\"'' @ r @ bytes ''\",\"auth.token\":\"[REDACTED]\"}}''"
proof -
  have "v_attributes v \<noteq> []" unfolding assms(4) token_view_def by simp
  then show ?thesis
    unfolding event_line_text assms(1-4) quote_plain [OF assms(5)] quote_plain [OF assms(6)] example_timestamp(1)
      print_token_view [OF assms(8)]
    by (simp add: quote_plain [OF assms(7)] assms(4))
qed

lemma console_line_eq: "event_line (input_view IJ_REDACTION_MODE_ENABLED console_event) = console_line"
proof -
  have "\<not> has_special (bytes ''example.start'')" "\<not> has_special (bytes ''example emitted one console event'')"
    "\<not> has_special (bytes ''examples.basic_console'')" "\<not> has_special (bytes ''req-42'')"
    by (simp_all add: has_special_def json_special_def)
  then show ?thesis
    unfolding console_event_view console_line_def
    by (subst token_line [of console_view "bytes ''examples.basic_console''" "bytes ''req-42''"])
      (simp_all add: console_view_def del: bytes_Cons, simp)
qed

definition file_view :: event_view where
  "file_view =
     \<lparr>v_timestamp = \<lparr>unix_seconds = 0, nanoseconds = 123000000\<rparr>, v_level = IJ_LEVEL_INFO,
      v_event_name = bytes ''example.file'', v_message = bytes ''example emitted one file event'',
      v_logger = Some (bytes ''examples.file_sink''), v_attributes = token_view (bytes ''req-example-42''),
      v_trace = None, v_trace_flags = 0, v_source_file = Some (bytes ''examples/file_sink.c''), v_source_line = 1,
      v_source_function = Some (bytes ''main'')\<rparr>"

lemma file_event_view: "input_view IJ_REDACTION_MODE_ENABLED file_event = file_view"
proof -
  have "map (input_attr_view IJ_REDACTION_MODE_ENABLED) (event_attributes file_event) = token_view (bytes ''req-example-42'')"
    unfolding file_event_def event_attributes_def file_attributes_def
    using token_attributes_view [of "bytes ''req-example-42''" 14] by (simp add: c_mem_def)
  then show ?thesis
    unfolding input_view_def file_view_def
    by (simp add: file_event_def text_of_def opt_text_def c_text_def)
qed

lemma file_line_eq: "event_line (input_view IJ_REDACTION_MODE_ENABLED file_event) = file_line"
proof -
  have "\<not> has_special (bytes ''example.file'')" "\<not> has_special (bytes ''example emitted one file event'')"
    "\<not> has_special (bytes ''examples.file_sink'')" "\<not> has_special (bytes ''req-example-42'')"
    by (simp_all add: has_special_def json_special_def)
  then show ?thesis
    unfolding file_event_view file_line_def
    by (subst token_line [of file_view "bytes ''examples.file_sink''" "bytes ''req-example-42''"])
      (simp_all add: file_view_def del: bytes_Cons, simp)
qed

section \<open>The golden files of the unit tests\<close>

text \<open>\<open>tests/fixtures/rfc5424/info-local0.golden\<close> and \<open>fatal-user-fallback-app.golden\<close>.\<close>

definition syslog_view :: "cstring \<Rightarrow> ij_level_t \<Rightarrow> byte list \<Rightarrow> event_view" where
  "syslog_view logger level message =
     \<lparr>v_timestamp = \<lparr>unix_seconds = 0, nanoseconds = 123000000\<rparr>, v_level = level,
      v_event_name = bytes ''syslog.emit'', v_message = message, v_logger = logger, v_attributes = [],
      v_trace = None, v_trace_flags = 0, v_source_file = None, v_source_line = 0, v_source_function = None\<rparr>"

lemma golden_info_local0:
  "view_syslog_line (syslog_view (Some (bytes ''tests.syslog'')) IJ_LEVEL_INFO (bytes ''service started''))
     (sample_config\<lparr>cfg_syslog_facility := IJ_SYSLOG_FACILITY_LOCAL0, cfg_logger_name := Some (bytes ''tests.default'')\<rparr>) =
   bytes ''<134>1 1970-01-01T00:00:00.123Z - tests.syslog - - - service started''"
  by (simp add: view_syslog_line_def syslog_view_def rfc5424_line_def example_timestamp view_app_def app_name_def c_text_def
      sanitize_byte_def facility_defs ij_syslog_severity_from_level_def decimal.simps byte_of_def)

lemma golden_fatal_user:
  "view_syslog_line (syslog_view None IJ_LEVEL_FATAL (bytes ''hard failure''))
     (sample_config\<lparr>cfg_syslog_facility := IJ_SYSLOG_FACILITY_USER, cfg_logger_name := Some (bytes ''tests.default'')\<rparr>) =
   bytes ''<10>1 1970-01-01T00:00:00.123Z - tests.default - - - hard failure''"
  by (simp add: view_syslog_line_def syslog_view_def rfc5424_line_def example_timestamp view_app_def app_name_def c_text_def
      c_at_def sanitize_byte_def facility_defs ij_syslog_severity_from_level_def decimal.simps byte_of_def)

section \<open>The programs\<close>

lemma logged_line_cong:
  "cfg_min_level c = cfg_min_level c' \<Longrightarrow> cfg_redaction_mode c = cfg_redaction_mode c' \<Longrightarrow> logged_line c = logged_line c'"
  by (rule ext) (simp add: logged_line_def)

lemma strdup_stdout: "strdup os s b live w = (s', live', w') \<Longrightarrow> w_stdout w' = w_stdout w"
  by (auto simp: strdup_def malloc_def tick_def split: option.splits if_splits)

lemma console_init_stdout:
  assumes "ij_logger_init os out_logger (Some config) w = Some (IJ_STATUS_OK, l, live, w')"
    and "cfg_sink_kind config = IJ_SINK_KIND_CONSOLE"
  shows "w_stdout w' = w_stdout w"
  using assms(1)
proof (rule init_steps)
  fix config' logger1 w1 ring logger'
  assume c: "Some config = Some config'"
    and d: "ij_apply_logger_defaults os (zero_logger config') config' [LOGGER] (tick w) = (logger1, live, w1)"
    and o: "open_sink os (logger1\<lparr>lg_ring := ring\<rparr>) (tick w1) = (IJ_STATUS_OK, logger', w')"
  obtain name l1 v1 where n: "strdup os (cfg_logger_name config) LOGGER_NAME [LOGGER] (tick w) = (name, l1, v1)"
    by (metis prod_cases3)
  obtain host l2 v2 where h: "strdup os (cfg_syslog_host config) SYSLOG_HOST l1 v1 = (host, l2, v2)"
    by (metis prod_cases3)
  have "w1 = v2" using c d n h by (auto simp: ij_apply_logger_defaults_def Let_def)
  moreover have "w' = tick w1" using o defaults_result [OF d] assms(2) c by (auto simp: open_sink_def)
  ultimately show ?thesis using strdup_stdout [OF n] strdup_stdout [OF h] by (simp add: tick_def)
qed

lemma shutdown_active:
  assumes "lg_active logger" "ring_inv (lg_ring logger)"
    and "live = LOGGER # string_blocks (cfg_logger_name (lg_config logger)) (cfg_syslog_host (lg_config logger))"
  shows "\<exists>w'. ij_logger_shutdown os (Some logger) live w = Some (IJ_STATUS_OK, [], w')"
  unfolding shutdown_steps [OF assms] by blast

text \<open>The program with a console logger, for every behaviour of the system.\<close>

lemma run_console:
  assumes k: "cfg_sink_kind config = IJ_SINK_KIND_CONSOLE"
  shows "\<exists>code live w'. run_logger cpu os config event w = Some (code, live, w') \<and>
    (code = 0 \<longrightarrow> live = [] \<and> w_stdout w' = w_stdout w @ logged_line config event)"
proof -
  obtain st l live w1 where i: "ij_logger_init os True (Some config) w = Some (st, l, live, w1)"
    using init_some by (metis option.exhaust prod_cases4)
  show ?thesis
  proof (cases "st = IJ_STATUS_OK")
    case True
    from logger_init_ok [OF i [unfolded True]] k obtain logger where l: "l = Some logger" "logger_ok os w1 logger"
      "live = LOGGER # string_blocks (cfg_logger_name (lg_config logger)) (cfg_syslog_host (lg_config logger))"
      "cfg_sink_kind (lg_config logger) = IJ_SINK_KIND_CONSOLE" "cfg_min_level (lg_config logger) = cfg_min_level config"
      "cfg_redaction_mode (lg_config logger) = cfg_redaction_mode config" "lg_file_sink logger = zero_file_sink"
      by auto
    then have a: "lg_active logger" "ring_inv (lg_ring logger)" by (simp_all add: logger_ok_def)
    from log_console [OF a(1) l(4), of cpu os event w1] obtain st2 w2 cp where
      g: "ij_logger_log cpu os (Some logger) (Some event) w1 = Some (st2, Some logger, w2, cp)"
      "st2 = IJ_STATUS_OK \<longrightarrow> w_stdout w2 = w_stdout w1 @ logged_line (lg_config logger) event" by auto
    obtain w3 where s: "ij_logger_shutdown os (Some logger) live w2 = Some (IJ_STATUS_OK, [], w3)"
      using shutdown_active [OF a l(3)] by blast
    have "w_stdout w3 = w_stdout w2"
      using s unfolding shutdown_steps [OF a l(3)] l(7)
      by (auto simp: zero_file_sink_def ij_file_sink_ops_def IJ_FILE_SINK_SYNC_OPS_def close_fd_def tick_def)
    with console_init_stdout [OF i [unfolded True] k] g(2) logged_line_cong [OF l(5,6)]
    have "st2 = IJ_STATUS_OK \<longrightarrow> w_stdout w3 = w_stdout w @ logged_line config event" by simp
    with i True l(1) g(1) s flush_not_file [OF a(1), of os w2] l(4) show ?thesis
      by (cases "st2 = IJ_STATUS_OK") (simp_all add: run_logger_def)
  next
    case False
    with i show ?thesis by (simp add: run_logger_def)
  qed
qed

text \<open>
  Flush and shutdown of a file logger that has not rotated: an accepted flush has brought the whole
  log into the file, and shutdown leaves it there.
\<close>

lemma flush_shutdown_file:
  assumes logger: "lg_active logger" "ring_inv (lg_ring logger)" "cfg_sink_kind (lg_config logger) = IJ_SINK_KIND_FILE"
    and live: "live = LOGGER # string_blocks (cfg_logger_name (lg_config logger)) (cfg_syslog_host (lg_config logger))"
    and inv: "sink_inv os w (lg_file_sink logger)"
    and path: "sk_rotated_paths (lg_file_sink logger) = []" "sk_path (lg_file_sink logger) = Some p"
    and fl: "ij_logger_flush os (Some logger) w = (st, l, w1)"
  shows "\<exists>w2. ij_logger_shutdown os l live w1 = Some (IJ_STATUS_OK, [], w2) \<and>
    (st = IJ_STATUS_OK \<longrightarrow> file_content w2 p = sink_log w (lg_file_sink logger))"
proof (cases "st = IJ_STATUS_OK")
  case True
  from flush_file [OF logger(1,3) inv fl [unfolded True]] obtain sink1 where
    l: "l = Some (logger\<lparr>lg_file_sink := sink1\<rparr>)" and i: "sink_inv os w1 sink1" "sink_pending sink1 = []"
    and m: "sink_meta sink1 = sink_meta (lg_file_sink logger)"
    and log1: "sink_log w1 sink1 = sink_log w (lg_file_sink logger)" by auto
  have f: "sk_rotated_paths sink1 = []" "sk_path sink1 = Some p" using sink_meta_fields [OF m] path by simp_all
  then have c: "file_content w1 p = sink_log w (lg_file_sink logger)"
    using log1 i(2) by (simp add: sink_log_def log_segments_def)
  have "sink_healthy os p sink1" using i(1) f(2) by (auto simp: sink_inv_def)
  with shutdown_files [of "logger\<lparr>lg_file_sink := sink1\<rparr>" live os p w1] logger live i(2) c l show ?thesis by auto
next
  case False
  obtain logger1 where l: "l = Some logger1" and q: "lg_active logger1" "ring_inv (lg_ring logger1)"
    "lg_config logger1 = lg_config logger"
    using fl logger by (auto simp: ij_logger_flush_def split: prod.splits)
  with shutdown_active [OF q(1,2), of live os w1] live False show ?thesis by auto
qed

text \<open>The first event of a file logger.\<close>

lemma log_first_event:
  assumes i: "ij_logger_init os True (Some config) w = Some (IJ_STATUS_OK, Some logger, live, w1)"
    and k: "cfg_sink_kind config = IJ_SINK_KIND_FILE" and p: "cfg_file_path config = Some path"
    and r: "cfg_file_retention_files config = 0"
  shows "\<exists>st sink w2 cp. ij_logger_log cpu os (Some logger) (Some event) w1 =
      Some (st, Some (logger\<lparr>lg_file_sink := sink\<rparr>), w2, cp) \<and>
    (st = IJ_STATUS_OK \<longrightarrow> sink_inv os w2 sink \<and> sk_rotated_paths sink = [] \<and> sk_path sink = Some (c_text path) \<and>
       sink_log w2 sink = file_content w (c_text path) @ logged_line config event)"
proof -
  have ready: "file_ready os (lg_config logger) (logger, w1)" "sequence_room (lg_file_sink logger)"
    and cfg: "cfg_min_level (lg_config logger) = cfg_min_level config"
      "cfg_redaction_mode (lg_config logger) = cfg_redaction_mode config"
    using file_logger_ready [OF i k p r] by auto
  then have a: "lg_active logger" "cfg_sink_kind (lg_config logger) = IJ_SINK_KIND_FILE"
    "sink_inv os w1 (lg_file_sink logger)" by (simp_all add: file_ready_def)
  have fresh: "fresh_file_log config (lg_file_sink logger)" and
    log0: "sink_log w1 (lg_file_sink logger) = file_content w (c_text path)"
    using file_init [OF i k p] by auto
  from log_file [OF a ready(2), of cpu event] obtain st sink w2 cp where
    g: "ij_logger_log cpu os (Some logger) (Some event) w1 = Some (st, Some (logger\<lparr>lg_file_sink := sink\<rparr>), w2, cp)" and
    inv: "st = IJ_STATUS_OK \<longrightarrow> (\<exists>k. sink_inv os w2 sink \<and> k \<le> retired (lg_file_sink logger) \<and>
      sink_log w2 sink = concat (drop k (log_segments w1 (lg_file_sink logger))) @ logged_line (lg_config logger) event)"
    by blast
  have "retired (lg_file_sink logger) = 0" using fresh r by (simp add: fresh_file_log_def retired_def)
  with inv log0 logged_line_cong [OF cfg] have "st = IJ_STATUS_OK \<longrightarrow> sink_inv os w2 sink \<and>
      sink_log w2 sink = file_content w (c_text path) @ logged_line config event" by (auto simp: sink_log_def)
  moreover have "sk_rotated_paths sink = [] \<and> sk_path sink = Some (c_text path)" if "st = IJ_STATUS_OK"
    using first_event_plain [OF a _ g [unfolded that]] fresh p by (simp add: fresh_file_log_def)
  ultimately show ?thesis using g by blast
qed

text \<open>The program with a file logger.\<close>

lemma run_file:
  assumes k: "cfg_sink_kind config = IJ_SINK_KIND_FILE" and p: "cfg_file_path config = Some path"
    and r: "cfg_file_retention_files config = 0"
  shows "\<exists>code live w'. run_logger cpu os config event w = Some (code, live, w') \<and>
    (code = 0 \<longrightarrow> live = [] \<and>
       file_content w' (c_text path) = file_content w (c_text path) @ logged_line config event)"
proof -
  obtain st l live w1 where i: "ij_logger_init os True (Some config) w = Some (st, l, live, w1)"
    using init_some by (metis option.exhaust prod_cases4)
  show ?thesis
  proof (cases "st = IJ_STATUS_OK")
    case True
    from logger_init_ok [OF i [unfolded True]] k obtain logger where l: "l = Some logger" "logger_ok os w1 logger"
      "live = LOGGER # string_blocks (cfg_logger_name (lg_config logger)) (cfg_syslog_host (lg_config logger))"
      "cfg_sink_kind (lg_config logger) = IJ_SINK_KIND_FILE" by auto
    from log_first_event [OF i [unfolded True l(1)] k p r, of cpu event] obtain st2 sink2 w2 cp where
      g: "ij_logger_log cpu os (Some logger) (Some event) w1 = Some (st2, Some (logger\<lparr>lg_file_sink := sink2\<rparr>), w2, cp)" and
      s: "st2 = IJ_STATUS_OK \<longrightarrow> sink_inv os w2 sink2 \<and> sk_rotated_paths sink2 = [] \<and> sk_path sink2 = Some (c_text path) \<and>
       sink_log w2 sink2 = file_content w (c_text path) @ logged_line config event" by blast
    let ?logger = "logger\<lparr>lg_file_sink := sink2\<rparr>"
    have a: "lg_active ?logger" "ring_inv (lg_ring ?logger)" using l(2) by (simp_all add: logger_ok_def)
    obtain w2s where s2: "ij_logger_shutdown os (Some ?logger) live w2 = Some (IJ_STATUS_OK, [], w2s)"
      using shutdown_active [OF a, of live os w2] l(3) by auto
    obtain st3 l3 w3 where fl: "ij_logger_flush os (Some ?logger) w2 = (st3, l3, w3)" by (metis prod_cases3)
    have "\<exists>w4. ij_logger_shutdown os l3 live w3 = Some (IJ_STATUS_OK, [], w4) \<and>
        (st3 = IJ_STATUS_OK \<longrightarrow> file_content w4 (c_text path) = file_content w (c_text path) @ logged_line config event)"
      if "st2 = IJ_STATUS_OK"
      using flush_shutdown_file [OF a _ _ _ _ _ fl, of live "c_text path"] s that l(3,4) by simp
    with i True l(1) g s2 fl show ?thesis
      by (cases "st2 = IJ_STATUS_OK"; cases "st3 = IJ_STATUS_OK") (auto simp: run_logger_def)
  next
    case False
    with i show ?thesis by (simp add: run_logger_def)
  qed
qed

lemma run_console_works:
  assumes "config_ok config" "cfg_sink_kind config = IJ_SINK_KIND_CONSOLE"
    and "ij_level_is_enabled (cfg_min_level config) (ev_level event)" "valid_event event"
    and "view_plain (input_view (cfg_redaction_mode config) event)" "timestamp_ok (ev_timestamp event)"
    and "\<And>c. os_malloc os c" "\<And>c. os_ring os c = working_mutex"
    and "\<And>c. arena_ok (os_alloc os c) \<and> attrs_ok (os_alloc os c)" "\<And>c k. 0 < k \<Longrightarrow> 0 < os_writev os c k"
  shows "\<exists>live w'. run_logger cpu os config event w = Some (0, live, w')"
proof -
  obtain logger live w1 where i: "ij_logger_init os True (Some config) w = Some (IJ_STATUS_OK, Some logger, live, w1)"
    using init_works [OF assms(1,7,8), of w] assms(2) by auto
  from logger_init_ok [OF i] assms(2) have l: "logger_ok os w1 logger"
    "live = LOGGER # string_blocks (cfg_logger_name (lg_config logger)) (cfg_syslog_host (lg_config logger))"
    "cfg_sink_kind (lg_config logger) = IJ_SINK_KIND_CONSOLE" "cfg_min_level (lg_config logger) = cfg_min_level config"
    "cfg_redaction_mode (lg_config logger) = cfg_redaction_mode config" by auto
  then have a: "lg_active logger" "ring_inv (lg_ring logger)" by (simp_all add: logger_ok_def)
  obtain w2 cp where g: "ij_logger_log cpu os (Some logger) (Some event) w1 = Some (IJ_STATUS_OK, Some logger, w2, cp)"
    using log_console_works [OF a(1) l(3) _ assms(4) _ assms(6,9,10), of cpu w1] assms(3,5) l(4,5) by auto
  obtain w3 where "ij_logger_shutdown os (Some logger) live w2 = Some (IJ_STATUS_OK, [], w3)"
    using shutdown_active [OF a l(2)] by blast
  with i g flush_not_file [OF a(1)] l(3) show ?thesis by (simp add: run_logger_def)
qed

lemma example_texts:
  "c_text (bytes ''request_id'') = bytes ''request_id''" "c_text (bytes ''auth.token'') = bytes ''auth.token''"
  "is_utf8 (bytes ''request_id'')" "is_utf8 (bytes ''auth.token'')"
  "is_utf8 (bytes ''req-42'')" "is_utf8 (bytes ''secret-token'')"
  by (simp add: c_text_def) (simp add: c_text_def, (rule is_utf8_ascii, simp)+)

lemma console_event_valid: "valid_event console_event"
proof -
  let ?a = "\<lparr>attr_key = Some (bytes ''request_id''), attr_value = IJ_ATTR_VALUE_STRING (Some (bytes ''req-42'')) 6\<rparr>"
  let ?b = "\<lparr>attr_key = Some (bytes ''auth.token''), attr_value = IJ_ATTR_VALUE_STRING (Some (bytes ''secret-token'')) 12\<rparr>"
  have as: "event_attributes console_event = [?a, ?b]"
    by (simp add: event_attributes_def console_event_def console_attributes_def)
  have m: "c_mem (bytes ''req-42'') 6 = bytes ''req-42''" "c_mem (bytes ''secret-token'') 12 = bytes ''secret-token''"
    by (simp_all add: c_mem_def)
  have len: "length (bytes s) = length s" for s by (simp add: bytes_def)
  have ne: "bytes s = [] \<longleftrightarrow> s = []" for s by (simp add: bytes_def)
  have "valid_attr ?a" "valid_attr ?b" "attr_text_size ?a = 16" "attr_text_size ?b = 22"
    by (simp_all add: valid_attr_def valid_text_def valid_value_def attr_text_size_def value_text_size_def key_mem_def
        strlen_def example_texts m limit_defs len ne del: bytes_Cons)
  moreover have "distinct (map attr_name [?a, ?b])" by (simp add: attr_name_def key_mem_def c_text_def)
  moreover have "valid_event_frame console_event"
    by (simp add: valid_event_frame_def console_event_def ij_level_is_valid_iff limit_defs)
  moreover have "valid_event_fields console_event"
    by (simp add: valid_event_fields_def console_event_def valid_text_def valid_optional_text_def c_text_def limit_defs
        is_utf8_ascii)
  moreover have "fields_text_size console_event \<le> 1000"
    by (simp add: fields_text_size_def console_event_def opt_strlen_def strlen_def c_text_def)
  ultimately show ?thesis unfolding valid_event_def as by (simp add: limit_defs del: bytes_Cons)
qed

lemma basic_console_config_sel:
  "cfg_sink_kind basic_console_config = IJ_SINK_KIND_CONSOLE" "cfg_min_level basic_console_config = IJ_LEVEL_INFO"
  "cfg_redaction_mode basic_console_config = IJ_REDACTION_MODE_ENABLED"
  by (simp_all add: basic_console_config_def)

lemma basic_console_config_ok: "config_ok basic_console_config"
proof -
  have "\<exists>k. 8 \<le> k \<and> k \<le> 16 \<and> IJ_QUEUE_CAPACITY_DEFAULT = 2 ^ k"
    by (intro exI [of _ 10]) (simp add: IJ_QUEUE_CAPACITY_DEFAULT_def)
  then show ?thesis by (simp add: config_ok_def sink_settings_ok_def basic_console_config_def)
qed

lemma console_event_enabled: "ij_level_is_enabled IJ_LEVEL_INFO (ev_level console_event)"
  "ij_level_is_enabled IJ_LEVEL_INFO (ev_level file_event)"
  by (simp_all add: console_event_def file_event_def ij_level_is_enabled_def ij_level_is_valid_iff)

lemma console_event_plain: "view_plain (input_view IJ_REDACTION_MODE_ENABLED console_event)"
proof -
  have "\<not> has_special (bytes ''example.start'')" "\<not> has_special (bytes ''example emitted one console event'')"
    "\<not> has_special (bytes ''examples.basic_console'')" "\<not> has_special (bytes ''req-42'')"
    "\<not> has_special (bytes ''request_id'')" "\<not> has_special (bytes ''auth.token'')" "\<not> has_special IJ_REDACTED_LITERAL"
    by (simp_all add: has_special_def json_special_def IJ_REDACTED_LITERAL_def)
  then show ?thesis
    unfolding console_event_view view_plain_def by (simp add: console_view_def token_view_def del: bytes_Cons)
qed

lemma flush_works:
  assumes "lg_active logger" "cfg_sink_kind (lg_config logger) = IJ_SINK_KIND_FILE" "\<And>c. os_fflush os c"
    and "sink_inv os w (lg_file_sink logger)" "sk_active_backend (lg_file_sink logger) \<noteq> IJ_FILE_BACKEND_IO_URING"
  shows "fst (ij_logger_flush os (Some logger) w) = IJ_STATUS_OK"
proof -
  obtain f where "sk_stream (lg_file_sink logger) = Some f"
    using assms(4,5) by (auto simp: sink_inv_def sink_healthy_def sync_healthy_def)
  with assms show ?thesis
    by (simp add: ij_logger_flush_def ij_file_sink_ops_def IJ_FILE_SINK_SYNC_OPS_def fflush_def Let_def)
qed

lemma run_file_works:
  assumes config: "config_ok config" "cfg_sink_kind config = IJ_SINK_KIND_FILE" "cfg_file_path config = Some path"
      "cfg_file_retention_files config = 0" "cfg_file_backend config = IJ_FILE_BACKEND_AUTO"
    and event: "ij_level_is_enabled (cfg_min_level config) (ev_level event)" "valid_event event"
      "view_plain (input_view (cfg_redaction_mode config) event)" "timestamp_ok (ev_timestamp event)"
    and memory: "\<And>c. os_malloc os c" "\<And>c. os_ring os c = working_mutex"
      "\<And>c. arena_ok (os_alloc os c) \<and> attrs_ok (os_alloc os c)"
    and files: "\<And>c. os_fopen os c" "\<And>c k. k \<le> os_fwrite os c k" "\<And>c. os_fflush os c"
  shows "\<exists>live w'. run_logger cpu os config event w = Some (0, live, w')"
proof -
  obtain logger live w1 where i: "ij_logger_init os True (Some config) w = Some (IJ_STATUS_OK, Some logger, live, w1)"
    using init_works [OF config(1) memory(1,2), of w] config(2) files(1) by auto
  from logger_init_ok [OF i] have l: "ring_inv (lg_ring logger)"
    "live = LOGGER # string_blocks (cfg_logger_name (lg_config logger)) (cfg_syslog_host (lg_config logger))"
    by (auto simp: logger_ok_def)
  note r = file_logger_ready [OF i config(2-4)] and f = file_init [OF i config(2,3)]
  have sync: "sk_active_backend (lg_file_sink logger) \<noteq> IJ_FILE_BACKEND_IO_URING"
    using f config(5) by (auto simp: fresh_file_log_def)
  have ready: "lg_active logger" "cfg_sink_kind (lg_config logger) = IJ_SINK_KIND_FILE" "sink_inv os w1 (lg_file_sink logger)"
    using r by (auto simp: file_ready_def)
  have w: "fst (ij_file_sink_write os (Some (lg_file_sink logger)) (Some mem) n v) = IJ_STATUS_OK" if "0 < n" for mem n v
    using f sync that by (intro first_write_works [OF ready(3) _ sync files(2)]) (auto simp: fresh_file_log_def)
  obtain logger2 w2 cp where g: "ij_logger_log cpu os (Some logger) (Some event) w1 = Some (IJ_STATUS_OK, Some logger2, w2, cp)"
    using log_file_works [OF ready(1,2) _ event(2) _ event(4) memory(3) w, of cpu w1] event(1,3) r by auto
  from log_file [OF ready _, of cpu event] g r obtain sink2 where l2: "logger2 = logger\<lparr>lg_file_sink := sink2\<rparr>"
    "sink_inv os w2 sink2" by auto
  have "sk_active_backend sink2 = sk_active_backend (lg_file_sink logger)"
    using first_event_plain [OF ready _ g] f l2(1) by (simp add: fresh_file_log_def)
  then have "fst (ij_logger_flush os (Some logger2) w2) = IJ_STATUS_OK"
    using ready l2 sync files(3) by (intro flush_works) simp_all
  then obtain l3 w3 where fl: "ij_logger_flush os (Some logger2) w2 = (IJ_STATUS_OK, l3, w3)" by (metis prod.collapse)
  obtain logger3 where "l3 = Some logger3" and q: "lg_active logger3" "ring_inv (lg_ring logger3)"
    "lg_config logger3 = lg_config logger"
    using fl l2(1) ready(1,2) l(1) by (auto simp: ij_logger_flush_def split: prod.splits)
  moreover obtain w4 where "ij_logger_shutdown os (Some logger3) live w3 = Some (IJ_STATUS_OK, [], w4)"
    using shutdown_active [OF q(1,2), of live os w3] q(3) l(2) by auto
  ultimately show ?thesis using i g fl by (simp add: run_logger_def)
qed

lemma example_path_text: "c_text (example_path pid @ [0]) = example_path pid"
proof -
  have "0 \<notin> set (signed_decimal pid)"
    using decimal_digits [of 0] by (auto simp: signed_decimal_def is_digit_def)
  then have "0 \<notin> set (example_path pid)" by (auto simp: example_path_def)
  then have "takeWhile (\<lambda>b. b \<noteq> 0) (example_path pid) = example_path pid" by (auto simp: takeWhile_eq_all_conv)
  moreover have "takeWhile (\<lambda>b. b \<noteq> 0) (xs @ [0]) = takeWhile (\<lambda>b. b \<noteq> 0) xs" for xs :: "byte list"
    by (induction xs) simp_all
  ultimately show ?thesis by (simp add: c_text_def)
qed

lemma file_sink_config_sel:
  "cfg_sink_kind (file_sink_config path) = IJ_SINK_KIND_FILE" "cfg_file_path (file_sink_config path) = Some path"
  "cfg_file_retention_files (file_sink_config path) = 0" "cfg_file_backend (file_sink_config path) = IJ_FILE_BACKEND_AUTO"
  "cfg_min_level (file_sink_config path) = IJ_LEVEL_INFO"
  "cfg_redaction_mode (file_sink_config path) = IJ_REDACTION_MODE_ENABLED"
  by (simp_all add: file_sink_config_def)

lemma puts_files: "file_content (puts os s w) = file_content w"
  by (rule ext) (simp add: puts_def writev_def Let_def file_content_def tick_def)

lemma file_main_cases:
  obtains (long) "file_sink_main cpu os pid w = Some (10, [], w)" "256 \<le> length (example_path pid)"
  | (run) "length (example_path pid) < 256" "file_sink_main cpu os pid w =
      (case run_logger cpu os (file_sink_config (example_path pid @ [0])) file_event w of
         None \<Rightarrow> None
       | Some (code, live, w) \<Rightarrow>
           if code \<noteq> 0 then Some (code, live, w) else Some (0, live, puts os (example_path pid @ [0]) w))"
proof (cases "length (example_path pid) < 256")
  case True
  moreover have "example_path pid \<noteq> []" by (simp add: example_path_def)
  ultimately show thesis by (intro run) (simp_all add: file_sink_main_def snprintf_def Let_def)
next
  case False
  then show thesis by (intro long) (simp_all add: file_sink_main_def snprintf_def Let_def)
qed

lemma file_event_valid: "valid_event file_event"
proof -
  let ?a = "\<lparr>attr_key = Some (bytes ''request_id''), attr_value = IJ_ATTR_VALUE_STRING (Some (bytes ''req-example-42'')) 14\<rparr>"
  let ?b = "\<lparr>attr_key = Some (bytes ''auth.token''), attr_value = IJ_ATTR_VALUE_STRING (Some (bytes ''secret-token'')) 12\<rparr>"
  have as: "event_attributes file_event = [?a, ?b]"
    by (simp add: event_attributes_def file_event_def file_attributes_def)
  have m: "c_mem (bytes ''req-example-42'') 14 = bytes ''req-example-42''" "c_mem (bytes ''secret-token'') 12 = bytes ''secret-token''"
    by (simp_all add: c_mem_def)
  have u: "is_utf8 (bytes ''req-example-42'')" by (rule is_utf8_ascii) simp
  have len: "length (bytes s) = length s" for s by (simp add: bytes_def)
  have ne: "bytes s = [] \<longleftrightarrow> s = []" for s by (simp add: bytes_def)
  have "valid_attr ?a" "valid_attr ?b" "attr_text_size ?a = 24" "attr_text_size ?b = 22"
    by (simp_all add: valid_attr_def valid_text_def valid_value_def attr_text_size_def value_text_size_def key_mem_def
        strlen_def example_texts m u limit_defs len ne del: bytes_Cons)
  moreover have "distinct (map attr_name [?a, ?b])" by (simp add: attr_name_def key_mem_def c_text_def)
  moreover have "valid_event_frame file_event"
    by (simp add: valid_event_frame_def file_event_def ij_level_is_valid_iff limit_defs)
  moreover have "valid_event_fields file_event"
    by (simp add: valid_event_fields_def file_event_def valid_text_def valid_optional_text_def c_text_def limit_defs
        is_utf8_ascii)
  moreover have "fields_text_size file_event \<le> 1000"
    by (simp add: fields_text_size_def file_event_def opt_strlen_def strlen_def c_text_def)
  ultimately show ?thesis unfolding valid_event_def as by (simp add: limit_defs del: bytes_Cons)
qed

lemma file_event_plain: "view_plain (input_view IJ_REDACTION_MODE_ENABLED file_event)"
proof -
  have "\<not> has_special (bytes ''example.file'')" "\<not> has_special (bytes ''example emitted one file event'')"
    "\<not> has_special (bytes ''examples.file_sink'')" "\<not> has_special (bytes ''req-example-42'')"
    "\<not> has_special (bytes ''request_id'')" "\<not> has_special (bytes ''auth.token'')" "\<not> has_special IJ_REDACTED_LITERAL"
    by (simp_all add: has_special_def json_special_def IJ_REDACTED_LITERAL_def)
  then show ?thesis
    unfolding file_event_view view_plain_def by (simp add: file_view_def token_view_def del: bytes_Cons)
qed

lemma file_sink_config_ok: "c_text path \<noteq> [] \<Longrightarrow> config_ok (file_sink_config path)"
proof -
  assume "c_text path \<noteq> []"
  moreover have "\<exists>k. 8 \<le> k \<and> k \<le> 16 \<and> IJ_QUEUE_CAPACITY_DEFAULT = 2 ^ k"
    by (intro exI [of _ 10]) (simp add: IJ_QUEUE_CAPACITY_DEFAULT_def)
  ultimately show ?thesis by (simp add: config_ok_def sink_settings_ok_def file_sink_config_def)
qed

section \<open>Properties\<close>





end
