(* ===== verification/Syslog_Examples.thy ===== *)
theory Syslog_Examples
  imports Examples
begin

text \<open>
  The example programs \<open>examples/syslog_tcp.c\<close> and \<open>examples/syslog_udp.c\<close>: each opens a server socket on
  the loopback interface, logs one event to it and prints what arrives. They are modelled with every
  exit path; the calls of the receiving side are answers of the system like those of the library.
\<close>

section \<open>The receiving side\<close>

text \<open>What \<open>recv\<close> delivers is given by its number, the world and the descriptor; \<open>[]\<close> stands for an error or the end.\<close>

record host =
  h_os :: os
  h_setsockopt :: "nat \<Rightarrow> bool"
  h_bind :: "nat \<Rightarrow> bool"
  h_getsockname :: "nat \<Rightarrow> 16 word option"
  h_listen :: "nat \<Rightarrow> bool"
  h_accept :: "nat \<Rightarrow> int"
  h_recv :: "nat \<Rightarrow> world \<Rightarrow> int \<Rightarrow> byte list"
  h_close :: "nat \<Rightarrow> bool"

definition answer :: "(nat \<Rightarrow> 'a) \<Rightarrow> world \<Rightarrow> 'a \<times> world" where
  "answer f w = (f (w_calls w), tick w)"

definition ij_create_tcp_listener :: "host \<Rightarrow> bool \<Rightarrow> world \<Rightarrow> int \<times> 16 word option \<times> world" where
  "ij_create_tcp_listener h out_port w =
     (if \<not> out_port then (- 1, None, w)
      else
        let (fd, w) = socket (h_os h) w in
        if fd < 0 then (- 1, None, w)
        else
          let (ok, w) = answer (h_setsockopt h) w in
          if \<not> ok then (- 1, None, close_fd fd w)
          else
            let (ok, w) = answer (h_bind h) w in
            if \<not> ok then (- 1, None, close_fd fd w)
            else
              let (name, w) = answer (h_getsockname h) w in
              case name of
                None \<Rightarrow> (- 1, None, close_fd fd w)
              | Some port \<Rightarrow>
                  let (ok, w) = answer (h_listen h) w in
                  if \<not> ok then (- 1, None, close_fd fd w) else (fd, Some port, w))"

definition ij_bind_udp_listener :: "host \<Rightarrow> bool \<Rightarrow> world \<Rightarrow> int \<times> 16 word option \<times> world" where
  "ij_bind_udp_listener h out_port w =
     (if \<not> out_port then (- 1, None, w)
      else
        let (fd, w) = socket (h_os h) w in
        if fd < 0 then (- 1, None, w)
        else
          let (ok, w) = answer (h_setsockopt h) w in
          if \<not> ok then (- 1, None, close_fd fd w)
          else
            let (ok, w) = answer (h_bind h) w in
            if \<not> ok then (- 1, None, close_fd fd w)
            else
              let (name, w) = answer (h_getsockname h) w in
              case name of
                None \<Rightarrow> (- 1, None, close_fd fd w)
              | Some port \<Rightarrow> (fd, Some port, w))"

text \<open>The failure exits: the logger is shut down, the descriptors are closed, the answers ignored.\<close>

definition give_up ::
  "host \<Rightarrow> ij_logger option \<Rightarrow> block list \<Rightarrow> int list \<Rightarrow> int \<Rightarrow> world \<Rightarrow> (int \<times> block list \<times> world) option" where
  "give_up h logger live fds code w =
     map_option (\<lambda>(_, live, w). (code, live, fold close_fd fds w)) (ij_logger_shutdown (h_os h) logger live w)"

text \<open>The last exits: each \<open>close\<close> is checked; after one that fails the others are still closed.\<close>

fun close_each :: "host \<Rightarrow> int list \<Rightarrow> int \<Rightarrow> world \<Rightarrow> int \<times> world" where
  "close_each h [] code w = (0, w)"
| "close_each h (fd # fds) code w =
     (if h_close h (w_calls w) then close_each h fds (code + 1) (close_fd fd w)
      else (code, fold close_fd fds (close_fd fd w)))"

text \<open>
  The part both programs share: log, flush, receive, print, shut down. \<open>fds\<close> are the descriptors to be
  closed, the first of them is the one to receive from; the buffer has 512 bytes.
\<close>

definition exchange ::
  "cpu \<Rightarrow> host \<Rightarrow> ij_event_t \<Rightarrow> ij_logger option \<Rightarrow> block list \<Rightarrow> int list \<Rightarrow> world \<Rightarrow> (int \<times> block list \<times> world) option" where
  "exchange cpu h event logger live fds w =
     (case ij_logger_log cpu (h_os h) logger (Some event) w of
        None \<Rightarrow> None
      | Some (status, logger, w, _) \<Rightarrow>
          if status \<noteq> IJ_STATUS_OK then give_up h logger live fds 2 w
          else
            let (status, logger, w) = ij_logger_flush (h_os h) logger w in
            if status \<noteq> IJ_STATUS_OK then give_up h logger live fds 3 w
            else
              let buffer = take 511 (h_recv h (w_calls w) w (hd fds)); w = tick w in
              if length buffer \<le> 0 then give_up h logger live fds 4 w
              else
                let w = puts (h_os h) (buffer @ [0]) w in
                case ij_logger_shutdown (h_os h) logger live w of
                  None \<Rightarrow> None
                | Some (status, live, w) \<Rightarrow>
                    if status \<noteq> IJ_STATUS_OK then Some (5, live, fold close_fd fds w)
                    else let (code, w) = close_each h fds 6 w in Some (code, live, w))"

section \<open>\<open>syslog_tcp.c\<close>\<close>

definition IJ_SYSLOG_FACILITY_LOCAL1 :: ij_syslog_facility_t where "IJ_SYSLOG_FACILITY_LOCAL1 = 17"
definition IJ_SYSLOG_FACILITY_LOCAL4 :: ij_syslog_facility_t where "IJ_SYSLOG_FACILITY_LOCAL4 = 20"

definition syslog_tcp_event :: ij_event_t where
  "syslog_tcp_event =
     \<lparr>ev_timestamp = \<lparr>unix_seconds = 0, nanoseconds = 123000000\<rparr>, ev_level = IJ_LEVEL_ERROR,
      ev_event_name = Some (bytes ''example.syslog.tcp''), ev_message = Some (bytes ''tcp example payload''),
      ev_logger = Some (bytes ''examples.syslog_tcp''), ev_attributes = None, ev_attribute_count = 0,
      ev_trace_id = None, ev_span_id = None, ev_trace_flags = 0, ev_has_trace_context = False,
      ev_source_file = Some (bytes ''examples/syslog_tcp.c''), ev_source_line = 1,
      ev_source_function = Some (bytes ''main'')\<rparr>"

definition syslog_tcp_config :: "16 word \<Rightarrow> ij_logger_config_t" where
  "syslog_tcp_config port =
     \<lparr>cfg_min_level = IJ_LEVEL_INFO, cfg_sink_kind = IJ_SINK_KIND_SYSLOG,
      cfg_redaction_mode = IJ_REDACTION_MODE_ENABLED, cfg_queue_capacity = IJ_QUEUE_CAPACITY_DEFAULT,
      cfg_logger_name = Some (bytes ''examples.syslog_tcp''),
      cfg_file_path = None, cfg_file_rotate_bytes = 0, cfg_file_rotate_interval_seconds = 0,
      cfg_file_retention_files = 0, cfg_file_backend = IJ_FILE_BACKEND_AUTO,
      cfg_syslog_host = Some (bytes ''127.0.0.1''), cfg_syslog_port = port,
      cfg_syslog_transport = IJ_SYSLOG_TRANSPORT_TCP, cfg_syslog_facility = IJ_SYSLOG_FACILITY_LOCAL1\<rparr>"

text \<open>From the constructed logger on: the connection is accepted.\<close>

definition syslog_tcp_serve ::
  "cpu \<Rightarrow> host \<Rightarrow> int \<Rightarrow> ij_logger option \<Rightarrow> block list \<Rightarrow> world \<Rightarrow> (int \<times> block list \<times> world) option" where
  "syslog_tcp_serve cpu h listener_fd logger live w =
     (let (ok, w) = answer (h_setsockopt h) w in
      if \<not> ok then give_up h logger live [listener_fd] 11 w
      else
        let (peer_fd, w) = answer (h_accept h) w in
        if peer_fd < 0 then give_up h logger live [listener_fd] 12 w
        else
          let (ok, w) = answer (h_setsockopt h) w in
          if \<not> ok then give_up h logger live [peer_fd, listener_fd] 13 w
          else exchange cpu h syslog_tcp_event logger live [peer_fd, listener_fd] w)"

definition syslog_tcp_main :: "cpu \<Rightarrow> host \<Rightarrow> world \<Rightarrow> (int \<times> block list \<times> world) option" where
  "syslog_tcp_main cpu h w =
     (let (listener_fd, port, w) = ij_create_tcp_listener h True w in
      if listener_fd < 0 then Some (10, [], w)
      else
        case ij_logger_init (h_os h) True (Some (syslog_tcp_config (deref port 0))) w of
          None \<Rightarrow> None
        | Some (status, logger, live, w) \<Rightarrow>
            if status \<noteq> IJ_STATUS_OK then Some (1, live, close_fd listener_fd w)
            else syslog_tcp_serve cpu h listener_fd logger live w)"

section \<open>\<open>syslog_udp.c\<close>\<close>

definition syslog_udp_event :: ij_event_t where
  "syslog_udp_event =
     \<lparr>ev_timestamp = \<lparr>unix_seconds = 0, nanoseconds = 123000000\<rparr>, ev_level = IJ_LEVEL_INFO,
      ev_event_name = Some (bytes ''example.syslog.udp''), ev_message = Some (bytes ''udp example payload''),
      ev_logger = Some (bytes ''examples.syslog_udp''), ev_attributes = None, ev_attribute_count = 0,
      ev_trace_id = None, ev_span_id = None, ev_trace_flags = 0, ev_has_trace_context = False,
      ev_source_file = Some (bytes ''examples/syslog_udp.c''), ev_source_line = 1,
      ev_source_function = Some (bytes ''main'')\<rparr>"

definition syslog_udp_config :: "16 word \<Rightarrow> ij_logger_config_t" where
  "syslog_udp_config port =
     \<lparr>cfg_min_level = IJ_LEVEL_INFO, cfg_sink_kind = IJ_SINK_KIND_SYSLOG,
      cfg_redaction_mode = IJ_REDACTION_MODE_ENABLED, cfg_queue_capacity = IJ_QUEUE_CAPACITY_DEFAULT,
      cfg_logger_name = Some (bytes ''examples.syslog_udp''),
      cfg_file_path = None, cfg_file_rotate_bytes = 0, cfg_file_rotate_interval_seconds = 0,
      cfg_file_retention_files = 0, cfg_file_backend = IJ_FILE_BACKEND_AUTO,
      cfg_syslog_host = Some (bytes ''127.0.0.1''), cfg_syslog_port = port,
      cfg_syslog_transport = IJ_SYSLOG_TRANSPORT_UDP, cfg_syslog_facility = IJ_SYSLOG_FACILITY_LOCAL4\<rparr>"

definition syslog_udp_main :: "cpu \<Rightarrow> host \<Rightarrow> world \<Rightarrow> (int \<times> block list \<times> world) option" where
  "syslog_udp_main cpu h w =
     (let (listener_fd, port, w) = ij_bind_udp_listener h True w in
      if listener_fd < 0 then Some (10, [], w)
      else
        case ij_logger_init (h_os h) True (Some (syslog_udp_config (deref port 0))) w of
          None \<Rightarrow> None
        | Some (status, logger, live, w) \<Rightarrow>
            if status \<noteq> IJ_STATUS_OK then Some (1, live, close_fd listener_fd w)
            else exchange cpu h syslog_udp_event logger live [listener_fd] w)"

section \<open>What the syslog path does to descriptors and standard output\<close>

text \<open>\<open>closes fds w w'\<close>: between \<open>w\<close> and \<open>w'\<close> the descriptors \<open>fds\<close> were closed and nothing was printed.\<close>

definition closes :: "int list \<Rightarrow> world \<Rightarrow> world \<Rightarrow> bool" where
  "closes fds w w' \<longleftrightarrow> w_closed w' = w_closed w @ fds \<and> w_stdout w' = w_stdout w"

lemma closes_refl [simp]: "closes [] w w"
  by (simp add: closes_def)

lemma closes_tick [simp]: "closes fds w (tick w') \<longleftrightarrow> closes fds w w'" "closes fds (tick w) w' \<longleftrightarrow> closes fds w w'"
  by (simp_all add: closes_def tick_def)

lemma closes_trans: "closes as u v \<Longrightarrow> closes bs v w \<Longrightarrow> closes (as @ bs) u w"
  by (simp add: closes_def)

lemma closes_fd: "closes [fd] w (close_fd fd w)"
  by (simp add: closes_def close_fd_def tick_def)

lemma closes_fold: "closes fds w (fold close_fd fds w)"
proof (induction fds arbitrary: w)
  case (Cons fd fds)
  from closes_trans [OF closes_fd Cons.IH] show ?case by simp
qed simp

lemma closes_each: "close_each h fds code w = (c, w') \<Longrightarrow> closes fds w w'"
proof (induction fds arbitrary: code w)
  case (Cons fd fds)
  show ?case
  proof (cases "h_close h (w_calls w)")
    case True
    with Cons have "closes fds (close_fd fd w) w'" by simp
    from closes_trans [OF closes_fd this] show ?thesis by simp
  next
    case False
    with Cons.prems closes_fold [of "fd # fds" w] show ?thesis by simp
  qed
qed simp

lemma send_closes: "send os fd bs w = (r, w') \<Longrightarrow> closes [] w w'"
  by (auto simp: send_def Let_def closes_def tick_def)

lemma send_all_closes: "send_all_loop os fd b n t w = (st, w') \<Longrightarrow> closes [] w w'"
proof (induction "n - t" arbitrary: t w rule: less_induct)
  case less
  show ?case
  proof (cases "t < n")
    case True
    obtain r v where s: "send os fd (c_mem (c_ptr_add b t) (n - t)) w = (r, v)" by fastforce
    note c = send_closes [OF s]
    show ?thesis
    proof (cases "r \<le> 0")
      case True
      then show ?thesis using less.prems \<open>t < n\<close> s c by (simp add: send_all_loop.simps [of os fd b n t w])
    next
      case False
      then have "send_all_loop os fd b n (t + nat r) v = (st, w')"
        using less.prems \<open>t < n\<close> s by (simp add: send_all_loop.simps [of os fd b n t w])
      from less.hyps [OF _ this] False \<open>t < n\<close> closes_trans [OF c] show ?thesis by simp
    qed
  next
    case False
    then show ?thesis using less.prems by (simp add: send_all_loop.simps [of os fd b n t w])
  qed
qed

lemma tcp_write_closes:
  assumes "ij_syslog_tcp_write os (Some sink) (Some p) n w = (st, w')"
  shows "closes [] w w'"
proof -
  obtain st1 v where 1: "ij_syslog_send_all os (sl_fd sink) (fst (snprintf 32 (decimal n @ [0x20]))) (snd (snprintf 32 (decimal n @ [0x20]))) w = (st1, v)"
    by fastforce
  then have "closes [] w v" by (auto simp: ij_syslog_send_all_def dest: send_all_closes)
  moreover have "closes [] v v'" if "ij_syslog_send_all os (sl_fd sink) p n v = (st', v')" for st' v'
    using that by (auto simp: ij_syslog_send_all_def dest: send_all_closes)
  ultimately show ?thesis
    using assms 1 closes_trans [of "[]" w v "[]" w'] by (auto simp: Let_def split_beta split: if_splits)
qed

lemma udp_write_closes: "ij_syslog_udp_write os (Some sink) (Some p) n w = (st, w') \<Longrightarrow> closes [] w w'"
  by (auto simp: sendto_def Let_def closes_def tick_def split: if_splits)

lemma log_closes:
  assumes "lg_active logger" "cfg_sink_kind (lg_config logger) = IJ_SINK_KIND_SYSLOG"
    and "ij_level_is_enabled (cfg_min_level (lg_config logger)) (ev_level event)"
    and "ij_logger_log cpu os (Some logger) (Some event) w = Some (st, l', w', cp)"
  shows "l' = Some logger \<and> closes [] w w'"
  using assms
proof (cases rule: log_syslog)
  case (sent mem)
  have "closes [] (tick w) w'"
    using sent(6) tcp_write_closes [of os "lg_syslog_sink logger" mem _ "tick w" st w']
      udp_write_closes [of os "lg_syslog_sink logger" mem _ "tick w" st w']
    by (auto simp del: ij_syslog_udp_write.simps ij_syslog_tcp_write.simps split: if_splits)
  with sent(3) show ?thesis by simp
qed simp

text \<open>Construction closes what it opened in vain and prints nothing.\<close>

definition only_closes :: "world \<Rightarrow> world \<Rightarrow> bool" where
  "only_closes w w' \<longleftrightarrow> (\<exists>fds. closes fds w w') \<and> w_streams w' = w_streams w \<and> w_datagrams w' = w_datagrams w"

lemma only_closes_refl [simp]: "only_closes w w"
  using closes_refl unfolding only_closes_def by blast

lemma only_closes_tick [simp]: "only_closes w (tick w') \<longleftrightarrow> only_closes w w'" "only_closes (tick w) w' \<longleftrightarrow> only_closes w w'"
  by (simp_all add: only_closes_def, simp_all add: tick_def)

lemma only_closes_trans: "only_closes u v \<Longrightarrow> only_closes v w \<Longrightarrow> only_closes u w"
  using closes_trans unfolding only_closes_def by metis

lemma strdup_closes: "strdup os s b live w = (s', live', w') \<Longrightarrow> only_closes w w'"
  by (auto simp: strdup_def malloc_def split: option.splits if_splits)

lemma defaults_closes: "ij_apply_logger_defaults os logger config live w = (logger', live', w') \<Longrightarrow> only_closes w w'"
  unfolding ij_apply_logger_defaults_def Let_def
  by (auto split: prod.splits dest!: strdup_closes intro: only_closes_trans)

lemma connect_closes: "connect_tcp_loop os entries w = (r, w') \<Longrightarrow> only_closes w w'"
proof (induction entries arbitrary: w)
  case (Cons e es)
  have "only_closes v (close_fd fd v)" for fd v
    using closes_fd [of fd v] unfolding only_closes_def by (auto simp: close_fd_def tick_def)
  with Cons show ?case
    by (auto simp: socket_def connect_def split: if_splits) (metis only_closes_tick only_closes_trans)+
qed simp

lemma resolve_closes: "resolve_udp_loop os entries w = (r, w') \<Longrightarrow> only_closes w w'"
proof (induction entries arbitrary: w)
  case (Cons e es)
  then show ?case using Cons.IH [of "tick w"] by (auto simp: socket_def split: if_splits)
qed simp

lemma syslog_open_closes:
  "ij_syslog_udp_open os (Some sink) host port w = (st, s', w') \<Longrightarrow> only_closes w w'"
  "ij_syslog_tcp_open os (Some sink) host port w = (st, s', w') \<Longrightarrow> only_closes w w'"
  by (auto simp: ij_syslog_resolve_udp_def ij_syslog_connect_tcp_def getaddrinfo_def Let_def
      split: option.splits prod.splits if_splits dest!: connect_closes resolve_closes)

lemma open_sink_closes:
  "open_sink os logger w = (st, logger', w') \<Longrightarrow> cfg_sink_kind (lg_config logger) = IJ_SINK_KIND_SYSLOG \<Longrightarrow> only_closes w w'"
  by (auto simp: open_sink_def Let_def simp del: ij_syslog_udp_open.simps ij_syslog_tcp_open.simps
      split: prod.splits if_splits dest: syslog_open_closes)

lemma init_closes:
  assumes "ij_logger_init os True (Some config) w = Some (st, l, live, w')" "cfg_sink_kind config = IJ_SINK_KIND_SYSLOG"
  shows "only_closes w w'"
proof (cases "ij_validate_logger_config (Some config) = IJ_STATUS_OK \<and> os_malloc os (w_calls w)")
  case True
  obtain logger1 live1 w1 where d: "ij_apply_logger_defaults os (zero_logger config) config [LOGGER] (tick w) =
      (logger1, live1, w1)" by (metis prod_cases3)
  have D: "lg_ring logger1 = zero_ring" "cfg_sink_kind (lg_config logger1) = IJ_SINK_KIND_SYSLOG" "only_closes w w1"
    using defaults_result [OF d] defaults_closes [OF d] assms(2) by (simp_all add: zero_logger_def)
  obtain rst ring where r: "ij_ring_init (os_ring os (w_calls w1)) (Some zero_ring) (cfg_queue_capacity (lg_config logger1)) =
      (rst, ring)" by fastforce
  obtain st2 logger w2 where o: "open_sink os (logger1\<lparr>lg_ring := deref ring zero_ring\<rparr>) (tick w1) = (st2, logger, w2)"
    by (metis prod_cases3)
  have "only_closes w1 w2" using open_sink_closes [OF o] D(2) by simp
  then have "only_closes w w2" using D(3) only_closes_trans by blast
  moreover have "w' = w1 \<or> w' = tick w1 \<or> w' = w2 \<or> w' = tick w2"
    using assms(1) True d r o unfolding ij_logger_init_def malloc_def
    by (auto simp: D(1) Let_def split: if_splits option.splits)
  ultimately show ?thesis using D(3) by auto
next
  case False
  then show ?thesis using assms(1) by (auto simp: ij_logger_init_def malloc_def split: if_splits)
qed

section \<open>The constructed logger\<close>

lemma strdup_value: "strdup os s b live w = (s', live', w') \<Longrightarrow> s' = None \<or> s' = map_option c_text s"
  by (auto simp: strdup_def malloc_def split: option.splits if_splits)

lemma init_config:
  assumes "ij_logger_init os True (Some config) w = Some (IJ_STATUS_OK, Some logger, live, w')"
  shows "lg_config logger = default_config config"
proof -
  obtain name l1 v1 where n: "strdup os (cfg_logger_name config) LOGGER_NAME [LOGGER] (tick w) = (name, l1, v1)"
    by (metis prod_cases3)
  obtain host l2 v2 where h: "strdup os (cfg_syslog_host config) SYSLOG_HOST l1 v1 = (host, l2, v2)"
    by (metis prod_cases3)
  let ?cfg = "(if cfg_queue_capacity config = 0 then config\<lparr>cfg_queue_capacity := IJ_QUEUE_CAPACITY_DEFAULT\<rparr> else config)
    \<lparr>cfg_logger_name := name, cfg_syslog_host := host\<rparr>"
  let ?logger = "(zero_logger config)\<lparr>lg_config := ?cfg, lg_active := True\<rparr>"
  have d: "ij_apply_logger_defaults os (zero_logger config) config [LOGGER] (tick w) = (?logger, l2, v2)"
    using n h by (simp add: ij_apply_logger_defaults_def Let_def)
  obtain rst ring where r: "ij_ring_init (os_ring os (w_calls v2)) (Some zero_ring) (cfg_queue_capacity ?cfg) = (rst, ring)"
    by fastforce
  obtain st2 logger2 w2 where o: "open_sink os (?logger\<lparr>lg_ring := deref ring zero_ring\<rparr>) (tick v2) = (st2, logger2, w2)"
    by (metis prod_cases3)
  have "(cfg_logger_name config = None \<or> name \<noteq> None) \<and> (cfg_syslog_host config = None \<or> host \<noteq> None) \<and> logger = logger2"
    using assms d r o unfolding ij_logger_init_def malloc_def
    by (auto simp: zero_logger_def Let_def split: if_splits option.splits)
  moreover have "lg_config logger2 = ?cfg" using open_sink_frame [OF o] by simp
  ultimately show ?thesis
    using strdup_value [OF n] strdup_value [OF h] by (auto simp: default_config_def)
qed

lemma default_config_syslog:
  "cfg_syslog_transport (default_config config) = cfg_syslog_transport config"
  "logged_syslog (default_config config) event = logged_syslog config event"
proof -
  show "cfg_syslog_transport (default_config config) = cfg_syslog_transport config" by (simp add: default_config_def)
  have "c_text [] = []" by (simp add: c_text_def)
  then have "view_app v (default_config config) = view_app v config" for v
    by (cases "cfg_logger_name config") (simp_all add: view_app_def default_config_def c_text_empty_iff [symmetric] split: list.split option.split)
  then show "logged_syslog (default_config config) event = logged_syslog config event"
    by (simp add: logged_syslog_def view_syslog_line_def, simp add: default_config_def)
qed

lemma shutdown_closes:
  assumes "lg_active logger" "ring_inv (lg_ring logger)" "lg_file_sink logger = zero_file_sink"
    and "live = LOGGER # string_blocks (cfg_logger_name (lg_config logger)) (cfg_syslog_host (lg_config logger))"
    and "0 \<le> sl_fd (lg_syslog_sink logger)"
  shows "\<exists>w'. ij_logger_shutdown os (Some logger) live w = Some (IJ_STATUS_OK, [], w') \<and>
    closes [sl_fd (lg_syslog_sink logger)] w w' \<and> w_streams w' = w_streams w \<and> w_datagrams w' = w_datagrams w"
  unfolding shutdown_steps [OF assms(1,2,4)] assms(3)
  using assms(5) by (simp add: zero_file_sink_def ij_file_sink_ops_def IJ_FILE_SINK_SYNC_OPS_def close_fd_def closes_def tick_def)

text \<open>The descriptor of a constructed TCP logger comes from one of its calls of \<open>socket\<close>.\<close>

lemma connect_socket: "connect_tcp_loop os entries w = (Some fd, w') \<Longrightarrow> \<exists>c\<ge>w_calls w. fd = os_socket os c"
proof (induction entries arbitrary: w)
  case (Cons e es)
  have later: "\<exists>c\<ge>w_calls w. fd = os_socket os c" if "\<exists>c\<ge>w_calls v. fd = os_socket os c" "w_calls w \<le> w_calls v" for v
    using that le_trans by blast
  show ?case
    using Cons.prems Cons.IH [of "tick w"] Cons.IH [of "close_fd (os_socket os (w_calls w)) (tick (tick w))"]
      later [of "tick w"] later [of "close_fd (os_socket os (w_calls w)) (tick (tick w))"]
    by (auto simp: socket_def connect_def close_fd_def tick_def split: if_splits)
qed simp

lemma tcp_open_socket:
  assumes "ij_syslog_tcp_open os (Some sink) host port w = (IJ_STATUS_OK, Some sink', w')"
  shows "\<exists>c>w_calls w. sl_fd sink' = os_socket os c"
proof -
  obtain hst entries fd v where "host = Some hst" "connect_tcp_loop os entries (tick w) = (Some fd, v)" "sl_fd sink' = fd"
    using assms by (auto simp: ij_syslog_connect_tcp_def getaddrinfo_def Let_def split: option.splits if_splits prod.splits)
  with connect_socket [of os entries "tick w" fd v] show ?thesis by (auto simp: tick_def Suc_le_eq)
qed

lemma strdup_calls: "strdup os s b live w = (s', live', w') \<Longrightarrow> w_calls w \<le> w_calls w'"
  by (auto simp: strdup_def malloc_def tick_def split: option.splits if_splits)

lemma init_client:
  assumes "ij_logger_init os True (Some config) w = Some (IJ_STATUS_OK, Some logger, live, w')"
    and "cfg_sink_kind config = IJ_SINK_KIND_SYSLOG" "cfg_syslog_transport config = IJ_SYSLOG_TRANSPORT_TCP"
  shows "\<exists>c>w_calls w. sl_fd (lg_syslog_sink logger) = os_socket os c"
  using assms(1)
proof (rule init_steps)
  fix config' logger1 w1 ring logger'
  assume c: "Some config = Some config'" "Some logger = Some logger'"
    and d: "ij_apply_logger_defaults os (zero_logger config') config' [LOGGER] (tick w) = (logger1, live, w1)"
    and o: "open_sink os (logger1\<lparr>lg_ring := ring\<rparr>) (tick w1) = (IJ_STATUS_OK, logger', w')"
  have calls: "w_calls w \<le> w_calls w1"
    using d unfolding ij_apply_logger_defaults_def Let_def
    by (auto split: prod.splits dest!: strdup_calls simp: tick_def)
  have t: "cfg_sink_kind (lg_config logger1) = IJ_SINK_KIND_SYSLOG" "cfg_syslog_transport (lg_config logger1) = IJ_SYSLOG_TRANSPORT_TCP"
    using init_config [OF assms(1)] open_sink_frame [OF o] assms(2,3) c by (simp_all add: default_config_syslog)
  obtain st s' w2 where op: "ij_syslog_tcp_open os (Some (lg_syslog_sink logger1)) (cfg_syslog_host (lg_config logger1))
      (cfg_syslog_port (lg_config logger1)) (tick w1) = (st, s', w2)" by (metis prod_cases3)
  have ok: "st = IJ_STATUS_OK" "lg_syslog_sink logger' = deref s' (lg_syslog_sink logger1)"
    using o t op by (auto simp: open_sink_def Let_def simp del: ij_syslog_tcp_open.simps ij_syslog_udp_open.simps)
  from tcp_open_result [OF op] obtain sink' where s': "s' = Some sink'" by blast
  from tcp_open_socket [OF op [unfolded ok(1) s']] obtain n where "w_calls (tick w1) < n" "sl_fd sink' = os_socket os n" by blast
  with calls ok(2) s' c(2) show ?thesis by (intro exI [of _ n]) (simp add: tick_def)
qed

text \<open>A constructed syslog logger and the blocks it owns.\<close>

definition syslog_built :: "ij_logger \<Rightarrow> block list \<Rightarrow> bool" where
  "syslog_built logger live \<longleftrightarrow> lg_active logger \<and> ring_inv (lg_ring logger) \<and> lg_file_sink logger = zero_file_sink \<and>
     live = LOGGER # string_blocks (cfg_logger_name (lg_config logger)) (cfg_syslog_host (lg_config logger)) \<and>
     0 \<le> sl_fd (lg_syslog_sink logger) \<and> cfg_sink_kind (lg_config logger) = IJ_SINK_KIND_SYSLOG"

lemma init_built:
  assumes "ij_logger_init os True (Some config) w = Some (IJ_STATUS_OK, l, live, w')" "cfg_sink_kind config = IJ_SINK_KIND_SYSLOG"
  obtains logger where "l = Some logger" "syslog_built logger live" "lg_config logger = default_config config"
proof -
  obtain logger where l: "l = Some logger" "logger_ok os w' logger" "lg_file_sink logger = zero_file_sink"
    "cfg_sink_kind (lg_config logger) = IJ_SINK_KIND_SYSLOG"
    "live = LOGGER # string_blocks (cfg_logger_name (lg_config logger)) (cfg_syslog_host (lg_config logger))"
    using logger_init_ok [OF assms(1)] assms(2) by auto
  moreover have "lg_config logger = default_config config" using init_config assms(1) l(1) by blast
  ultimately show thesis by (intro that [of logger]) (simp_all add: syslog_built_def logger_ok_def)
qed

lemma built_shutdown:
  assumes "syslog_built logger live"
  obtains w' where "ij_logger_shutdown os (Some logger) live w = Some (IJ_STATUS_OK, [], w')"
    "closes [sl_fd (lg_syslog_sink logger)] w w'" "w_streams w' = w_streams w" "w_datagrams w' = w_datagrams w"
  using shutdown_closes [of logger live os w] assms by (auto simp: syslog_built_def)

lemma give_up_outcome:
  assumes "syslog_built logger live"
  shows "\<exists>w'. give_up h (Some logger) live fds code w = Some (code, [], w') \<and> closes (sl_fd (lg_syslog_sink logger) # fds) w w'"
proof -
  obtain w' where s: "ij_logger_shutdown (h_os h) (Some logger) live w = Some (IJ_STATUS_OK, [], w')"
    "closes [sl_fd (lg_syslog_sink logger)] w w'" using built_shutdown [OF assms] by metis
  from closes_trans [OF s(2) closes_fold [of fds w']] s(1) show ?thesis by (simp add: give_up_def)
qed

lemma puts_world:
  "\<exists>k. w_stdout (puts os s w) = w_stdout w @ take k (c_text s @ [0x0a])" "w_closed (puts os s w) = w_closed w"
  "w_streams (puts os s w) = w_streams w" "w_datagrams (puts os s w) = w_datagrams w"
  by (auto simp: puts_def writev_def Let_def tick_def)

lemma c_text_snoc_zero: "c_text (bs @ [0]) = c_text bs"
  by (induction bs) (simp_all add: c_text_def)

lemma close_each_world: "close_each h fds code w = (c, w') \<Longrightarrow> w_streams w' = w_streams w \<and> w_datagrams w' = w_datagrams w"
proof (induction fds arbitrary: code w)
  case (Cons fd fds)
  have "w_streams (fold close_fd xs v) = w_streams v \<and> w_datagrams (fold close_fd xs v) = w_datagrams v" for xs v
    by (induction xs arbitrary: v) (simp_all add: close_fd_def tick_def)
  with Cons show ?case by (auto simp: close_fd_def tick_def split: if_splits)
qed simp

lemma close_each_code: "close_each h fds code w = (c, w') \<Longrightarrow> c = 0 \<or> code \<le> c \<and> c < code + int (length fds)"
  by (induction fds arbitrary: code w) (fastforce split: if_splits)+

text \<open>A successful exchange over the descriptor \<open>fd\<close>: the event is logged, something is received and printed.\<close>

definition exchanged :: "cpu \<Rightarrow> host \<Rightarrow> ij_event_t \<Rightarrow> ij_logger \<Rightarrow> int \<Rightarrow> world \<Rightarrow> world \<Rightarrow> bool" where
  "exchanged cpu h event logger fd w w' \<longleftrightarrow>
     (\<exists>w1 cp k received. ij_logger_log cpu (h_os h) (Some logger) (Some event) w = Some (IJ_STATUS_OK, Some logger, w1, cp) \<and>
        received = take 511 (h_recv h (w_calls w1) w1 fd) \<and> received \<noteq> [] \<and>
        w_stdout w' = w_stdout w @ take k (c_text received @ [0x0a]) \<and>
        w_streams w' = w_streams w1 \<and> w_datagrams w' = w_datagrams w1)"

lemma exchange_outcome:
  assumes b: "syslog_built logger live"
    and e: "ij_level_is_enabled (cfg_min_level (lg_config logger)) (ev_level event)"
  shows "\<exists>code w'. exchange cpu h event (Some logger) live fds w = Some (code, [], w') \<and>
    (code = 0 \<or> code = 2 \<or> code = 4 \<or> 6 \<le> code \<and> code < 6 + int (length fds)) \<and>
    w_closed w' = w_closed w @ sl_fd (lg_syslog_sink logger) # fds \<and>
    (code = 0 \<longrightarrow> exchanged cpu h event logger (hd fds) w w')"
proof -
  have a: "lg_active logger" "cfg_sink_kind (lg_config logger) = IJ_SINK_KIND_SYSLOG"
    using b by (simp_all add: syslog_built_def)
  obtain st l1 w1 cp where g: "ij_logger_log cpu (h_os h) (Some logger) (Some event) w = Some (st, l1, w1, cp)"
    using log_safe by metis
  from log_closes [OF a e g] have l1: "l1 = Some logger" and c1: "closes [] w w1" by simp_all
  have fl: "ij_logger_flush (h_os h) (Some logger) w1 = (IJ_STATUS_OK, Some logger, w1)"
    using flush_not_file [OF a(1)] a(2) by simp
  let ?r = "take 511 (h_recv h (w_calls w1) w1 (hd fds))" and ?fd = "sl_fd (lg_syslog_sink logger)"
  consider (refused) "st \<noteq> IJ_STATUS_OK" | (silent) "st = IJ_STATUS_OK" "?r = []" | (heard) "st = IJ_STATUS_OK" "?r \<noteq> []" by blast
  then show ?thesis
  proof cases
    case refused
    then have "exchange cpu h event (Some logger) live fds w = give_up h (Some logger) live fds 2 w1"
      using g l1 by (simp add: exchange_def)
    with give_up_outcome [OF b, of h fds 2 w1] c1 show ?thesis by (auto simp: closes_def)
  next
    case silent
    then have "exchange cpu h event (Some logger) live fds w = give_up h (Some logger) live fds 4 (tick w1)"
      using g l1 fl by (simp add: exchange_def Let_def)
    with give_up_outcome [OF b, of h fds 4 "tick w1"] c1 show ?thesis by (auto simp: closes_def tick_def)
  next
    case heard
    let ?w2 = "puts (h_os h) (?r @ [0]) (tick w1)"
    obtain k where k: "w_stdout ?w2 = w_stdout w1 @ take k (c_text ?r @ [0x0a])"
      using puts_world(1) [of "h_os h" "?r @ [0]" "tick w1"] by (auto simp: c_text_snoc_zero tick_def)
    obtain w3 where s: "ij_logger_shutdown (h_os h) (Some logger) live ?w2 = Some (IJ_STATUS_OK, [], w3)"
      "closes [?fd] ?w2 w3" "w_streams w3 = w_streams ?w2" "w_datagrams w3 = w_datagrams ?w2"
      using built_shutdown [OF b] by metis
    obtain code w4 where ce: "close_each h fds 6 w3 = (code, w4)" by fastforce
    have x: "exchange cpu h event (Some logger) live fds w = Some (code, [], w4)"
      using g l1 fl heard s(1) ce by (simp add: exchange_def Let_def)
    have "w_closed w4 = w_closed w @ ?fd # fds" "w_stdout w4 = w_stdout w @ take k (c_text ?r @ [0x0a])"
      using closes_each [OF ce] s(2) k c1 puts_world(2) [of "h_os h" "?r @ [0]" "tick w1"] by (simp_all add: closes_def tick_def)
    moreover have "w_streams w4 = w_streams w1" "w_datagrams w4 = w_datagrams w1"
      using close_each_world [OF ce] s(3,4) puts_world(3,4) [of "h_os h" "?r @ [0]" "tick w1"] by (simp_all add: tick_def)
    ultimately show ?thesis
      using x g l1 heard close_each_code [OF ce] by (intro exI [of _ code] exI [of _ w4]) (auto simp: exchanged_def)
  qed
qed

section \<open>The programs\<close>

definition tcp_example_line :: "byte list" where
  "tcp_example_line = bytes ''<139>1 1970-01-01T00:00:00.123Z - examples.syslog_tcp - - - tcp example payload''"

definition udp_example_line :: "byte list" where
  "udp_example_line = bytes ''<166>1 1970-01-01T00:00:00.123Z - examples.syslog_udp - - - udp example payload''"

lemma example_lines:
  "logged_syslog (syslog_tcp_config port) syslog_tcp_event = tcp_example_line"
  "logged_syslog (syslog_udp_config port) syslog_udp_event = udp_example_line"
proof -
  have n: "decimal 139 = bytes ''139''" "decimal 166 = bytes ''166''" by (simp_all add: decimal.simps byte_of_def)
  have a: "app_name (bytes ''examples.syslog_tcp'') = bytes ''examples.syslog_tcp''"
    "app_name (bytes ''examples.syslog_udp'') = bytes ''examples.syslog_udp''"
    by (simp_all add: app_name_def c_text_def sanitize_byte_def)
  have c: "c_text (bytes ''examples.syslog_tcp'') = bytes ''examples.syslog_tcp''"
    "c_text (bytes ''examples.syslog_udp'') = bytes ''examples.syslog_udp''"
    "c_text (bytes ''tcp example payload'') = bytes ''tcp example payload''"
    "c_text (bytes ''udp example payload'') = bytes ''udp example payload''" by (simp_all add: c_text_def)
  have v: "view_app v config = l" if "v_logger v = Some l" "l \<noteq> []" for v config l
    using that by (cases l) (simp_all add: view_app_def)
  show "logged_syslog (syslog_tcp_config port) syslog_tcp_event = tcp_example_line"
    unfolding logged_syslog_def view_syslog_line_def tcp_example_line_def
    by (subst v [of _ "bytes ''examples.syslog_tcp''"])
      (simp_all add: input_view_def syslog_tcp_event_def syslog_tcp_config_def opt_text_def text_of_def c a n rfc5424_line_def
        example_timestamp ij_syslog_severity_from_level_def IJ_SYSLOG_FACILITY_LOCAL1_def del: bytes_Cons, simp_all)
  show "logged_syslog (syslog_udp_config port) syslog_udp_event = udp_example_line"
    unfolding logged_syslog_def view_syslog_line_def udp_example_line_def
    by (subst v [of _ "bytes ''examples.syslog_udp''"])
      (simp_all add: input_view_def syslog_udp_event_def syslog_udp_config_def opt_text_def text_of_def c a n rfc5424_line_def
        example_timestamp ij_syslog_severity_from_level_def IJ_SYSLOG_FACILITY_LOCAL4_def del: bytes_Cons, simp_all)
qed

lemma example_configs:
  "cfg_sink_kind (syslog_tcp_config port) = IJ_SINK_KIND_SYSLOG" "cfg_sink_kind (syslog_udp_config port) = IJ_SINK_KIND_SYSLOG"
  "cfg_syslog_transport (syslog_tcp_config port) = IJ_SYSLOG_TRANSPORT_TCP"
  "cfg_syslog_transport (syslog_udp_config port) = IJ_SYSLOG_TRANSPORT_UDP"
  "ij_level_is_enabled (cfg_min_level (syslog_tcp_config port)) (ev_level syslog_tcp_event)"
  "ij_level_is_enabled (cfg_min_level (syslog_udp_config port)) (ev_level syslog_udp_event)"
  by (simp_all add: syslog_tcp_config_def syslog_udp_config_def syslog_tcp_event_def syslog_udp_event_def
      ij_level_is_enabled_def ij_level_is_valid_iff less_eq_ij_level_t_def)

text \<open>The listeners close their socket when they fail and leave everything else alone.\<close>

lemma listener_outcome:
  assumes "ij_create_tcp_listener h True w = (fd, port, w') \<or> ij_bind_udp_listener h True w = (fd, port, w')"
  shows "if fd < 0 then w_closed w' = w_closed w \<or> (\<exists>s\<ge>0. w_closed w' = w_closed w @ [s]) else only_closes w w' \<and> w_closed w' = w_closed w"
  using assms
  by (auto simp: ij_create_tcp_listener_def ij_bind_udp_listener_def answer_def socket_def Let_def only_closes_def closes_def
      close_fd_def tick_def split: if_splits option.splits)

text \<open>What a log call that is accepted has brought onto the connection or into a datagram.\<close>

lemma built_log_tcp:
  assumes "syslog_built logger live" "lg_config logger = default_config (syslog_tcp_config port)"
    and "ij_logger_log cpu os (Some logger) (Some syslog_tcp_event) w = Some (IJ_STATUS_OK, l', w', cp)"
  shows "w_streams w' (sl_fd (lg_syslog_sink logger)) = w_streams w (sl_fd (lg_syslog_sink logger)) @ tcp_frame tcp_example_line"
proof -
  let ?sink = "lg_syslog_sink logger"
  have line: "logged_syslog (lg_config logger) syslog_tcp_event = tcp_example_line"
    unfolding assms(2) default_config_syslog by (rule example_lines)
  have a: "lg_active logger" "cfg_sink_kind (lg_config logger) = IJ_SINK_KIND_SYSLOG" "0 \<le> sl_fd ?sink"
    and e: "ij_level_is_enabled (cfg_min_level (lg_config logger)) (ev_level syslog_tcp_event)"
    and t: "cfg_syslog_transport (lg_config logger) = IJ_SYSLOG_TRANSPORT_TCP"
    using assms(1,2) example_configs by (simp_all add: syslog_built_def default_config_syslog)
  from a(1,2) e assms(3) show ?thesis
  proof (cases rule: log_syslog)
    case (sent mem)
    then have wr: "ij_syslog_tcp_write os (Some ?sink) (Some mem) (length tcp_example_line) (tick w) = (IJ_STATUS_OK, w')"
      using t unfolding line by (simp del: ij_syslog_tcp_write.simps)
    from tcp_write_outcome [OF sent(1) _ a(3), of "tick w" mem os] sent(2,5) show ?thesis
      unfolding line wr by (auto simp: SIZE_MODULUS_def tick_def stream_outcome_def)
  qed simp
qed

lemma built_log_udp:
  assumes "syslog_built logger live" "lg_config logger = default_config (syslog_udp_config port)"
    and "ij_logger_log cpu os (Some logger) (Some syslog_udp_event) w = Some (IJ_STATUS_OK, l', w', cp)"
  shows "w_datagrams w' = w_datagrams w @ [(sl_address (lg_syslog_sink logger), udp_example_line)]"
proof -
  have line: "logged_syslog (lg_config logger) syslog_udp_event = udp_example_line"
    unfolding assms(2) default_config_syslog by (rule example_lines)
  have a: "lg_active logger" "cfg_sink_kind (lg_config logger) = IJ_SINK_KIND_SYSLOG"
    and e: "ij_level_is_enabled (cfg_min_level (lg_config logger)) (ev_level syslog_udp_event)"
    and t: "cfg_syslog_transport (lg_config logger) = IJ_SYSLOG_TRANSPORT_UDP"
    using assms(1,2) example_configs by (simp_all add: syslog_built_def default_config_syslog)
  from a(1,2) e assms(3) show ?thesis
  proof (cases rule: log_syslog)
    case (sent mem)
    then show ?thesis
      using udp_write_cases [of os "lg_syslog_sink logger" mem _ "tick w" IJ_STATUS_OK w'] t
      by (simp add: tick_def line del: ij_syslog_udp_write.simps)
  qed simp
qed

text \<open>
  The exits of the TCP program once the logger is constructed: \<open>failed\<close> are the sockets that construction
  closed, \<open>client\<close> is the logger's connection. On success the whole frame is on the connection, and what
  was received is printed.
\<close>

definition tcp_served :: "host \<Rightarrow> int list \<Rightarrow> int \<Rightarrow> int \<Rightarrow> int \<Rightarrow> world \<Rightarrow> world \<Rightarrow> bool" where
  "tcp_served h failed client fd code w w' \<longleftrightarrow>
     (if code = 11 \<or> code = 12 then w_closed w' = w_closed w @ failed @ [client, fd]
      else \<exists>peer\<ge>0. w_closed w' = w_closed w @ failed @ [client, peer, fd] \<and>
        (code = 0 \<longrightarrow> w_streams w' client = w_streams w client @ tcp_frame tcp_example_line \<and>
          (\<exists>k received. received \<noteq> [] \<and> w_stdout w' = w_stdout w @ take k (c_text received @ [0x0a]) \<and>
            (w_streams w client = [] \<and> (\<forall>c v. prefix (h_recv h c v peer) (w_streams v client)) \<longrightarrow>
               prefix received (tcp_frame tcp_example_line)))))"

lemma tcp_serve_outcome:
  assumes b: "syslog_built logger live" and c: "lg_config logger = default_config (syslog_tcp_config port)"
  shows "\<exists>code w'. syslog_tcp_serve cpu h fd (Some logger) live w = Some (code, [], w') \<and> code \<noteq> 1 \<and>
    tcp_served h [] (sl_fd (lg_syslog_sink logger)) fd code w w'"
proof -
  define client where "client = sl_fd (lg_syslog_sink logger)"
  let ?peer = "h_accept h (w_calls (tick w))" and ?w = "tick (tick (tick w))"
  consider (opt) "\<not> h_setsockopt h (w_calls w)" | (acc) "h_setsockopt h (w_calls w)" "?peer < 0"
    | (opt2) "h_setsockopt h (w_calls w)" "0 \<le> ?peer" "\<not> h_setsockopt h (w_calls (tick (tick w)))"
    | (serve) "h_setsockopt h (w_calls w)" "0 \<le> ?peer" "h_setsockopt h (w_calls (tick (tick w)))" by linarith
  then show ?thesis
  proof cases
    case opt
    from give_up_outcome [OF b, of h "[fd]" 11 "tick w"] obtain w' where
      "give_up h (Some logger) live [fd] 11 (tick w) = Some (11, [], w')" "w_closed w' = w_closed w @ [client, fd]"
      by (auto simp: closes_def client_def tick_def)
    with opt show ?thesis by (intro exI [of _ 11] exI [of _ w']) (auto simp: syslog_tcp_serve_def answer_def tcp_served_def client_def)
  next
    case acc
    from give_up_outcome [OF b, of h "[fd]" 12 "tick (tick w)"] obtain w' where
      "give_up h (Some logger) live [fd] 12 (tick (tick w)) = Some (12, [], w')" "w_closed w' = w_closed w @ [client, fd]"
      by (auto simp: closes_def client_def tick_def)
    with acc show ?thesis by (intro exI [of _ 12] exI [of _ w']) (auto simp: syslog_tcp_serve_def answer_def tcp_served_def client_def)
  next
    case opt2
    from give_up_outcome [OF b, of h "[?peer, fd]" 13 ?w] obtain w' where
      "give_up h (Some logger) live [?peer, fd] 13 ?w = Some (13, [], w')" "w_closed w' = w_closed w @ [client, ?peer, fd]"
      by (auto simp: closes_def client_def tick_def)
    with opt2 show ?thesis by (intro exI [of _ 13] exI [of _ w']) (auto simp: syslog_tcp_serve_def answer_def tcp_served_def client_def)
  next
    case serve
    have e: "ij_level_is_enabled (cfg_min_level (lg_config logger)) (ev_level syslog_tcp_event)"
      using c example_configs by simp
    have main: "syslog_tcp_serve cpu h fd (Some logger) live w = exchange cpu h syslog_tcp_event (Some logger) live [?peer, fd] ?w"
      using serve by (simp add: syslog_tcp_serve_def answer_def)
    have w: "w_closed ?w = w_closed w" "w_streams ?w = w_streams w" "w_stdout ?w = w_stdout w" by (simp_all add: tick_def)
    obtain code w' where x: "exchange cpu h syslog_tcp_event (Some logger) live [?peer, fd] ?w = Some (code, [], w')"
      and codes: "code = 0 \<or> code = 2 \<or> code = 4 \<or> 6 \<le> code \<and> code < 8" and cl: "w_closed w' = w_closed w @ [client, ?peer, fd]"
      and z: "code = 0 \<longrightarrow> exchanged cpu h syslog_tcp_event logger ?peer ?w w'"
      using exchange_outcome [OF b e, of cpu h "[?peer, fd]" ?w] unfolding client_def w by auto
    have "w_streams w' client = w_streams w client @ tcp_frame tcp_example_line \<and>
         (\<exists>k received. received \<noteq> [] \<and> w_stdout w' = w_stdout w @ take k (c_text received @ [0x0a]) \<and>
           (w_streams w client = [] \<and> (\<forall>c v. prefix (h_recv h c v ?peer) (w_streams v client)) \<longrightarrow>
              prefix received (tcp_frame tcp_example_line)))" if "code = 0"
    proof -
      from z that obtain w1 cp k where r: "take 511 (h_recv h (w_calls w1) w1 ?peer) \<noteq> []"
        "ij_logger_log cpu (h_os h) (Some logger) (Some syslog_tcp_event) ?w = Some (IJ_STATUS_OK, Some logger, w1, cp)"
        "w_stdout w' = w_stdout w @ take k (c_text (take 511 (h_recv h (w_calls w1) w1 ?peer)) @ [0x0a])"
        "w_streams w' = w_streams w1" unfolding exchanged_def w by blast
      have s: "w_streams w1 client = w_streams w client @ tcp_frame tcp_example_line"
        using built_log_tcp [OF b c r(2)] unfolding client_def w .
      have "prefix (take 511 (h_recv h (w_calls w1) w1 ?peer)) (tcp_frame tcp_example_line)"
        if "w_streams w client = []" "\<forall>c v. prefix (h_recv h c v ?peer) (w_streams v client)"
        using that s take_is_prefix prefix_order.trans by (metis append_Nil)
      with r(1,3) s show ?thesis unfolding r(4) by blast
    qed
    with main x codes cl serve(2) show ?thesis unfolding tcp_served_def client_def by auto
  qed
qed


definition udp_served :: "host \<Rightarrow> int list \<Rightarrow> int \<Rightarrow> int \<Rightarrow> int \<Rightarrow> world \<Rightarrow> world \<Rightarrow> bool" where
  "udp_served h failed client fd code w w' \<longleftrightarrow> w_closed w' = w_closed w @ failed @ [client, fd] \<and>
     (code = 0 \<longrightarrow> (\<exists>addr. w_datagrams w' = w_datagrams w @ [(addr, udp_example_line)]) \<and>
       (\<exists>k received. received \<noteq> [] \<and> w_stdout w' = w_stdout w @ take k (c_text received @ [0x0a]) \<and>
         (w_datagrams w = [] \<and> (\<forall>c v. h_recv h c v fd \<in> insert [] (snd ` set (w_datagrams v))) \<longrightarrow> received = udp_example_line)))"

lemma udp_exchange_outcome:
  assumes b: "syslog_built logger live" and c: "lg_config logger = default_config (syslog_udp_config port)"
  shows "\<exists>code w'. exchange cpu h syslog_udp_event (Some logger) live [fd] w = Some (code, [], w') \<and> code \<noteq> 1 \<and>
    udp_served h [] (sl_fd (lg_syslog_sink logger)) fd code w w'"
proof -
  have e: "ij_level_is_enabled (cfg_min_level (lg_config logger)) (ev_level syslog_udp_event)"
    using c example_configs by simp
  obtain code w' where x: "exchange cpu h syslog_udp_event (Some logger) live [fd] w = Some (code, [], w')"
    and codes: "code = 0 \<or> code = 2 \<or> code = 4 \<or> 6 \<le> code \<and> code < 7"
    and cl: "w_closed w' = w_closed w @ [sl_fd (lg_syslog_sink logger), fd]"
    and z: "code = 0 \<longrightarrow> exchanged cpu h syslog_udp_event logger fd w w'"
    using exchange_outcome [OF b e, of cpu h "[fd]" w] by auto
  have "(\<exists>addr. w_datagrams w' = w_datagrams w @ [(addr, udp_example_line)]) \<and>
       (\<exists>k received. received \<noteq> [] \<and> w_stdout w' = w_stdout w @ take k (c_text received @ [0x0a]) \<and>
         (w_datagrams w = [] \<and> (\<forall>c v. h_recv h c v fd \<in> insert [] (snd ` set (w_datagrams v))) \<longrightarrow> received = udp_example_line))"
    if "code = 0"
  proof -
    from z that obtain w1 cp k where r: "take 511 (h_recv h (w_calls w1) w1 fd) \<noteq> []"
      "ij_logger_log cpu (h_os h) (Some logger) (Some syslog_udp_event) w = Some (IJ_STATUS_OK, Some logger, w1, cp)"
      "w_stdout w' = w_stdout w @ take k (c_text (take 511 (h_recv h (w_calls w1) w1 fd)) @ [0x0a])"
      "w_datagrams w' = w_datagrams w1" unfolding exchanged_def by blast
    note s = built_log_udp [OF b c r(2)]
    have "length udp_example_line \<le> 511" by (simp add: udp_example_line_def)
    with s r(1) have "take 511 (h_recv h (w_calls w1) w1 fd) = udp_example_line"
      if "w_datagrams w = []" "\<forall>c v. h_recv h c v fd \<in> insert [] (snd ` set (w_datagrams v))"
      using that(1) spec [OF spec [OF that(2), of "w_calls w1"], of w1] by auto
    with r(1,3) s show ?thesis unfolding r(4) by blast
  qed
  with x codes cl show ?thesis unfolding udp_served_def by auto
qed


section \<open>A loopback that works\<close>

definition loop_host :: host where
  "loop_host = \<lparr>h_os = short_writer\<lparr>os_socket := (\<lambda>c. if c = 0 then 3 else 4)\<rparr>, h_setsockopt = (\<lambda>_. True),
     h_bind = (\<lambda>_. True), h_getsockname = (\<lambda>_. Some 5140), h_listen = (\<lambda>_. True), h_accept = (\<lambda>_. 5),
     h_recv = (\<lambda>_ v _. w_streams v 4), h_close = (\<lambda>_. True)\<rparr>"

lemma exchange_works:
  assumes b: "syslog_built logger live" and g: "ij_logger_log cpu (h_os h) (Some logger) (Some event) w = Some (IJ_STATUS_OK, Some logger, w1, cp)"
    and r: "h_recv h (w_calls w1) w1 (hd fds) \<noteq> []" and c: "\<And>c. h_close h c"
  shows "\<exists>w'. exchange cpu h event (Some logger) live fds w = Some (0, [], w')"
proof -
  have fl: "ij_logger_flush (h_os h) (Some logger) w1 = (IJ_STATUS_OK, Some logger, w1)"
    using b flush_not_file [of logger] by (simp add: syslog_built_def)
  let ?w2 = "puts (h_os h) (take 511 (h_recv h (w_calls w1) w1 (hd fds)) @ [0]) (tick w1)"
  obtain w3 where s: "ij_logger_shutdown (h_os h) (Some logger) live ?w2 = Some (IJ_STATUS_OK, [], w3)"
    using built_shutdown [OF b] by metis
  have "fst (close_each h xs n v) = 0" for xs n v using c by (induction xs arbitrary: n v) simp_all
  then obtain w4 where "close_each h fds 6 w3 = (0, w4)" by (metis prod.collapse)
  with g fl s r show ?thesis by (simp add: exchange_def Let_def)
qed

lemma example_events_valid: "valid_event syslog_tcp_event" "valid_event syslog_udp_event"
  by (simp_all add: valid_event_def valid_event_frame_def valid_event_fields_def syslog_tcp_event_def syslog_udp_event_def
      event_attributes_def valid_text_def valid_optional_text_def c_text_def is_utf8_ascii limit_defs ij_level_is_valid_iff
      fields_text_size_def opt_strlen_def strlen_def)

lemma example_configs_ok: "config_ok (syslog_tcp_config 5140)" "config_ok (syslog_udp_config 5140)"
proof -
  have "\<exists>k. 8 \<le> k \<and> k \<le> 16 \<and> IJ_QUEUE_CAPACITY_DEFAULT = 2 ^ k"
    by (intro exI [of _ 10]) (simp add: IJ_QUEUE_CAPACITY_DEFAULT_def)
  then show "config_ok (syslog_tcp_config 5140)" "config_ok (syslog_udp_config 5140)"
    by (simp_all add: config_ok_def sink_settings_ok_def syslog_tcp_config_def syslog_udp_config_def c_text_def
        IJ_SYSLOG_FACILITY_LOCAL1_def IJ_SYSLOG_FACILITY_LOCAL4_def)
qed

lemma loop_host_sel:
  "os_socket (h_os loop_host) c = (if c = 0 then 3 else 4)" "os_malloc (h_os loop_host) c"
  "os_ring (h_os loop_host) c = working_mutex" "\<exists>a as. os_getaddrinfo (h_os loop_host) c host service = Some (a # as)"
  "os_connect (h_os loop_host) c" "arena_ok (os_alloc (h_os loop_host) c) \<and> attrs_ok (os_alloc (h_os loop_host) c)"
  "os_send (h_os loop_host) c k = 1" "h_setsockopt loop_host c" "h_bind loop_host c" "h_listen loop_host c"
  "h_getsockname loop_host c = Some 5140" "h_accept loop_host c = 5" "h_close loop_host c" "h_recv loop_host c v fd = w_streams v 4"
  by (simp_all add: loop_host_def short_writer_def sample_alloc_def)

lemma loop_socket: "0 \<le> os_socket (h_os loop_host) c"
  by (simp add: loop_host_sel)

lemma loop_tcp_works: "\<exists>w'. syslog_tcp_main sample_cpu loop_host start_world = Some (0, [], w')"
proof -
  obtain w1 where li: "ij_create_tcp_listener loop_host True start_world = (3, Some 5140, w1)"
    by (simp add: ij_create_tcp_listener_def answer_def socket_def loop_host_sel start_world_def)
  obtain logger live w2 where i: "ij_logger_init (h_os loop_host) True (Some (syslog_tcp_config 5140)) w1 =
      Some (IJ_STATUS_OK, Some logger, live, w2)"
    using init_works [OF example_configs_ok(1), of "h_os loop_host" w1] loop_socket by (auto simp: loop_host_sel(2-6) example_configs)
  from init_built [OF i example_configs(1)] have l: "syslog_built logger live" "lg_config logger = default_config (syslog_tcp_config 5140)"
    by auto
  from init_client [OF i example_configs(1,3)] have client: "sl_fd (lg_syslog_sink logger) = 4" by (auto simp: loop_host_sel)
  have t: "timestamp_ok (ev_timestamp syslog_tcp_event)" by (simp add: syslog_tcp_event_def example_timestamp)
  let ?w = "tick (tick (tick w2))"
  obtain w3 cp where g: "ij_logger_log sample_cpu (h_os loop_host) (Some logger) (Some syslog_tcp_event) ?w =
      Some (IJ_STATUS_OK, Some logger, w3, cp)"
    using log_tcp_works [OF _ _ _ _ _ example_events_valid(1) t, of logger "h_os loop_host" sample_cpu ?w] l client example_configs
    by (auto simp: syslog_built_def loop_host_sel default_config_syslog)
  have "w_streams w3 4 \<noteq> []" using built_log_tcp [OF l g] unfolding client by (simp add: tcp_frame_def)
  then obtain w' where "exchange sample_cpu loop_host syslog_tcp_event (Some logger) live [5, 3] ?w = Some (0, [], w')"
    using exchange_works [OF l(1) g, of "[5, 3]"] by (auto simp: loop_host_sel)
  then have "syslog_tcp_serve sample_cpu loop_host 3 (Some logger) live w2 = Some (0, [], w')"
    by (simp add: syslog_tcp_serve_def answer_def loop_host_sel)
  with li i show ?thesis by (simp add: syslog_tcp_main_def)
qed


definition loop_udp_host :: host where
  "loop_udp_host = loop_host\<lparr>h_recv := (\<lambda>_ v _. concat (map snd (take 1 (w_datagrams v))))\<rparr>"

lemma loop_udp_sel:
  "h_os loop_udp_host = h_os loop_host" "h_recv loop_udp_host c v fd = concat (map snd (take 1 (w_datagrams v)))"
  "h_setsockopt loop_udp_host c" "h_bind loop_udp_host c" "h_getsockname loop_udp_host c = Some 5140" "h_close loop_udp_host c"
  "os_sendto (h_os loop_host) c k = int k" "os_getaddrinfo (h_os loop_host) c host service = Some [[1]]"
  by (simp_all add: loop_udp_host_def loop_host_def short_writer_def)

text \<open>A UDP logger takes the address and the socket of the first entry the resolver gives.\<close>

lemma loop_udp_sink:
  assumes "ij_logger_init (h_os loop_host) True (Some config) w = Some (IJ_STATUS_OK, Some logger, live, w')"
    and "cfg_sink_kind config = IJ_SINK_KIND_SYSLOG" "cfg_syslog_transport config = IJ_SYSLOG_TRANSPORT_UDP"
  shows "sl_address (lg_syslog_sink logger) = [1]"
  using assms(1)
proof (rule init_steps)
  fix config' logger1 w1 ring logger'
  assume c: "Some config = Some config'" "Some logger = Some logger'"
    and o: "open_sink (h_os loop_host) (logger1\<lparr>lg_ring := ring\<rparr>) (tick w1) = (IJ_STATUS_OK, logger', w')"
  have t: "cfg_sink_kind (lg_config logger1) = IJ_SINK_KIND_SYSLOG" "cfg_syslog_transport (lg_config logger1) = IJ_SYSLOG_TRANSPORT_UDP"
    using init_config [OF assms(1)] open_sink_frame [OF o] assms(2,3) c by (simp_all add: default_config_syslog)
  from o t show ?thesis unfolding c(2) [unfolded option.inject]
    by (auto simp: open_sink_def Let_def ij_syslog_resolve_udp_def getaddrinfo_def loop_udp_sel socket_def
        split: option.splits if_splits)
qed

lemma loop_udp_log:
  assumes l: "syslog_built logger live" "lg_config logger = default_config (syslog_udp_config port)"
    and s: "sl_address (lg_syslog_sink logger) = [1]"
  shows "\<exists>w' cp. ij_logger_log sample_cpu (h_os loop_host) (Some logger) (Some syslog_udp_event) w =
    Some (IJ_STATUS_OK, Some logger, w', cp)"
proof -
  let ?os = "h_os loop_host" and ?c = "lg_config logger" and ?e = syslog_udp_event
  have a: "lg_active logger" "cfg_sink_kind ?c = IJ_SINK_KIND_SYSLOG" "0 \<le> sl_fd (lg_syslog_sink logger)"
    and e: "ij_level_is_enabled (cfg_min_level ?c) (ev_level ?e)" and t: "cfg_syslog_transport ?c = IJ_SYSLOG_TRANSPORT_UDP"
    using l example_configs by (simp_all add: syslog_built_def default_config_syslog)
  obtain cp where c: "ij_event_copy_from_input sample_cpu (os_alloc ?os (w_calls w)) (Some ?e) (cfg_redaction_mode ?c) =
      Some (IJ_STATUS_OK, cp)" and v: "copy_view cp = input_view (cfg_redaction_mode ?c) ?e" "copy_wf cp"
    using copy_from_input_ok [OF example_events_valid(2), of "os_alloc ?os (w_calls w)" sample_cpu] loop_host_sel(6) by blast
  have et: "timestamp_ok (ev_timestamp ?e)" by (simp add: syslog_udp_event_def example_timestamp)
  have ts: "timestamp_ok (cp_timestamp cp)" "ij_level_is_valid (cp_level cp)"
    using copy_view_sel [of cp] input_view_sel enabled_valid [OF e] et unfolding v(1) by simp_all
  have line: "syslog_line cp ?c = udp_example_line"
    using syslog_line_view [OF v(2,1), of ?c] example_lines(2) [of port]
    unfolding logged_syslog_def [symmetric] l(2) default_config_syslog by simp
  have n: "0 < length udp_example_line" "length udp_example_line < 2048" by (simp_all add: udp_example_line_def)
  have "0 < length (payload_buffer ?os w)" by simp
  from log_to_syslog [OF a(2) ts(2) this, of sample_cpu ?os "tick w"] ts(1) n obtain mem where
    "log_to_sink sample_cpu ?os logger cp (payload_buffer ?os w) (tick w) =
      Some (case ij_syslog_udp_write ?os (Some (lg_syslog_sink logger)) (Some mem) (length udp_example_line) (tick w) of
             (st, w') \<Rightarrow> (st, logger, w'))"
    by (auto simp: line t simp del: ij_syslog_udp_write.simps)
  moreover have "fst (ij_syslog_udp_write ?os (Some (lg_syslog_sink logger)) (Some mem) (length udp_example_line) (tick w)) = IJ_STATUS_OK"
    using n a(3) s by (simp add: IJ_SYSLOG_UDP_TARGET_MAX_def sendto_def loop_udp_sel Let_def)
  ultimately show ?thesis
    using log_accepted [OF a(1) e c]
    by (cases "ij_syslog_udp_write ?os (Some (lg_syslog_sink logger)) (Some mem) (length udp_example_line) (tick w)")
      (simp del: ij_syslog_udp_write.simps)
qed

lemma loop_udp_works: "\<exists>w'. syslog_udp_main sample_cpu loop_udp_host start_world = Some (0, [], w')"
proof -
  obtain w1 where li: "ij_bind_udp_listener loop_udp_host True start_world = (3, Some 5140, w1)"
    by (simp add: ij_bind_udp_listener_def answer_def socket_def loop_udp_sel loop_host_sel start_world_def)
  have w1: "w_datagrams w1 = []"
    using listener_outcome [OF disjI2 [OF li]] by (simp add: only_closes_def start_world_def)
  obtain logger live w2 where i: "ij_logger_init (h_os loop_host) True (Some (syslog_udp_config 5140)) w1 =
      Some (IJ_STATUS_OK, Some logger, live, w2)"
    using init_works [OF example_configs_ok(2), of "h_os loop_host" w1] loop_socket by (auto simp: loop_host_sel(2-6) example_configs)
  from init_built [OF i example_configs(2)] have l: "syslog_built logger live" "lg_config logger = default_config (syslog_udp_config 5140)"
    by auto
  have w2: "w_datagrams w2 = []" using init_closes [OF i example_configs(2)] w1 by (simp add: only_closes_def)
  obtain w3 cp where g: "ij_logger_log sample_cpu (h_os loop_udp_host) (Some logger) (Some syslog_udp_event) w2 =
      Some (IJ_STATUS_OK, Some logger, w3, cp)"
    using loop_udp_log [OF l loop_udp_sink [OF i example_configs(2,4)], of w2] unfolding loop_udp_sel(1) by blast
  have "h_recv loop_udp_host (w_calls w3) w3 3 \<noteq> []"
    using built_log_udp [OF l g] w2 by (simp add: loop_udp_sel udp_example_line_def)
  then obtain w' where "exchange sample_cpu loop_udp_host syslog_udp_event (Some logger) live [3] w2 = Some (0, [], w')"
    using exchange_works [OF l(1) g, of "[3]"] by (auto simp: loop_udp_sel)
  with li i show ?thesis by (simp add: syslog_udp_main_def loop_udp_sel)
qed


end
