(* ===== verification/Line_Format.thy ===== *)
theory Line_Format
  imports Event_Path
begin

text \<open>
  The form of what the encoders write: a log line is a JSON text of RFC 8259 in the profile of RFC 7493
  (I-JSON), that is UTF-8 without control bytes, numbers in the grammar of JSON and no name twice in an
  object; a syslog line is UTF-8. The reader of \<open>Json_Text\<close> is lenient about numbers; the predicates
  here are not.
\<close>

section \<open>UTF-8 of concatenations\<close>

definition ascii :: "byte list \<Rightarrow> bool" where
  "ascii bs \<longleftrightarrow> (\<forall>b\<in>set bs. unat b < 0x80)"

lemma ascii_simps [simp]: "ascii []" "ascii (b # bs) \<longleftrightarrow> unat b < 0x80 \<and> ascii bs" "ascii (xs @ ys) \<longleftrightarrow> ascii xs \<and> ascii ys"
  by (auto simp: ascii_def)

lemma ascii_below: "(\<And>b. b \<in> set bs \<Longrightarrow> b < 0x7f) \<Longrightarrow> ascii bs"
  by (fastforce simp: ascii_def word_less_nat_alt)

lemma ascii_utf8: "ascii bs \<Longrightarrow> is_utf8 bs"
  using utf8_ok_ascii_append [of bs "[]"] by (simp add: ascii_def utf8_ok_iff is_utf8_Nil)

lemma utf8_concat: "is_utf8 xs \<Longrightarrow> is_utf8 ys \<Longrightarrow> is_utf8 (xs @ ys)"
  unfolding is_utf8_def by (metis (no_types, opaque_lifting) Un_iff concat_append map_append set_append)

lemma utf8_ascii_simps [simp]:
  "ascii xs \<Longrightarrow> is_utf8 (xs @ ys) \<longleftrightarrow> is_utf8 ys"
  "unat b < 0x80 \<Longrightarrow> is_utf8 (b # ys) \<longleftrightarrow> is_utf8 ys"
  using utf8_ok_ascii_append [of xs ys] utf8_ok_ascii_append [of "[b]" ys] by (simp_all add: ascii_def utf8_ok_iff)

lemma encode_special:
  assumes "scalar_value cp" "b \<in> set (utf8_encode cp)" "0x80 \<le> cp"
  shows "\<not> json_special b"
proof -
  have "cp \<le> 0x10FFFF" using assms(1) by (auto simp: scalar_value_def)
  then have "cp div 64 < 256 * 64 * 64" "cp div 4096 < 256 * 64" "cp div 262144 \<le> 4" by auto
  then have "0x80 \<le> unat b" using assms(2,3) by (auto simp: utf8_encode_def split: if_splits)
  then show ?thesis by (auto simp: json_special_def word_less_nat_alt)
qed

lemma escape_byte_ascii: "unat b < 0x80 \<Longrightarrow> ascii (escape_byte b)"
  by (auto simp: escape_byte_def hex_def ascii_def)

lemma escape_append: "escape (xs @ ys) = escape xs @ escape ys"
  by (induction xs) simp_all

lemma escape_encode: "scalar_value cp \<Longrightarrow> is_utf8 (escape (utf8_encode cp))"
proof (cases "cp < 0x80")
  case True
  then show ?thesis using escape_byte_ascii [of "byte_of cp"] by (simp add: utf8_encode_def ascii_utf8)
next
  case False
  moreover assume "scalar_value cp"
  ultimately have "escape (utf8_encode cp) = utf8_encode cp" using encode_special by (intro escape_no_special) auto
  with is_utf8_append [OF \<open>scalar_value cp\<close> is_utf8_Nil] show ?thesis by simp
qed

lemma escape_utf8: "is_utf8 bs \<Longrightarrow> is_utf8 (escape bs)"
proof -
  have "is_utf8 (escape (concat (map utf8_encode cps)))" if "\<forall>cp\<in>set cps. scalar_value cp" for cps
    using that by (induction cps) (simp_all add: is_utf8_Nil escape_append escape_encode utf8_concat)
  then show "is_utf8 bs \<Longrightarrow> is_utf8 (escape bs)" by (auto simp: is_utf8_def [of bs])
qed

lemma quote_utf8: "is_utf8 bs \<Longrightarrow> is_utf8 (quote bs)"
  by (simp add: quote_def utf8_concat escape_utf8 ascii_utf8)

section \<open>The grammar of numbers\<close>

definition digits :: "byte list \<Rightarrow> bool" where
  "digits ds \<longleftrightarrow> ds \<noteq> [] \<and> (\<forall>b\<in>set ds. is_digit b)"

text \<open>The parts of RFC 8259: no leading zero, a point or an \<open>e\<close> only before digits.\<close>

definition json_int :: "byte list \<Rightarrow> bool" where
  "json_int ds \<longleftrightarrow> digits ds \<and> (hd ds = 0x30 \<longrightarrow> length ds = 1)"

definition json_frac :: "byte list \<Rightarrow> bool" where
  "json_frac bs \<longleftrightarrow> bs = [] \<or> hd bs = 0x2e \<and> digits (tl bs)"

definition json_exp :: "byte list \<Rightarrow> bool" where
  "json_exp bs \<longleftrightarrow> bs = [] \<or> hd bs = 0x65 \<and> (digits (tl bs) \<or> (hd (tl bs) = 0x2b \<or> hd (tl bs) = 0x2d) \<and> digits (tl (tl bs)))"

definition json_number :: "byte list \<Rightarrow> bool" where
  "json_number t \<longleftrightarrow> (\<exists>sign whole frac expo. t = sign @ whole @ frac @ expo \<and> (sign = [] \<or> sign = [0x2d]) \<and>
     json_int whole \<and> json_frac frac \<and> json_exp expo)"

lemma digits_simps [simp]: "\<not> digits []" "digits (d # ds) \<longleftrightarrow> is_digit d \<and> (ds = [] \<or> digits ds)"
  by (auto simp: digits_def)

lemma decimal_hd: "0 < n \<Longrightarrow> hd (decimal n) \<noteq> 0x30"
proof (induction n rule: decimal.induct)
  case (1 n)
  show ?case
  proof (cases "n < 10")
    case True
    have "byte_of (48 + n) \<noteq> 0x30"
    proof
      assume "byte_of (48 + n) = 0x30"
      then have "unat (byte_of (48 + n)) = 48" by (simp only:) simp
      with True 1(2) show False by simp
    qed
    then show ?thesis using True by (simp add: decimal.simps [of n])
  next
    case False
    then show ?thesis using 1(1) by (simp add: decimal.simps [of n])
  qed
qed

lemma decimal_int: "json_int (decimal n)"
proof -
  have "length (decimal 0) = 1" by (simp add: decimal.simps)
  then show ?thesis
    using decimal_digits [of _ n] decimal_hd [of n] by (cases "n = 0") (auto simp: json_int_def digits_def)
qed

lemma signed_decimal_number: "json_number (signed_decimal i)" "json_number (decimal n)"
proof -
  have "json_number (sign @ decimal n)" if "sign = [] \<or> sign = [0x2d]" for sign n
    unfolding json_number_def using that decimal_int
    by (intro exI [of _ sign] exI [of _ "decimal n"] exI [of _ "[]"]) (simp add: json_frac_def json_exp_def)
  from this [of "[]"] this [of "[0x2d]"] show "json_number (signed_decimal i)" "json_number (decimal n)"
    by (simp_all add: signed_decimal_def)
qed

lemma with_point_parts:
  assumes "\<forall>b\<in>set frac. is_digit b"
  obtains f where "with_point whole frac = whole @ f" "json_frac f"
  using that [of "if frac = [] then [] else 0x2e # frac"] assms by (cases "frac = []") (auto simp: with_point_def json_frac_def digits_def)

lemma exponent_text_exp: "json_exp (exponent_text x)"
  using decimal_digits digit_zero by (auto simp: exponent_text_def Let_def json_exp_def digits_def)

lemma take_int: "json_int ds \<Longrightarrow> hd ds \<noteq> 0x30 \<Longrightarrow> json_int (take (Suc k) ds)"
  by (cases ds) (auto simp: json_int_def digits_def dest: in_set_takeD)

lemma format_digits_number:
  assumes "json_int ds" "hd ds \<noteq> 0x30" and "sign = [] \<or> sign = [0x2d]"
  shows "json_number (sign @ format_digits ds x)"
proof -
  have d: "\<forall>b\<in>set ds. is_digit b" using assms(1) by (simp add: json_int_def digits_def)
  have s: "\<forall>b\<in>set (strip_zeros xs). is_digit b" if "\<forall>b\<in>set xs. is_digit b" for xs
    using set_strip_zeros [of xs] that by blast
  have zero: "json_int [0x30]" using digit_zero by (simp add: json_int_def)
  have num: "json_number (sign @ with_point w (strip_zeros f) @ e)"
    if "json_int w" "\<forall>b\<in>set f. is_digit b" "json_exp e" for w f e
    using with_point_parts [OF s [OF that(2)], of w] that assms(3) unfolding json_number_def by (metis append.assoc)
  have drop: "\<forall>b\<in>set (drop k ds). is_digit b" "\<forall>b\<in>set (replicate k 0x30 @ ds). is_digit b" for k
    using d digit_zero by (auto dest: in_set_dropD)
  have none: "json_exp []" by (simp add: json_exp_def)
  show ?thesis
    using num [OF take_int [OF assms(1,2), of 0] drop(1) [of 1] exponent_text_exp [of x]]
      num [OF take_int [OF assms(1,2), of "nat x"] drop(1) [of "nat x + 1"] none]
      num [OF zero drop(2) [of "nat (- x) - 1"] none]
    by (simp add: format_digits_def)
qed

lemma format_g17_number: "isfinite d \<Longrightarrow> json_number (format_g17 d)"
proof -
  assume fin: "isfinite d"
  obtain num den where r: "double_ratio d = (num, den)" by force
  let ?sign = "if double_sign d then [0x2d] else []"
  show ?thesis
  proof (cases "num = 0")
    case True
    have "json_int [0x30]" using digit_zero by (simp add: json_int_def)
    then have "json_number (?sign @ [0x30])"
      unfolding json_number_def
      by (intro exI [of _ ?sign] exI [of _ "[0x30]"] exI [of _ "[]"]) (simp add: json_frac_def json_exp_def)
    then show ?thesis using fin r True by (simp add: format_g17_def Let_def)
  next
    case False
    obtain n x where nx: "dec_digits num den = (n, x)" by force
    have "0 < n" using dec_digits_bounds [OF _ double_ratio_bounds [OF r] nx] False by auto
    then have "hd (decimal n) \<noteq> 0x30" by (rule decimal_hd)
    from format_digits_number [OF decimal_int this, of ?sign x] show ?thesis
      using fin r nx False by (simp add: format_g17_def Let_def)
  qed
qed

section \<open>The profile of RFC 7493\<close>

fun member_names :: "members \<Rightarrow> byte list list" where
  "member_names MNil = []"
| "member_names (MCons k v ms) = k # member_names ms"

fun i_json :: "json \<Rightarrow> bool"
  and i_members :: "members \<Rightarrow> bool" where
  "i_json (JString s) = is_utf8 s"
| "i_json (JToken t) = (t = bytes ''true'' \<or> t = bytes ''false'' \<or> json_number t)"
| "i_json (JObject ms) = (distinct (member_names ms) \<and> i_members ms)"
| "i_members MNil = True"
| "i_members (MCons k v ms) = (is_utf8 k \<and> i_json v \<and> i_members ms)"

lemma json_number_ascii: "json_number t \<Longrightarrow> ascii t"
proof -
  have d: "ascii ds" if "digits ds" for ds using that by (auto simp: digits_def ascii_def is_digit_def)
  have "ascii f" if "json_frac f" for f using that d [of "tl f"] by (cases f) (auto simp: json_frac_def)
  moreover have "ascii e" if "json_exp e" for e
    using that d [of "tl e"] d [of "tl (tl e)"] by (cases e; cases "tl e") (auto simp: json_exp_def)
  ultimately show "json_number t \<Longrightarrow> ascii t" using d by (fastforce simp: json_number_def json_int_def)
qed

lemma print_utf8:
  "i_json j \<Longrightarrow> is_utf8 (print_json j)"
  "i_members ms \<Longrightarrow> is_utf8 (print_members ms)"
proof (induction j and ms)
  case (JToken t)
  then show ?case by (auto simp: json_number_ascii ascii_utf8)
next
  case (MCons k v ms)
  then have "is_utf8 (print_json v)" "is_utf8 (print_members ms)" "is_utf8 (quote k)" by (simp_all add: quote_utf8)
  then show ?case by (cases ms) (simp_all only: print_members.simps members.case, simp_all add: utf8_concat is_utf8_Nil)
qed (simp_all add: quote_utf8 utf8_concat ascii_utf8 is_utf8_Nil)

lemma i_members_of: "i_members (members_of kvs) \<longleftrightarrow> (\<forall>(k, v)\<in>set kvs. is_utf8 k \<and> i_json v)"
  by (induction kvs rule: members_of.induct) auto

lemma names_of: "member_names (members_of kvs) = map fst kvs"
  by (induction kvs rule: members_of.induct) auto

lemma valid_text_utf8:
  "valid_text n e v \<Longrightarrow> is_utf8 (text_of v)"
  "valid_optional_text n v \<Longrightarrow> opt_text v = Some l \<Longrightarrow> is_utf8 l"
  by (auto simp: valid_text_def valid_optional_text_def text_of_def opt_text_def split: option.splits)

lemma level_text_ascii: "ascii (ij_level_to_text level)"
  by (cases level) simp_all

lemma timestamp_text_ascii: "ascii (timestamp_text ts)"
  using timestamp_text_chars [of _ ts] by (intro ascii_below) blast

lemma valid_value_i_json: "valid_value v \<Longrightarrow> i_json (value_json (input_value_view v))"
  by (cases v) (auto simp: valid_value_def signed_decimal_number format_g17_number split: option.splits)

lemma valid_attr_i_json:
  "valid_attr a \<Longrightarrow> is_utf8 (fst (attr_json (input_attr_view mode a))) \<and> i_json (snd (attr_json (input_attr_view mode a)))"
  using valid_text_utf8(1) [of _ _ "attr_key a"] valid_value_i_json [of "attr_value a"]
  by (auto simp: valid_attr_def input_attr_view_def attr_json_def attr_name_def key_mem_def text_of_def
      IJ_REDACTED_LITERAL_def ascii_utf8 valid_text_def split: option.splits)

lemma event_i_json:
  assumes "is_utf8 (v_event_name v)" "is_utf8 (v_message v)" "\<And>l. v_logger v = Some l \<Longrightarrow> is_utf8 l"
    and "i_json (JObject (members_of (map attr_json (v_attributes v))))"
  shows "i_json (event_json v)"
  using assms unfolding event_json_def
  by (cases "v_logger v"; cases "v_attributes v = []")
    (simp_all add: names_of level_text_ascii timestamp_text_ascii ascii_utf8)

lemma valid_event_i_json: "valid_event event \<Longrightarrow> i_json (event_json (input_view mode event))"
proof (rule event_i_json)
  assume v: "valid_event event"
  let ?as = "map attr_json (map (input_attr_view mode) (event_attributes event))"
  have names: "map fst ?as = map attr_name (event_attributes event)"
    by (simp add: comp_def attr_json_def input_attr_view_def)
  have "i_members (members_of ?as)"
    using v valid_attr_i_json [of _ mode] by (auto simp: valid_event_def i_members_of case_prod_beta)
  moreover have "distinct (member_names (members_of ?as))" using v unfolding names_of names by (simp add: valid_event_def)
  ultimately show "i_json (JObject (members_of (map attr_json (v_attributes (input_view mode event)))))"
    by (simp add: input_view_def)
  show "is_utf8 (v_event_name (input_view mode event))" "is_utf8 (v_message (input_view mode event))"
    "v_logger (input_view mode event) = Some l \<Longrightarrow> is_utf8 l" for l
    using v valid_text_utf8 by (auto simp: valid_event_def valid_event_fields_def input_view_def)
qed

section \<open>Lines of accepted calls\<close>

lemma log_ok_valid:
  assumes "ij_logger_log cpu os (Some logger) (Some event) w = Some (IJ_STATUS_OK, logger', w', cp)"
    and "ij_level_is_enabled (cfg_min_level (lg_config logger)) (ev_level event)"
  shows "valid_event event"
proof -
  have "lg_active logger" using assms(1) by (cases "lg_active logger") (simp_all add: ij_logger_log_def)
  then show ?thesis
    using assms by (cases rule: log_cases [where event = event and cpu = cpu and os = os and w = w]) auto
qed

lemma syslog_line_utf8: "valid_event event \<Longrightarrow> is_utf8 (logged_syslog config event)"
proof -
  assume v: "valid_event event"
  have app: "ascii (app_name raw)" for raw
  proof (rule ascii_below)
    fix b assume "b \<in> set (app_name raw)"
    then have "b \<le> 0x7e" using app_name_facts(2) by blast
    then show "b < 0x7f" by (simp add: word_le_nat_alt word_less_nat_alt)
  qed
  have "ascii (decimal n)" for n using decimal_digits [of _ n] by (fastforce simp: ascii_def is_digit_def)
  moreover have "is_utf8 (v_message (input_view mode event))" for mode
    using v valid_text_utf8 by (auto simp: valid_event_def valid_event_fields_def input_view_def)
  ultimately show ?thesis
    using app timestamp_text_ascii by (simp add: logged_syslog_def view_syslog_line_def rfc5424_line_def is_utf8_Nil)
qed

lemma log_ok_form:
  assumes "ij_logger_log cpu os (Some logger) (Some event) w = Some (IJ_STATUS_OK, logger', w', cp)"
    and "ij_level_is_enabled (cfg_min_level (lg_config logger)) (ev_level event)"
  shows "\<exists>line j. logged_line (lg_config logger) event = line @ [0x0a] \<and> is_utf8 line \<and> (\<forall>b\<in>set line. 0x20 \<le> b) \<and>
           read_json (length line) line = Some (j, []) \<and> i_json j"
    and "is_utf8 (logged_syslog (lg_config logger) event)"
proof -
  let ?v = "input_view (cfg_redaction_mode (lg_config logger)) event"
  have v: "valid_event event" by (rule log_ok_valid [OF assms])
  have "i_json (event_json ?v)" by (rule valid_event_i_json [OF v])
  moreover from print_utf8(1) [OF this] have "is_utf8 (event_line ?v)" by (simp add: event_line_def)
  ultimately show "\<exists>line j. logged_line (lg_config logger) event = line @ [0x0a] \<and> is_utf8 line \<and>
      (\<forall>b\<in>set line. 0x20 \<le> b) \<and> read_json (length line) line = Some (j, []) \<and> i_json j"
    using read_line [of ?v] event_line_clean [of _ ?v]
    unfolding logged_line_enabled(1) [OF assms(2)] by blast
  show "is_utf8 (logged_syslog (lg_config logger) event)" by (rule syslog_line_utf8 [OF v])
qed

end
