(* ===== verification/Console_Threads.thy ===== *)
theory Console_Threads
  imports Console_Sink
begin

text \<open>
  Threads that write to the console at the same time. A logger has no lock, and
  \<open>docs/architecture/QUEUE_MODEL.md\<close> has several producer threads call \<open>ij_logger_log\<close>; with a console
  logger the threads share nothing but standard output, and each pass through the loop of
  \<open>ij_console_sink_write\<close> is one system call. The step relation below interleaves these passes.

  No byte is lost or written twice in any interleaving. Lines stay whole when every \<open>writev\<close> takes all
  or nothing; with shorter writes they may be mixed although every call answers OK.
\<close>

section \<open>One pass through the loop\<close>

text \<open>Either the answer of the call or what is left to be written.\<close>

definition console_iteration ::
  "os \<Rightarrow> byte list \<Rightarrow> size_t \<Rightarrow> size_t \<Rightarrow> size_t \<Rightarrow> world \<Rightarrow> (ij_status_t + size_t \<times> size_t) \<times> world" where
  "console_iteration os payload payload_len remaining offset w =
     (let vector0 = (if offset \<ge> payload_len then [] else c_mem (c_ptr_add payload offset) (payload_len - offset));
          (written, w) = writev os (vector0 @ [0x0a]) w
      in if written \<le> 0 then (Inl IJ_STATUS_SINK_ERROR, w)
         else if nat written \<ge> remaining then (Inl IJ_STATUS_OK, w)
         else
           let payload_written =
                 (if nat written > payload_len - offset then payload_len - offset else nat written);
               offset = (if offset < payload_len then offset + payload_written else offset)
           in (Inr (remaining - nat written, offset), w))"

text \<open>The loop of the sink repeats this pass.\<close>

lemma console_loop_iteration:
  "0 < remaining \<Longrightarrow> console_loop os p n remaining offset w =
     (case console_iteration os p n remaining offset w of
        (Inl st, w') \<Rightarrow> (st, w')
      | (Inr (remaining', offset'), w') \<Rightarrow> console_loop os p n remaining' offset' w')"
proof -
  assume "0 < remaining"
  obtain r v where "writev os ((if offset \<ge> n then [] else c_mem (c_ptr_add p offset) (n - offset)) @ [0x0a]) w = (r, v)"
    by fastforce
  note wv = this
  show ?thesis
    unfolding console_loop.simps [of os p n remaining offset w] console_iteration_def Let_def wv prod.case
    using \<open>0 < remaining\<close> by simp
qed

section \<open>Threads\<close>

record con_writer =
  wr_payload :: "byte list"
  wr_len :: size_t
  wr_remaining :: size_t
  wr_offset :: size_t

record con_call =
  call_thread :: nat
  call_line :: "byte list"
  call_status :: ij_status_t
  call_sent :: "byte list"

text \<open>
  The threads inside a call, the world, and as history variables the pieces in the order in which they
  went out, each with its thread, and the calls in the order in which they returned.
\<close>

record con_state =
  cs_writer :: "nat \<Rightarrow> con_writer option"
  cs_world :: world
  cs_pieces :: "(nat \<times> byte list) list"
  cs_calls :: "con_call list"

definition con_line :: "con_writer \<Rightarrow> byte list" where
  "con_line x = c_mem (wr_payload x) (wr_len x) @ [0x0a]"

definition con_pass :: "os \<Rightarrow> con_writer \<Rightarrow> world \<Rightarrow> (ij_status_t + size_t \<times> size_t) \<times> world" where
  "con_pass os x w = console_iteration os (wr_payload x) (wr_len x) (wr_remaining x) (wr_offset x) w"

definition con_piece :: "world \<Rightarrow> world \<Rightarrow> byte list" where
  "con_piece w w' = drop (length (w_stdout w)) (w_stdout w')"

inductive con_step :: "os \<Rightarrow> nat \<Rightarrow> con_state \<Rightarrow> con_state \<Rightarrow> bool" for os where
  con_enter: "cs_writer s t = None \<Longrightarrow> 0 < n \<Longrightarrow>
    con_step os t s (s\<lparr>cs_writer := (cs_writer s)(t \<mapsto> \<lparr>wr_payload = p, wr_len = n, wr_remaining = n + 1, wr_offset = 0\<rparr>)\<rparr>)"
| con_again: "cs_writer s t = Some x \<Longrightarrow> con_pass os x (cs_world s) = (Inr (remaining, offset), w') \<Longrightarrow>
    con_step os t s (s\<lparr>cs_writer := (cs_writer s)(t \<mapsto> x\<lparr>wr_remaining := remaining, wr_offset := offset\<rparr>), cs_world := w',
      cs_pieces := cs_pieces s @ [(t, con_piece (cs_world s) w')]\<rparr>)"
| con_return: "cs_writer s t = Some x \<Longrightarrow> con_pass os x (cs_world s) = (Inl st, w') \<Longrightarrow>
    con_step os t s (s\<lparr>cs_writer := (cs_writer s)(t := None), cs_world := w',
      cs_pieces := cs_pieces s @ [(t, con_piece (cs_world s) w')],
      cs_calls := cs_calls s @ [\<lparr>call_thread = t, call_line = con_line x, call_status = st,
        call_sent = take (wr_offset x) (con_line x) @ con_piece (cs_world s) w'\<rparr>]\<rparr>)"

inductive con_reachable :: "os \<Rightarrow> con_state \<Rightarrow> con_state \<Rightarrow> bool" for os where
  start: "con_reachable os s s"
| step: "con_reachable os s s' \<Longrightarrow> con_step os t s' s'' \<Longrightarrow> con_reachable os s s''"

definition con_start :: "world \<Rightarrow> con_state" where
  "con_start w = \<lparr>cs_writer = (\<lambda>_. None), cs_world = w, cs_pieces = [], cs_calls = []\<rparr>"

section \<open>What a pass does\<close>

definition writer_ok :: "con_writer \<Rightarrow> bool" where
  "writer_ok x \<longleftrightarrow> 0 < wr_len x \<and> wr_offset x \<le> wr_len x \<and> wr_remaining x = wr_len x - wr_offset x + 1"

definition con_rest :: "con_writer \<Rightarrow> byte list" where
  "con_rest x = drop (wr_offset x) (con_line x)"

lemma con_pass_cases:
  assumes "writer_ok x" "con_pass os x w = (res, w')"
  obtains (fail) "res = Inl IJ_STATUS_SINK_ERROR" "w_stdout w' = w_stdout w"
      "os_writev os (w_calls w) (length (con_rest x)) \<le> 0"
  | (whole) "res = Inl IJ_STATUS_OK" "w_stdout w' = w_stdout w @ con_rest x"
  | (part) k where "0 < k" "k < wr_remaining x" "res = Inr (wr_remaining x - k, wr_offset x + k)"
      "w_stdout w' = w_stdout w @ take k (con_rest x)" "os_writev os (w_calls w) (length (con_rest x)) = int k"
proof -
  have rest: "(if wr_offset x \<ge> wr_len x then [] else c_mem (c_ptr_add (wr_payload x) (wr_offset x)) (wr_len x - wr_offset x)) @ [0x0a] = con_rest x"
    and len: "length (con_rest x) = wr_remaining x"
    using assms(1) by (simp_all add: con_rest_def con_line_def writer_ok_def c_mem_ptr_add_drop)
  obtain r v where wv: "writev os (con_rest x) w = (r, v)" by fastforce
  then have r: "r = os_writev os (w_calls w) (length (con_rest x))" and out: "w_stdout v = w_stdout w @ take (nat r) (con_rest x)"
    by (auto simp: writev_def Let_def tick_def)
  have p: "con_pass os x w = (if r \<le> 0 then (Inl IJ_STATUS_SINK_ERROR, v) else if nat r \<ge> wr_remaining x then (Inl IJ_STATUS_OK, v)
      else (Inr (wr_remaining x - nat r, wr_offset x + nat r), v))"
    using assms(1) wv unfolding con_pass_def console_iteration_def Let_def rest by (auto simp: writer_ok_def)
  consider "r \<le> 0" | "0 < r" "nat r \<ge> wr_remaining x" | "0 < r" "nat r < wr_remaining x" by linarith
  then show thesis
  proof cases
    case 1
    then show thesis using p out r assms(2) by (intro fail) auto
  next
    case 2
    then show thesis using p out len assms(2) by (intro whole) auto
  next
    case 3
    then show thesis using p out r assms(2) by (intro part [of "nat r"]) auto
  qed
qed

section \<open>No byte is lost or doubled\<close>

definition pieces_of :: "nat \<Rightarrow> con_state \<Rightarrow> byte list" where
  "pieces_of t s = concat (map snd (filter (\<lambda>p. fst p = t) (cs_pieces s)))"

definition sent_of :: "nat \<Rightarrow> con_state \<Rightarrow> byte list" where
  "sent_of t s = concat (map call_sent (filter (\<lambda>c. call_thread c = t) (cs_calls s)))"

definition under_way :: "nat \<Rightarrow> con_state \<Rightarrow> byte list" where
  "under_way t s = (case cs_writer s t of None \<Rightarrow> [] | Some x \<Rightarrow> take (wr_offset x) (con_line x))"

definition call_ok :: "con_call \<Rightarrow> bool" where
  "call_ok c \<longleftrightarrow> call_status c = IJ_STATUS_OK \<and> call_sent c = call_line c \<or>
     call_status c = IJ_STATUS_SINK_ERROR \<and> strict_prefix (call_sent c) (call_line c)"

definition con_inv :: "byte list \<Rightarrow> con_state \<Rightarrow> bool" where
  "con_inv before s \<longleftrightarrow>
     w_stdout (cs_world s) = before @ concat (map snd (cs_pieces s)) \<and>
     (\<forall>t x. cs_writer s t = Some x \<longrightarrow> writer_ok x) \<and>
     (\<forall>t. pieces_of t s = sent_of t s @ under_way t s) \<and> (\<forall>c\<in>set (cs_calls s). call_ok c)"

lemma con_inv_start: "con_inv (w_stdout w) (con_start w)"
  by (simp add: con_inv_def con_start_def pieces_of_def sent_of_def under_way_def)

lemma con_piece_eq: "w_stdout w' = w_stdout w @ bs \<Longrightarrow> con_piece w w' = bs"
  by (simp add: con_piece_def)

lemma length_con_line: "writer_ok x \<Longrightarrow> wr_offset x < length (con_line x)"
  by (simp add: writer_ok_def con_line_def)

lemma take_rest: "take (wr_offset x) (con_line x) @ take k (con_rest x) = take (wr_offset x + k) (con_line x)"
  by (simp add: con_rest_def take_add)

text \<open>A piece of thread \<open>t\<close> that leaves it with \<open>now\<close> under way, and the calls \<open>new\<close> that return with it.\<close>

lemma con_inv_piece:
  assumes "con_inv before s" "w_stdout w' = w_stdout (cs_world s) @ piece"
    and "\<forall>c\<in>set new. call_thread c = t \<and> call_ok c" "\<And>x. now = Some x \<Longrightarrow> writer_ok x"
    and "under_way t s @ piece = concat (map call_sent new) @ (case now of None \<Rightarrow> [] | Some x \<Rightarrow> take (wr_offset x) (con_line x))"
    and "s' = s\<lparr>cs_writer := (cs_writer s)(t := now), cs_world := w', cs_pieces := cs_pieces s @ [(t, piece)], cs_calls := cs_calls s @ new\<rparr>"
  shows "con_inv before s'"
proof -
  have "pieces_of u s' = sent_of u s' @ under_way u s'" for u
  proof (cases "u = t")
    case True
    have f: "filter (\<lambda>c. call_thread c = t) new = new" using assms(3) by simp
    have "pieces_of t s' = pieces_of t s @ piece" "sent_of t s' = sent_of t s @ concat (map call_sent new)"
      "under_way t s' = (case now of None \<Rightarrow> [] | Some x \<Rightarrow> take (wr_offset x) (con_line x))"
      using f unfolding assms(6) by (simp_all add: pieces_of_def sent_of_def under_way_def)
    then show ?thesis using assms(1,5) True by (simp add: con_inv_def)
  next
    case False
    have f: "filter (\<lambda>c. call_thread c = u) new = []" using assms(3) False by (auto simp: filter_empty_conv)
    have "pieces_of u s' = pieces_of u s" "sent_of u s' = sent_of u s" "under_way u s' = under_way u s"
      using f False unfolding assms(6) by (simp_all add: pieces_of_def sent_of_def under_way_def)
    then show ?thesis using assms(1) by (simp add: con_inv_def)
  qed
  moreover have "writer_ok y" if "cs_writer s' u = Some y" for u y
    using that assms(1,4) unfolding assms(6) con_inv_def by (cases "u = t") auto
  ultimately show ?thesis using assms(1,2,3) by (auto simp: con_inv_def assms(6))
qed

lemma con_inv_writer: "con_inv before s \<Longrightarrow> cs_writer s t = Some x \<Longrightarrow> writer_ok x"
  by (simp add: con_inv_def)

lemma con_inv_step: "con_step os t s s' \<Longrightarrow> con_inv before s \<Longrightarrow> con_inv before s'"
proof (induction rule: con_step.induct)
  case (con_enter s t n p)
  let ?x = "\<lparr>wr_payload = p, wr_len = n, wr_remaining = n + 1, wr_offset = 0\<rparr>" and ?w = "cs_writer s"
  have "writer_ok y" if "(?w(t \<mapsto> ?x)) u = Some y" for u y
    using that con_enter(2,3) by (cases "u = t") (auto simp: con_inv_def writer_ok_def)
  moreover have "under_way u (s\<lparr>cs_writer := ?w(t \<mapsto> ?x)\<rparr>) = under_way u s" for u
    using con_enter(1) by (simp add: under_way_def)
  ultimately show ?case
    using con_enter(3) unfolding con_inv_def pieces_of_def sent_of_def by simp
next
  case (con_again s t x remaining offset w')
  have ok: "writer_ok x" by (rule con_inv_writer [OF con_again(3,1)])
  from ok con_again(2) show ?case
  proof (cases rule: con_pass_cases)
    case (part k)
    let ?x = "x\<lparr>wr_remaining := remaining, wr_offset := offset\<rparr>"
    have "con_piece (cs_world s) w' = take k (con_rest x)" by (rule con_piece_eq [OF part(4)])
    moreover have "writer_ok ?x" "con_line ?x = con_line x" using part ok by (auto simp: writer_ok_def con_line_def)
    ultimately show ?thesis
      using part(3,4) con_again(1) take_rest [of x k]
      by (intro con_inv_piece [OF con_again(3), of w' "take k (con_rest x)" "[]" t "Some ?x"]) (simp_all add: under_way_def)
  qed auto
next
  case (con_return s t x st w')
  have ok: "writer_ok x" by (rule con_inv_writer [OF con_return(3,1)])
  let ?call = "\<lparr>call_thread = t, call_line = con_line x, call_status = st,
        call_sent = take (wr_offset x) (con_line x) @ con_piece (cs_world s) w'\<rparr>"
  from ok con_return(2) have "w_stdout w' = w_stdout (cs_world s) @ con_piece (cs_world s) w' \<and> call_ok ?call"
  proof (cases rule: con_pass_cases)
    case fail
    have "length (take (wr_offset x) (con_line x)) \<noteq> length (con_line x)" using length_con_line [OF ok] by simp
    then have "take (wr_offset x) (con_line x) \<noteq> con_line x" by metis
    then show ?thesis using fail by (simp add: con_piece_def strict_prefix_def take_is_prefix call_ok_def)
  next
    case whole
    then show ?thesis by (simp add: con_piece_def con_rest_def call_ok_def)
  qed auto
  then show ?case
    using con_return(1) by (intro con_inv_piece [OF con_return(3), of w' "con_piece (cs_world s) w'" "[?call]" t None])
      (simp_all add: under_way_def)
qed

lemma con_inv_reachable: "con_reachable os s s' \<Longrightarrow> con_inv before s \<Longrightarrow> con_inv before s'"
  by (induction rule: con_reachable.induct) (auto dest: con_inv_step)

section \<open>Whole writes\<close>

definition accepted_lines :: "con_state \<Rightarrow> byte list" where
  "accepted_lines s = concat (map call_line (filter (\<lambda>c. call_status c = IJ_STATUS_OK) (cs_calls s)))"

definition whole_inv :: "byte list \<Rightarrow> con_state \<Rightarrow> bool" where
  "whole_inv before s \<longleftrightarrow> w_stdout (cs_world s) = before @ accepted_lines s \<and>
     (\<forall>t x. cs_writer s t = Some x \<longrightarrow> writer_ok x \<and> wr_offset x = 0)"

lemma whole_inv_step:
  assumes "\<And>c k. os_writev os c k \<le> 0 \<or> int k \<le> os_writev os c k"
  shows "con_step os t s s' \<Longrightarrow> whole_inv before s \<Longrightarrow> whole_inv before s'"
proof (induction rule: con_step.induct)
  case (con_enter s t n p)
  then show ?case by (simp add: whole_inv_def writer_ok_def accepted_lines_def)
next
  case (con_again s t x remaining offset w')
  then have ok: "writer_ok x" "length (con_rest x) = wr_remaining x" by (auto simp: whole_inv_def writer_ok_def con_rest_def con_line_def)
  from ok(1) con_again(2) show ?case
  proof (cases rule: con_pass_cases)
    case (part k)
    then show ?thesis using assms [of "w_calls (cs_world s)" "length (con_rest x)"] ok(2) by simp
  qed auto
next
  case (con_return s t x st w')
  then have ok: "writer_ok x" "wr_offset x = 0" by (auto simp: whole_inv_def)
  from ok(1) con_return(2) show ?case
    by (cases rule: con_pass_cases) (use con_return(1,3) ok(2) in \<open>auto simp: whole_inv_def accepted_lines_def con_rest_def\<close>)
qed

lemma whole_inv_reachable:
  assumes "con_reachable os s s'" "\<And>c k. os_writev os c k \<le> 0 \<or> int k \<le> os_writev os c k" "whole_inv before s"
  shows "whole_inv before s'"
  using assms(1,3) by (induction rule: con_reachable.induct) (auto dest: whole_inv_step [OF assms(2)])

section \<open>A thread alone\<close>

lemma con_reachable_trans: "con_reachable os b c \<Longrightarrow> con_reachable os a b \<Longrightarrow> con_reachable os a c"
  by (induction rule: con_reachable.induct) (auto intro: con_reachable.step)

lemma con_reachable_one: "con_step os t a b \<Longrightarrow> con_reachable os b c \<Longrightarrow> con_reachable os a c"
  by (blast intro: con_reachable_trans con_reachable.intros)

text \<open>A thread that is not disturbed does what the sink's loop does.\<close>

lemma con_alone_loop:
  "writer_ok x \<Longrightarrow> cs_writer s t = Some x \<Longrightarrow>
   console_loop os (wr_payload x) (wr_len x) (wr_remaining x) (wr_offset x) (cs_world s) = (st, w') \<Longrightarrow>
   \<exists>s' c. con_reachable os s s' \<and> cs_world s' = w' \<and> cs_writer s' t = None \<and> cs_calls s' = cs_calls s @ [c] \<and>
     call_thread c = t \<and> call_line c = con_line x \<and> call_status c = st"
proof (induction "wr_remaining x" arbitrary: x s rule: less_induct)
  case less
  obtain res v where p: "con_pass os x (cs_world s) = (res, v)" by fastforce
  have pos: "0 < wr_remaining x" using less.prems(1) by (simp add: writer_ok_def)
  note loop = console_loop_iteration [OF pos, of os "wr_payload x" "wr_len x" "wr_offset x" "cs_world s",
      folded con_pass_def, unfolded p]
  show ?case
  proof (cases res)
    case (Inl a)
    then have "con_pass os x (cs_world s) = (Inl st, w')" using p loop less.prems(3) by simp
    from con_reachable.step [OF con_reachable.start con_return [OF less.prems(2) this]] show ?thesis
      by (intro exI conjI) (assumption, simp, simp, simp, simp, simp, simp)
  next
    case (Inr b)
    from less.prems(1) p [unfolded Inr] obtain k where k: "0 < k" "k < wr_remaining x" "b = (wr_remaining x - k, wr_offset x + k)"
      by (cases rule: con_pass_cases) auto
    let ?x = "x\<lparr>wr_remaining := wr_remaining x - k, wr_offset := wr_offset x + k\<rparr>"
    note step = con_again [OF less.prems(2) p [unfolded Inr k(3)]]
    let ?s = "s\<lparr>cs_writer := (cs_writer s)(t \<mapsto> ?x), cs_world := v, cs_pieces := cs_pieces s @ [(t, con_piece (cs_world s) v)]\<rparr>"
    have ok: "writer_ok ?x" "wr_remaining ?x < wr_remaining x" "con_line ?x = con_line x"
      using k less.prems(1) by (auto simp: writer_ok_def con_line_def)
    have "console_loop os (wr_payload ?x) (wr_len ?x) (wr_remaining ?x) (wr_offset ?x) (cs_world ?s) = (st, w')"
      using loop less.prems(3) by (simp add: Inr k(3))
    from less.hyps [OF ok(2,1) _ this] obtain s' c where "con_reachable os ?s s'" "cs_world s' = w'" "cs_writer s' t = None"
      "cs_calls s' = cs_calls s @ [c]" "call_thread c = t" "call_line c = con_line x" "call_status c = st"
      unfolding ok(3) by auto
    with con_reachable_one [OF step] show ?thesis by blast
  qed
qed

section \<open>Properties\<close>

text \<open>
  C13. Threads that write to the console at the same time, in every interleaving and whatever each
  \<open>writev\<close> takes: standard output grows by the pieces the threads have written, what each thread has
  written is in order its finished calls and then the part of the call it is in, and a call that
  answered OK has written its whole line, one that failed a proper prefix.
\<close>

theorem console_threads_no_loss:
  assumes "con_reachable os (con_start w) s"
  shows "w_stdout (cs_world s) = w_stdout w @ concat (map snd (cs_pieces s)) \<and>
         (\<forall>t. pieces_of t s = sent_of t s @ under_way t s) \<and> (\<forall>c\<in>set (cs_calls s). call_ok c)"
  using con_inv_reachable [OF assms con_inv_start] unfolding con_inv_def by blast

text \<open>Two threads with the lines \<open>a\<close> and \<open>b\<close>, one byte at a time.\<close>

definition two_writers :: con_state where
  "two_writers = \<lparr>cs_writer = (\<lambda>_. None), cs_world = start_world\<lparr>w_calls := 4, w_stdout := [0x61, 0x62, 0x0a, 0x0a]\<rparr>,
     cs_pieces = [(0, [0x61]), (1, [0x62]), (0, [0x0a]), (1, [0x0a])],
     cs_calls = [\<lparr>call_thread = 0, call_line = [0x61, 0x0a], call_status = IJ_STATUS_OK, call_sent = [0x61, 0x0a]\<rparr>,
       \<lparr>call_thread = 1, call_line = [0x62, 0x0a], call_status = IJ_STATUS_OK, call_sent = [0x62, 0x0a]\<rparr>]\<rparr>"

definition con_writing :: "byte \<Rightarrow> nat \<Rightarrow> con_writer" where
  "con_writing b k = \<lparr>wr_payload = [b], wr_len = 1, wr_remaining = 2 - k, wr_offset = k\<rparr>"

lemma con_writing_pass:
  "con_pass short_writer (con_writing b 0) w = (Inr (1, 1), tick (w\<lparr>w_stdout := w_stdout w @ [b]\<rparr>))"
  "con_pass short_writer (con_writing b 1) w = (Inl IJ_STATUS_OK, tick (w\<lparr>w_stdout := w_stdout w @ [0x0a]\<rparr>))"
  by (simp_all add: con_pass_def con_writing_def console_iteration_def writev_def short_writer_def Let_def c_mem_def c_ptr_add_def)

lemma con_writing_steps:
  "cs_writer s t = None \<Longrightarrow> con_step short_writer t s (s\<lparr>cs_writer := (cs_writer s)(t \<mapsto> con_writing b 0)\<rparr>)"
  "cs_writer s t = Some (con_writing b 0) \<Longrightarrow> con_step short_writer t s
     (s\<lparr>cs_writer := (cs_writer s)(t \<mapsto> con_writing b 1), cs_world := tick ((cs_world s)\<lparr>w_stdout := w_stdout (cs_world s) @ [b]\<rparr>),
        cs_pieces := cs_pieces s @ [(t, [b])]\<rparr>)"
  "cs_writer s t = Some (con_writing b 1) \<Longrightarrow> con_step short_writer t s
     (s\<lparr>cs_writer := (cs_writer s)(t := None), cs_world := tick ((cs_world s)\<lparr>w_stdout := w_stdout (cs_world s) @ [0x0a]\<rparr>),
        cs_pieces := cs_pieces s @ [(t, [0x0a])],
        cs_calls := cs_calls s @ [\<lparr>call_thread = t, call_line = [b, 0x0a], call_status = IJ_STATUS_OK, call_sent = [b, 0x0a]\<rparr>]\<rparr>)"
  using con_enter [of s t 1 short_writer "[b]"] con_again [OF _ con_writing_pass(1), of s t b] con_return [OF _ con_writing_pass(2), of s t b]
  by (simp_all add: con_writing_def con_piece_def tick_def con_line_def c_mem_def numeral_2_eq_2)

lemma two_writers_reachable: "con_reachable short_writer (con_start start_world) two_writers"
proof -
  let ?a = "con_writing 0x61" and ?b = "con_writing 0x62"
  note step = con_reachable.step [where os = short_writer and s = "con_start start_world"]
  have s1: "con_reachable short_writer (con_start start_world) ((con_start start_world)\<lparr>cs_writer := [0 \<mapsto> ?a 0]\<rparr>)"
    using step [OF con_reachable.start con_writing_steps(1) [of "con_start start_world" 0 "0x61"]] by (simp add: con_start_def)
  have s2: "con_reachable short_writer (con_start start_world) ((con_start start_world)\<lparr>cs_writer := [0 \<mapsto> ?a 0, 1 \<mapsto> ?b 0]\<rparr>)"
    using step [OF s1 con_writing_steps(1) [where t = 1 and b = "0x62"]] by (simp add: con_start_def)
  note s3 = step [OF s2 con_writing_steps(2) [where t = 0 and b = "0x61"], simplified]
  note s4 = step [OF s3 con_writing_steps(2) [where t = 1 and b = "0x62"], simplified]
  note s5 = step [OF s4 con_writing_steps(3) [where t = 0 and b = "0x61"], simplified]
  note s6 = step [OF s5 con_writing_steps(3) [where t = 1 and b = "0x62"], simplified]
  show ?thesis using s6 by (simp add: two_writers_def con_start_def start_world_def tick_def eval_nat_numeral)
qed

theorem console_threads_no_loss_witness:
  "w_stdout (cs_world two_writers) = [0x61, 0x62, 0x0a, 0x0a] \<and> pieces_of 1 two_writers = [0x62, 0x0a] \<and>
   pieces_of 1 two_writers = sent_of 1 two_writers @ under_way 1 two_writers \<and> list_all call_ok (cs_calls two_writers)"
proof -
  have "w_stdout (cs_world two_writers) = [0x61, 0x62, 0x0a, 0x0a]" "pieces_of 1 two_writers = [0x62, 0x0a]"
    by (simp_all add: two_writers_def pieces_of_def)
  with console_threads_no_loss [OF two_writers_reachable] show ?thesis unfolding list_all_iff by blast
qed

text \<open>
  Lines stay whole when every \<open>writev\<close> takes all it is given or fails: in every interleaving standard
  output has grown by exactly the lines of the calls that answered OK, in the order in which the calls
  returned.
\<close>

theorem console_threads_whole_lines:
  assumes "con_reachable os (con_start w) s" and "\<And>c k. os_writev os c k \<le> 0 \<or> int k \<le> os_writev os c k"
  shows "w_stdout (cs_world s) = w_stdout w @ accepted_lines s"
proof -
  have "whole_inv (w_stdout w) (con_start w)" by (simp add: whole_inv_def con_start_def accepted_lines_def)
  from whole_inv_reachable [OF assms this] show ?thesis by (simp add: whole_inv_def)
qed

definition whole_writer :: os where
  "whole_writer = short_writer\<lparr>os_writev := (\<lambda>_ k. int k)\<rparr>"

theorem console_threads_whole_lines_witness:
  "\<exists>s. con_reachable whole_writer (con_start start_world) s \<and> w_stdout (cs_world s) = [0x61, 0x0a] \<and>
     w_stdout (cs_world s) = w_stdout start_world @ accepted_lines s"
proof -
  let ?x = "con_writing 0x61 0" and ?s = "(con_start start_world)\<lparr>cs_writer := [0 \<mapsto> con_writing 0x61 0]\<rparr>"
  have e: "con_step whole_writer 0 (con_start start_world) ?s"
    using con_enter [of "con_start start_world" 0 1 whole_writer "[0x61]"]
    by (simp add: con_start_def con_writing_def numeral_2_eq_2)
  have ok: "writer_ok ?x" "con_line ?x = [0x61, 0x0a]" by (simp_all add: writer_ok_def con_writing_def con_line_def c_mem_def)
  have w: "os_writev whole_writer c k = int k" for c k by (simp add: whole_writer_def)
  then have "fst (console_loop whole_writer (wr_payload ?x) (wr_len ?x) (wr_remaining ?x) (wr_offset ?x) (cs_world ?s)) = IJ_STATUS_OK"
    using ok(1) by (intro console_loop_ok) (auto simp: writer_ok_def)
  then obtain w' where "console_loop whole_writer (wr_payload ?x) (wr_len ?x) (wr_remaining ?x) (wr_offset ?x) (cs_world ?s) =
      (IJ_STATUS_OK, w')" by (metis prod.collapse)
  from con_alone_loop [OF ok(1) _ this, of 0] obtain s' c where s': "con_reachable whole_writer ?s s'" "cs_calls s' = [c]"
    "call_line c = [0x61, 0x0a]" "call_status c = IJ_STATUS_OK"
    unfolding ok(2) by (auto simp: con_start_def)
  have r: "con_reachable whole_writer (con_start start_world) s'" by (rule con_reachable_one [OF e s'(1)])
  with console_threads_whole_lines [OF r] s' w show ?thesis
    by (intro exI [of _ s']) (auto simp: accepted_lines_def start_world_def)
qed

text \<open>
  With short writes lines can be mixed: there is a run in which two threads write one line each, both
  calls answer OK, and standard output holds the two lines in neither order.
\<close>

theorem console_threads_mixed_lines:
  "\<exists>s c d. con_reachable short_writer (con_start start_world) s \<and> (\<forall>t. cs_writer s t = None) \<and> cs_calls s = [c, d] \<and>
     call_status c = IJ_STATUS_OK \<and> call_status d = IJ_STATUS_OK \<and>
     w_stdout (cs_world s) \<noteq> call_line c @ call_line d \<and> w_stdout (cs_world s) \<noteq> call_line d @ call_line c"
  using two_writers_reachable by (intro exI [of _ two_writers]) (simp add: two_writers_def)

end
