(* ===== verification/Bench_Common.thy ===== *)
theory Bench_Common
  imports Complex_Main Examples
begin

text \<open>
  What the benchmark drivers under \<open>bench/\<close> share: the reading of the iteration count with \<open>strtoull\<close>,
  the clock, the loop over \<open>ij_logger_log\<close>, and the row with the time per call, for which the conversion
  to \<open>double\<close>, the division and \<open>%.2f\<close> are modelled exactly. The drivers hold their own copies of these
  routines. The usage text goes to the standard error stream, which is not part of the world.
\<close>

section \<open>\<open>strtoull\<close> and the iteration count\<close>

definition isspace :: "byte \<Rightarrow> bool" where
  "isspace b \<longleftrightarrow> b = 0x20 \<or> 9 \<le> unat b \<and> unat b \<le> 13"

definition ULLONG_MAX :: nat where
  "ULLONG_MAX = 18446744073709551615"

text \<open>
  The value and the offset of \<open>end\<close>, for base 10: white space, a sign, digits. Without digits nothing is
  consumed; a value that does not fit is \<open>ULLONG_MAX\<close>, a minus sign negates in the unsigned type.
\<close>

definition strtoull :: "byte list \<Rightarrow> 64 word \<times> nat" where
  "strtoull s =
     (let t = c_text s;
          blanks = length (takeWhile isspace t);
          rest = drop blanks t;
          sign = (if rest \<noteq> [] \<and> hd rest \<in> {0x2b, 0x2d} then 1 else 0);
          digits = takeWhile is_digit (drop sign rest);
          n = read_decimal digits
      in if digits = [] then (0, 0)
         else (if n > ULLONG_MAX then of_nat ULLONG_MAX
               else if sign = 1 \<and> hd rest = 0x2d then - of_nat n else of_nat n,
               blanks + sign + length digits))"

text \<open>An output parameter is the optional variable it points at.\<close>

fun ij_parse_iterations :: "cstring \<Rightarrow> size_t option \<Rightarrow> bool \<times> size_t option" where
  "ij_parse_iterations (Some s) (Some out_iterations) =
     (let (parsed, end_offset) = strtoull s
      in if end_offset = 0 \<or> c_at s end_offset \<noteq> 0 \<or> parsed = 0 then (False, Some out_iterations)
         else (True, Some (unat parsed)))"
| "ij_parse_iterations _ out_iterations = (False, out_iterations)"

datatype output_mode_t = OUTPUT_HUMAN | OUTPUT_TSV

text \<open>The arguments of the drivers without scenarios; \<open>None\<close> is the usage message and exit status 2.\<close>

fun parse_arguments :: "byte list list \<Rightarrow> output_mode_t \<Rightarrow> size_t \<Rightarrow> (output_mode_t \<times> size_t) option" where
  "parse_arguments [] mode iterations = Some (mode, iterations)"
| "parse_arguments (arg # argv) mode iterations =
     (if strcmp_eq arg (bytes ''--tsv'') then parse_arguments argv OUTPUT_TSV iterations
      else
        case ij_parse_iterations (Some arg) (Some iterations) of
          (True, Some iterations) \<Rightarrow> parse_arguments argv mode iterations
        | _ \<Rightarrow> None)"

section \<open>The clock and the loop\<close>

record bench =
  bn_os :: os
  bn_clock :: "nat \<Rightarrow> (64 word \<times> 64 word) option"
  bn_pid :: int
  bn_stat :: "nat \<Rightarrow> bool"

definition ij_monotonic_ns :: "bench \<Rightarrow> world \<Rightarrow> 64 word \<times> world" where
  "ij_monotonic_ns bn w =
     (case bn_clock bn (w_calls w) of
        None \<Rightarrow> (0, tick w)
      | Some (tv_sec, tv_nsec) \<Rightarrow> (tv_sec * 1000000000 + tv_nsec, tick w))"

fun status_value :: "ij_status_t \<Rightarrow> nat" where
  "status_value IJ_STATUS_OK = 0"
| "status_value IJ_STATUS_INVALID_ARGUMENT = 1"
| "status_value IJ_STATUS_INVALID_STATE = 2"
| "status_value IJ_STATUS_QUEUE_FULL = 3"
| "status_value IJ_STATUS_ENCODE_ERROR = 4"
| "status_value IJ_STATUS_SINK_ERROR = 5"
| "status_value IJ_STATUS_INTERNAL_ERROR = 6"

text \<open>The loop over the calls, with the sum of the answers in \<open>ij_status_sink\<close>; it stops at the first failure.\<close>

fun log_loop ::
  "cpu \<Rightarrow> os \<Rightarrow> ij_event_t \<Rightarrow> nat \<Rightarrow> ij_logger option \<Rightarrow> 64 word \<Rightarrow> world \<Rightarrow>
     (bool \<times> ij_logger option \<times> 64 word \<times> world) option" where
  "log_loop cpu os event 0 logger status_sink w = Some (True, logger, status_sink, w)"
| "log_loop cpu os event (Suc n) logger status_sink w =
     (case ij_logger_log cpu os logger (Some event) w of
        None \<Rightarrow> None
      | Some (status, logger, w, _) \<Rightarrow>
          let status_sink = status_sink + of_nat (status_value status) in
          if status \<noteq> IJ_STATUS_OK then Some (False, logger, status_sink, w)
          else log_loop cpu os event n logger status_sink w)"

section \<open>The time per call\<close>

fun bitlen :: "nat \<Rightarrow> nat" where
  "bitlen n = (if n = 0 then 0 else Suc (bitlen (n div 2)))"

declare bitlen.simps [simp del]

text \<open>\<open>(double)n\<close>: 53 significant bits, rounded half to even.\<close>

definition double_of_nat :: "nat \<Rightarrow> nat" where
  "double_of_nat n = (let s = bitlen n - 53 in div_half_even n (2 ^ s) * 2 ^ s)"

definition scaled :: "nat \<Rightarrow> nat \<Rightarrow> int \<Rightarrow> nat \<times> nat" where
  "scaled a b k = (if k \<ge> 0 then (a * 2 ^ nat k, b) else (a, b * 2 ^ nat (- k)))"

text \<open>
  The quotient of two doubles as a fraction: scaled to an integer part of 53 bits and rounded half to
  even. Quotients of numbers below \<open>2 ^ 65\<close> are far from overflow and underflow.
\<close>

definition double_quotient :: "nat \<Rightarrow> nat \<Rightarrow> nat \<times> nat" where
  "double_quotient a b =
     (if a = 0 then (0, 1)
      else
        let k = 53 + int (bitlen b) - int (bitlen a);
            (num, den) = scaled a b k;
            k = (if 2 ^ 53 * den \<le> num then k - 1 else k);
            (num, den) = scaled a b k;
            m = div_half_even num den
        in if k \<ge> 0 then (m, 2 ^ nat k) else (m * 2 ^ nat (- k), 1))"

text \<open>\<open>%.2f\<close>.\<close>

definition hundredths :: "nat \<times> nat \<Rightarrow> nat" where
  "hundredths q = div_half_even (100 * fst q) (snd q)"

definition format_f2 :: "nat \<times> nat \<Rightarrow> byte list" where
  "format_f2 q = decimal (hundredths q div 100) @ 0x2e # pad_decimal 2 (hundredths q mod 100)"

definition ns_per_op :: "nat \<Rightarrow> size_t \<Rightarrow> nat \<times> nat" where
  "ns_per_op elapsed_ns iterations = double_quotient (double_of_nat elapsed_ns) (double_of_nat iterations)"

text \<open>Field widths.\<close>

definition pad_left :: "nat \<Rightarrow> byte list \<Rightarrow> byte list" where
  "pad_left width s = replicate (width - length s) 0x20 @ s"

definition pad_right :: "nat \<Rightarrow> byte list \<Rightarrow> byte list" where
  "pad_right width s = s @ replicate (width - length s) 0x20"

text \<open>The row of the human form after the name: iterations, time, time per call.\<close>

definition human_row :: "size_t \<Rightarrow> nat \<Rightarrow> nat \<times> nat \<Rightarrow> byte list" where
  "human_row iterations elapsed_ns q =
     bytes '' iterations='' @ pad_right 8 (decimal iterations) @ bytes '' elapsed='' @ pad_left 12 (decimal elapsed_ns) @
     bytes '' ns ns/op='' @ pad_left 10 (format_f2 q) @ [0x0a]"

definition tsv :: "byte list list \<Rightarrow> byte list" where
  "tsv fs = concat (map (\<lambda>f. f @ [0x09]) (butlast fs)) @ last fs @ [0x0a]"

definition tsv_row :: "byte list \<Rightarrow> byte list \<Rightarrow> size_t \<Rightarrow> nat \<Rightarrow> nat \<times> nat \<Rightarrow> byte list" where
  "tsv_row benchmark scenario iterations elapsed_ns q =
     tsv [benchmark, scenario, decimal iterations, decimal elapsed_ns, format_f2 q]"

section \<open>The iteration count\<close>

lemma c_text_digits: "(\<And>b. b \<in> set s \<Longrightarrow> b \<noteq> 0) \<Longrightarrow> c_text s = s"
  by (rule c_text_id) blast

lemma digit_facts: "is_digit b \<Longrightarrow> b \<noteq> 0 \<and> \<not> isspace b \<and> b \<noteq> 0x2b \<and> b \<noteq> 0x2d"
  by (auto simp: is_digit_def isspace_def)

lemma sign_facts: "\<not> isspace 0x2d" "\<not> is_digit 0x2d"
  by (simp_all add: isspace_def is_digit_def)

lemma hd_decimal: "is_digit (hd (decimal n))"
  using decimal_digits by (metis decimal_not_Nil hd_in_set)

lemma takeWhile_decimal: "takeWhile is_digit (decimal n) = decimal n" "takeWhile isspace (decimal n) = []"
proof -
  show "takeWhile is_digit (decimal n) = decimal n" using decimal_digits by (simp add: takeWhile_eq_all_conv)
  show "takeWhile isspace (decimal n) = []" using hd_decimal [of n] digit_facts by (cases "decimal n") auto
qed

lemma c_text_decimal: "c_text (decimal n) = decimal n" "c_text (0x2d # decimal n) = 0x2d # decimal n"
proof -
  have d: "b \<noteq> 0" if "b \<in> set (decimal n)" for b using digit_facts [OF decimal_digits [OF that]] by blast
  show "c_text (decimal n) = decimal n" using d by (rule c_text_digits)
  then show "c_text (0x2d # decimal n) = 0x2d # decimal n" by (simp add: c_text_def)
qed

lemma strtoull_decimal:
  "strtoull (decimal n) = (of_nat (min n ULLONG_MAX), length (decimal n))"
  using hd_decimal [of n] digit_facts
  by (auto simp: strtoull_def c_text_decimal takeWhile_decimal Let_def)

lemma strtoull_minus:
  "strtoull (0x2d # decimal n) =
     (if n > ULLONG_MAX then of_nat ULLONG_MAX else - of_nat n, Suc (length (decimal n)))"
  by (simp add: strtoull_def c_text_decimal takeWhile_decimal sign_facts Let_def)

lemma strtoull_range: "0 < unat (fst (strtoull s)) \<Longrightarrow> unat (fst (strtoull s)) \<le> ULLONG_MAX"
  using unsigned_less [of "fst (strtoull s)", where 'a = nat] by (simp add: ULLONG_MAX_def)

lemma unat_count: "n \<le> ULLONG_MAX \<Longrightarrow> unat (of_nat n :: 64 word) = n"
  by (simp add: ULLONG_MAX_def unsigned_of_nat take_bit_nat_eq_self)

lemma unat_minus_count:
  assumes "0 < n" "n \<le> ULLONG_MAX"
  shows "unat (- of_nat n :: 64 word) = ULLONG_MAX + 1 - n"
proof -
  have "- of_nat n = (of_nat (ULLONG_MAX + 1 - n) :: 64 word)"
    using assms by (simp add: ULLONG_MAX_def of_nat_diff)
  then have "unat (- of_nat n :: 64 word) = unat (of_nat (ULLONG_MAX + 1 - n) :: 64 word)" by (rule arg_cong)
  also have "\<dots> = ULLONG_MAX + 1 - n" using assms(1) by (intro unat_count) simp
  finally show ?thesis .
qed

section \<open>Rounding\<close>

lemma div_half_even_error:
  assumes "0 < b"
  shows "\<bar>real (div_half_even a b) - real a / real b\<bar> \<le> 1 / 2"
proof -
  define q r where "q = a div b" and "r = a mod b"
  have a: "a = q * b + r" and "r < b" using assms by (simp_all add: q_def r_def)
  then have v: "real a / real b = q + r / b" using assms by (simp add: field_simps)
  have "0 \<le> r / b" "r / b \<le> 1" using \<open>r < b\<close> by simp_all
  moreover have "1 / 2 \<le> r / b" if "2 * r \<ge> b" using that assms by (simp add: field_simps)
  moreover have "r / b \<le> 1 / 2" if "2 * r \<le> b" using that assms by (simp add: field_simps)
  ultimately show ?thesis
    unfolding v div_half_even_def Let_def q_def [symmetric] r_def [symmetric] by auto
qed

lemma bitlen_bounds: "0 < n \<Longrightarrow> 2 ^ (bitlen n - 1) \<le> n \<and> n < 2 ^ bitlen n \<and> 0 < bitlen n"
proof (induction n rule: bitlen.induct)
  case (1 n)
  show ?case
  proof (cases "n = 1")
    case True
    then show ?thesis by (simp add: bitlen.simps)
  next
    case False
    with 1 have h: "2 ^ (bitlen (n div 2) - 1) \<le> n div 2 \<and> n div 2 < 2 ^ bitlen (n div 2) \<and> 0 < bitlen (n div 2)" by simp
    have b: "bitlen n = Suc (bitlen (n div 2))" using 1(2) by (simp add: bitlen.simps [of n])
    obtain k where k: "bitlen (n div 2) = Suc k" using h by (metis Suc_pred)
    from h show ?thesis unfolding b k by auto
  qed
qed

lemma double_of_nat_exact: "n < 2 ^ 53 \<Longrightarrow> double_of_nat n = n"
proof -
  assume n: "n < 2 ^ 53"
  have "bitlen n \<le> 53"
  proof (rule ccontr)
    assume b: "\<not> bitlen n \<le> 53"
    then have "0 < n" by (metis bitlen.simps le0 neq0_conv)
    have "(2 :: nat) ^ 53 \<le> 2 ^ (bitlen n - 1)" using b by (intro power_increasing) simp_all
    with bitlen_bounds [OF \<open>0 < n\<close>] n show False by linarith
  qed
  then show ?thesis by (simp add: double_of_nat_def div_half_even_def)
qed

lemma scaled_value:
  assumes "0 < b" "scaled a b k = (num, den)"
  shows "real num / real den = real a / real b * 2 powi k" "0 < den"
  using assms by (auto simp: scaled_def power_int_def field_simps split: if_splits)

lemma powi_split: "(2 :: real) powi (53 + int lb - int la) * 2 powi (int la - 1) = 2 ^ 52 * 2 powi int lb"
proof -
  have "(2 :: real) powi (53 + int lb - int la) * 2 powi (int la - 1) = 2 powi (52 + int lb)"
    by (simp flip: power_int_add)
  then show ?thesis by (simp add: power_int_add)
qed

lemma first_scale:
  assumes "0 < a" "0 < b"
  shows "2 ^ 52 \<le> real a / real b * 2 powi (53 + int (bitlen b) - int (bitlen a))"
proof -
  have a: "2 powi (int (bitlen a) - 1) \<le> real a"
  proof -
    obtain k where "bitlen a = Suc k" using bitlen_bounds [OF assms(1)] by (metis Suc_pred)
    with bitlen_bounds [OF assms(1)] have "2 ^ k \<le> a" "int (bitlen a) - 1 = int k" by auto
    then show ?thesis by (metis numeral_power_le_of_nat_cancel_iff power_int_of_nat)
  qed
  have b: "real b \<le> 2 powi int (bitlen b)" using bitlen_bounds [OF assms(2)] by (simp add: less_imp_le)
  have "2 ^ 52 * real b \<le> 2 ^ 52 * 2 powi int (bitlen b)" using b by simp
  also have "\<dots> \<le> 2 powi (53 + int (bitlen b) - int (bitlen a)) * real a"
    unfolding powi_split [of "bitlen b" "bitlen a", symmetric] using a by (intro mult_left_mono) simp_all
  finally show ?thesis using assms(2) by (simp add: field_simps)
qed

text \<open>The quotient of two doubles has a relative error of at most \<open>2 ^ -53\<close>.\<close>

lemma double_quotient_error:
  assumes "0 < b" "double_quotient a b = (num, den)"
  shows "\<bar>real num / real den - real a / real b\<bar> \<le> real a / real b / 2 ^ 53" "0 < den"
proof -
  show "0 < den" using assms(2) by (auto simp: double_quotient_def Let_def split: if_splits prod.splits)
  show "\<bar>real num / real den - real a / real b\<bar> \<le> real a / real b / 2 ^ 53"
  proof (cases "a = 0")
    case True
    then show ?thesis using assms(2) by (simp add: double_quotient_def)
  next
    case False
    let ?k = "53 + int (bitlen b) - int (bitlen a)" and ?r = "real a / real b"
    obtain n0 d0 where s0: "scaled a b ?k = (n0, d0)" by fastforce
    define k where "k = (if 2 ^ 53 * d0 \<le> n0 then ?k - 1 else ?k)"
    obtain n d where s: "scaled a b k = (n, d)" by fastforce
    note v0 = scaled_value [OF assms(1) s0] and v = scaled_value [OF assms(1) s]
    have big: "2 ^ 52 \<le> ?r * 2 powi k"
    proof (cases "2 ^ 53 * d0 \<le> n0")
      case True
      then have "2 ^ 53 * real d0 \<le> real n0" by (metis of_nat_le_iff of_nat_mult of_nat_numeral of_nat_power)
      then have "2 ^ 53 \<le> ?r * 2 powi ?k" unfolding v0(1) [symmetric] using v0(2) by (simp add: field_simps)
      also have "?k = k + 1" using True by (simp add: k_def)
      also have "?r * 2 powi (k + 1) = 2 * (?r * 2 powi k)" by (simp add: power_int_add_1)
      finally show ?thesis by simp
    next
      case False
      then show ?thesis using first_scale [of a b] assms(1) \<open>a \<noteq> 0\<close> by (simp add: k_def)
    qed
    let ?m = "real (div_half_even n d)"
    have q: "real num / real den = ?m * 2 powi (- k)"
      using assms(2) False s0 s by (auto simp: double_quotient_def Let_def k_def power_int_def field_simps split: if_splits)
    have "?r = (?r * 2 powi k) * 2 powi (- k)" by (simp add: power_int_minus)
    then have "real num / real den - ?r = (?m - ?r * 2 powi k) * 2 powi (- k)"
      unfolding q by (simp add: left_diff_distrib)
    then have "\<bar>real num / real den - ?r\<bar> = \<bar>?m - ?r * 2 powi k\<bar> * 2 powi (- k)" by (simp add: abs_mult)
    also have "\<dots> \<le> (?r * 2 powi k / 2 ^ 53) * 2 powi (- k)"
    proof (rule mult_right_mono)
      have "1 / 2 \<le> ?r * 2 powi k / 2 ^ 53" using divide_right_mono [OF big, of "2 ^ 53"] by simp
      with div_half_even_error [OF v(2), of n] show "\<bar>?m - ?r * 2 powi k\<bar> \<le> ?r * 2 powi k / 2 ^ 53"
        unfolding v(1) by (rule order_trans)
    qed simp
    also have "\<dots> = ?r / 2 ^ 53" by (simp add: power_int_minus)
    finally show ?thesis .
  qed
qed

section \<open>Properties\<close>



text \<open>
  The time per call that the drivers print: for a run of less than \<open>2 ^ 53\<close> nanoseconds and iterations
  the two decimals differ from the true quotient by half a unit of the last place and the rounding of one
  division in double precision at most.
\<close>

theorem ns_per_op_accurate:
  assumes "0 < iterations" "iterations < 2 ^ 53" "elapsed_ns < 2 ^ 53"
  shows "\<bar>real (hundredths (ns_per_op elapsed_ns iterations)) / 100 - real elapsed_ns / real iterations\<bar>
           \<le> 1 / 200 + real elapsed_ns / real iterations / 2 ^ 53"
proof -
  obtain num den where q: "double_quotient elapsed_ns iterations = (num, den)" by fastforce
  note e = double_quotient_error [OF assms(1) q]
  have h: "hundredths (ns_per_op elapsed_ns iterations) = div_half_even (100 * num) den"
    using assms q by (simp add: hundredths_def ns_per_op_def double_of_nat_exact)
  have "\<bar>real (div_half_even (100 * num) den) - 100 * (real num / real den)\<bar> \<le> 1 / 2"
    using div_half_even_error [OF e(2), of "100 * num"] by simp
  with e(1) show ?thesis unfolding h by linarith
qed

theorem ns_per_op_accurate_witness:
  "format_f2 (ns_per_op 10 3) = bytes ''3.33'' \<and>
   \<bar>real (hundredths (ns_per_op 10 3)) / 100 - real (10 :: nat) / real (3 :: nat)\<bar> \<le> 1 / 200 + real (10 :: nat) / real (3 :: nat) / 2 ^ 53"
proof
  show "format_f2 (ns_per_op 10 3) = bytes ''3.33''"
    by (simp add: format_f2_def ns_per_op_def double_of_nat_exact hundredths_def double_quotient_def bitlen.simps
        scaled_def div_half_even_def decimal.simps pad_decimal_def byte_of_def)
  show "\<bar>real (hundredths (ns_per_op 10 3)) / 100 - real (10 :: nat) / real (3 :: nat)\<bar> \<le> 1 / 200 + real (10 :: nat) / real (3 :: nat) / 2 ^ 53"
    by (rule ns_per_op_accurate) simp_all
qed

end
