(* ===== verification/Bench_File.thy ===== *)
theory Bench_File
  imports Bench_Common
begin

text \<open>
  The benchmarks of the file sink, \<open>bench/bench_file_sink.c\<close> and \<open>bench/bench_file_sink_uring.c\<close>, as whole
  programs: the temporary file, the loop of calls, flush, shutdown, the size of the file, its removal and
  the report. What the program prints is collected by stdio and handed to the system at exit.
\<close>

section \<open>Events and configurations\<close>

definition request_token :: "string \<Rightarrow> nat \<Rightarrow> string \<Rightarrow> nat \<Rightarrow> ij_attr_t list" where
  "request_token request m token n =
     [\<lparr>attr_key = Some (bytes ''request_id''), attr_value = IJ_ATTR_VALUE_STRING (Some (bytes request)) m\<rparr>,
      \<lparr>attr_key = Some (bytes ''auth.token''), attr_value = IJ_ATTR_VALUE_STRING (Some (bytes token)) n\<rparr>]"

definition bench_file_event :: ij_event_t where
  "bench_file_event =
     \<lparr>ev_timestamp = \<lparr>unix_seconds = 1710000000, nanoseconds = 456000000\<rparr>, ev_level = IJ_LEVEL_INFO,
      ev_event_name = Some (bytes ''bench.file_sink''),
      ev_message = Some (bytes ''benchmark event payload for normalized append-only file sink scenario''),
      ev_logger = Some (bytes ''bench.file_sink''),
      ev_attributes = Some (request_token ''req-bench-file'' 14 ''file-bench-secret'' 17), ev_attribute_count = 2,
      ev_trace_id = None, ev_span_id = None, ev_trace_flags = 0, ev_has_trace_context = False,
      ev_source_file = Some (bytes ''bench/bench_file_sink.c''), ev_source_line = 1,
      ev_source_function = Some (bytes ''main'')\<rparr>"

definition bench_uring_event :: ij_event_t where
  "bench_uring_event =
     \<lparr>ev_timestamp = \<lparr>unix_seconds = 1710000000, nanoseconds = 456000000\<rparr>, ev_level = IJ_LEVEL_INFO,
      ev_event_name = Some (bytes ''bench.file_sink_uring''),
      ev_message = Some (bytes ''benchmark event payload for explicit io_uring append-only file sink scenario''),
      ev_logger = Some (bytes ''bench.file_sink_uring''),
      ev_attributes = Some (request_token ''req-bench-file-uring'' 20 ''file-bench-uring-secret'' 23), ev_attribute_count = 2,
      ev_trace_id = None, ev_span_id = None, ev_trace_flags = 0, ev_has_trace_context = False,
      ev_source_file = Some (bytes ''bench/bench_file_sink_uring.c''), ev_source_line = 1,
      ev_source_function = Some (bytes ''main'')\<rparr>"

definition bench_config :: "byte list \<Rightarrow> ij_file_backend_t \<Rightarrow> byte list \<Rightarrow> ij_logger_config_t" where
  "bench_config name backend path =
     \<lparr>cfg_min_level = IJ_LEVEL_TRACE, cfg_sink_kind = IJ_SINK_KIND_FILE,
      cfg_redaction_mode = IJ_REDACTION_MODE_ENABLED, cfg_queue_capacity = IJ_QUEUE_CAPACITY_DEFAULT,
      cfg_logger_name = Some name, cfg_file_path = Some path, cfg_file_rotate_bytes = 0,
      cfg_file_rotate_interval_seconds = 0, cfg_file_retention_files = 0, cfg_file_backend = backend,
      cfg_syslog_host = None, cfg_syslog_port = 0, cfg_syslog_transport = IJ_SYSLOG_TRANSPORT_UDP,
      cfg_syslog_facility = IJ_SYSLOG_FACILITY_LOCAL0\<rparr>"

definition bench_file_config :: "byte list \<Rightarrow> ij_logger_config_t" where
  "bench_file_config = bench_config (bytes ''bench.file_sink'') IJ_FILE_BACKEND_AUTO"

definition bench_uring_config :: "byte list \<Rightarrow> ij_logger_config_t" where
  "bench_uring_config = bench_config (bytes ''bench.file_sink_uring'') IJ_FILE_BACKEND_IO_URING"

section \<open>The temporary file\<close>

text \<open>The process number is what \<open>getpid\<close> answers; \<open>None\<close> is the answer \<open>-1\<close>.\<close>

definition make_temp_path :: "string \<Rightarrow> bench \<Rightarrow> size_t \<Rightarrow> world \<Rightarrow> byte list option \<times> world" where
  "make_temp_path stem bn buffer_size w =
     (let (now, w) = time_now (bn_os bn) w;
          (buffer, written) = snprintf buffer_size
            (bytes stem @ signed_decimal (bn_pid bn) @ [0x2d] @ signed_decimal now @ bytes ''.ndjson'')
      in if written \<le> 0 \<or> written \<ge> buffer_size then (None, w) else (Some buffer, w))"

definition stat_size :: "bench \<Rightarrow> byte list \<Rightarrow> world \<Rightarrow> nat option \<times> world" where
  "stat_size bn path w = (if bn_stat bn (w_calls w) then map_option length (w_files w path) else None, tick w)"

definition unlink_checked :: "os \<Rightarrow> byte list \<Rightarrow> world \<Rightarrow> bool \<times> world" where
  "unlink_checked os path w = (os_unlink os (w_calls w) \<and> w_files w path \<noteq> None, unlink os path w)"

section \<open>The run\<close>

record bench_result =
  br_elapsed :: "64 word"
  br_bytes :: nat
  br_status_sink :: "64 word"

text \<open>The failure exits after the construction: shutdown, removal of the file, exit status 1.\<close>

definition bench_abandon ::
  "bench \<Rightarrow> byte list \<Rightarrow> ij_logger option \<Rightarrow> block list \<Rightarrow> world \<Rightarrow> (bench_result option \<times> block list \<times> world) option" where
  "bench_abandon bn path logger live w =
     map_option (\<lambda>(_, live, w). (None, live, unlink (bn_os bn) path w)) (ij_logger_shutdown (bn_os bn) logger live w)"

text \<open>
  From the construction of the logger to the removal of the file. \<open>None\<close> as the first component is
  exit status 1. \<open>usable\<close> is the check of the active back end in the \<open>io_uring\<close> program.
\<close>

definition bench_file_run ::
  "cpu \<Rightarrow> bench \<Rightarrow> (ij_logger \<Rightarrow> bool) \<Rightarrow> ij_logger_config_t \<Rightarrow> ij_event_t \<Rightarrow> byte list \<Rightarrow> size_t \<Rightarrow> world \<Rightarrow>
     (bench_result option \<times> block list \<times> world) option" where
  "bench_file_run cpu bn usable config event path iterations w =
     (case ij_logger_init (bn_os bn) True (Some config) w of
        None \<Rightarrow> None
      | Some (status, logger, live, w) \<Rightarrow>
          if status \<noteq> IJ_STATUS_OK then Some (None, live, w)
          else if \<not> usable (deref logger (zero_logger config)) then bench_abandon bn path logger live w
          else
            let (start_ns, w) = ij_monotonic_ns bn w in
            case log_loop cpu (bn_os bn) event iterations logger 0 w of
              None \<Rightarrow> None
            | Some (ok, logger, status_sink, w) \<Rightarrow>
                if \<not> ok then bench_abandon bn path logger live w
                else
                  let (status, logger, w) = ij_logger_flush (bn_os bn) logger w in
                  if status \<noteq> IJ_STATUS_OK then bench_abandon bn path logger live w
                  else
                    let (now_ns, w) = ij_monotonic_ns bn w in
                    case ij_logger_shutdown (bn_os bn) logger live w of
                      None \<Rightarrow> None
                    | Some (status, live, w) \<Rightarrow>
                        if status \<noteq> IJ_STATUS_OK then Some (None, live, unlink (bn_os bn) path w)
                        else
                          let (size, w) = stat_size bn path w in
                          case size of
                            None \<Rightarrow> Some (None, live, unlink (bn_os bn) path w)
                          | Some file_bytes \<Rightarrow>
                              let (removed, w) = unlink_checked (bn_os bn) path w in
                              if \<not> removed then Some (None, live, w)
                              else Some (Some \<lparr>br_elapsed = now_ns - start_ns, br_bytes = file_bytes,
                                               br_status_sink = status_sink\<rparr>, live, w))"

section \<open>The reports\<close>

definition file_report :: "string \<Rightarrow> string \<Rightarrow> byte list \<Rightarrow> string \<Rightarrow> output_mode_t \<Rightarrow> size_t \<Rightarrow> bench_result \<Rightarrow> byte list" where
  "file_report title benchmark padded scenario mode iterations r =
     (let elapsed_ns = unat (br_elapsed r); q = ns_per_op elapsed_ns iterations
      in if mode = OUTPUT_TSV then
           bytes ''format'' @ [0x09] @ bytes ''tsv'' @ [0x09] @ bytes ''v1'' @ [0x0a] @
           tsv [bytes ''meta'', bytes ''iterations'', decimal iterations] @
           tsv [bytes ''meta'', bytes ''file_bytes'', decimal (br_bytes r)] @
           tsv [bytes ''columns'', bytes ''benchmark'', bytes ''scenario'', bytes ''iterations'', bytes ''elapsed_ns'', bytes ''ns_per_op''] @
           tsv_row (bytes benchmark) (bytes scenario) iterations elapsed_ns q @
           tsv [bytes ''meta'', bytes ''status_sink'', decimal (unat (br_status_sink r))]
         else
           bytes title @ [0x0a] @ bytes ''iterations: '' @ decimal iterations @ [0x0a] @
           bytes ''file-bytes: '' @ decimal (br_bytes r) @ [0x0a] @
           padded @ human_row iterations elapsed_ns q @
           bytes ''status-sink: '' @ decimal (unat (br_status_sink r)) @ [0x0a])"

definition bench_file_report :: "output_mode_t \<Rightarrow> size_t \<Rightarrow> bench_result \<Rightarrow> byte list" where
  "bench_file_report =
     file_report ''iojournal benchmark: file sink'' ''bench_file_sink'' (bytes ''append_ndjson     '') ''append_ndjson''"

definition bench_uring_report :: "output_mode_t \<Rightarrow> size_t \<Rightarrow> bench_result \<Rightarrow> byte list" where
  "bench_uring_report =
     file_report ''iojournal benchmark: file sink io_uring'' ''bench_file_sink_uring'' (bytes ''append_file_io_uring'') ''append_file_io_uring''"

section \<open>The programs\<close>

text \<open>The arguments exclude the name of the program; \<open>print\<close> is one hand-over of the collected output.\<close>

definition print :: "os \<Rightarrow> byte list \<Rightarrow> world \<Rightarrow> world" where
  "print os s w = snd (writev os s w)"

definition bench_file_body ::
  "cpu \<Rightarrow> bench \<Rightarrow> string \<Rightarrow> (byte list \<Rightarrow> ij_logger_config_t) \<Rightarrow> ij_event_t \<Rightarrow> (ij_logger \<Rightarrow> bool) \<Rightarrow>
     (output_mode_t \<Rightarrow> size_t \<Rightarrow> bench_result \<Rightarrow> byte list) \<Rightarrow> byte list list \<Rightarrow> world \<Rightarrow> (int \<times> block list \<times> world) option" where
  "bench_file_body cpu bn stem config event usable report argv w =
     (case parse_arguments argv OUTPUT_HUMAN 20000 of
        None \<Rightarrow> Some (2, [], w)
      | Some (mode, iterations) \<Rightarrow>
          let (path, w) = make_temp_path stem bn 256 w in
          case path of
            None \<Rightarrow> Some (1, [], w)
          | Some path \<Rightarrow>
              (case bench_file_run cpu bn usable (config path) event (c_text path) iterations
                      (unlink (bn_os bn) (c_text path) w) of
                 None \<Rightarrow> None
               | Some (None, live, w) \<Rightarrow> Some (1, live, w)
               | Some (Some r, live, w) \<Rightarrow> Some (0, live, print (bn_os bn) (report mode iterations r) w)))"

definition bench_file_main :: "cpu \<Rightarrow> bench \<Rightarrow> byte list list \<Rightarrow> world \<Rightarrow> (int \<times> block list \<times> world) option" where
  "bench_file_main cpu bn argv w =
     bench_file_body cpu bn ''/tmp/iojournal-bench-file-'' bench_file_config bench_file_event (\<lambda>_. True) bench_file_report argv w"

definition bench_uring_main :: "cpu \<Rightarrow> bench \<Rightarrow> byte list list \<Rightarrow> world \<Rightarrow> (int \<times> block list \<times> world) option" where
  "bench_uring_main cpu bn argv w =
     bench_file_body cpu bn ''/tmp/iojournal-bench-file-uring-'' bench_uring_config bench_uring_event
       (\<lambda>logger. sk_active_backend (lg_file_sink logger) = IJ_FILE_BACKEND_IO_URING) bench_uring_report argv w"

section \<open>Files without limits are never rotated\<close>

definition unlimited :: "byte list \<Rightarrow> ij_file_sink_t \<Rightarrow> bool" where
  "unlimited p sink \<longleftrightarrow> sk_path sink = Some p \<and> sk_rotated_paths sink = [] \<and> sk_rotate_bytes sink = 0 \<and>
     sk_rotate_interval_seconds sink = 0 \<and> sk_retention_files sink = 0 \<and> sequence_room sink"

lemma write_unlimited:
  assumes "sink_inv os w0 sink" "unlimited p sink"
    and "ij_file_sink_write os (Some sink) (Some b) n w = (IJ_STATUS_OK, Some sink', w')"
  shows "unlimited p sink' \<and> sk_active_backend sink' = sk_active_backend sink"
proof -
  obtain q where h: "sink_healthy os q sink" using assms(1) by (auto simp: sink_inv_def)
  have nd: "\<not> fst (ij_file_sink_rotation_due os sink n w)"
    using assms(2) by (simp add: ij_file_sink_rotation_due_def time_now_def Let_def unlimited_def)
  from assms(3) show ?thesis
  proof (cases rule: write_steps)
    case (plain s2)
    from sink_op_write [OF h plain(3)] plain(4) assms(2) show ?thesis
      by (auto simp: unlimited_def sequence_room_def dest: sink_meta_fields)
  qed (use nd in simp)
qed

lemma log_unlimited:
  assumes "lg_active logger" "cfg_sink_kind (lg_config logger) = IJ_SINK_KIND_FILE"
    and "sink_inv os w0 (lg_file_sink logger)" "unlimited p (lg_file_sink logger)"
    and "ij_logger_log cpu os (Some logger) (Some event) w = Some (IJ_STATUS_OK, Some logger', w', cp)"
  shows "unlimited p (lg_file_sink logger') \<and> sk_active_backend (lg_file_sink logger') = sk_active_backend (lg_file_sink logger)"
  using assms(1)
proof (cases rule: log_cases [where event = event and cpu = cpu and os = os and w = w])
  case (copied cp1)
  let ?line = "event_line (copy_view cp1)" and ?sink = "lg_file_sink logger"
  have "0 < length (payload_buffer os w)" by simp
  from log_to_file [OF assms(2) copied(4) this, of cpu os "tick w"] obtain mem where
    l: "log_to_sink cpu os logger cp1 (payload_buffer os w) (tick w) = Some
    (if timestamp_ok (cp_timestamp cp1) \<and> length ?line + 1 < length (payload_buffer os w)
     then (case ij_file_sink_write os (Some ?sink) (Some mem) (length ?line + 1) (tick w) of
             (st, s', w') \<Rightarrow> (st, logger\<lparr>lg_file_sink := deref s' ?sink\<rparr>, w'))
     else (IJ_STATUS_ENCODE_ERROR, logger, tick w))" by blast
  obtain st s' w1 where e: "ij_file_sink_write os (Some ?sink) (Some mem) (length ?line + 1) (tick w) = (st, s', w1)"
    by (metis prod_cases3)
  have ok: "st = IJ_STATUS_OK" "logger' = logger\<lparr>lg_file_sink := deref s' ?sink\<rparr>"
    using l e copied(2) assms(5) by (auto split: if_splits)
  show ?thesis
  proof (cases s')
    case (Some sink')
    with write_unlimited [OF assms(3,4) e [unfolded ok(1) Some]] ok(2) show ?thesis by (simp add: deref_def)
  qed (use assms(4) in \<open>simp add: ok(2) deref_def\<close>)
qed (use assms(4,5) in auto)

text \<open>A file logger that writes to one file.\<close>

definition one_file :: "os \<Rightarrow> byte list \<Rightarrow> ij_logger \<Rightarrow> world \<Rightarrow> bool" where
  "one_file os p logger w \<longleftrightarrow> lg_active logger \<and> cfg_sink_kind (lg_config logger) = IJ_SINK_KIND_FILE \<and>
     sink_inv os w (lg_file_sink logger) \<and> unlimited p (lg_file_sink logger)"

lemma log_one_file:
  assumes "one_file os p logger w"
  shows "\<exists>st sink' w' cp. ij_logger_log cpu os (Some logger) (Some event) w =
      Some (st, Some (logger\<lparr>lg_file_sink := sink'\<rparr>), w', cp) \<and>
    (st = IJ_STATUS_OK \<longrightarrow> one_file os p (logger\<lparr>lg_file_sink := sink'\<rparr>) w' \<and>
      sk_active_backend sink' = sk_active_backend (lg_file_sink logger) \<and>
      sink_log w' sink' = sink_log w (lg_file_sink logger) @ logged_line (lg_config logger) event)"
proof -
  have a: "lg_active logger" "cfg_sink_kind (lg_config logger) = IJ_SINK_KIND_FILE"
    "sink_inv os w (lg_file_sink logger)" "unlimited p (lg_file_sink logger)"
    using assms by (simp_all add: one_file_def)
  then have "sequence_room (lg_file_sink logger)" and r: "retired (lg_file_sink logger) = 0"
    by (simp_all add: unlimited_def retired_def)
  from log_file [OF a(1-3) this(1), of cpu event] obtain st sink' w' cp where
    l: "ij_logger_log cpu os (Some logger) (Some event) w = Some (st, Some (logger\<lparr>lg_file_sink := sink'\<rparr>), w', cp)" and
    inv: "st = IJ_STATUS_OK \<longrightarrow> (\<exists>k. sink_inv os w' sink' \<and> k \<le> retired (lg_file_sink logger) \<and>
      sink_log w' sink' = concat (drop k (log_segments w (lg_file_sink logger))) @ logged_line (lg_config logger) event)"
    by blast
  have "unlimited p sink' \<and> sk_active_backend sink' = sk_active_backend (lg_file_sink logger)" if "st = IJ_STATUS_OK"
    using log_unlimited [OF a l [unfolded that]] by simp
  with l inv r a show ?thesis by (auto simp: one_file_def sink_log_def)
qed

lemma log_loop_file:
  assumes "one_file os p logger w"
  shows "\<exists>ok sink' total w'. log_loop cpu os event n (Some logger) total0 w =
      Some (ok, Some (logger\<lparr>lg_file_sink := sink'\<rparr>), total, w') \<and>
    (ok \<longrightarrow> total = total0 \<and> one_file os p (logger\<lparr>lg_file_sink := sink'\<rparr>) w' \<and>
      sk_active_backend sink' = sk_active_backend (lg_file_sink logger) \<and>
      sink_log w' sink' = sink_log w (lg_file_sink logger) @ concat (replicate n (logged_line (lg_config logger) event)))"
  using assms
proof (induction n arbitrary: logger w total0)
  case 0
  then show ?case by (intro exI [of _ True] exI [of _ "lg_file_sink logger"]) simp
next
  case (Suc n)
  obtain st sink1 w1 cp where
    l: "ij_logger_log cpu os (Some logger) (Some event) w = Some (st, Some (logger\<lparr>lg_file_sink := sink1\<rparr>), w1, cp)" and
    ok: "st = IJ_STATUS_OK \<longrightarrow> one_file os p (logger\<lparr>lg_file_sink := sink1\<rparr>) w1 \<and>
      sk_active_backend sink1 = sk_active_backend (lg_file_sink logger) \<and>
      sink_log w1 sink1 = sink_log w (lg_file_sink logger) @ logged_line (lg_config logger) event"
    using log_one_file [OF Suc.prems] by blast
  show ?case
  proof (cases "st = IJ_STATUS_OK")
    case True
    with Suc.IH [of "logger\<lparr>lg_file_sink := sink1\<rparr>" w1 total0] l ok show ?thesis by auto
  next
    case False
    with l show ?thesis by (intro exI [of _ False] exI [of _ sink1]) simp
  qed
qed

section \<open>Construction and shutdown\<close>

lemma open_sink_limits:
  "open_sink os logger w = (IJ_STATUS_OK, logger', w') \<Longrightarrow> cfg_sink_kind (lg_config logger) = IJ_SINK_KIND_FILE \<Longrightarrow>
     cfg_file_path (lg_config logger) = Some path \<Longrightarrow>
     sk_rotate_bytes (lg_file_sink logger') = cfg_file_rotate_bytes (lg_config logger) \<and>
     sk_rotate_interval_seconds (lg_file_sink logger') = cfg_file_rotate_interval_seconds (lg_config logger)"
  by (auto simp: open_sink_def Let_def split: if_splits prod.splits)

lemma init_limits:
  assumes "ij_logger_init os out_logger (Some config) w = Some (IJ_STATUS_OK, Some logger, live, w')"
    and "cfg_sink_kind config = IJ_SINK_KIND_FILE" "cfg_file_path config = Some path"
  shows "sk_rotate_bytes (lg_file_sink logger) = cfg_file_rotate_bytes config \<and>
    sk_rotate_interval_seconds (lg_file_sink logger) = cfg_file_rotate_interval_seconds config"
  using assms(1)
proof (rule init_steps)
  fix config' logger1 w1 ring logger'
  assume c: "Some config = Some config'"
    and d: "ij_apply_logger_defaults os (zero_logger config') config' [LOGGER] (tick w) = (logger1, live, w1)"
    and o: "open_sink os (logger1\<lparr>lg_ring := ring\<rparr>) (tick w1) = (IJ_STATUS_OK, logger', w')" and l: "Some logger = Some logger'"
  have "cfg_file_rotate_bytes (lg_config logger1) = cfg_file_rotate_bytes config"
    "cfg_file_rotate_interval_seconds (lg_config logger1) = cfg_file_rotate_interval_seconds config"
    using c d by (auto simp: ij_apply_logger_defaults_def Let_def zero_logger_def split: prod.splits)
  with open_sink_limits [OF o, of path] defaults_result [OF d] c l assms(2,3) show ?thesis by auto
qed

lemma one_file_tick [simp]: "one_file os p logger (tick w) = one_file os p logger w"
  by (simp add: one_file_def sink_inv_def)

lemma sink_log_tick [simp]: "sink_log (tick w) sink = sink_log w sink"
  by (simp add: sink_log_def log_segments_def split: option.split)

definition file_bench_config :: "ij_logger_config_t \<Rightarrow> byte list \<Rightarrow> bool" where
  "file_bench_config config path \<longleftrightarrow> cfg_sink_kind config = IJ_SINK_KIND_FILE \<and> cfg_file_path config = Some path \<and>
     cfg_file_rotate_bytes config = 0 \<and> cfg_file_rotate_interval_seconds config = 0 \<and> cfg_file_retention_files config = 0"

lemma init_one_file:
  assumes i: "ij_logger_init os True (Some config) w = Some (IJ_STATUS_OK, l, live, w')"
    and c: "file_bench_config config path"
  shows "\<exists>logger. l = Some logger \<and> one_file os (c_text path) logger w' \<and> ring_inv (lg_ring logger) \<and>
    live = LOGGER # string_blocks (cfg_logger_name (lg_config logger)) (cfg_syslog_host (lg_config logger)) \<and>
    logged_line (lg_config logger) = logged_line config \<and> sink_log w' (lg_file_sink logger) = file_content w (c_text path)"
proof -
  from logger_init_ok [OF i] obtain logger where l: "l = Some logger" "ring_inv (lg_ring logger)"
    "live = LOGGER # string_blocks (cfg_logger_name (lg_config logger)) (cfg_syslog_host (lg_config logger))"
    by (auto simp: logger_ok_def)
  have c': "cfg_sink_kind config = IJ_SINK_KIND_FILE" "cfg_file_path config = Some path" "cfg_file_retention_files config = 0"
    "cfg_file_rotate_bytes config = 0" "cfg_file_rotate_interval_seconds config = 0"
    using c by (simp_all add: file_bench_config_def)
  note i = i [unfolded l(1)]
  note r = file_logger_ready [OF i c'(1-3)] and f = file_init [OF i c'(1,2)] and m = init_limits [OF i c'(1,2)]
  have "one_file os (c_text path) logger w'"
    using r f m c' by (simp add: one_file_def unlimited_def file_ready_def fresh_file_log_def)
  with l r f show ?thesis using logged_line_cong [of "lg_config logger" config] by auto
qed

lemma shutdown_with_sink:
  assumes "one_file os p logger w" "ring_inv (lg_ring logger)"
    and "live = LOGGER # string_blocks (cfg_logger_name (lg_config logger)) (cfg_syslog_host (lg_config logger))"
  shows "\<exists>v. ij_logger_shutdown os (Some (logger\<lparr>lg_file_sink := sink\<rparr>)) live u = Some (IJ_STATUS_OK, [], v)"
  using shutdown_active [of "logger\<lparr>lg_file_sink := sink\<rparr>" live os u] assms by (auto simp: one_file_def)

lemma flush_then_shutdown:
  assumes o: "one_file os p logger w" and r: "ring_inv (lg_ring logger)"
    and live: "live = LOGGER # string_blocks (cfg_logger_name (lg_config logger)) (cfg_syslog_host (lg_config logger))"
    and fl: "ij_logger_flush os (Some logger) w = (st, l, w1)"
  shows "\<exists>v. ij_logger_shutdown os l live (if st = IJ_STATUS_OK then tick w1 else w1) = Some (IJ_STATUS_OK, [], v) \<and>
    (st = IJ_STATUS_OK \<longrightarrow> file_content v p = sink_log w (lg_file_sink logger))"
proof (cases "st = IJ_STATUS_OK")
  case True
  have a: "lg_active logger" "cfg_sink_kind (lg_config logger) = IJ_SINK_KIND_FILE" "sink_inv os w (lg_file_sink logger)"
    "unlimited p (lg_file_sink logger)" using o by (simp_all add: one_file_def)
  from flush_file [OF a(1-3) fl [unfolded True]] obtain sink1 where
    l: "l = Some (logger\<lparr>lg_file_sink := sink1\<rparr>)" and i: "sink_inv os w1 sink1" "sink_pending sink1 = []"
    and m: "sink_meta sink1 = sink_meta (lg_file_sink logger)"
    and log1: "sink_log w1 sink1 = sink_log w (lg_file_sink logger)" by auto
  have f: "sk_rotated_paths sink1 = []" "sk_path sink1 = Some p"
    using sink_meta_fields [OF m] a(4) by (simp_all add: unlimited_def)
  then have c: "file_content w1 p = sink_log w (lg_file_sink logger)"
    using log1 i(2) by (simp add: sink_log_def log_segments_def)
  have "sink_healthy os p sink1" using i(1) f(2) by (auto simp: sink_inv_def)
  with shutdown_files [of "logger\<lparr>lg_file_sink := sink1\<rparr>" live os p "tick w1"] a r live i(2) c l True show ?thesis by auto
next
  case False
  obtain logger1 where l: "l = Some logger1" and q: "lg_active logger1" "ring_inv (lg_ring logger1)"
    "lg_config logger1 = lg_config logger"
    using fl o r by (auto simp: ij_logger_flush_def one_file_def split: prod.splits)
  with shutdown_active [OF q(1,2), of live os w1] live False show ?thesis by auto
qed

section \<open>The outcome\<close>

lemma monotonic_tick: "\<exists>t. ij_monotonic_ns bn w = (t, tick w)"
  by (simp add: ij_monotonic_ns_def split: option.split prod.split)

lemma unlinked: "unlink_checked os p w = (True, w') \<Longrightarrow> w_files w' p = None"
  by (auto simp: unlink_checked_def unlink_def tick_def)

lemma stat_content: "stat_size bn p w = (Some n, w') \<Longrightarrow> n = length (file_content w p) \<and> w' = tick w"
  by (auto simp: stat_size_def file_content_def split: if_splits)

text \<open>\<open>removed_with\<close>: what a result says of the file, given its content before the run and the line of the event.\<close>

definition removed_with :: "byte list \<Rightarrow> byte list \<Rightarrow> byte list \<Rightarrow> size_t \<Rightarrow> bench_result \<Rightarrow> world \<Rightarrow> bool" where
  "removed_with p old line iterations r w \<longleftrightarrow>
     w_files w p = None \<and> br_bytes r = length old + iterations * length line \<and> br_status_sink r = 0"

lemma bench_file_run_outcome:
  assumes c: "file_bench_config config path" and p: "p = c_text path"
  shows "\<exists>r live w'. bench_file_run cpu bn usable config event p iterations w = Some (r, live, w') \<and>
    (r \<noteq> None \<longrightarrow> live = [] \<and> removed_with p (file_content w p) (logged_line config event) iterations (the r) w') \<and>
    (\<forall>l live1 w1. ij_logger_init (bn_os bn) True (Some config) w = Some (IJ_STATUS_OK, l, live1, w1) \<longrightarrow> live = [])"
proof -
  obtain st l live w1 where i: "ij_logger_init (bn_os bn) True (Some config) w = Some (st, l, live, w1)"
    using init_some by (metis option.exhaust prod_cases4)
  show ?thesis
  proof (cases "st = IJ_STATUS_OK")
    case False
    with i show ?thesis by (simp add: bench_file_run_def)
  next
    case True
    from init_one_file [OF i [unfolded True] c] obtain logger where l: "l = Some logger"
      and o: "one_file (bn_os bn) p logger w1" and rl: "ring_inv (lg_ring logger)"
      "live = LOGGER # string_blocks (cfg_logger_name (lg_config logger)) (cfg_syslog_host (lg_config logger))"
      and line: "logged_line (lg_config logger) = logged_line config" "sink_log w1 (lg_file_sink logger) = file_content w p"
      unfolding p by blast
    have ab: "\<exists>v. bench_abandon bn p (Some (logger\<lparr>lg_file_sink := s\<rparr>)) live u = Some (None, [], v)" for s u
      using shutdown_with_sink [OF o rl, of s u] by (auto simp: bench_abandon_def)
    have ab1: "\<exists>v. bench_abandon bn p (Some logger) live u = Some (None, [], v)" for u
      using ab [of "lg_file_sink logger" u] by simp
    obtain t1 where t1: "ij_monotonic_ns bn w1 = (t1, tick w1)" using monotonic_tick by blast
    obtain ok sink2 total w2 where
      g: "log_loop cpu (bn_os bn) event iterations (Some logger) 0 (tick w1) = Some (ok, Some (logger\<lparr>lg_file_sink := sink2\<rparr>), total, w2)"
      and k: "ok \<longrightarrow> total = 0 \<and> one_file (bn_os bn) p (logger\<lparr>lg_file_sink := sink2\<rparr>) w2 \<and>
        sink_log w2 sink2 = file_content w p @ concat (replicate iterations (logged_line config event))"
      using log_loop_file [of "bn_os bn" p logger "tick w1" cpu event iterations 0] o line by auto
    obtain st3 l3 w3 where fl: "ij_logger_flush (bn_os bn) (Some (logger\<lparr>lg_file_sink := sink2\<rparr>)) w2 = (st3, l3, w3)"
      by (metis prod_cases3)
    obtain t2 where t2: "ij_monotonic_ns bn w3 = (t2, tick w3)" using monotonic_tick by blast
    show ?thesis
    proof (cases "usable logger \<and> ok")
      case False
      obtain v1 v2 where "bench_abandon bn p (Some logger) live w1 = Some (None, [], v1)"
        "bench_abandon bn p (Some (logger\<lparr>lg_file_sink := sink2\<rparr>)) live w2 = Some (None, [], v2)"
        using ab ab1 by blast
      with False show ?thesis using i True l t1 g by (cases "usable logger") (simp_all add: bench_file_run_def)
    next
      case u: True
      from flush_then_shutdown [OF _ _ _ fl, of p live] k u rl obtain v where
        s: "ij_logger_shutdown (bn_os bn) l3 live (if st3 = IJ_STATUS_OK then tick w3 else w3) = Some (IJ_STATUS_OK, [], v)"
        "st3 = IJ_STATUS_OK \<longrightarrow> file_content v p = file_content w p @ concat (replicate iterations (logged_line config event))"
        by auto
      show ?thesis
      proof (cases "st3 = IJ_STATUS_OK")
        case False
        with s(1) have "bench_abandon bn p l3 live w3 = Some (None, [], unlink (bn_os bn) p v)" by (simp add: bench_abandon_def)
        with i True l t1 g u fl False show ?thesis by (simp add: bench_file_run_def)
      next
        case fine: True
        obtain size w4 where z: "stat_size bn p v = (size, w4)" by fastforce
        obtain gone w5 where x: "unlink_checked (bn_os bn) p w4 = (gone, w5)" by fastforce
        have run: "bench_file_run cpu bn usable config event p iterations w =
          (case size of None \<Rightarrow> Some (None, [], unlink (bn_os bn) p w4)
           | Some n \<Rightarrow> if \<not> gone then Some (None, [], w5)
               else Some (Some \<lparr>br_elapsed = t2 - t1, br_bytes = n, br_status_sink = 0\<rparr>, [], w5))"
          using i True l t1 g u k fl fine t2 s(1) z x by (simp add: bench_file_run_def split: option.split)
        have "n = length (file_content w p) + iterations * length (logged_line config event)" if "size = Some n" for n
          using stat_content [OF z [unfolded that]] s(2) fine by (simp add: length_concat sum_list_replicate)
        with run unlinked [of "bn_os bn" p w4 w5] x show ?thesis
          by (cases size; cases gone) (auto simp: removed_with_def)
      qed
    qed
  qed
qed

section \<open>When the system works\<close>

definition system_works :: "os \<Rightarrow> bool" where
  "system_works os \<longleftrightarrow> (\<forall>c. os_malloc os c \<and> os_ring os c = working_mutex \<and> arena_ok (os_alloc os c) \<and> attrs_ok (os_alloc os c) \<and>
     os_fopen os c \<and> os_fflush os c \<and> os_unlink os c) \<and> (\<forall>c k. k \<le> os_fwrite os c k)"

definition loggable :: "ij_logger_config_t \<Rightarrow> ij_event_t \<Rightarrow> bool" where
  "loggable config event \<longleftrightarrow> ij_level_is_enabled (cfg_min_level config) (ev_level event) \<and> valid_event event \<and>
     view_plain (input_view (cfg_redaction_mode config) event) \<and> timestamp_ok (ev_timestamp event)"

lemma write_unlimited_works:
  assumes "sink_inv os w' sink" "unlimited p sink" "sk_active_backend sink \<noteq> IJ_FILE_BACKEND_IO_URING"
    and "\<And>c k. k \<le> os_fwrite os c k" "0 < n"
  shows "fst (ij_file_sink_write os (Some sink) (Some mem) n w) = IJ_STATUS_OK"
proof -
  obtain f where "sk_stream sink = Some f" using assms(1,3) by (auto simp: sink_inv_def sink_healthy_def sync_healthy_def)
  moreover have "min (os_fwrite os c k) k = k" for c k using assms(4) by (simp add: min_absorb2)
  ultimately show ?thesis
    using assms(2,3,5)
    by (simp add: ij_file_sink_write.simps ij_file_sink_rotation_due_def time_now_def ij_file_sink_ops_def
        IJ_FILE_SINK_SYNC_OPS_def fwrite_def Let_def unlimited_def)
qed

lemma log_loop_works:
  assumes "one_file os p logger w" "sk_active_backend (lg_file_sink logger) \<noteq> IJ_FILE_BACKEND_IO_URING"
    and "system_works os" "loggable (lg_config logger) event"
  shows "\<exists>l acc' w'. log_loop cpu os event n (Some logger) acc w = Some (True, l, acc', w')"
  using assms(1,2,4)
proof (induction n arbitrary: logger w acc)
  case (Suc n)
  have a: "lg_active logger" "cfg_sink_kind (lg_config logger) = IJ_SINK_KIND_FILE"
    "sink_inv os w (lg_file_sink logger)" "unlimited p (lg_file_sink logger)"
    using Suc.prems(1) by (simp_all add: one_file_def)
  have m: "\<And>c. arena_ok (os_alloc os c) \<and> attrs_ok (os_alloc os c)" "\<And>c k. k \<le> os_fwrite os c k"
    using assms(3) by (simp_all add: system_works_def)
  have w: "fst (ij_file_sink_write os (Some (lg_file_sink logger)) (Some mem) k v) = IJ_STATUS_OK" if "0 < k" for mem k v
    by (rule write_unlimited_works [OF a(3,4) Suc.prems(2) m(2) that])
  obtain logger1 w1 cp where g: "ij_logger_log cpu os (Some logger) (Some event) w = Some (IJ_STATUS_OK, Some logger1, w1, cp)"
    using log_file_works [OF a(1,2) _ _ _ _ m(1) w, of event cpu w] Suc.prems(3) by (auto simp: loggable_def)
  from log_one_file [OF Suc.prems(1), of cpu event] g obtain sink1 where "logger1 = logger\<lparr>lg_file_sink := sink1\<rparr>"
    "one_file os p logger1 w1" "sk_active_backend sink1 = sk_active_backend (lg_file_sink logger)" by auto
  with Suc.IH [of logger1 w1 acc] Suc.prems(2,3) g show ?case by simp
qed simp

lemma bench_file_run_works:
  assumes c: "file_bench_config config path" "config_ok config" "cfg_file_backend config = IJ_FILE_BACKEND_AUTO"
    and os: "system_works (bn_os bn)" "\<And>c. bn_stat bn c"
    and e: "loggable config event" and n: "0 < iterations"
  shows "\<exists>r live w'. bench_file_run cpu bn (\<lambda>_. True) config event (c_text path) iterations w = Some (Some r, live, w')"
proof -
  have os': "\<And>c. os_malloc (bn_os bn) c" "\<And>c. os_ring (bn_os bn) c = working_mutex" "\<And>c. os_fopen (bn_os bn) c"
    "\<And>c. os_fflush (bn_os bn) c" "\<And>c. os_unlink (bn_os bn) c" using os(1) by (simp_all add: system_works_def)
  have k: "cfg_sink_kind config = IJ_SINK_KIND_FILE" "cfg_file_path config = Some path" using c(1) by (simp_all add: file_bench_config_def)
  obtain l live w1 where i: "ij_logger_init (bn_os bn) True (Some config) w = Some (IJ_STATUS_OK, Some l, live, w1)"
    using init_works [OF c(2) os'(1,2), of w] k(1) os'(3) by auto
  let ?p = "c_text path"
  from init_one_file [OF i c(1)] have o: "one_file (bn_os bn) ?p l w1" and rl: "ring_inv (lg_ring l)"
    "live = LOGGER # string_blocks (cfg_logger_name (lg_config l)) (cfg_syslog_host (lg_config l))"
    and line: "logged_line (lg_config l) = logged_line config" "sink_log w1 (lg_file_sink l) = file_content w ?p" by auto
  have sync: "sk_active_backend (lg_file_sink l) \<noteq> IJ_FILE_BACKEND_IO_URING"
    using file_init [OF i k] c(3) by (auto simp: fresh_file_log_def)
  have "loggable (lg_config l) event" using e logger_init_ok [OF i] by (auto simp: loggable_def)
  from log_loop_works [OF _ sync os(1) this, of ?p "tick w1" cpu iterations 0] o obtain l2 total w2 where
    g: "log_loop cpu (bn_os bn) event iterations (Some l) 0 (tick w1) = Some (True, l2, total, w2)" by auto
  from log_loop_file [of "bn_os bn" ?p l "tick w1" cpu event iterations 0] o g obtain sink2 where
    l2: "l2 = Some (l\<lparr>lg_file_sink := sink2\<rparr>)" "one_file (bn_os bn) ?p (l\<lparr>lg_file_sink := sink2\<rparr>) w2"
    "sk_active_backend sink2 = sk_active_backend (lg_file_sink l)"
    "sink_log w2 sink2 = file_content w ?p @ concat (replicate iterations (logged_line config event))"
    using line by auto
  have "fst (ij_logger_flush (bn_os bn) l2 w2) = IJ_STATUS_OK"
    unfolding l2(1) using l2(2,3) sync os'(4) by (intro flush_works) (simp_all add: one_file_def)
  then obtain l3 w3 where fl: "ij_logger_flush (bn_os bn) l2 w2 = (IJ_STATUS_OK, l3, w3)" by (metis prod.collapse)
  from flush_then_shutdown [OF l2(2) _ _ fl [unfolded l2(1)], of live] rl l2(4) obtain v where
    s: "ij_logger_shutdown (bn_os bn) l3 live (tick w3) = Some (IJ_STATUS_OK, [], v)"
    "file_content v ?p = file_content w ?p @ concat (replicate iterations (logged_line config event))" by auto
  have "logged_line config event \<noteq> []" using e by (simp add: loggable_def logged_line_def)
  with s(2) n have "file_content v ?p \<noteq> []" by (cases iterations) auto
  then obtain content where f: "w_files v ?p = Some content" by (cases "w_files v ?p") (auto simp: file_content_def)
  obtain t1 where t1: "ij_monotonic_ns bn w1 = (t1, tick w1)" using monotonic_tick by blast
  obtain t2 where t2: "ij_monotonic_ns bn w3 = (t2, tick w3)" using monotonic_tick by blast
  have "stat_size bn ?p v = (Some (length content), tick v)" using f os(2) by (simp add: stat_size_def)
  moreover have "unlink_checked (bn_os bn) ?p (tick v) = (True, unlink (bn_os bn) ?p (tick v))"
    using f os'(5) by (simp add: unlink_checked_def tick_def)
  ultimately show ?thesis
    using i t1 g fl t2 s(1) by (simp add: bench_file_run_def)
qed

lemma parse_arguments_positive:
  "parse_arguments argv mode k = Some (mode', n) \<Longrightarrow> 0 < k \<Longrightarrow> 0 < n"
proof (induction argv arbitrary: mode k)
  case (Cons arg argv)
  have "0 < m" if "ij_parse_iterations (Some arg) (Some k) = (True, Some m)" for m
    using that by (auto simp: Let_def unat_gt_0 split: prod.splits if_splits)
  with Cons show ?case by (auto split: if_splits prod.splits bool.splits option.splits)
qed simp

section \<open>The programs as a whole\<close>

lemma temp_path_tick: "make_temp_path stem bn k w = (path, w') \<Longrightarrow> w' = tick w"
  by (auto simp: make_temp_path_def time_now_def Let_def split: prod.splits if_splits)

text \<open>
  What a run of a program means: it ends; exit status 2 is a rejected argument; exit status 0 means that
  all memory is free, the file of the run is removed, and the last thing done was to print the report,
  whose size of the file counts what was there before and one line for every iteration.
\<close>

definition bench_ends ::
  "bench \<Rightarrow> string \<Rightarrow> byte list \<Rightarrow> (output_mode_t \<Rightarrow> size_t \<Rightarrow> bench_result \<Rightarrow> byte list) \<Rightarrow> byte list list \<Rightarrow> world \<Rightarrow>
     (int \<times> block list \<times> world) option \<Rightarrow> bool" where
  "bench_ends bn stem line report argv w result \<longleftrightarrow>
     (\<exists>code live w'. result = Some (code, live, w') \<and> code \<in> {0, 1, 2} \<and>
        (code = 2 \<longleftrightarrow> parse_arguments argv OUTPUT_HUMAN 20000 = None) \<and>
        (code = 0 \<longrightarrow> live = [] \<and>
           (\<exists>mode n path r v. parse_arguments argv OUTPUT_HUMAN 20000 = Some (mode, n) \<and>
              make_temp_path stem bn 256 w = (Some path, tick w) \<and>
              removed_with (c_text path) (file_content (unlink (bn_os bn) (c_text path) (tick w)) (c_text path)) line n r v \<and>
              w' = print (bn_os bn) (report mode n r) v)))"

lemma bench_body_ends:
  assumes "\<And>path. file_bench_config (config path) path" "\<And>path. logged_line (config path) event = line"
  shows "bench_ends bn stem line report argv w (bench_file_body cpu bn stem config event usable report argv w)"
proof (cases "parse_arguments argv OUTPUT_HUMAN 20000")
  case None
  then show ?thesis by (simp add: bench_ends_def bench_file_body_def)
next
  case (Some a)
  then obtain mode n where a: "parse_arguments argv OUTPUT_HUMAN 20000 = Some (mode, n)" by (cases a) simp
  obtain found w1 where p: "make_temp_path stem bn 256 w = (found, w1)" by fastforce
  show ?thesis
  proof (cases found)
    case None
    with a p show ?thesis by (simp add: bench_ends_def bench_file_body_def)
  next
    case found: (Some path)
    let ?u = "unlink (bn_os bn) (c_text path) (tick w)"
    from bench_file_run_outcome [OF assms(1) refl, of cpu bn usable path event n ?u] obtain r live w' where
      r: "bench_file_run cpu bn usable (config path) event (c_text path) n ?u = Some (r, live, w')" and
      ok: "r \<noteq> None \<longrightarrow> live = [] \<and> removed_with (c_text path) (file_content ?u (c_text path)) line n (the r) w'"
      unfolding assms(2) by blast
    note t = temp_path_tick [OF p]
    show ?thesis
    proof (cases r)
      case None
      with a p r t found show ?thesis by (simp add: bench_ends_def bench_file_body_def)
    next
      case (Some res)
      with a p r t found ok show ?thesis
        unfolding bench_ends_def bench_file_body_def by (auto intro!: exI [of _ res] exI [of _ w'])
    qed
  qed
qed

definition bench_file_line :: "byte list" where
  "bench_file_line = event_line (input_view IJ_REDACTION_MODE_ENABLED bench_file_event) @ [0x0a]"

definition bench_uring_line :: "byte list" where
  "bench_uring_line = event_line (input_view IJ_REDACTION_MODE_ENABLED bench_uring_event) @ [0x0a]"

lemma bench_configs:
  "file_bench_config (bench_file_config path) path" "file_bench_config (bench_uring_config path) path"
  "logged_line (bench_file_config path) bench_file_event = bench_file_line"
  "logged_line (bench_uring_config path) bench_uring_event = bench_uring_line"
  by (simp_all add: file_bench_config_def bench_file_config_def bench_uring_config_def bench_config_def logged_line_def
      bench_file_line_def bench_uring_line_def bench_file_event_def bench_uring_event_def ij_level_is_enabled_trace
      ij_level_is_valid_iff)


section \<open>The event of the benchmark can be logged\<close>

lemma bench_file_event_valid: "valid_event bench_file_event"
proof -
  let ?a = "\<lparr>attr_key = Some (bytes ''request_id''), attr_value = IJ_ATTR_VALUE_STRING (Some (bytes ''req-bench-file'')) 14\<rparr>"
  let ?b = "\<lparr>attr_key = Some (bytes ''auth.token''), attr_value = IJ_ATTR_VALUE_STRING (Some (bytes ''file-bench-secret'')) 17\<rparr>"
  have as: "event_attributes bench_file_event = [?a, ?b]"
    by (simp add: event_attributes_def bench_file_event_def request_token_def)
  have m: "c_mem (bytes ''req-bench-file'') 14 = bytes ''req-bench-file''" "c_mem (bytes ''file-bench-secret'') 17 = bytes ''file-bench-secret''"
    by (simp_all add: c_mem_def)
  have u: "is_utf8 (bytes ''req-bench-file'')" "is_utf8 (bytes ''file-bench-secret'')" by (rule is_utf8_ascii, simp)+
  have len: "length (bytes s) = length s" for s by (simp add: bytes_def)
  have ne: "bytes s = [] \<longleftrightarrow> s = []" for s by (simp add: bytes_def)
  have "valid_attr ?a" "valid_attr ?b" "attr_text_size ?a = 24" "attr_text_size ?b = 27"
    by (simp_all add: valid_attr_def valid_text_def valid_value_def attr_text_size_def value_text_size_def key_mem_def
        strlen_def example_texts m u limit_defs len ne del: bytes_Cons)
  moreover have "distinct (map attr_name [?a, ?b])" by (simp add: attr_name_def key_mem_def c_text_def)
  moreover have "valid_event_frame bench_file_event"
    by (simp add: valid_event_frame_def bench_file_event_def ij_level_is_valid_iff limit_defs)
  moreover have "valid_event_fields bench_file_event"
    by (simp add: valid_event_fields_def bench_file_event_def valid_text_def valid_optional_text_def c_text_def limit_defs
        is_utf8_ascii)
  moreover have "fields_text_size bench_file_event \<le> 1000"
    by (simp add: fields_text_size_def bench_file_event_def opt_strlen_def strlen_def c_text_def)
  ultimately show ?thesis unfolding valid_event_def as by (simp add: limit_defs del: bytes_Cons)
qed

lemma bench_file_loggable: "loggable (bench_file_config path) bench_file_event"
proof -
  let ?v = "input_view IJ_REDACTION_MODE_ENABLED bench_file_event"
  have "v_attributes ?v = token_view (bytes ''req-bench-file'')"
    using token_attributes_view [of "bytes ''req-bench-file''" 14 "bytes ''file-bench-secret''" 17]
    by (simp add: input_view_def bench_file_event_def event_attributes_def request_token_def c_mem_def)
  moreover have "v_event_name ?v = bytes ''bench.file_sink''" "v_logger ?v = Some (bytes ''bench.file_sink'')"
    "v_message ?v = bytes ''benchmark event payload for normalized append-only file sink scenario''"
    by (simp_all add: input_view_def bench_file_event_def text_of_def opt_text_def c_text_def)
  moreover have "\<not> has_special (bytes ''bench.file_sink'')" "\<not> has_special (bytes ''req-bench-file'')"
    "\<not> has_special (bytes ''benchmark event payload for normalized append-only file sink scenario'')"
    "\<not> has_special (bytes ''request_id'')" "\<not> has_special (bytes ''auth.token'')" "\<not> has_special IJ_REDACTED_LITERAL"
    by (simp_all add: has_special_def json_special_def IJ_REDACTED_LITERAL_def)
  ultimately have "view_plain ?v" by (simp add: view_plain_def token_view_def del: bytes_Cons)
  moreover have "timestamp_ok (ev_timestamp bench_file_event)"
  proof -
    have "tm_year (gmtime 1710000000) = 124" by code_simp
    then show ?thesis by (simp add: timestamp_ok_def bench_file_event_def)
  qed
  ultimately show ?thesis
    using bench_file_event_valid by (simp add: loggable_def bench_file_config_def bench_config_def bench_file_event_def
        ij_level_is_enabled_trace ij_level_is_valid_iff)
qed

lemma temp_path_text:
  assumes "make_temp_path (CHR ''/'' # stem) bn k w = (Some path, w')"
  shows "c_text path \<noteq> []"
proof -
  have "\<exists>t. path = 0x2f # t"
    using assms by (auto simp: make_temp_path_def time_now_def snprintf_def Let_def split: if_splits)
  then show ?thesis by (auto simp: c_text_def)
qed

lemma bench_file_config_ok: "c_text path \<noteq> [] \<Longrightarrow> config_ok (bench_file_config path)"
proof -
  assume "c_text path \<noteq> []"
  moreover have "\<exists>k. 8 \<le> k \<and> k \<le> 16 \<and> IJ_QUEUE_CAPACITY_DEFAULT = 2 ^ k"
    by (intro exI [of _ 10]) (simp add: IJ_QUEUE_CAPACITY_DEFAULT_def)
  ultimately show ?thesis by (simp add: config_ok_def sink_settings_ok_def bench_file_config_def bench_config_def)
qed

text \<open>
  The benchmark \<open>bench_file_sink.c\<close> succeeds: with arguments that are accepted, a name for the temporary
  file that fits its buffer, and a system on which memory, stream, size and removal of the file work, the
  exit status is 0, whatever the number of iterations.
\<close>

theorem bench_file_succeeds:
  assumes "system_works (bn_os bn)" "\<And>c. bn_stat bn c"
    and "parse_arguments argv OUTPUT_HUMAN 20000 = Some (mode, n)"
    and "make_temp_path ''/tmp/iojournal-bench-file-'' bn 256 w = (Some path, w1)"
  shows "\<exists>live w'. bench_file_main cpu bn argv w = Some (0, live, w')"
proof -
  have "0 < n" by (rule parse_arguments_positive [OF assms(3)]) simp
  moreover have "cfg_file_backend (bench_file_config path) = IJ_FILE_BACKEND_AUTO"
    by (simp add: bench_file_config_def bench_config_def)
  ultimately obtain r live w' where "bench_file_run cpu bn (\<lambda>_. True) (bench_file_config path) bench_file_event (c_text path) n
      (unlink (bn_os bn) (c_text path) w1) = Some (Some r, live, w')"
    using bench_file_run_works [OF bench_configs(1) bench_file_config_ok _ assms(1,2) bench_file_loggable]
      temp_path_text [OF assms(4)] by blast
  with assms(3,4) show ?thesis by (simp add: bench_file_main_def bench_file_body_def)
qed

definition sample_bench :: bench where
  "sample_bench = \<lparr>bn_os = short_writer, bn_clock = (\<lambda>c. Some (0, of_nat c)), bn_pid = 1, bn_stat = (\<lambda>_. True)\<rparr>"

theorem bench_file_succeeds_witness:
  "\<exists>live w'. bench_file_main sample_cpu sample_bench [bytes ''--tsv''] start_world = Some (0, live, w')"
proof (rule bench_file_succeeds)
  show "system_works (bn_os sample_bench)"
    by (simp add: system_works_def sample_bench_def short_writer_def sample_alloc_def)
  show "bn_stat sample_bench c" for c by (simp add: sample_bench_def)
  show "parse_arguments [bytes ''--tsv''] OUTPUT_HUMAN 20000 = Some (OUTPUT_TSV, 20000)" by (simp add: strcmp_eq_def)
  show "make_temp_path ''/tmp/iojournal-bench-file-'' sample_bench 256 start_world =
      (Some (bytes ''/tmp/iojournal-bench-file-1-0.ndjson'' @ [0]), tick start_world)"
  proof -
    have "signed_decimal 1 = bytes ''1''" "signed_decimal 0 = bytes ''0''"
      by (simp_all add: signed_decimal_def decimal.simps [of 0] decimal.simps [of "Suc 0"] byte_of_def)
    then show ?thesis
      by (simp add: make_temp_path_def time_now_def sample_bench_def short_writer_def snprintf_def Let_def)
  qed
qed

end
