(* ===== verification/Bench_Simd.thy ===== *)
theory Bench_Simd
  imports Bench_File
begin

text \<open>
  The microbenchmark \<open>bench/bench_simd_scan.c\<close> of the scanners and matchers. It adds every answer to a
  checksum, which is printed at the end: the theorem below gives its value for every processor, so that
  the vector routines of a processor have given the answers of the scalar ones.
\<close>

section \<open>The program\<close>

fun ij_simd_kind_label :: "ij_simd_kind_t \<Rightarrow> byte list" where
  "ij_simd_kind_label IJ_SIMD_KIND_X86_AVX2 = bytes ''x86_avx2''"
| "ij_simd_kind_label IJ_SIMD_KIND_ARM_NEON = bytes ''arm_neon''"
| "ij_simd_kind_label IJ_SIMD_KIND_SCALAR = bytes ''scalar''"

definition ij_print_row :: "output_mode_t \<Rightarrow> byte list \<Rightarrow> size_t \<Rightarrow> nat \<Rightarrow> byte list" where
  "ij_print_row mode scenario iterations elapsed_ns =
     (let q = ns_per_op elapsed_ns iterations
      in if mode = OUTPUT_TSV then tsv_row (bytes ''bench_simd_scan'') scenario iterations elapsed_ns q
         else pad_right 24 scenario @ human_row iterations elapsed_ns q)"

definition json_payload :: "byte list" where
  "json_payload = bytes ''service=request path=/api/v1/items message=\"hello world\" region=eu-west-1 trace=req-42''"

definition redact_key :: "byte list" where
  "redact_key = bytes ''auth.token''"

definition redact_suffix :: "byte list" where
  "redact_suffix = bytes ''token''"

definition utf8_payload :: "byte list" where
  "utf8_payload = bytes ''0123456789ABCDEFGHIJKLMNOPQRSTUVWXYZabcdefghijklmnopqrstuvwxyz''"

text \<open>The loops: in each iteration the answers of the calls are added to \<open>ij_bench_sink\<close>.\<close>

fun add_answers :: "nat \<Rightarrow> nat list \<Rightarrow> 64 word \<Rightarrow> 64 word" where
  "add_answers 0 answers sink = sink"
| "add_answers (Suc n) answers sink = add_answers n answers (fold (\<lambda>a s. s + of_nat a) answers sink)"

text \<open>The timed sections in their order, each with its name and the answers of the calls of one iteration.\<close>

definition json_sections :: "cpu \<Rightarrow> bool \<Rightarrow> bool \<Rightarrow> (byte list \<times> nat list) list" where
  "json_sections cpu has_x86_avx2 has_arm_neon =
     [(bytes ''json_escape_scalar'', [ij_json_escape_scalar_find_first_special json_payload (length json_payload)]),
      (bytes ''json_escape_active'', [ij_json_escape_find_first_special cpu json_payload (length json_payload)])] @
     (if has_x86_avx2 then
        [(bytes ''json_escape_x86_avx2'', [ij_json_escape_x86_avx2_find_first_special cpu json_payload (length json_payload)])]
      else if has_arm_neon then
        [(bytes ''json_escape_arm_neon'', [ij_json_escape_arm_neon_find_first_special cpu json_payload (length json_payload)])]
      else [])"

definition redact_sections :: "cpu \<Rightarrow> bool \<Rightarrow> bool \<Rightarrow> (byte list \<times> nat list) list" where
  "redact_sections cpu has_x86_avx2 has_arm_neon =
     (let m = strlen redact_key; n = strlen redact_suffix
      in [(bytes ''redact_match_scalar'',
           [of_bool (ij_redact_case_equal_scalar redact_key m redact_suffix n), of_bool (ij_redact_has_dot_scalar redact_key m)]),
          (bytes ''redact_match_active'',
           [of_bool (ij_redact_case_equal redact_key m redact_suffix n), of_bool (ij_redact_has_dot redact_key m)])] @
         (if has_x86_avx2 then
            [(bytes ''redact_match_x86_avx2'',
              [of_bool (ij_redact_case_equal_x86_avx2 cpu redact_key m redact_suffix n), of_bool (ij_redact_has_dot_x86_avx2 cpu redact_key m)])]
          else if has_arm_neon then
            [(bytes ''redact_match_arm_neon'',
              [of_bool (ij_redact_case_equal_arm_neon cpu redact_key m redact_suffix n), of_bool (ij_redact_has_dot_arm_neon cpu redact_key m)])]
          else []))"

definition utf8_sections :: "cpu \<Rightarrow> bool \<Rightarrow> bool \<Rightarrow> (byte list \<times> nat list) list" where
  "utf8_sections cpu has_x86_avx2 has_arm_neon =
     [(bytes ''utf8_scalar'', [of_bool (ij_utf8_scalar_validate utf8_payload (length utf8_payload))]),
      (bytes ''utf8_active'', [of_bool (ij_utf8_is_valid_dispatch cpu utf8_payload (length utf8_payload))])] @
     (if has_x86_avx2 then
        [(bytes ''utf8_x86_avx2'', [of_bool (ij_utf8_x86_avx2_validate cpu utf8_payload (length utf8_payload))])]
      else if has_arm_neon then
        [(bytes ''utf8_arm_neon'', [of_bool (ij_utf8_arm_neon_validate cpu utf8_payload (length utf8_payload))])]
      else [])"

definition run_section ::
  "bench \<Rightarrow> output_mode_t \<Rightarrow> size_t \<Rightarrow> byte list \<times> nat list \<Rightarrow> byte list \<times> 64 word \<times> world \<Rightarrow> byte list \<times> 64 word \<times> world" where
  "run_section bn mode iterations = (\<lambda>(scenario, answers) (text, sink, w).
     let (start_ns, w) = ij_monotonic_ns bn w;
         sink = add_answers iterations answers sink;
         (now_ns, w) = ij_monotonic_ns bn w
     in (text @ ij_print_row mode scenario iterations (unat (now_ns - start_ns)), sink, w))"

definition simd_header :: "cpu \<Rightarrow> output_mode_t \<Rightarrow> size_t \<Rightarrow> byte list" where
  "simd_header cpu mode iterations =
     (let json = ij_simd_kind_label (ij_simd_json_escape_kind cpu);
          redact = ij_simd_kind_label (ij_simd_redact_match_kind cpu);
          utf8 = ij_simd_kind_label (ij_simd_utf8_kind cpu)
      in if mode = OUTPUT_TSV then
           tsv [bytes ''format'', bytes ''tsv'', bytes ''v1''] @
           tsv [bytes ''meta'', bytes ''iterations'', decimal iterations] @
           tsv [bytes ''meta'', bytes ''json_kind'', json] @ tsv [bytes ''meta'', bytes ''redact_kind'', redact] @
           tsv [bytes ''meta'', bytes ''utf8_kind'', utf8] @
           tsv [bytes ''columns'', bytes ''benchmark'', bytes ''scenario'', bytes ''iterations'', bytes ''elapsed_ns'', bytes ''ns_per_op'']
         else
           bytes ''iojournal benchmark: SIMD scan'' @ [0x0a] @ bytes ''iterations: '' @ decimal iterations @ [0x0a] @
           bytes ''json-kind: '' @ json @ [0x0a] @ bytes ''redact-kind: '' @ redact @ [0x0a] @
           bytes ''utf8-kind: '' @ utf8 @ [0x0a, 0x0a])"

definition simd_footer :: "output_mode_t \<Rightarrow> 64 word \<Rightarrow> byte list" where
  "simd_footer mode sink =
     (if mode = OUTPUT_TSV then tsv [bytes ''meta'', bytes ''bench_sink'', decimal (unat sink)]
      else bytes ''bench-sink: '' @ decimal (unat sink) @ [0x0a])"

definition simd_scan_main :: "cpu \<Rightarrow> bench \<Rightarrow> byte list list \<Rightarrow> world \<Rightarrow> int \<times> world" where
  "simd_scan_main cpu bn argv w =
     (let (has_x86_avx2, cpu) = ij_simd_runtime_has_x86_avx2 cpu;
          has_arm_neon = ij_simd_runtime_has_arm_neon cpu
      in case parse_arguments argv OUTPUT_HUMAN 200000 of
           None \<Rightarrow> (2, w)
         | Some (mode, iterations) \<Rightarrow>
             let (text, sink, w) =
                   fold (run_section bn mode iterations)
                     (json_sections cpu has_x86_avx2 has_arm_neon @ redact_sections cpu has_x86_avx2 has_arm_neon @
                      utf8_sections cpu has_x86_avx2 has_arm_neon)
                     (simd_header cpu mode iterations, 0, w)
             in (0, print (bn_os bn) (text @ simd_footer mode sink) w))"

section \<open>The checksum\<close>

lemma fold_answers: "fold (\<lambda>a s. s + of_nat a) answers (sink :: 64 word) = sink + of_nat (sum_list answers)"
  by (induction answers arbitrary: sink) (simp_all add: algebra_simps)

lemma add_answers_sum: "add_answers n answers sink = sink + of_nat (n * sum_list answers)"
  by (induction n arbitrary: sink) (simp_all add: fold_answers algebra_simps)

lemma run_sections_sink:
  "\<exists>rows w'. fold (run_section bn mode n) sections (out0, sink, w) =
     (out0 @ rows, sink + of_nat (n * sum_list (map (sum_list \<circ> snd) sections)), w')"
proof (induction sections arbitrary: out0 sink w)
  case (Cons s sections)
  obtain name answers where s: "s = (name, answers)" by fastforce
  obtain row v where r: "run_section bn mode n s (out0, sink, w) = (out0 @ row, sink + of_nat (n * sum_list answers), v)"
  proof -
    obtain t1 t2 where "ij_monotonic_ns bn w = (t1, tick w)" "ij_monotonic_ns bn (tick w) = (t2, tick (tick w))"
      using monotonic_tick by blast
    then show thesis by (intro that) (simp add: s run_section_def add_answers_sum)
  qed
  from Cons.IH [of "out0 @ row" "sink + of_nat (n * sum_list answers)" v] r show ?case
    by (auto simp: s algebra_simps)
qed simp

text \<open>The answers: the quotation mark stands at index 43, the key has a dot and is not the suffix, the text is valid.\<close>

lemma json_answer: "first_index json_special (c_mem json_payload (length json_payload)) = 43"
proof -
  have "c_mem json_payload (length json_payload) = json_payload" by (simp add: c_mem_def)
  also have "first_index json_special json_payload = 43" by code_simp
  finally show ?thesis .
qed

lemmas json_scanners = escape_scalar.find_first_index escape_dispatch.find_first_index escape_avx2_entry.find_first_index
  escape_neon_entry.find_first_index

lemmas redact_matchers = redact_scalar.case_equal_iff redact_dispatch.case_equal_iff redact_avx2.case_equal_iff
  redact_neon.case_equal_iff redact_scalar.has_dot_iff redact_dispatch.has_dot_iff redact_avx2.has_dot_iff redact_neon.has_dot_iff

lemmas utf8_validators = utf8_scalar.validate_is_utf8 utf8_dispatch.validate_is_utf8 utf8_avx2_entry.validate_is_utf8
  utf8_neon_entry.validate_is_utf8

lemma redact_answers: "lower (c_mem redact_key 10) \<noteq> lower (c_mem redact_suffix 5)" "0x2e \<in> set (c_mem redact_key 10)"
  "strlen redact_key = 10" "strlen redact_suffix = 5"
  by (simp_all add: redact_key_def redact_suffix_def lower_def c_mem_def strlen_def c_text_def)

lemma utf8_answer: "is_utf8 (c_mem utf8_payload (length utf8_payload))"
proof -
  have "c_mem utf8_payload (length utf8_payload) = utf8_payload" by (simp add: c_mem_def)
  moreover have "is_utf8 utf8_payload" by (rule is_utf8_ascii) (simp add: utf8_payload_def)
  ultimately show ?thesis by simp
qed

definition timed_groups :: "cpu \<Rightarrow> nat" where
  "timed_groups cpu = (if fst (ij_simd_runtime_has_x86_avx2 cpu) \<or> ij_simd_runtime_has_arm_neon cpu then 3 else 2)"

lemma section_sums:
  "sum_list (map (sum_list \<circ> snd) (json_sections cpu x n)) = (if x \<or> n then 3 else 2) * 43"
  "sum_list (map (sum_list \<circ> snd) (redact_sections cpu x n)) = (if x \<or> n then 3 else 2)"
  "sum_list (map (sum_list \<circ> snd) (utf8_sections cpu x n)) = (if x \<or> n then 3 else 2)"
  unfolding json_sections_def redact_sections_def utf8_sections_def json_scanners json_answer redact_answers(3,4) Let_def
    redact_matchers utf8_validators
  using redact_answers(1,2) utf8_answer by simp_all

text \<open>
  C33. The microbenchmark \<open>bench_simd_scan.c\<close> on every processor: exit status 2 is exactly a rejected argument;
  otherwise it prints a checksum of 45 for each iteration and each group of timed sections, of which there
  are three when the processor has a vector unit the library uses and two otherwise. The vector routines
  have then given the same answers as the scalar ones in every call.
\<close>

theorem simd_scan_checksum:
  "case parse_arguments argv OUTPUT_HUMAN 200000 of
     None \<Rightarrow> simd_scan_main cpu bn argv w = (2, w)
   | Some (mode, n) \<Rightarrow> \<exists>rows v. simd_scan_main cpu bn argv w =
       (0, print (bn_os bn) (rows @ simd_footer mode (of_nat (n * (timed_groups cpu * 45)))) v)"
proof (cases "parse_arguments argv OUTPUT_HUMAN 200000")
  case None
  then show ?thesis by (simp add: simd_scan_main_def split: prod.split)
next
  case (Some a)
  obtain mode n where a: "a = (mode, n)" by fastforce
  obtain x cpu' where c: "ij_simd_runtime_has_x86_avx2 cpu = (x, cpu')" by fastforce
  have arm: "ij_simd_runtime_has_arm_neon cpu' = ij_simd_runtime_has_arm_neon cpu"
    using c by (auto simp: ij_simd_runtime_has_x86_avx2_def ij_simd_runtime_has_arm_neon_def Let_def split: if_splits)
  let ?n = "ij_simd_runtime_has_arm_neon cpu'"
  obtain rows v where "fold (run_section bn mode n) (json_sections cpu' x ?n @ redact_sections cpu' x ?n @ utf8_sections cpu' x ?n)
      (simd_header cpu' mode n, 0, w) = (simd_header cpu' mode n @ rows, of_nat (n * (timed_groups cpu * 45)), v)"
    using run_sections_sink [of bn mode n "json_sections cpu' x ?n @ redact_sections cpu' x ?n @ utf8_sections cpu' x ?n"
        "simd_header cpu' mode n" 0 w]
    unfolding map_append sum_list_append section_sums by (auto simp: timed_groups_def c arm)
  then have "simd_scan_main cpu bn argv w =
      (0, print (bn_os bn) ((simd_header cpu' mode n @ rows) @ simd_footer mode (of_nat (n * (timed_groups cpu * 45)))) v)"
    using Some a c by (simp add: simd_scan_main_def)
  then show ?thesis unfolding Some a option.case prod.case by blast
qed

end
