(* ===== verification/Bench_Syslog.thy ===== *)
theory Bench_Syslog
  imports Bench_File Syslog_Examples
begin

text \<open>
  The benchmark \<open>bench/bench_syslog_udp.c\<close>: a receiver thread counts datagrams on a loopback socket while
  the main thread logs to it. The threads share nothing but the record of the receiver, which the main
  thread reads after the join, so that the receiver is a function of the answers of its \<open>recv\<close> calls and its
  result is taken at the join.
\<close>

section \<open>The receiver\<close>

record ij_udp_receiver_t =
  rc_listener_fd :: int
  rc_expected_messages :: size_t
  rc_received_messages :: size_t
  rc_recv_status :: int

text \<open>The answer of the \<open>i\<close>-th \<open>recv\<close>: a number of bytes, or minus the error number.\<close>

function receive_loop :: "(nat \<Rightarrow> int) \<Rightarrow> nat \<Rightarrow> ij_udp_receiver_t \<Rightarrow> int \<times> ij_udp_receiver_t" where
  "receive_loop recv i receiver =
     (if rc_received_messages receiver < rc_expected_messages receiver then
        if recv i < 0 then (1, receiver\<lparr>rc_recv_status := - recv i\<rparr>)
        else receive_loop recv (i + 1) (receiver\<lparr>rc_received_messages := rc_received_messages receiver + 1\<rparr>)
      else (0, receiver\<lparr>rc_recv_status := 0\<rparr>))"
  by pat_completeness auto
termination
  by (relation "measure (\<lambda>(recv, i, receiver). rc_expected_messages receiver - rc_received_messages receiver)") auto

declare receive_loop.simps [simp del]

fun ij_udp_receiver_main :: "(nat \<Rightarrow> int) \<Rightarrow> ij_udp_receiver_t option \<Rightarrow> int \<times> ij_udp_receiver_t option" where
  "ij_udp_receiver_main recv None = (1, None)"
| "ij_udp_receiver_main recv (Some receiver) = (let (rc, receiver) = receive_loop recv 0 receiver in (rc, Some receiver))"

section \<open>The program\<close>

record net_bench =
  nb_host :: host
  nb_clock :: bench
  nb_create :: bool
  nb_join :: bool
  nb_recv :: "nat \<Rightarrow> int"

text \<open>The answer of the first \<open>setsockopt\<close>, for the size of the receive buffer, is ignored.\<close>

definition bench_bind_udp_listener :: "host \<Rightarrow> bool \<Rightarrow> world \<Rightarrow> int \<times> 16 word option \<times> world" where
  "bench_bind_udp_listener h out_port w =
     (if \<not> out_port then (- 1, None, w)
      else
        let (fd, w) = socket (h_os h) w in
        if fd < 0 then (- 1, None, w)
        else
          let (_, w) = answer (h_setsockopt h) w;
              (ok, w) = answer (h_setsockopt h) w in
          if \<not> ok then (- 1, None, close_fd fd w)
          else
            let (ok, w) = answer (h_bind h) w in
            if \<not> ok then (- 1, None, close_fd fd w)
            else
              let (name, w) = answer (h_getsockname h) w in
              case name of
                None \<Rightarrow> (- 1, None, close_fd fd w)
              | Some port \<Rightarrow> (fd, Some port, w))"

definition bench_udp_event :: ij_event_t where
  "bench_udp_event =
     \<lparr>ev_timestamp = \<lparr>unix_seconds = 1710000000, nanoseconds = 789000000\<rparr>, ev_level = IJ_LEVEL_INFO,
      ev_event_name = Some (bytes ''bench.syslog_udp''),
      ev_message = Some (bytes ''benchmark payload for normalized RFC 5424 UDP loopback scenario''),
      ev_logger = Some (bytes ''bench.syslog_udp''), ev_attributes = None, ev_attribute_count = 0,
      ev_trace_id = None, ev_span_id = None, ev_trace_flags = 0, ev_has_trace_context = False,
      ev_source_file = Some (bytes ''bench/bench_syslog_udp.c''), ev_source_line = 1,
      ev_source_function = Some (bytes ''main'')\<rparr>"

definition bench_udp_config :: "16 word \<Rightarrow> ij_logger_config_t" where
  "bench_udp_config port =
     \<lparr>cfg_min_level = IJ_LEVEL_TRACE, cfg_sink_kind = IJ_SINK_KIND_SYSLOG,
      cfg_redaction_mode = IJ_REDACTION_MODE_ENABLED, cfg_queue_capacity = IJ_QUEUE_CAPACITY_DEFAULT,
      cfg_logger_name = Some (bytes ''bench.syslog_udp''),
      cfg_file_path = None, cfg_file_rotate_bytes = 0, cfg_file_rotate_interval_seconds = 0,
      cfg_file_retention_files = 0, cfg_file_backend = IJ_FILE_BACKEND_AUTO,
      cfg_syslog_host = Some (bytes ''127.0.0.1''), cfg_syslog_port = port,
      cfg_syslog_transport = IJ_SYSLOG_TRANSPORT_UDP, cfg_syslog_facility = IJ_SYSLOG_FACILITY_LOCAL4\<rparr>"

definition bench_udp_report :: "output_mode_t \<Rightarrow> size_t \<Rightarrow> 64 word \<Rightarrow> size_t \<Rightarrow> 64 word \<Rightarrow> byte list" where
  "bench_udp_report mode iterations elapsed received_messages status_sink =
     (let elapsed_ns = unat elapsed; q = ns_per_op elapsed_ns iterations
      in if mode = OUTPUT_TSV then
           tsv [bytes ''format'', bytes ''tsv'', bytes ''v1''] @
           tsv [bytes ''meta'', bytes ''iterations'', decimal iterations] @
           tsv [bytes ''meta'', bytes ''received_messages'', decimal received_messages] @
           tsv [bytes ''columns'', bytes ''benchmark'', bytes ''scenario'', bytes ''iterations'', bytes ''elapsed_ns'', bytes ''ns_per_op''] @
           tsv_row (bytes ''bench_syslog_udp'') (bytes ''udp_loopback'') iterations elapsed_ns q @
           tsv [bytes ''meta'', bytes ''status_sink'', decimal (unat status_sink)]
         else
           bytes ''iojournal benchmark: syslog udp'' @ [0x0a] @ bytes ''iterations: '' @ decimal iterations @ [0x0a] @
           bytes ''received-messages: '' @ decimal received_messages @ [0x0a] @
           bytes ''udp_loopback      '' @ human_row iterations elapsed_ns q @
           bytes ''status-sink: '' @ decimal (unat status_sink) @ [0x0a])"

text \<open>From the constructed logger on; the receiver is running.\<close>

definition bench_udp_run ::
  "cpu \<Rightarrow> net_bench \<Rightarrow> output_mode_t \<Rightarrow> size_t \<Rightarrow> int \<Rightarrow> ij_logger option \<Rightarrow> block list \<Rightarrow> world \<Rightarrow> (int \<times> block list \<times> world) option" where
  "bench_udp_run cpu nb mode iterations listener_fd logger live w =
     (let h = nb_host nb;
          receiver = \<lparr>rc_listener_fd = listener_fd, rc_expected_messages = iterations, rc_received_messages = 0, rc_recv_status = 0\<rparr>;
          (start_ns, w) = ij_monotonic_ns (nb_clock nb) w
      in case log_loop cpu (h_os h) bench_udp_event iterations logger 0 w of
           None \<Rightarrow> None
         | Some (ok, logger, status_sink, w) \<Rightarrow>
             if \<not> ok then give_up h logger live [listener_fd] 1 w
             else
               let (status, logger, w) = ij_logger_flush (h_os h) logger w in
               if status \<noteq> IJ_STATUS_OK then give_up h logger live [listener_fd] 1 w
               else
                 let (now_ns, w) = ij_monotonic_ns (nb_clock nb) w in
                 case ij_logger_shutdown (h_os h) logger live w of
                   None \<Rightarrow> None
                 | Some (status, live, w) \<Rightarrow>
                     if status \<noteq> IJ_STATUS_OK then Some (1, live, close_fd listener_fd w)
                     else if \<not> nb_join nb then Some (1, live, close_fd listener_fd w)
                     else if \<not> h_close h (w_calls w) then Some (1, live, close_fd listener_fd w)
                     else
                       let (_, joined) = ij_udp_receiver_main (nb_recv nb) (Some receiver);
                           receiver = deref joined receiver; w = close_fd listener_fd w in
                       if rc_recv_status receiver \<noteq> 0 \<or> rc_received_messages receiver \<noteq> iterations then Some (1, live, w)
                       else Some (0, live, print (h_os h)
                              (bench_udp_report mode iterations (now_ns - start_ns) (rc_received_messages receiver) status_sink) w))"

definition bench_udp_main :: "cpu \<Rightarrow> net_bench \<Rightarrow> byte list list \<Rightarrow> world \<Rightarrow> (int \<times> block list \<times> world) option" where
  "bench_udp_main cpu nb argv w =
     (case parse_arguments argv OUTPUT_HUMAN 5000 of
        None \<Rightarrow> Some (2, [], w)
      | Some (mode, iterations) \<Rightarrow>
          let h = nb_host nb; (listener_fd, port, w) = bench_bind_udp_listener h True w in
          if listener_fd < 0 then Some (1, [], w)
          else if \<not> nb_create nb then Some (1, [], close_fd listener_fd w)
          else
            case ij_logger_init (h_os h) True (Some (bench_udp_config (deref port 0))) w of
              None \<Rightarrow> None
            | Some (status, logger, live, w) \<Rightarrow>
                if status \<noteq> IJ_STATUS_OK then Some (1, live, close_fd listener_fd w)
                else bench_udp_run cpu nb mode iterations listener_fd logger live w)"

section \<open>The receiver counts\<close>

text \<open>The loop ends for every sequence of answers; it has counted all messages exactly when no answer was an error.\<close>

lemma receive_loop_result:
  assumes "rc_received_messages r \<le> rc_expected_messages r"
  shows "\<exists>rc k s. receive_loop recv i r = (rc, r\<lparr>rc_received_messages := rc_received_messages r + k, rc_recv_status := s\<rparr>) \<and>
    rc_received_messages r + k \<le> rc_expected_messages r \<and> (\<forall>j<k. 0 \<le> recv (i + j)) \<and>
    (if rc = 0 then s = 0 \<and> rc_received_messages r + k = rc_expected_messages r else rc = 1 \<and> 0 < s \<and> recv (i + k) = - s)"
  using assms
proof (induction recv i r rule: receive_loop.induct)
  case (1 recv i r)
  show ?case
  proof (cases "rc_received_messages r < rc_expected_messages r \<and> 0 \<le> recv i")
    case True
    let ?r = "r\<lparr>rc_received_messages := rc_received_messages r + 1\<rparr>"
    from 1 True obtain rc k s where
      l: "receive_loop recv (i + 1) ?r = (rc, ?r\<lparr>rc_received_messages := rc_received_messages ?r + k, rc_recv_status := s\<rparr>)"
      and h: "rc_received_messages ?r + k \<le> rc_expected_messages ?r" "\<forall>j<k. 0 \<le> recv (i + 1 + j)"
      "if rc = 0 then s = 0 \<and> rc_received_messages ?r + k = rc_expected_messages ?r else rc = 1 \<and> 0 < s \<and> recv (i + 1 + k) = - s"
      by auto
    have "\<forall>j<Suc k. 0 \<le> recv (i + j)"
    proof (intro allI impI)
      fix j assume "j < Suc k"
      then show "0 \<le> recv (i + j)" using True h(2) by (cases j) auto
    qed
    with l h True have "receive_loop recv i r = (rc, r\<lparr>rc_received_messages := rc_received_messages r + Suc k, rc_recv_status := s\<rparr>)
      \<and> rc_received_messages r + Suc k \<le> rc_expected_messages r \<and> (\<forall>j<Suc k. 0 \<le> recv (i + j)) \<and>
      (if rc = 0 then s = 0 \<and> rc_received_messages r + Suc k = rc_expected_messages r else rc = 1 \<and> 0 < s \<and> recv (i + Suc k) = - s)"
      by (simp add: receive_loop.simps [of recv i r] split: if_splits)
    then show ?thesis by blast
  next
    case False
    show ?thesis
    proof (cases "rc_received_messages r < rc_expected_messages r")
      case True
      with False show ?thesis
        by (intro exI [of _ 1] exI [of _ 0] exI [of _ "- recv i"]) (simp add: receive_loop.simps [of recv i r])
    next
      case full: False
      with 1(2) show ?thesis
        by (intro exI [of _ 0] exI [of _ 0] exI [of _ 0]) (simp add: receive_loop.simps [of recv i r])
    qed
  qed
qed

section \<open>The main thread\<close>

definition bench_udp_line :: "byte list" where
  "bench_udp_line =
     bytes ''<166>1 2024-03-09T16:00:00.789Z - bench.syslog_udp - - - benchmark payload for normalized RFC 5424 UDP loopback scenario''"

lemma bench_udp_config_sel:
  "cfg_sink_kind (bench_udp_config port) = IJ_SINK_KIND_SYSLOG"
  "cfg_syslog_transport (default_config (bench_udp_config port)) = IJ_SYSLOG_TRANSPORT_UDP"
  "ij_level_is_enabled (cfg_min_level (default_config (bench_udp_config port))) (ev_level bench_udp_event)"
  by (simp_all add: bench_udp_config_def default_config_syslog bench_udp_event_def ij_level_is_enabled_trace ij_level_is_valid_iff)

lemma bench_udp_logged: "logged_syslog (default_config (bench_udp_config port)) bench_udp_event = bench_udp_line"
proof -
  have n: "decimal 166 = bytes ''166''" by (simp add: decimal.simps byte_of_def)
  have a: "app_name (bytes ''bench.syslog_udp'') = bytes ''bench.syslog_udp''"
    by (simp add: app_name_def c_text_def sanitize_byte_def)
  have c: "c_text (bytes ''bench.syslog_udp'') = bytes ''bench.syslog_udp''"
    "c_text (bytes ''benchmark payload for normalized RFC 5424 UDP loopback scenario'') =
       bytes ''benchmark payload for normalized RFC 5424 UDP loopback scenario''" by (simp_all add: c_text_def)
  have v: "view_app v config = l" if "v_logger v = Some l" "l \<noteq> []" for v config l
    using that by (cases l) (simp_all add: view_app_def)
  have "gmtime 1710000000 = \<lparr>tm_year = 124, tm_mon = 2, tm_mday = 9, tm_hour = 16, tm_min = 0, tm_sec = 0\<rparr>" by code_simp
  then have t: "timestamp_text \<lparr>unix_seconds = 1710000000, nanoseconds = 789000000\<rparr> = bytes ''2024-03-09T16:00:00.789Z''"
    by (simp add: timestamp_text_def digit_writers byte_of_def)
  show ?thesis
    unfolding default_config_syslog unfolding logged_syslog_def view_syslog_line_def bench_udp_line_def
    by (subst v [of _ "bytes ''bench.syslog_udp''"])
      (simp_all add: input_view_def bench_udp_event_def bench_udp_config_def opt_text_def text_of_def c a n rfc5424_line_def
        t ij_syslog_severity_from_level_def IJ_SYSLOG_FACILITY_LOCAL4_def del: bytes_Cons, simp_all)
qed

lemma tick_datagrams [simp]: "w_datagrams (tick w) = w_datagrams w"
  by (simp add: tick_def)

lemma log_loop_udp:
  assumes b: "syslog_built logger live" and u: "cfg_syslog_transport (lg_config logger) = IJ_SYSLOG_TRANSPORT_UDP"
    and e: "ij_level_is_enabled (cfg_min_level (lg_config logger)) (ev_level event)"
  shows "\<exists>ok acc w'. log_loop cpu os event n (Some logger) acc0 w = Some (ok, Some logger, acc, w') \<and> closes [] w w' \<and>
    (ok \<longrightarrow> acc = acc0 \<and>
      w_datagrams w' = w_datagrams w @ replicate n (sl_address (lg_syslog_sink logger), logged_syslog (lg_config logger) event))"
proof (induction n arbitrary: acc0 w)
  case 0
  show ?case by (intro exI [of _ True]) simp
next
  case (Suc n)
  have a: "lg_active logger" "cfg_sink_kind (lg_config logger) = IJ_SINK_KIND_SYSLOG" using b by (simp_all add: syslog_built_def)
  obtain st l1 w1 cp where g: "ij_logger_log cpu os (Some logger) (Some event) w = Some (st, l1, w1, cp)" using log_safe by metis
  from log_closes [OF a e g] have l1: "l1 = Some logger" and c1: "closes [] w w1" by simp_all
  show ?case
  proof (cases "st = IJ_STATUS_OK")
    case False
    with g l1 have "log_loop cpu os event (Suc n) (Some logger) acc0 w = Some (False, Some logger, acc0 + of_nat (status_value st), w1)"
      by simp
    with c1 show ?thesis by blast
  next
    case True
    have d: "w_datagrams w1 = w_datagrams w @ [(sl_address (lg_syslog_sink logger), logged_syslog (lg_config logger) event)]"
      using a e g [unfolded True]
    proof (cases rule: log_syslog)
      case (sent mem)
      then show ?thesis
        using udp_write_cases [of os "lg_syslog_sink logger" mem _ "tick w" IJ_STATUS_OK w1] u
        by (simp add: tick_def del: ij_syslog_udp_write.simps)
    qed simp
    from Suc.IH [of acc0 w1] obtain ok acc w' where
      "log_loop cpu os event n (Some logger) acc0 w1 = Some (ok, Some logger, acc, w')" "closes [] w1 w'"
      "ok \<longrightarrow> acc = acc0 \<and>
        w_datagrams w' = w_datagrams w1 @ replicate n (sl_address (lg_syslog_sink logger), logged_syslog (lg_config logger) event)"
      by blast
    with g l1 True d closes_trans [OF c1, of "[]" w'] show ?thesis by simp
  qed
qed

text \<open>From the constructed logger on: the socket of the client and the listener are closed on every exit.\<close>

definition udp_counted :: "net_bench \<Rightarrow> size_t \<Rightarrow> int \<Rightarrow> int list \<Rightarrow> world \<Rightarrow> int \<Rightarrow> world \<Rightarrow> bool" where
  "udp_counted nb n fd failed w code w' \<longleftrightarrow>
     (\<exists>client\<ge>0. w_closed w' = w_closed w @ failed @ [client, fd]) \<and> code \<in> {0, 1} \<and>
     (code = 0 \<longrightarrow> (\<exists>addr. w_datagrams w' = w_datagrams w @ replicate n (addr, bench_udp_line)) \<and> (\<forall>j<n. 0 \<le> nb_recv nb j))"

lemma print_world: "w_closed (print os s w) = w_closed w" "w_datagrams (print os s w) = w_datagrams w"
  by (simp_all add: print_def writev_def Let_def tick_def)

lemma close_fd_world: "w_closed (close_fd fd w) = w_closed w @ [fd]" "w_datagrams (close_fd fd w) = w_datagrams w"
  by (simp_all add: close_fd_def tick_def)

lemma bench_udp_run_outcome:
  assumes b: "syslog_built logger live" and c: "lg_config logger = default_config (bench_udp_config port)"
  shows "\<exists>code w'. bench_udp_run cpu nb mode n fd (Some logger) live w = Some (code, [], w') \<and> udp_counted nb n fd [] w code w'"
proof -
  let ?os = "h_os (nb_host nb)" and ?fd = "sl_fd (lg_syslog_sink logger)"
  have a: "lg_active logger" "cfg_sink_kind (lg_config logger) = IJ_SINK_KIND_SYSLOG" and nn: "0 \<le> ?fd"
    using b by (simp_all add: syslog_built_def)
  obtain t1 where t1: "ij_monotonic_ns (nb_clock nb) w = (t1, tick w)" using monotonic_tick by blast
  from log_loop_udp [OF b, of bench_udp_event cpu ?os n 0 "tick w"] obtain ok acc w1 where
    g: "log_loop cpu ?os bench_udp_event n (Some logger) 0 (tick w) = Some (ok, Some logger, acc, w1)" and c1: "closes [] w w1"
    and d1: "ok \<longrightarrow> w_datagrams w1 = w_datagrams w @ replicate n (sl_address (lg_syslog_sink logger), bench_udp_line)"
    using bench_udp_config_sel(2,3) [of port] bench_udp_logged [of port] unfolding c by auto
  have fl: "ij_logger_flush ?os (Some logger) w1 = (IJ_STATUS_OK, Some logger, w1)"
    using flush_not_file [OF a(1)] a(2) by simp
  obtain t2 where t2: "ij_monotonic_ns (nb_clock nb) w1 = (t2, tick w1)" using monotonic_tick by blast
  show ?thesis
  proof (cases ok)
    case False
    with t1 g have "bench_udp_run cpu nb mode n fd (Some logger) live w = give_up (nb_host nb) (Some logger) live [fd] 1 w1"
      by (simp add: bench_udp_run_def)
    with give_up_outcome [OF b, of "nb_host nb" "[fd]" 1 w1] c1 nn show ?thesis by (auto simp: udp_counted_def closes_def)
  next
    case True
    obtain w2 where s: "ij_logger_shutdown ?os (Some logger) live (tick w1) = Some (IJ_STATUS_OK, [], w2)"
      "closes [?fd] (tick w1) w2" "w_datagrams w2 = w_datagrams (tick w1)" using built_shutdown [OF b] by metis
    let ?r = "\<lparr>rc_listener_fd = fd, rc_expected_messages = n, rc_received_messages = 0, rc_recv_status = 0\<rparr>"
    obtain rc k e where r: "receive_loop (nb_recv nb) 0 ?r = (rc, ?r\<lparr>rc_received_messages := k, rc_recv_status := e\<rparr>)"
      and pos: "\<forall>j<k. 0 \<le> nb_recv nb j"
      using receive_loop_result [of ?r "nb_recv nb" 0] by auto
    let ?ok = "nb_join nb \<and> h_close (nb_host nb) (w_calls w2) \<and> e = 0 \<and> k = n"
    have run: "bench_udp_run cpu nb mode n fd (Some logger) live w =
      (if ?ok then Some (0, [], print ?os (bench_udp_report mode n (t2 - t1) n acc) (close_fd fd w2)) else Some (1, [], close_fd fd w2))"
      using t1 g True fl t2 s(1) r by (simp add: bench_udp_run_def Let_def)
    have "w_closed (close_fd fd w2) = w_closed w @ [?fd, fd]" "w_datagrams (close_fd fd w2) = w_datagrams w1"
      using s c1 by (simp_all add: close_fd_world closes_def tick_def)
    with run d1 True pos nn show ?thesis
      by (cases ?ok) (auto simp: udp_counted_def print_world)
  qed
qed

lemma bench_listener_outcome:
  assumes "bench_bind_udp_listener h True w = (fd, port, w')"
  shows "0 \<le> fd \<Longrightarrow> w_closed w' = w_closed w \<and> w_datagrams w' = w_datagrams w"
  using assms
  by (auto simp: bench_bind_udp_listener_def answer_def socket_def Let_def close_fd_def tick_def
      split: option.splits if_splits)

text \<open>
  What a run of the program means. Exit status 2 is a rejected argument. When the listener is bound it is
  the last descriptor to be closed, on every exit, and once the logger is constructed its memory is freed
  and its socket closed. Exit status 0 means that one datagram with the line was sent for each iteration
  and that the receiver counted as many.
\<close>

definition udp_bench_ends :: "net_bench \<Rightarrow> byte list list \<Rightarrow> world \<Rightarrow> (int \<times> block list \<times> world) option \<Rightarrow> bool" where
  "udp_bench_ends nb argv w result \<longleftrightarrow>
     (case parse_arguments argv OUTPUT_HUMAN 5000 of
        None \<Rightarrow> result = Some (2, [], w)
      | Some (mode, n) \<Rightarrow>
          (case bench_bind_udp_listener (nb_host nb) True w of
             (fd, port, w1) \<Rightarrow>
               if fd < 0 then result = Some (1, [], w1)
               else \<exists>code live w' failed. result = Some (code, live, w') \<and>
                 (code = 1 \<and> w_closed w' = w_closed w @ failed @ [fd] \<or> live = [] \<and> udp_counted nb n fd failed w code w')))"


end
