(* ===== verification/Fd_Table.thy ===== *)
theory Fd_Table
  imports Bench_File
begin

text \<open>
  The descriptor table of a process, for the benchmark drivers that send standard output to the null
  device while they measure: \<open>open\<close> and \<open>dup\<close> take the lowest free descriptor below the limit of the process,
  \<open>dup2\<close> replaces an entry, \<open>close\<close> frees it. On top of it the routines of \<open>bench/bench_hot_path.c\<close> and
  \<open>bench/tier1/bench_tier1_common.h\<close> that redirect and restore a descriptor.
\<close>

section \<open>The table\<close>

datatype description = Inherited int | Null_Device | Opened_File "byte list"

type_synonym fd_table = "int \<Rightarrow> description option"

text \<open>
  The process: the world of the library, the table, what each open file description has received, and
  what stdio holds back of the standard output.
\<close>

record process =
  pr_world :: world
  pr_fds :: fd_table
  pr_out :: "description \<Rightarrow> byte list"
  pr_buffer :: "byte list"

text \<open>The answers to the calls below, by the number of the call, and the limit of descriptors.\<close>

record fd_env =
  fe_limit :: nat
  fe_open :: "nat \<Rightarrow> bool"
  fe_dup :: "nat \<Rightarrow> bool"
  fe_dup2 :: "nat \<Rightarrow> bool"
  fe_close :: "nat \<Rightarrow> bool"
  fe_fflush :: "nat \<Rightarrow> bool"
  fe_spill :: "nat \<Rightarrow> nat"

definition call_number :: "process \<Rightarrow> nat" where
  "call_number p = w_calls (pr_world p)"

definition set_fds :: "fd_table \<Rightarrow> process \<Rightarrow> process" where
  "set_fds fds p = p\<lparr>pr_fds := fds, pr_world := tick (pr_world p)\<rparr>"

definition lowest_free :: "nat \<Rightarrow> fd_table \<Rightarrow> int option" where
  "lowest_free limit fds = map_option int (find (\<lambda>k. fds (int k) = None) [0..<limit])"

definition fd_open :: "fd_env \<Rightarrow> description \<Rightarrow> process \<Rightarrow> int \<times> process" where
  "fd_open env d p =
     (case lowest_free (fe_limit env) (pr_fds p) of
        Some fd \<Rightarrow> if fe_open env (call_number p) then (fd, set_fds ((pr_fds p)(fd \<mapsto> d)) p) else (- 1, set_fds (pr_fds p) p)
      | None \<Rightarrow> (- 1, set_fds (pr_fds p) p))"

definition fd_dup :: "fd_env \<Rightarrow> int \<Rightarrow> process \<Rightarrow> int \<times> process" where
  "fd_dup env old p =
     (case (pr_fds p old, lowest_free (fe_limit env) (pr_fds p)) of
        (Some d, Some fd) \<Rightarrow>
          if fe_dup env (call_number p) then (fd, set_fds ((pr_fds p)(fd \<mapsto> d)) p) else (- 1, set_fds (pr_fds p) p)
      | _ \<Rightarrow> (- 1, set_fds (pr_fds p) p))"

definition fd_dup2 :: "fd_env \<Rightarrow> int \<Rightarrow> int \<Rightarrow> process \<Rightarrow> int \<times> process" where
  "fd_dup2 env old new p =
     (case pr_fds p old of
        Some d \<Rightarrow> if fe_dup2 env (call_number p) then (new, set_fds ((pr_fds p)(new \<mapsto> d)) p) else (- 1, set_fds (pr_fds p) p)
      | None \<Rightarrow> (- 1, set_fds (pr_fds p) p))"

text \<open>A descriptor is free after \<open>close\<close> also when the call reports an error.\<close>

definition fd_close :: "fd_env \<Rightarrow> int \<Rightarrow> process \<Rightarrow> int \<times> process" where
  "fd_close env fd p =
     (if pr_fds p fd \<noteq> None \<and> fe_close env (call_number p) then 0 else - 1, set_fds ((pr_fds p)(fd := None)) p)"

section \<open>Redirection\<close>

text \<open>
  The common body of the redirecting routines: \<open>d\<close> is what \<open>open\<close> opens. The second component is the
  output parameter, if it was set.
\<close>

definition redirect_fd :: "fd_env \<Rightarrow> description \<Rightarrow> int \<Rightarrow> process \<Rightarrow> int \<times> int option \<times> process" where
  "redirect_fd env d fd p =
     (let (output_fd, p) = fd_open env d p in
      if output_fd < 0 then (- 1, None, p)
      else
        let (saved_fd, p) = fd_dup env fd p in
        if saved_fd < 0 then (- 1, None, snd (fd_close env output_fd p))
        else
          let (r, p) = fd_dup2 env output_fd fd p in
          if r < 0 then (- 1, None, snd (fd_close env output_fd (snd (fd_close env saved_fd p))))
          else (0, Some saved_fd, snd (fd_close env output_fd p)))"

definition bench_redirect_fd_to_devnull :: "fd_env \<Rightarrow> int \<Rightarrow> bool \<Rightarrow> process \<Rightarrow> int \<times> int option \<times> process" where
  "bench_redirect_fd_to_devnull env fd out_saved_fd p =
     (if \<not> out_saved_fd then (- 1, None, p) else redirect_fd env Null_Device fd p)"

definition bench_redirect_fd_to_path :: "fd_env \<Rightarrow> cstring \<Rightarrow> int \<Rightarrow> bool \<Rightarrow> process \<Rightarrow> int \<times> int option \<times> process" where
  "bench_redirect_fd_to_path env path fd out_saved_fd p =
     (case path of
        None \<Rightarrow> (- 1, None, p)
      | Some path \<Rightarrow> if \<not> out_saved_fd then (- 1, None, p) else redirect_fd env (Opened_File (c_text path)) fd p)"

definition bench_restore_fd :: "fd_env \<Rightarrow> int \<Rightarrow> int \<Rightarrow> process \<Rightarrow> int \<times> process" where
  "bench_restore_fd env saved_fd fd p =
     (if saved_fd < 0 then (- 1, p)
      else
        let (r, p) = fd_dup2 env saved_fd fd p in
        if r < 0 then (- 1, snd (fd_close env saved_fd p)) else fd_close env saved_fd p)"

section \<open>Standard output\<close>

text \<open>Bytes written to descriptor 1 reach the description it names.\<close>

definition deliver :: "byte list \<Rightarrow> process \<Rightarrow> process" where
  "deliver bs p =
     (case pr_fds p 1 of
        None \<Rightarrow> p
      | Some d \<Rightarrow> p\<lparr>pr_out := (pr_out p)(d := pr_out p d @ bs)\<rparr>)"

text \<open>stdio may pass on any part of what it holds at every call; \<open>fflush\<close> passes on all of it or fails.\<close>

definition spill :: "nat \<Rightarrow> process \<Rightarrow> process" where
  "spill k p = (deliver (take k (pr_buffer p)) p)\<lparr>pr_buffer := drop k (pr_buffer p), pr_world := tick (pr_world p)\<rparr>"

definition printf :: "fd_env \<Rightarrow> byte list \<Rightarrow> process \<Rightarrow> process" where
  "printf env s p = spill (fe_spill env (call_number p)) (p\<lparr>pr_buffer := pr_buffer p @ s\<rparr>)"

definition fflush_stdout :: "fd_env \<Rightarrow> process \<Rightarrow> bool \<times> process" where
  "fflush_stdout env p =
     (if fe_fflush env (call_number p) then (True, spill (length (pr_buffer p)) p)
      else (False, spill (fe_spill env (call_number p)) p))"

definition ij_redirect_stdout_to_devnull :: "fd_env \<Rightarrow> bool \<Rightarrow> process \<Rightarrow> int \<times> int option \<times> process" where
  "ij_redirect_stdout_to_devnull env out_saved_fd p =
     (if \<not> out_saved_fd then (- 1, None, p) else redirect_fd env Null_Device 1 p)"

definition ij_restore_stdout :: "fd_env \<Rightarrow> int \<Rightarrow> process \<Rightarrow> int \<times> process" where
  "ij_restore_stdout env saved_fd p =
     (if saved_fd < 0 then (- 1, p)
      else
        let (flushed, p) = fflush_stdout env p in
        if \<not> flushed then (- 1, snd (fd_close env saved_fd p))
        else
          let (r, p) = fd_dup2 env saved_fd 1 p in
          if r < 0 then (- 1, snd (fd_close env saved_fd p)) else fd_close env saved_fd p)"

section \<open>Properties of the table\<close>

lemma set_fds_sel [simp]:
  "pr_fds (set_fds t p) = t" "pr_out (set_fds t p) = pr_out p" "pr_buffer (set_fds t p) = pr_buffer p"
  "w_stdout (pr_world (set_fds t p)) = w_stdout (pr_world p)" "w_closed (pr_world (set_fds t p)) = w_closed (pr_world p)"
  by (simp_all add: set_fds_def tick_def)

lemma lowest_free_some:
  assumes "lowest_free n t = Some fd"
  shows "t fd = None" "0 \<le> fd" "\<And>k. 0 \<le> k \<Longrightarrow> k < fd \<Longrightarrow> t k \<noteq> None"
proof -
  obtain i where i: "find (\<lambda>k. t (int k) = None) [0..<n] = Some i" "fd = int i" using assms by (auto simp: lowest_free_def)
  obtain j where j: "j < n" "t (int j) = None" "j = i" "\<forall>k<j. t (int k) \<noteq> None" using i(1) by (auto simp: find_Some_iff)
  from i(2) j show "t fd = None" "0 \<le> fd" by simp_all
  show "t k \<noteq> None" if "0 \<le> k" "k < fd" for k
  proof -
    have "nat k < j" "int (nat k) = k" using that i(2) j(3) by auto
    with j(4) show ?thesis by metis
  qed
qed

text \<open>The frame of a call that only touches the table.\<close>

definition same_but_fds :: "process \<Rightarrow> process \<Rightarrow> bool" where
  "same_but_fds p p' \<longleftrightarrow> pr_out p' = pr_out p \<and> pr_buffer p' = pr_buffer p \<and>
     w_stdout (pr_world p') = w_stdout (pr_world p) \<and> w_closed (pr_world p') = w_closed (pr_world p)"

lemma same_set_fds [simp]: "same_but_fds p (set_fds t p)"
  by (simp add: same_but_fds_def)

lemma same_but_trans: "same_but_fds p q \<Longrightarrow> same_but_fds q r \<Longrightarrow> same_but_fds p r"
  by (simp add: same_but_fds_def)

lemma fd_close_effect: "fd_close env fd p = (r, p') \<Longrightarrow> pr_fds p' = (pr_fds p)(fd := None) \<and> same_but_fds p p'"
  by (auto simp: fd_close_def)

lemma fd_open_cases:
  assumes "fd_open env d p = (fd, p')"
  obtains (fail) "fd = - 1" "pr_fds p' = pr_fds p" "same_but_fds p p'"
  | (ok) "lowest_free (fe_limit env) (pr_fds p) = Some fd" "pr_fds p' = (pr_fds p)(fd \<mapsto> d)" "same_but_fds p p'"
  using assms by (auto simp: fd_open_def split: option.splits if_splits)

lemma fd_dup_cases:
  assumes "fd_dup env old p = (fd, p')"
  obtains (fail) "fd = - 1" "pr_fds p' = pr_fds p" "same_but_fds p p'"
  | (ok) d where "pr_fds p old = Some d" "lowest_free (fe_limit env) (pr_fds p) = Some fd" "pr_fds p' = (pr_fds p)(fd \<mapsto> d)" "same_but_fds p p'"
  using assms by (auto simp: fd_dup_def split: option.splits if_splits)

lemma fd_dup2_cases:
  assumes "fd_dup2 env old new p = (r, p')" "0 \<le> new"
  obtains (fail) "r = - 1" "pr_fds p' = pr_fds p" "same_but_fds p p'"
  | (ok) d where "pr_fds p old = Some d" "r = new" "pr_fds p' = (pr_fds p)(new \<mapsto> d)" "same_but_fds p p'"
  using assms by (auto simp: fd_dup2_def split: option.splits if_splits)

text \<open>
  A redirection of an open descriptor either fails and leaves the table as it was, or puts the new
  description in its place and keeps the old one under a descriptor that was free; the latter is never 0.
\<close>

lemma redirect_cases:
  assumes "redirect_fd env d fd p = (r, saved, p')" "pr_fds p fd = Some old" "0 \<le> fd"
  obtains (fail) "r = - 1" "saved = None" "pr_fds p' = pr_fds p" "same_but_fds p p'"
  | (ok) s where "r = 0" "saved = Some s" "0 < s" "s \<noteq> fd" "pr_fds p s = None"
      "pr_fds p' = (pr_fds p)(fd \<mapsto> d, s \<mapsto> old)" "same_but_fds p p'"
proof -
  obtain o1 p1 where e1: "fd_open env d p = (o1, p1)" by fastforce
  obtain s2 p2 where e2: "fd_dup env fd p1 = (s2, p2)" by fastforce
  obtain r3 p3 where e3: "fd_dup2 env o1 fd p2 = (r3, p3)" by fastforce
  obtain r4 p4 where e4: "fd_close env o1 p2 = (r4, p4)" by fastforce
  obtain r5 p5 where e5: "fd_close env s2 p3 = (r5, p5)" by fastforce
  obtain r6 p6 where e6: "fd_close env o1 p5 = (r6, p6)" by fastforce
  obtain r7 p7 where e7: "fd_close env o1 p3 = (r7, p7)" by fastforce
  note red = assms(1) [unfolded redirect_fd_def Let_def e1 split_conv e2 e3 e4 e5 e6 e7 snd_conv]
  note cl = fd_close_effect [OF e4] fd_close_effect [OF e5] fd_close_effect [OF e6] fd_close_effect [OF e7]
  show thesis
  proof (cases rule: fd_open_cases [OF e1])
    case 1
    then show thesis using red fail by simp
  next
    case 2
    note o = lowest_free_some [OF 2(1)]
    have of: "o1 \<noteq> fd" using o(1) assms(2) by auto
    show thesis
    proof (cases rule: fd_dup_cases [OF e2])
      case d: 1
      have "pr_fds p4 = pr_fds p" using d(2) 2(2) cl(1) o(1) by auto
      with d o(2) red cl(1) 2(3) fail show thesis by (auto simp: same_but_fds_def)
    next
      case d: (2 old')
      note s = lowest_free_some [OF d(2)]
      have old: "old' = old" using d(1) 2(2) of assms(2) by simp
      have so: "s2 \<noteq> o1" "pr_fds p s2 = None" using s(1) 2(2) by (auto split: if_splits)
      then have sf: "s2 \<noteq> fd" using assms(2) by auto
      have pos: "0 < s2"
      proof (rule ccontr)
        assume "\<not> 0 < s2"
        with s(2) have "s2 = 0" by simp
        with so o(2) o(3) [of 0] show False by auto
      qed
      show thesis
      proof (cases rule: fd_dup2_cases [OF e3 assms(3)])
        case u: 1
        have "pr_fds p6 = pr_fds p" using u(2) d(3) 2(2) cl(2,3) o(1) so by auto
        with u d s(2) o(2) red cl(2,3) 2(3) fail show thesis by (auto simp: same_but_fds_def)
      next
        case u: (2 d')
        have "pr_fds p7 = (pr_fds p)(fd \<mapsto> d, s2 \<mapsto> old)"
          using u(1,3) d(3) 2(2) cl(4) o(1) so sf of old by auto
        with u d s(2) o(2) red cl(4) 2(3) assms(3) so sf pos show thesis
          by (intro ok [of s2]) (auto simp: same_but_fds_def)
      qed
    qed
  qed
qed

lemma restore_cases:
  assumes "bench_restore_fd env s fd p = (r, p')" "pr_fds p s = Some old" "0 \<le> s" "0 \<le> fd" "s \<noteq> fd"
  obtains (fail) "r = - 1" "pr_fds p' = (pr_fds p)(s := None)" "same_but_fds p p'"
  | (ok) "r = 0 \<or> r = - 1" "pr_fds p' = (pr_fds p)(fd \<mapsto> old, s := None)" "same_but_fds p p'"
proof -
  obtain r1 p1 where e1: "fd_dup2 env s fd p = (r1, p1)" by fastforce
  obtain r2 p2 where e2: "fd_close env s p1 = (r2, p2)" by fastforce
  note red = assms(1) [unfolded bench_restore_fd_def Let_def e1 split_conv e2 snd_conv]
  note cl = fd_close_effect [OF e2]
  have r2: "r2 = 0 \<or> r2 = - 1" using e2 by (simp add: fd_close_def split: if_splits)
  show thesis
  proof (cases rule: fd_dup2_cases [OF e1 assms(4)])
    case 1
    then show thesis using red assms(3) cl fail by (auto simp: same_but_fds_def)
  next
    case (2 d)
    then show thesis using red assms(2-5) cl r2 ok by (auto simp: same_but_fds_def)
  qed
qed

text \<open>The restoring routine of the hot path benchmark flushes first; the frame of a flush.\<close>

lemma deliver_sel [simp]:
  "pr_fds (deliver bs p) = pr_fds p" "pr_world (deliver bs p) = pr_world p" "pr_buffer (deliver bs p) = pr_buffer p"
  by (simp_all add: deliver_def split: option.split)

lemma spill_sel [simp]:
  "pr_fds (spill k p) = pr_fds p" "w_stdout (pr_world (spill k p)) = w_stdout (pr_world p)"
  "w_closed (pr_world (spill k p)) = w_closed (pr_world p)" "pr_buffer (spill k p) = drop k (pr_buffer p)"
  by (simp_all add: spill_def tick_def)

lemma spill_out: "pr_fds p 1 = Some d \<Longrightarrow> pr_out (spill k p) = (pr_out p)(d := pr_out p d @ take k (pr_buffer p))"
  by (simp add: spill_def deliver_def)

lemma spill_empty: "pr_buffer p = [] \<Longrightarrow> pr_out (spill k p) = pr_out p"
  by (simp add: spill_def deliver_def fun_eq_iff split: option.split)

lemma fflush_cases:
  assumes "fflush_stdout env p = (ok, p')"
  obtains k where "p' = spill k p" "ok \<longrightarrow> pr_buffer p' = []"
  using assms by (auto simp: fflush_stdout_def split: if_splits)

lemma restore_stdout_cases:
  assumes "ij_restore_stdout env s p = (r, p')" "pr_fds p s = Some old" "0 \<le> s" "s \<noteq> 1" "pr_buffer p = []"
  obtains (fail) "r = - 1" "pr_fds p' = (pr_fds p)(s := None)" "same_but_fds p p'"
  | (ok) "r = 0 \<or> r = - 1" "pr_fds p' = (pr_fds p)(1 \<mapsto> old, s := None)" "same_but_fds p p'"
proof -
  obtain flushed p1 where e1: "fflush_stdout env p = (flushed, p1)" by fastforce
  from fflush_cases [OF e1] obtain k where p1: "p1 = spill k p" by metis
  have s1: "same_but_fds p p1" using assms(5) spill_empty [OF assms(5)] by (simp add: p1 same_but_fds_def)
  obtain r2 p2 where e2: "fd_close env s p1 = (r2, p2)" by fastforce
  show thesis
  proof (cases flushed)
    case False
    then have "r = - 1" "p' = p2" using assms(1,3) e1 e2 by (simp_all add: ij_restore_stdout_def)
    with fd_close_effect [OF e2] s1 p1 fail show thesis by (simp add: same_but_trans [OF s1])
  next
    case True
    then have b: "bench_restore_fd env s 1 p1 = (r, p')"
      using assms(1,3) e1 by (simp add: ij_restore_stdout_def bench_restore_fd_def)
    have "pr_fds p1 s = Some old" using assms(2) p1 by simp
    have one: "(0 :: int) \<le> 1" by simp
    show thesis
    proof (cases rule: restore_cases [OF b \<open>pr_fds p1 s = Some old\<close> assms(3) one assms(4)])
      case 1
      then show thesis using fail p1 same_but_trans [OF s1] by simp
    next
      case 2
      then show thesis using ok p1 same_but_trans [OF s1] by simp
    qed
  qed
qed

section \<open>Round trip\<close>

text \<open>
  Redirecting a descriptor of a process, to the null device or to a file, and restoring it: a
  redirection that fails leaves the descriptor table as it was, with nothing left open; after one that
  succeeds the descriptor names the new file, and restoring with success gives exactly the table from
  before, so that no descriptor is lost. Nothing is written and no output is held back meanwhile.
\<close>

theorem redirect_restore_roundtrip:
  assumes "0 \<le> fd" "pr_fds p fd = Some old"
    and "bench_redirect_fd_to_devnull env fd True p = (r, saved, p1) \<and> d = Null_Device \<or>
         bench_redirect_fd_to_path env (Some path) fd True p = (r, saved, p1) \<and> d = Opened_File (c_text path)"
  shows "if r = 0 then \<exists>s. saved = Some s \<and> pr_fds p1 fd = Some d \<and> same_but_fds p p1 \<and>
           (case bench_restore_fd env s fd p1 of
              (r', p2) \<Rightarrow> same_but_fds p p2 \<and>
                (if r' = 0 then pr_fds p2 = pr_fds p else pr_fds p2 \<in> {pr_fds p, (pr_fds p)(fd \<mapsto> d)}))
         else r = - 1 \<and> saved = None \<and> pr_fds p1 = pr_fds p \<and> same_but_fds p p1"
proof -
  have red: "redirect_fd env d fd p = (r, saved, p1)"
    using assms(3) by (auto simp: bench_redirect_fd_to_devnull_def bench_redirect_fd_to_path_def)
  show ?thesis
  proof (cases rule: redirect_cases [OF red assms(2,1)])
    case 1
    then show ?thesis by simp
  next
    case (2 s)
    obtain r' p2 where e: "bench_restore_fd env s fd p1 = (r', p2)" by fastforce
    have "pr_fds p1 s = Some old" using 2 by simp
    from restore_cases [OF e this _ assms(1) 2(4)] 2(3)
    have "same_but_fds p1 p2 \<and> (if r' = 0 then pr_fds p2 = (pr_fds p1)(fd \<mapsto> old, s := None)
        else pr_fds p2 \<in> {(pr_fds p1)(fd \<mapsto> old, s := None), (pr_fds p1)(s := None)})"
      by (metis insertCI less_imp_le zero_neq_neg_one)
    moreover have "(pr_fds p1)(fd \<mapsto> old, s := None) = pr_fds p" "(pr_fds p1)(s := None) = (pr_fds p)(fd \<mapsto> d)"
      using 2 assms(2) by (auto simp: fun_eq_iff)
    ultimately show ?thesis
      using 2 e same_but_trans [OF 2(7)] by (auto split: if_splits)
  qed
qed

definition sample_process :: process where
  "sample_process = \<lparr>pr_world = start_world, pr_fds = [0 \<mapsto> Inherited 0, 1 \<mapsto> Inherited 1, 2 \<mapsto> Inherited 2],
     pr_out = (\<lambda>_. []), pr_buffer = []\<rparr>"

definition working_fds :: fd_env where
  "working_fds = \<lparr>fe_limit = 16, fe_open = (\<lambda>_. True), fe_dup = (\<lambda>_. True), fe_dup2 = (\<lambda>_. True), fe_close = (\<lambda>_. True),
     fe_fflush = (\<lambda>_. True), fe_spill = (\<lambda>_. 0)\<rparr>"

lemma redirect_sample:
  "bench_redirect_fd_to_devnull working_fds 1 True sample_process = (0, Some 4,
     sample_process\<lparr>pr_world := (tick ^^ 4) start_world,
       pr_fds := [0 \<mapsto> Inherited 0, 1 \<mapsto> Null_Device, 2 \<mapsto> Inherited 2, 4 \<mapsto> Inherited 1]\<rparr>)"
proof -
  have up: "[0..<16] = [0, 1, 2, 3, 4] @ [5..<16]" by (simp add: upt_conv_Cons)
  show ?thesis
    by (simp add: bench_redirect_fd_to_devnull_def redirect_fd_def fd_open_def fd_dup_def fd_dup2_def fd_close_def
        lowest_free_def up working_fds_def sample_process_def set_fds_def eval_nat_numeral fun_eq_iff)
qed

theorem redirect_restore_roundtrip_witness:
  "\<exists>p1 p2. bench_redirect_fd_to_devnull working_fds 1 True sample_process = (0, Some 4, p1) \<and> pr_fds p1 1 = Some Null_Device \<and>
     bench_restore_fd working_fds 4 1 p1 = (0, p2) \<and> pr_fds p2 = pr_fds sample_process"
proof -
  obtain p1 where p1: "bench_redirect_fd_to_devnull working_fds 1 True sample_process = (0, Some 4, p1)"
    "pr_fds p1 4 = Some (Inherited 1)"
    by (simp add: redirect_sample)
  obtain r p2 where e: "bench_restore_fd working_fds 4 1 p1 = (r, p2)" by fastforce
  have "r = 0" using e p1(2) by (simp add: bench_restore_fd_def fd_dup2_def fd_close_def working_fds_def)
  moreover have "pr_fds sample_process 1 = Some (Inherited 1)" by (simp add: sample_process_def)
  ultimately show ?thesis
    using redirect_restore_roundtrip [of 1 sample_process "Inherited 1" working_fds 0 "Some 4" p1 Null_Device] p1(1) e by simp
qed

end
