(* ===== verification/Bench_Hot_Path.thy ===== *)
theory Bench_Hot_Path
  imports Fd_Table Syslog_Examples
begin

text \<open>
  The hot path benchmark \<open>bench/bench_hot_path.c\<close>: its arguments, the scenarios that log from one thread with
  standard output sent to the null device, and the main program over them. The scenario with several
  producer threads is the subject of \<open>Bench_Contention\<close> and a parameter of the main program here.
\<close>

section \<open>Arguments\<close>

datatype scenario_mode_t =
    SCENARIO_DISABLED_LEVEL | SCENARIO_ENABLED_CONSOLE | SCENARIO_MEDIUM_MESSAGE
  | SCENARIO_MEDIUM_MESSAGE_WITH_METADATA | SCENARIO_CONTENTION_MPSC | SCENARIO_ALL

fun ij_parse_scenario :: "cstring \<Rightarrow> scenario_mode_t option \<Rightarrow> bool \<times> scenario_mode_t option" where
  "ij_parse_scenario (Some s) (Some out_scenario) =
     (if strcmp_eq s (bytes ''disabled_level'') then (True, Some SCENARIO_DISABLED_LEVEL)
      else if strcmp_eq s (bytes ''enabled_console'') then (True, Some SCENARIO_ENABLED_CONSOLE)
      else if strcmp_eq s (bytes ''medium_message'') then (True, Some SCENARIO_MEDIUM_MESSAGE)
      else if strcmp_eq s (bytes ''medium_message_with_metadata'') then (True, Some SCENARIO_MEDIUM_MESSAGE_WITH_METADATA)
      else if strcmp_eq s (bytes ''contention_mpsc'') then (True, Some SCENARIO_CONTENTION_MPSC)
      else if strcmp_eq s (bytes ''all'') then (True, Some SCENARIO_ALL)
      else (False, Some out_scenario))"
| "ij_parse_scenario _ out_scenario = (False, out_scenario)"

text \<open>\<open>None\<close> is the usage message and exit status 2.\<close>

fun parse_hot_arguments ::
  "byte list list \<Rightarrow> output_mode_t \<Rightarrow> scenario_mode_t \<Rightarrow> size_t \<Rightarrow> (output_mode_t \<times> scenario_mode_t \<times> size_t) option" where
  "parse_hot_arguments [] mode scenario iterations = Some (mode, scenario, iterations)"
| "parse_hot_arguments (arg # argv) mode scenario iterations =
     (if strcmp_eq arg (bytes ''--tsv'') then parse_hot_arguments argv OUTPUT_TSV scenario iterations
      else if strcmp_eq arg (bytes ''--scenario'') then
        (case argv of
           [] \<Rightarrow> None
         | name # rest \<Rightarrow>
             (case ij_parse_scenario (Some name) (Some scenario) of
                (True, Some scenario) \<Rightarrow> parse_hot_arguments rest mode scenario iterations
              | _ \<Rightarrow> None))
      else
        case ij_parse_iterations (Some arg) (Some iterations) of
          (True, Some iterations) \<Rightarrow> parse_hot_arguments argv mode scenario iterations
        | _ \<Rightarrow> None)"

section \<open>Events and configurations\<close>

definition hot_console_event :: ij_event_t where
  "hot_console_event =
     \<lparr>ev_timestamp = \<lparr>unix_seconds = 1710000000, nanoseconds = 123000000\<rparr>, ev_level = IJ_LEVEL_INFO,
      ev_event_name = Some (bytes ''bench.hot_path''),
      ev_message = Some (bytes ''benchmark event payload for normalized hot-path scenarios''),
      ev_logger = Some (bytes ''bench.hot_path''),
      ev_attributes = Some (request_token ''req-bench-hot'' 13 ''bench-secret-token'' 18), ev_attribute_count = 2,
      ev_trace_id = None, ev_span_id = None, ev_trace_flags = 0, ev_has_trace_context = False,
      ev_source_file = Some (bytes ''bench/bench_hot_path.c''), ev_source_line = 1,
      ev_source_function = Some (bytes ''main'')\<rparr>"

definition hot_medium_event :: ij_event_t where
  "hot_medium_event =
     \<lparr>ev_timestamp = \<lparr>unix_seconds = 1710000000, nanoseconds = 123000000\<rparr>, ev_level = IJ_LEVEL_INFO,
      ev_event_name = Some (bytes ''bench.medium_message''),
      ev_message = Some (bytes ''normalized medium message payload for shared comparison without metadata''),
      ev_logger = Some (bytes ''bench.hot_path.medium''), ev_attributes = None, ev_attribute_count = 0,
      ev_trace_id = None, ev_span_id = None, ev_trace_flags = 0, ev_has_trace_context = False,
      ev_source_file = Some (bytes ''bench/bench_hot_path.c''), ev_source_line = 1,
      ev_source_function = Some (bytes ''main'')\<rparr>"

definition hot_metadata_event :: ij_event_t where
  "hot_metadata_event =
     \<lparr>ev_timestamp = \<lparr>unix_seconds = 1710000000, nanoseconds = 123000000\<rparr>, ev_level = IJ_LEVEL_INFO,
      ev_event_name = Some (bytes ''bench.medium_message_with_metadata''),
      ev_message = Some (bytes ''normalized medium message payload for shared comparison with metadata''),
      ev_logger = Some (bytes ''bench.hot_path.medium_metadata''),
      ev_attributes = Some
        [\<lparr>attr_key = Some (bytes ''request_id''), attr_value = IJ_ATTR_VALUE_STRING (Some (bytes ''req-bench-meta'')) 14\<rparr>,
         \<lparr>attr_key = Some (bytes ''service.name''), attr_value = IJ_ATTR_VALUE_STRING (Some (bytes ''iojournal-bench'')) 15\<rparr>],
      ev_attribute_count = 2,
      ev_trace_id = Some (bytes ''0123456789abcdef0123456789abcdef''), ev_span_id = Some (bytes ''0123456789abcdef''),
      ev_trace_flags = 1, ev_has_trace_context = True,
      ev_source_file = Some (bytes ''bench/bench_hot_path.c''), ev_source_line = 1,
      ev_source_function = Some (bytes ''main'')\<rparr>"

definition hot_config :: "ij_level_t \<Rightarrow> byte list \<Rightarrow> ij_logger_config_t" where
  "hot_config min_level name =
     \<lparr>cfg_min_level = min_level, cfg_sink_kind = IJ_SINK_KIND_CONSOLE,
      cfg_redaction_mode = IJ_REDACTION_MODE_ENABLED, cfg_queue_capacity = IJ_QUEUE_CAPACITY_DEFAULT,
      cfg_logger_name = Some name, cfg_file_path = None, cfg_file_rotate_bytes = 0,
      cfg_file_rotate_interval_seconds = 0, cfg_file_retention_files = 0, cfg_file_backend = IJ_FILE_BACKEND_AUTO,
      cfg_syslog_host = None, cfg_syslog_port = 0, cfg_syslog_transport = IJ_SYSLOG_TRANSPORT_UDP,
      cfg_syslog_facility = IJ_SYSLOG_FACILITY_LOCAL0\<rparr>"

definition hot_disabled_config :: ij_logger_config_t where
  "hot_disabled_config = hot_config IJ_LEVEL_ERROR (bytes ''bench.hot_path.disabled'')"

definition hot_console_config :: ij_logger_config_t where
  "hot_console_config = hot_config IJ_LEVEL_TRACE (bytes ''bench.hot_path.console'')"

section \<open>The library inside the process\<close>

record hot_env =
  he_os :: os
  he_fd :: fd_env
  he_clock :: bench

text \<open>
  The effect of a library call on the process: what it has written to descriptor 1 reaches the
  description this names, and the descriptors it has closed are free.
\<close>

definition absorb :: "world \<Rightarrow> process \<Rightarrow> process" where
  "absorb w p =
     (deliver (drop (length (w_stdout (pr_world p))) (w_stdout w)) p)
       \<lparr>pr_world := w,
        pr_fds := fold (\<lambda>fd t. t(fd := None)) (drop (length (w_closed (pr_world p))) (w_closed w)) (pr_fds p)\<rparr>"

section \<open>Output\<close>

definition ij_print_header :: "hot_env \<Rightarrow> output_mode_t \<Rightarrow> size_t \<Rightarrow> process \<Rightarrow> process" where
  "ij_print_header he mode iterations p =
     (let env = he_fd he
      in if mode = OUTPUT_TSV then
           snd (fflush_stdout env
             (printf env (tsv [bytes ''columns'', bytes ''benchmark'', bytes ''scenario'', bytes ''iterations'', bytes ''elapsed_ns'', bytes ''ns_per_op''])
             (printf env (tsv [bytes ''meta'', bytes ''iterations'', decimal iterations])
             (printf env (tsv [bytes ''format'', bytes ''tsv'', bytes ''v1'']) p))))
         else
           snd (fflush_stdout env
             (printf env (bytes ''iterations: '' @ decimal iterations @ [0x0a, 0x0a])
             (printf env (bytes ''iojournal benchmark: hot path'' @ [0x0a]) p))))"

definition hot_row :: "output_mode_t \<Rightarrow> byte list \<Rightarrow> size_t \<Rightarrow> 64 word \<Rightarrow> byte list" where
  "hot_row mode scenario_name iterations elapsed =
     (let elapsed_ns = unat elapsed; q = (if iterations = 0 then (0, 1) else ns_per_op elapsed_ns iterations)
      in if mode = OUTPUT_TSV then tsv_row (bytes ''bench_hot_path'') scenario_name iterations elapsed_ns q
         else pad_right 18 scenario_name @ human_row iterations elapsed_ns q)"

definition ij_print_result :: "hot_env \<Rightarrow> output_mode_t \<Rightarrow> byte list \<Rightarrow> size_t \<Rightarrow> 64 word \<Rightarrow> process \<Rightarrow> int \<times> process" where
  "ij_print_result he mode scenario_name iterations elapsed p =
     (0, snd (fflush_stdout (he_fd he) (printf (he_fd he) (hot_row mode scenario_name iterations elapsed) p)))"

section \<open>A scenario with one thread\<close>

definition hot_time :: "hot_env \<Rightarrow> process \<Rightarrow> 64 word \<times> process" where
  "hot_time he p = (let (t, w) = ij_monotonic_ns (he_clock he) (pr_world p) in (t, p\<lparr>pr_world := w\<rparr>))"

text \<open>The failure exits: standard output is restored if it was redirected, the logger is shut down.\<close>

definition hot_quit ::
  "hot_env \<Rightarrow> int \<Rightarrow> ij_logger option \<Rightarrow> block list \<Rightarrow> 64 word \<Rightarrow> process \<Rightarrow> (int \<times> block list \<times> 64 word \<times> process) option" where
  "hot_quit he saved_stdout logger live status_sink p =
     (let p = (if saved_stdout \<ge> 0 then snd (ij_restore_stdout (he_fd he) saved_stdout p) else p)
      in map_option (\<lambda>(_, live, w). (1, live, status_sink, absorb w p)) (ij_logger_shutdown (he_os he) logger live (pr_world p)))"

text \<open>From the flush on.\<close>

definition hot_finish ::
  "hot_env \<Rightarrow> byte list \<Rightarrow> size_t \<Rightarrow> output_mode_t \<Rightarrow> int \<Rightarrow> ij_logger option \<Rightarrow> block list \<Rightarrow> 64 word \<Rightarrow> 64 word \<Rightarrow>
     process \<Rightarrow> (int \<times> block list \<times> 64 word \<times> process) option" where
  "hot_finish he scenario_name iterations mode saved_stdout logger live start_ns status_sink p =
     (let (status, logger, w) = ij_logger_flush (he_os he) logger (pr_world p); p = absorb w p in
      if status \<noteq> IJ_STATUS_OK then hot_quit he saved_stdout logger live status_sink p
      else
        let (now_ns, p) = hot_time he p;
            (restored, p) = (if saved_stdout \<ge> 0 then ij_restore_stdout (he_fd he) saved_stdout p else (0, p)) in
        case ij_logger_shutdown (he_os he) logger live (pr_world p) of
          None \<Rightarrow> None
        | Some (status, live, w) \<Rightarrow>
            let p = absorb w p in
            if restored \<noteq> 0 \<or> status \<noteq> IJ_STATUS_OK then Some (1, live, status_sink, p)
            else
              let (code, p) = ij_print_result he mode scenario_name iterations (now_ns - start_ns) p
              in Some (code, live, status_sink, p))"

text \<open>From the redirection on.\<close>

definition hot_measure ::
  "cpu \<Rightarrow> hot_env \<Rightarrow> byte list \<Rightarrow> ij_event_t \<Rightarrow> size_t \<Rightarrow> output_mode_t \<Rightarrow> int \<Rightarrow> ij_logger option \<Rightarrow> block list \<Rightarrow> 64 word \<Rightarrow>
     process \<Rightarrow> (int \<times> block list \<times> 64 word \<times> process) option" where
  "hot_measure cpu he scenario_name event iterations mode saved_stdout logger live status_sink p =
     (let (start_ns, p) = hot_time he p in
      case log_loop cpu (he_os he) event iterations logger status_sink (pr_world p) of
        None \<Rightarrow> None
      | Some (ok, logger, status_sink, w) \<Rightarrow>
          let p = absorb w p in
          if \<not> ok then hot_quit he saved_stdout logger live status_sink p
          else hot_finish he scenario_name iterations mode saved_stdout logger live start_ns status_sink p)"

definition ij_run_scenario ::
  "cpu \<Rightarrow> hot_env \<Rightarrow> byte list \<Rightarrow> ij_logger_config_t \<Rightarrow> ij_event_t \<Rightarrow> size_t \<Rightarrow> output_mode_t \<Rightarrow> bool \<Rightarrow> 64 word \<Rightarrow> process \<Rightarrow>
     (int \<times> block list \<times> 64 word \<times> process) option" where
  "ij_run_scenario cpu he scenario_name config event iterations mode suppress_stdout status_sink p =
     (case ij_logger_init (he_os he) True (Some config) (pr_world p) of
        None \<Rightarrow> None
      | Some (status, logger, live, w) \<Rightarrow>
          let p = absorb w p in
          if status \<noteq> IJ_STATUS_OK then Some (1, live, status_sink, p)
          else if suppress_stdout then
            let (r, saved, p) = ij_redirect_stdout_to_devnull (he_fd he) True p in
            if r \<noteq> 0 then hot_quit he (- 1) logger live status_sink p
            else hot_measure cpu he scenario_name event iterations mode (deref saved (- 1)) logger live status_sink p
          else hot_measure cpu he scenario_name event iterations mode (- 1) logger live status_sink p)"

section \<open>What the library does to the process\<close>

lemma deliver_Nil [simp]: "deliver [] p = p"
  by (simp add: deliver_def split: option.split)

lemma absorb_closes:
  "closes fds (pr_world p) w \<Longrightarrow> absorb w p = p\<lparr>pr_world := w, pr_fds := fold (\<lambda>fd t. t(fd := None)) fds (pr_fds p)\<rparr>"
  by (simp add: absorb_def closes_def)

lemma absorb_output:
  assumes "w_closed w = w_closed (pr_world p)" "w_stdout w = w_stdout (pr_world p) @ bs" "pr_fds p 1 = Some d"
  shows "absorb w p = p\<lparr>pr_world := w, pr_out := (pr_out p)(d := pr_out p d @ bs)\<rparr>"
  using assms by (simp add: absorb_def deliver_def)

lemma strdup_quiet: "strdup os s b live w = (s', live', w') \<Longrightarrow> closes [] w w'"
  by (auto simp: strdup_def malloc_def split: option.splits if_splits)

lemma console_init_quiet:
  assumes "ij_logger_init os True (Some config) w = Some (st, l, live, w')" "cfg_sink_kind config = IJ_SINK_KIND_CONSOLE"
  shows "closes [] w w'"
proof (cases "ij_validate_logger_config (Some config) = IJ_STATUS_OK \<and> os_malloc os (w_calls w)")
  case True
  obtain logger1 live1 w1 where d: "ij_apply_logger_defaults os (zero_logger config) config [LOGGER] (tick w) =
      (logger1, live1, w1)" by (metis prod_cases3)
  have k: "lg_ring logger1 = zero_ring" "cfg_sink_kind (lg_config logger1) = IJ_SINK_KIND_CONSOLE"
    using defaults_result [OF d] assms(2) by (simp_all add: zero_logger_def)
  obtain name l1 v1 where n: "strdup os (cfg_logger_name config) LOGGER_NAME [LOGGER] (tick w) = (name, l1, v1)"
    by (metis prod_cases3)
  obtain host l2 v2 where h: "strdup os (cfg_syslog_host config) SYSLOG_HOST l1 v1 = (host, l2, v2)"
    by (metis prod_cases3)
  have "w1 = v2" using d n h by (auto simp: ij_apply_logger_defaults_def Let_def)
  then have c: "closes [] w w1" using closes_trans [OF strdup_quiet [OF n] strdup_quiet [OF h]] by simp
  obtain rst ring where r: "ij_ring_init (os_ring os (w_calls w1)) (Some zero_ring) (cfg_queue_capacity (lg_config logger1)) =
      (rst, ring)" by fastforce
  have o: "open_sink os (logger1\<lparr>lg_ring := g\<rparr>) v = (IJ_STATUS_OK, logger1\<lparr>lg_ring := g\<rparr>, v)" for g v
    using k(2) by (simp add: open_sink_def)
  have "w' = w1 \<or> w' = tick w1"
    using assms(1) True d r unfolding ij_logger_init_def malloc_def
    by (auto simp: k(1) o Let_def split: if_splits option.splits)
  with c show ?thesis by auto
next
  case False
  then show ?thesis using assms(1) by (auto simp: ij_logger_init_def malloc_def split: if_splits)
qed

lemma console_loop_closed: "console_loop os b n r k w = (st, w') \<Longrightarrow> w_closed w' = w_closed w"
proof (induction os b n r k w arbitrary: st rule: console_loop.induct)
  case (1 os b n r k w)
  obtain x v where x: "writev os ((if k \<ge> n then [] else c_mem (c_ptr_add b k) (n - k)) @ [0x0a]) w = (x, v)" by fastforce
  have v: "w_closed v = w_closed w" using x by (auto simp: writev_def Let_def tick_def)
  show ?case
  proof (cases "0 < r \<and> 0 < x \<and> nat x < r")
    case True
    with 1(2) x have "\<exists>k'. console_loop os b n (r - nat x) k' v = (st, w')"
      by (auto simp: console_loop.simps [of os b n r k w] Let_def)
    with 1(1) x True v show ?thesis
      using 1(2) by (auto simp: console_loop.simps [of os b n r k w] Let_def)
  next
    case False
    with 1(2) x v show ?thesis by (auto simp: console_loop.simps [of os b n r k w] Let_def split: if_splits)
  qed
qed

lemma console_log_closed:
  assumes "lg_active logger" "cfg_sink_kind (lg_config logger) = IJ_SINK_KIND_CONSOLE"
    and "ij_logger_log cpu os (Some logger) (Some event) w = Some (st, l, w', cp)"
  shows "w_closed w' = w_closed w"
  using assms(1)
proof (cases rule: log_cases [where event = event and cpu = cpu and os = os and w = w])
  case (copied cp1)
  have "w_closed v' = w_closed v" if "log_to_sink cpu os logger cp1 buf v = Some (st', l', v')" for buf v st' l' v'
    using that assms(2)
    by (auto simp: log_to_sink_def Let_def ij_console_sink_write_def dest: console_loop_closed
        split: option.splits prod.splits if_splits)
  note c = this [of "payload_buffer os w" "tick w"]
  obtain st1 l1 where "log_to_sink cpu os logger cp1 (payload_buffer os w) (tick w) = Some (st1, l1, w')"
    using assms(3) unfolding copied(2) by (auto simp: map_option_eq_Some)
  from c [OF this] show ?thesis by (simp add: tick_def)
qed (use assms(3) in \<open>auto simp: tick_def\<close>)

definition console_built :: "ij_logger \<Rightarrow> block list \<Rightarrow> bool" where
  "console_built logger live \<longleftrightarrow> lg_active logger \<and> ring_inv (lg_ring logger) \<and> lg_file_sink logger = zero_file_sink \<and>
     live = LOGGER # string_blocks (cfg_logger_name (lg_config logger)) (cfg_syslog_host (lg_config logger)) \<and>
     sl_fd (lg_syslog_sink logger) = 0 \<and> cfg_sink_kind (lg_config logger) = IJ_SINK_KIND_CONSOLE"

lemma init_console_built:
  assumes "ij_logger_init os True (Some config) w = Some (IJ_STATUS_OK, l, live, w')" "cfg_sink_kind config = IJ_SINK_KIND_CONSOLE"
  obtains logger where "l = Some logger" "console_built logger live" "logged_line (lg_config logger) = logged_line config"
    "cfg_min_level (lg_config logger) = cfg_min_level config" "cfg_redaction_mode (lg_config logger) = cfg_redaction_mode config"
proof -
  obtain logger where l: "l = Some logger" "logger_ok os w' logger" "lg_file_sink logger = zero_file_sink"
    "cfg_sink_kind (lg_config logger) = IJ_SINK_KIND_CONSOLE" "sl_fd (lg_syslog_sink logger) = 0"
    "live = LOGGER # string_blocks (cfg_logger_name (lg_config logger)) (cfg_syslog_host (lg_config logger))"
    "cfg_min_level (lg_config logger) = cfg_min_level config" "cfg_redaction_mode (lg_config logger) = cfg_redaction_mode config"
    using logger_init_ok [OF assms(1)] assms(2) by auto
  then show thesis using logged_line_cong [OF l(7,8)] by (intro that [of logger]) (simp_all add: console_built_def logger_ok_def)
qed

lemma console_built_shutdown:
  assumes "console_built logger live"
  obtains w' where "ij_logger_shutdown os (Some logger) live w = Some (IJ_STATUS_OK, [], w')" "closes [0] w w'"
  using shutdown_closes [of logger live os w] assms by (auto simp: console_built_def)

text \<open>A system on which nothing fails.\<close>

definition fds_work :: "fd_env \<Rightarrow> bool" where
  "fds_work env \<longleftrightarrow> (\<forall>c. fe_open env c \<and> fe_dup env c \<and> fe_dup2 env c \<and> fe_close env c \<and> fe_fflush env c)"

definition console_works :: "os \<Rightarrow> bool" where
  "console_works os \<longleftrightarrow> (\<forall>c. os_malloc os c \<and> os_ring os c = working_mutex \<and> arena_ok (os_alloc os c) \<and> attrs_ok (os_alloc os c)) \<and>
     (\<forall>c k. 0 < k \<longrightarrow> 0 < os_writev os c k)"

definition log_works :: "cpu \<Rightarrow> os \<Rightarrow> ij_logger \<Rightarrow> ij_event_t \<Rightarrow> bool" where
  "log_works cpu os logger event \<longleftrightarrow>
     (\<forall>w. \<exists>w' cp. ij_logger_log cpu os (Some logger) (Some event) w = Some (IJ_STATUS_OK, Some logger, w', cp))"

definition accepted_by :: "ij_logger_config_t \<Rightarrow> ij_event_t \<Rightarrow> bool" where
  "accepted_by config event \<longleftrightarrow> loggable config event \<or> \<not> ij_level_is_enabled (cfg_min_level config) (ev_level event)"

lemma log_works_console:
  assumes "console_built logger live" "console_works os" "accepted_by config event"
    and "cfg_min_level (lg_config logger) = cfg_min_level config" "cfg_redaction_mode (lg_config logger) = cfg_redaction_mode config"
  shows "log_works cpu os logger event"
proof (cases "ij_level_is_enabled (cfg_min_level config) (ev_level event)")
  case False
  then show ?thesis using assms(1,4) by (simp add: log_works_def ij_logger_log_def console_built_def)
next
  case True
  have l: "lg_active logger" "cfg_sink_kind (lg_config logger) = IJ_SINK_KIND_CONSOLE" using assms(1) by (simp_all add: console_built_def)
  have e: "valid_event event" "view_plain (input_view (cfg_redaction_mode (lg_config logger)) event)" "timestamp_ok (ev_timestamp event)"
    using assms(3,5) True by (simp_all add: accepted_by_def loggable_def)
  have os: "\<And>c. arena_ok (os_alloc os c) \<and> attrs_ok (os_alloc os c)" "\<And>c k. 0 < k \<Longrightarrow> 0 < os_writev os c k"
    using assms(2) by (simp_all add: console_works_def)
  show ?thesis
    using log_console_works [OF l _ e os] True assms(4) by (simp add: log_works_def)
qed

lemma log_loop_console:
  assumes b: "console_built logger live"
  shows "\<exists>ok acc w' bs. log_loop cpu os event n (Some logger) acc0 w = Some (ok, Some logger, acc, w') \<and>
    w_closed w' = w_closed w \<and> w_stdout w' = w_stdout w @ bs \<and>
    (ok \<longrightarrow> acc = acc0 \<and> bs = concat (replicate n (logged_line (lg_config logger) event))) \<and> (log_works cpu os logger event \<longrightarrow> ok)"
proof (induction n arbitrary: acc0 w)
  case 0
  show ?case by (intro exI [of _ True] exI [of _ acc0]) simp
next
  case (Suc n)
  have a: "lg_active logger" "cfg_sink_kind (lg_config logger) = IJ_SINK_KIND_CONSOLE" using b by (simp_all add: console_built_def)
  from log_console [OF a, of cpu os event w] obtain st w1 cp bs where
    g: "ij_logger_log cpu os (Some logger) (Some event) w = Some (st, Some logger, w1, cp)" "w_stdout w1 = w_stdout w @ bs"
    "st = IJ_STATUS_OK \<longrightarrow> bs = logged_line (lg_config logger) event" by auto
  note c = console_log_closed [OF a g(1)]
  show ?case
  proof (cases "st = IJ_STATUS_OK")
    case False
    with g have "log_loop cpu os event (Suc n) (Some logger) acc0 w = Some (False, Some logger, acc0 + of_nat (status_value st), w1)"
      by simp
    moreover have "\<not> log_works cpu os logger event"
    proof
      assume "log_works cpu os logger event"
      then obtain v cp' where "ij_logger_log cpu os (Some logger) (Some event) w = Some (IJ_STATUS_OK, Some logger, v, cp')"
        unfolding log_works_def by blast
      with g(1) False show False by simp
    qed
    ultimately show ?thesis using g(2) c by blast
  next
    case True
    from Suc.IH [of acc0 w1] obtain ok acc w' bs' where
      "log_loop cpu os event n (Some logger) acc0 w1 = Some (ok, Some logger, acc, w')" "w_closed w' = w_closed w1"
      "w_stdout w' = w_stdout w1 @ bs'" "ok \<longrightarrow> acc = acc0 \<and> bs' = concat (replicate n (logged_line (lg_config logger) event))"
      "log_works cpu os logger event \<longrightarrow> ok" by blast
    with g True c show ?thesis by (intro exI [of _ ok] exI [of _ acc] exI [of _ w'] exI [of _ "bs @ bs'"]) simp
  qed
qed

section \<open>The scenarios\<close>

text \<open>The row is passed on as far as stdio does, the rest is held back.\<close>

lemma print_result_outcome:
  assumes "pr_buffer p = []" "pr_fds p 1 = Some d" "ij_print_result he mode name n e p = (code, p')"
  shows "code = 0 \<and> pr_fds p' = pr_fds p \<and>
    (\<exists>k. pr_out p' = (pr_out p)(d := pr_out p d @ take k (hot_row mode name n e)) \<and> pr_buffer p' = drop k (hot_row mode name n e)) \<and>
    ((\<forall>c. fe_fflush (he_fd he) c) \<longrightarrow> pr_buffer p' = [])"
proof -
  let ?row = "hot_row mode name n e" and ?env = "he_fd he"
  define k1 where "k1 = fe_spill ?env (call_number p)"
  define p1 where "p1 = printf ?env ?row p"
  have p1: "pr_fds p1 = pr_fds p" "pr_buffer p1 = drop k1 ?row" "pr_out p1 = (pr_out p)(d := pr_out p d @ take k1 ?row)"
    using assms(1,2) by (simp_all add: p1_def printf_def k1_def spill_out call_number_def)
  obtain f p2 where e: "fflush_stdout ?env p1 = (f, p2)" by fastforce
  from fflush_cases [OF e] obtain k2 where p2: "p2 = spill k2 p1" "f \<longrightarrow> pr_buffer p2 = []" by metis
  have f: "f" if "\<forall>c. fe_fflush ?env c" using e that by (simp add: fflush_stdout_def)
  have "code = 0" "p' = p2" using assms(3) e by (simp_all add: ij_print_result_def p1_def)
  moreover have "pr_out p2 = (pr_out p)(d := pr_out p d @ take (k1 + k2) ?row)" "pr_buffer p2 = drop (k1 + k2) ?row"
    using p1 assms(2) spill_out [of p1 d k2] by (simp_all add: p2(1) take_add drop_drop add.commute)
  ultimately show ?thesis using p1(1) p2 f by auto
qed

lemma hot_time_world: "\<exists>t. hot_time he p = (t, p\<lparr>pr_world := tick (pr_world p)\<rparr>)"
  using monotonic_tick [of "he_clock he" "pr_world p"] by (auto simp: hot_time_def)

text \<open>
  The outcome of the measurement, for a redirection that keeps the old description under \<open>saved\<close> or for
  none at all: \<open>back\<close> is the table with descriptor 1 restored.
\<close>

definition kept_stdout :: "int \<Rightarrow> description \<Rightarrow> process \<Rightarrow> fd_table \<Rightarrow> description \<Rightarrow> bool" where
  "kept_stdout saved old p back now \<longleftrightarrow> pr_fds p 1 = Some now \<and> pr_buffer p = [] \<and>
     (if saved = - 1 then back = pr_fds p \<and> old = now
      else 0 < saved \<and> saved \<noteq> 1 \<and> pr_fds p saved = Some old \<and> back = (pr_fds p)(1 \<mapsto> old, saved := None))"

lemma restore_kept:
  assumes "kept_stdout saved old p back now"
    and "(if saved \<ge> 0 then ij_restore_stdout env saved p else (0, p)) = (r, p')"
  shows "same_but_fds p p' \<and> (pr_fds p' = back \<or> r \<noteq> 0 \<and> 0 < saved \<and> pr_fds p' = (pr_fds p)(saved := None))"
proof (cases "saved = - 1")
  case True
  then show ?thesis using assms by (auto simp: kept_stdout_def same_but_fds_def)
next
  case False
  then have s: "0 < saved" "saved \<noteq> 1" "pr_fds p saved = Some old" "back = (pr_fds p)(1 \<mapsto> old, saved := None)" "pr_buffer p = []"
    using assms(1) by (simp_all add: kept_stdout_def)
  then have "ij_restore_stdout env saved p = (r, p')" "0 \<le> saved" using assms(2) by simp_all
  then show ?thesis
    by (cases rule: restore_stdout_cases [OF _ s(3) _ s(2) s(5)]) (use s in auto)
qed

lemma restore_kept_works:
  assumes "kept_stdout saved old p back now" "fds_work env"
    and "(if saved \<ge> 0 then ij_restore_stdout env saved p else (0, p)) = (r, p')"
  shows "r = 0"
proof (cases "saved = - 1")
  case True
  then show ?thesis using assms(3) by simp
next
  case False
  then have "0 < saved" "saved \<noteq> 1" "pr_fds p saved = Some old" using assms(1) by (simp_all add: kept_stdout_def)
  with assms(2,3) show ?thesis
    by (simp add: ij_restore_stdout_def fflush_stdout_def fds_work_def fd_dup2_def fd_close_def split: prod.splits)
qed

lemma hot_quit_outcome:
  assumes b: "console_built logger live" and k: "kept_stdout saved old p back now"
  shows "\<exists>p'. hot_quit he saved (Some logger) live acc p = Some (1, [], acc, p') \<and> pr_out p' = pr_out p \<and>
    (pr_fds p' = back(0 := None) \<or> 0 < saved \<and> pr_fds p' = (pr_fds p)(saved := None, 0 := None))"
proof -
  obtain r p1 where e: "(if saved \<ge> 0 then ij_restore_stdout (he_fd he) saved p else (0, p)) = (r, p1)" by fastforce
  note R = restore_kept [OF k e]
  obtain w where s: "ij_logger_shutdown (he_os he) (Some logger) live (pr_world p1) = Some (IJ_STATUS_OK, [], w)"
    "closes [0] (pr_world p1) w" using console_built_shutdown [OF b] by metis
  have "(if saved \<ge> 0 then snd (ij_restore_stdout (he_fd he) saved p) else p) = p1" using e by (auto split: if_splits)
  then have "hot_quit he saved (Some logger) live acc p = Some (1, [], acc, absorb w p1)"
    using s(1) by (simp add: hot_quit_def Let_def)
  with R show ?thesis unfolding absorb_closes [OF s(2)] by (auto simp: same_but_fds_def)
qed

text \<open>\<open>measured\<close>: what a measurement that succeeds has written, the lines to \<open>now\<close> and the row to \<open>old\<close>.\<close>

definition measured :: "(description \<Rightarrow> byte list) \<Rightarrow> byte list \<Rightarrow> byte list \<Rightarrow> description \<Rightarrow> description \<Rightarrow> process \<Rightarrow> bool" where
  "measured out lns row now old p' \<longleftrightarrow>
     (\<exists>k. pr_out p' = (out(now := out now @ lns))(old := (out(now := out now @ lns)) old @ take k row) \<and> pr_buffer p' = drop k row)"

text \<open>The two ways a measurement ends: \<open>table\<close> is the descriptor table before.\<close>

definition hot_ends :: "int \<Rightarrow> fd_table \<Rightarrow> fd_table \<Rightarrow> int \<Rightarrow> process \<Rightarrow> bool" where
  "hot_ends saved table back code p' \<longleftrightarrow> code \<in> {0, 1} \<and>
     (pr_fds p' = back(0 := None) \<or> code = 1 \<and> 0 < saved \<and> pr_fds p' = table(saved := None, 0 := None))"

lemma hot_finish_outcome:
  assumes b: "console_built logger live" and k: "kept_stdout saved old p back now"
  shows "\<exists>code p'. hot_finish he name n mode saved (Some logger) live t1 acc p = Some (code, [], acc, p') \<and>
    hot_ends saved (pr_fds p) back code p' \<and>
    (fds_work (he_fd he) \<longrightarrow> code = 0) \<and>
    (code = 0 \<longrightarrow> (\<exists>e. measured (pr_out p) [] (hot_row mode name n e) now old p') \<and>
       ((\<forall>c. fe_fflush (he_fd he) c) \<longrightarrow> pr_buffer p' = []))"
proof -
  let ?os = "he_os he"
  have a: "lg_active logger" "cfg_sink_kind (lg_config logger) = IJ_SINK_KIND_CONSOLE" using b by (simp_all add: console_built_def)
  have buf: "pr_buffer p = []" using k by (simp add: kept_stdout_def)
  have fl: "ij_logger_flush ?os (Some logger) (pr_world p) = (IJ_STATUS_OK, Some logger, pr_world p)"
    using flush_not_file [OF a(1)] a(2) by simp
  have ab: "absorb (pr_world p) p = p" using absorb_closes [of "[]" p "pr_world p"] by simp
  define p3 where "p3 = p\<lparr>pr_world := tick (pr_world p)\<rparr>"
  obtain t2 where t2: "hot_time he p = (t2, p3)" using hot_time_world [of he p] by (auto simp: p3_def)
  have k3: "kept_stdout saved old p3 back now" using k by (simp add: kept_stdout_def p3_def)
  obtain r p4 where e: "(if saved \<ge> 0 then ij_restore_stdout (he_fd he) saved p3 else (0, p3)) = (r, p4)" by fastforce
  note R = restore_kept [OF k3 e]
  obtain w4 where s: "ij_logger_shutdown ?os (Some logger) live (pr_world p4) = Some (IJ_STATUS_OK, [], w4)"
    "closes [0] (pr_world p4) w4" using console_built_shutdown [OF b] by metis
  define p5 where "p5 = absorb w4 p4"
  have p5: "pr_fds p5 = (pr_fds p4)(0 := None)" "pr_out p5 = pr_out p4" "pr_buffer p5 = pr_buffer p4"
    unfolding p5_def absorb_closes [OF s(2)] by simp_all
  obtain code p6 where pr: "ij_print_result he mode name n (t2 - t1) p5 = (code, p6)" by fastforce
  have run: "hot_finish he name n mode saved (Some logger) live t1 acc p =
    (if r \<noteq> 0 then Some (1, [], acc, p5) else Some (code, [], acc, p6))"
    using fl ab t2 e s(1) pr by (simp add: hot_finish_def Let_def p5_def [symmetric])
  show ?thesis
  proof (cases "r = 0")
    case False
    then show ?thesis using run p5(1) R restore_kept_works [OF k3 _ e] by (auto simp: hot_ends_def p3_def)
  next
    case True
    have old: "back 1 = Some old" using k by (auto simp: kept_stdout_def split: if_splits)
    have "pr_fds p4 = back" using R True by auto
    then have f5: "pr_fds p5 = back(0 := None)" "pr_fds p5 1 = Some old" using p5(1) old by simp_all
    have o5: "pr_out p5 = pr_out p" "pr_buffer p5 = []" using p5(2,3) R buf by (simp_all add: same_but_fds_def p3_def)
    note P = print_result_outcome [OF o5(2) f5(2) pr]
    then have "measured (pr_out p) [] (hot_row mode name n (t2 - t1)) now old p6" unfolding measured_def o5(1) by simp
    then show ?thesis using run True P f5(1) unfolding hot_ends_def by auto
  qed
qed

lemma measured_after: "measured (out(now := out now @ bs)) [] row now old p' \<longleftrightarrow> measured out bs row now old p'"
  by (simp add: measured_def)

lemma hot_measure_outcome:
  assumes b: "console_built logger live" and k: "kept_stdout saved old p back now"
  shows "\<exists>code acc p'. hot_measure cpu he name event n mode saved (Some logger) live acc0 p = Some (code, [], acc, p') \<and>
    hot_ends saved (pr_fds p) back code p' \<and> (fds_work (he_fd he) \<and> log_works cpu (he_os he) logger event \<longrightarrow> code = 0) \<and>
    (code = 0 \<longrightarrow> acc = acc0 \<and> (\<exists>e. measured (pr_out p) (concat (replicate n (logged_line (lg_config logger) event)))
       (hot_row mode name n e) now old p') \<and> ((\<forall>c. fe_fflush (he_fd he) c) \<longrightarrow> pr_buffer p' = []))"
proof -
  let ?os = "he_os he" and ?lines = "concat (replicate n (logged_line (lg_config logger) event))"
  have one: "pr_fds p 1 = Some now" using k by (simp add: kept_stdout_def)
  obtain t1 where t1: "hot_time he p = (t1, p\<lparr>pr_world := tick (pr_world p)\<rparr>)" using hot_time_world by blast
  obtain ok acc w1 bs where g: "log_loop cpu ?os event n (Some logger) acc0 (tick (pr_world p)) = Some (ok, Some logger, acc, w1)"
    "w_closed w1 = w_closed (pr_world p)" "w_stdout w1 = w_stdout (pr_world p) @ bs" "ok \<longrightarrow> acc = acc0 \<and> bs = ?lines"
    "log_works cpu ?os logger event \<longrightarrow> ok"
    using log_loop_console [OF b, of cpu ?os event n acc0 "tick (pr_world p)"] by (auto simp: tick_def)
  define p2 where "p2 = p\<lparr>pr_world := w1, pr_out := (pr_out p)(now := pr_out p now @ bs)\<rparr>"
  have p2: "pr_fds p2 = pr_fds p" "pr_out p2 = (pr_out p)(now := pr_out p now @ bs)" by (simp_all add: p2_def)
  have ab: "absorb w1 (p\<lparr>pr_world := tick (pr_world p)\<rparr>) = p2"
    unfolding p2_def using absorb_output [of w1 "p\<lparr>pr_world := tick (pr_world p)\<rparr>" bs now] g(2,3) one by (simp add: tick_def)
  have k2: "kept_stdout saved old p2 back now" using k by (simp add: kept_stdout_def p2_def)
  show ?thesis
  proof (cases ok)
    case False
    then have "hot_measure cpu he name event n mode saved (Some logger) live acc0 p = hot_quit he saved (Some logger) live acc p2"
      using t1 g(1) ab by (simp add: hot_measure_def Let_def)
    with hot_quit_outcome [OF b k2, of he acc] p2(1) g(5) False show ?thesis by (auto simp: hot_ends_def)
  next
    case True
    then have "hot_measure cpu he name event n mode saved (Some logger) live acc0 p =
        hot_finish he name n mode saved (Some logger) live t1 acc p2"
      using t1 g(1) ab by (simp add: hot_measure_def Let_def)
    with hot_finish_outcome [OF b k2, of he name n mode t1 acc] p2 g(4) True measured_after show ?thesis by fastforce
  qed
qed

text \<open>
  What a scenario does to the descriptor table of the process. Standard input is closed by the shutdown
  of a console logger; a failure may leave standard output on the null device.
\<close>

definition scenario_ends :: "process \<Rightarrow> int \<Rightarrow> process \<Rightarrow> bool" where
  "scenario_ends p code p' \<longleftrightarrow>
     (if code = 0 then pr_fds p' = (pr_fds p)(0 := None)
      else code = 1 \<and> pr_fds p' \<in> {pr_fds p, (pr_fds p)(0 := None), (pr_fds p)(1 \<mapsto> Null_Device, 0 := None)})"

lemma scenario_ends_world [simp]: "scenario_ends (p\<lparr>pr_world := w\<rparr>) = scenario_ends p"
  by (simp add: scenario_ends_def fun_eq_iff)

text \<open>The part up to the measurement, for the scenarios with one thread and with several.\<close>

lemma hot_init_cases:
  assumes "cfg_sink_kind config = IJ_SINK_KIND_CONSOLE"
  obtains (fail) st l live w where "ij_logger_init os True (Some config) (pr_world p) = Some (st, l, live, w)"
      "st \<noteq> IJ_STATUS_OK" "absorb w p = p\<lparr>pr_world := w\<rparr>"
  | (ok) logger live w where "ij_logger_init os True (Some config) (pr_world p) = Some (IJ_STATUS_OK, Some logger, live, w)"
      "absorb w p = p\<lparr>pr_world := w\<rparr>" "console_built logger live" "logged_line (lg_config logger) = logged_line config"
      "console_works os \<Longrightarrow> accepted_by config event \<Longrightarrow> log_works cpu os logger event"
proof -
  obtain st l live w where e: "ij_logger_init os True (Some config) (pr_world p) = Some (st, l, live, w)"
    using init_some by (metis option.exhaust prod_cases4)
  have ab: "absorb w p = p\<lparr>pr_world := w\<rparr>" using absorb_closes [OF console_init_quiet [OF e assms]] by simp
  show thesis
  proof (cases "st = IJ_STATUS_OK")
    case True
    from init_console_built [OF e [unfolded True] assms] obtain logger where l: "l = Some logger" "console_built logger live"
      "logged_line (lg_config logger) = logged_line config" "cfg_min_level (lg_config logger) = cfg_min_level config"
      "cfg_redaction_mode (lg_config logger) = cfg_redaction_mode config" by blast
    show thesis by (rule ok [OF _ ab l(2,3)]) (use e True l(1) log_works_console [OF l(2) _ _ l(4,5)] in simp_all)
  qed (use e ab fail in blast)
qed

lemma redirect_kept:
  assumes "ij_redirect_stdout_to_devnull env True p = (r, saved, p')" "pr_fds p 1 = Some d" "pr_buffer p = []"
  obtains (fail) "r = - 1" "pr_fds p' = pr_fds p" "same_but_fds p p'"
  | (ok) s where "r = 0" "saved = Some s" "0 < s" "kept_stdout s d p' (pr_fds p) Null_Device" "pr_out p' = pr_out p"
      "(pr_fds p')(s := None) = (pr_fds p)(1 \<mapsto> Null_Device)"
proof -
  have red: "redirect_fd env Null_Device 1 p = (r, saved, p')" using assms(1) by (simp add: ij_redirect_stdout_to_devnull_def)
  have one: "(0 :: int) \<le> 1" by simp
  show thesis
  proof (cases rule: redirect_cases [OF red assms(2) one])
    case 1
    then show thesis using fail by blast
  next
    case (2 s)
    moreover have "(pr_fds p')(s := None) = (pr_fds p)(1 \<mapsto> Null_Device)" "(pr_fds p')(1 \<mapsto> d, s := None) = pr_fds p"
      using 2(5,6) assms(2) by (auto simp: fun_eq_iff)
    ultimately show thesis using assms(3) by (intro ok [of s]) (simp_all add: kept_stdout_def same_but_fds_def)
  qed
qed

definition two_free :: "nat \<Rightarrow> fd_table \<Rightarrow> bool" where
  "two_free limit t \<longleftrightarrow> (\<exists>i j. i < j \<and> j < limit \<and> t (int i) = None \<and> t (int j) = None)"

lemma lowest_free_exists: "i < limit \<Longrightarrow> t (int i) = None \<Longrightarrow> \<exists>k \<le> i. lowest_free limit t = Some (int k)"
proof -
  assume i: "i < limit" "t (int i) = None"
  then have "find (\<lambda>k. t (int k) = None) [0..<limit] \<noteq> None" by (auto simp: find_None_iff)
  then obtain k where k: "lowest_free limit t = Some (int k)" by (auto simp: lowest_free_def)
  from lowest_free_some(3) [OF k, of "int i"] i(2) k show ?thesis by (cases "k \<le> i") auto
qed

lemma redirect_works:
  assumes "fds_work env" "two_free (fe_limit env) (pr_fds p)" "pr_fds p 1 = Some d"
  shows "fst (ij_redirect_stdout_to_devnull env True p) = 0"
proof -
  obtain i j where ij: "i < j" "j < fe_limit env" "pr_fds p (int i) = None" "pr_fds p (int j) = None"
    using assms(2) by (auto simp: two_free_def)
  obtain k where k: "k \<le> i" "lowest_free (fe_limit env) (pr_fds p) = Some (int k)"
    using lowest_free_exists [of i "fe_limit env" "pr_fds p"] ij by force
  let ?t = "(pr_fds p)(int k \<mapsto> Null_Device)"
  have "?t (int j) = None" using ij(1,4) k(1) by simp
  then obtain m where m: "lowest_free (fe_limit env) ?t = Some (int m)" using lowest_free_exists [of j "fe_limit env" ?t] ij(2) by blast
  have "k \<noteq> 1" using lowest_free_some(1) [OF k(2)] assms(3) by auto
  moreover have "m \<noteq> k" using lowest_free_some(1) [OF m] by (auto split: if_splits)
  ultimately show ?thesis
    using k(2) m assms(1,3)
    by (simp add: ij_redirect_stdout_to_devnull_def redirect_fd_def fd_open_def fd_dup_def fd_dup2_def fds_work_def)
qed

lemma hot_ends_scenario:
  "hot_ends s table (pr_fds p) code p' \<Longrightarrow> s = - 1 \<or> table(s := None) = (pr_fds p)(1 \<mapsto> Null_Device) \<Longrightarrow> scenario_ends p code p'"
  by (auto simp: hot_ends_def scenario_ends_def)

text \<open>
  The contract of a scenario: \<open>now\<close> receives the lines and \<open>d\<close>, the standard output of the process, the row.
\<close>

definition scenario_result ::
  "hot_env \<Rightarrow> process \<Rightarrow> description \<Rightarrow> description \<Rightarrow> byte list \<Rightarrow> (64 word \<Rightarrow> byte list) \<Rightarrow> 64 word \<Rightarrow>
     int \<times> block list \<times> 64 word \<times> process \<Rightarrow> bool" where
  "scenario_result he p now d lns row acc0 result \<longleftrightarrow>
     (case result of
        (code, live, acc, p') \<Rightarrow> scenario_ends p code p' \<and> LOGGER \<notin> set live \<and>
          (code = 0 \<longrightarrow> live = [] \<and> acc = acc0 \<and> (\<exists>e. measured (pr_out p) lns (row e) now d p') \<and>
             ((\<forall>c. fe_fflush (he_fd he) c) \<longrightarrow> pr_buffer p' = [])))"

definition scenario_works :: "hot_env \<Rightarrow> ij_logger_config_t \<Rightarrow> ij_event_t \<Rightarrow> process \<Rightarrow> bool" where
  "scenario_works he config event p \<longleftrightarrow> fds_work (he_fd he) \<and> console_works (he_os he) \<and> config_ok config \<and>
     accepted_by config event \<and> two_free (fe_limit (he_fd he)) (pr_fds p)"

lemma hot_init_works:
  assumes "scenario_works he config event p" "cfg_sink_kind config = IJ_SINK_KIND_CONSOLE"
    and "ij_logger_init (he_os he) True (Some config) w = Some (st, l, live, w')"
  shows "st = IJ_STATUS_OK"
  using init_works [of config "he_os he" w] assms by (auto simp: scenario_works_def console_works_def)

lemma run_scenario_outcome:
  assumes "cfg_sink_kind config = IJ_SINK_KIND_CONSOLE" "pr_fds p 1 = Some d" "pr_buffer p = []"
  shows "\<exists>r. ij_run_scenario cpu he name config event n mode suppress acc0 p = Some r \<and>
    scenario_result he p (if suppress then Null_Device else d) d (concat (replicate n (logged_line config event)))
      (hot_row mode name n) acc0 r \<and> (scenario_works he config event p \<longrightarrow> fst r = 0)"
proof (cases rule: hot_init_cases [where os = "he_os he" and p = p and event = event and cpu = cpu, OF assms(1)])
  case (1 st l live w)
  then show ?thesis using init_failure [OF 1(1,2)] hot_init_works [OF _ assms(1) 1(1)]
    by (auto simp: ij_run_scenario_def scenario_ends_def scenario_result_def)
next
  case (2 logger live w)
  let ?p = "p\<lparr>pr_world := w\<rparr>"
  show ?thesis
  proof (cases suppress)
    case False
    have k: "kept_stdout (- 1) d ?p (pr_fds ?p) d" using assms(2,3) by (simp add: kept_stdout_def)
    have run: "ij_run_scenario cpu he name config event n mode suppress acc0 p =
        hot_measure cpu he name event n mode (- 1) (Some logger) live acc0 ?p"
      using False 2(1,2) by (simp add: ij_run_scenario_def)
    from hot_measure_outcome [OF 2(3) k, of cpu he name event n mode acc0] obtain code acc p' where
      m: "hot_measure cpu he name event n mode (- 1) (Some logger) live acc0 ?p = Some (code, [], acc, p')"
      "hot_ends (- 1) (pr_fds ?p) (pr_fds ?p) code p'" "fds_work (he_fd he) \<and> log_works cpu (he_os he) logger event \<longrightarrow> code = 0"
      "code = 0 \<longrightarrow> acc = acc0 \<and> (\<exists>e. measured (pr_out ?p) (concat (replicate n (logged_line (lg_config logger) event)))
        (hot_row mode name n e) d d p') \<and> ((\<forall>c. fe_fflush (he_fd he) c) \<longrightarrow> pr_buffer p' = [])" by blast
    have "scenario_ends p code p'" using hot_ends_scenario [OF m(2)] by simp
    then show ?thesis using m(1,3,4) False 2(4,5) unfolding run by (simp add: scenario_result_def scenario_works_def)
  next
    case True
    obtain r saved p1 where e: "ij_redirect_stdout_to_devnull (he_fd he) True ?p = (r, saved, p1)" by (metis prod_cases3)
    have pp: "pr_fds ?p 1 = Some d" "pr_buffer ?p = []" using assms(2,3) by simp_all
    from e pp show ?thesis
    proof (cases rule: redirect_kept)
      case fail
      then have "kept_stdout (- 1) d p1 (pr_fds p1) d" using pp by (simp add: kept_stdout_def same_but_fds_def)
      from hot_quit_outcome [OF 2(3) this, of he acc0] obtain p' where
        q: "hot_quit he (- 1) (Some logger) live acc0 p1 = Some (1, [], acc0, p')" "pr_fds p' = (pr_fds p1)(0 := None)" by auto
      then have "ij_run_scenario cpu he name config event n mode suppress acc0 p = Some (1, [], acc0, p')"
        using e fail(1) True 2(1,2) by (simp add: ij_run_scenario_def)
      moreover have "\<not> scenario_works he config event p"
        using redirect_works [of "he_fd he" ?p d] e fail(1) pp(1) by (auto simp: scenario_works_def)
      ultimately show ?thesis using q(2) fail(2) by (simp add: scenario_ends_def scenario_result_def)
    next
      case (ok s)
      have run: "ij_run_scenario cpu he name config event n mode suppress acc0 p =
          hot_measure cpu he name event n mode s (Some logger) live acc0 p1"
        using e True 2(1,2) ok(1-3) by (simp add: ij_run_scenario_def deref_def)
      from hot_measure_outcome [OF 2(3) ok(4), of cpu he name event n mode acc0] obtain code acc p' where
        m: "hot_measure cpu he name event n mode s (Some logger) live acc0 p1 = Some (code, [], acc, p')"
        "hot_ends s (pr_fds p1) (pr_fds ?p) code p'" "fds_work (he_fd he) \<and> log_works cpu (he_os he) logger event \<longrightarrow> code = 0"
        "code = 0 \<longrightarrow> acc = acc0 \<and> (\<exists>e. measured (pr_out p1) (concat (replicate n (logged_line (lg_config logger) event)))
          (hot_row mode name n e) Null_Device d p') \<and> ((\<forall>c. fe_fflush (he_fd he) c) \<longrightarrow> pr_buffer p' = [])" by blast
      have "scenario_ends p code p'" using hot_ends_scenario [OF m(2)] ok(6) by simp
      then show ?thesis using m(1,3,4) True ok(5) 2(4,5) unfolding run by (simp add: scenario_result_def scenario_works_def)
    qed
  qed
qed

section \<open>The events of the scenarios can be logged\<close>

definition simple_text :: "byte list \<Rightarrow> bool" where
  "simple_text bs \<longleftrightarrow> bs \<noteq> [] \<and> length bs \<le> 100 \<and> list_all (\<lambda>b. 0x20 \<le> unat b \<and> unat b < 0x80 \<and> b \<noteq> 0x22 \<and> b \<noteq> 0x5c) bs"

definition string_attr :: "byte list \<times> byte list \<Rightarrow> ij_attr_t" where
  "string_attr kv = \<lparr>attr_key = Some (fst kv), attr_value = IJ_ATTR_VALUE_STRING (Some (snd kv)) (length (snd kv))\<rparr>"

lemma simple_text_facts:
  assumes "simple_text bs"
  shows "bs \<noteq> []" "length bs \<le> 100" "c_text bs = bs" "is_utf8 bs" "\<not> has_special bs"
proof -
  show "bs \<noteq> []" "length bs \<le> 100" using assms by (simp_all add: simple_text_def)
  show "c_text bs = bs" using assms by (intro c_text_id) (auto simp: simple_text_def list_all_iff)
  show "is_utf8 bs" using assms by (intro is_utf8_ascii) (simp add: simple_text_def list_all_iff)
  show "\<not> has_special bs" using assms by (force simp: has_special_def json_special_def simple_text_def list_all_iff word_less_nat_alt)
qed

lemma simple_attr:
  assumes "simple_text (fst kv)" "simple_text (snd kv)" "length (fst kv) \<le> 64"
  shows "valid_attr (string_attr kv)" "attr_name (string_attr kv) = fst kv" "attr_text_size (string_attr kv) \<le> 200"
    "value_plain (snd (input_attr_view mode (string_attr kv)))" "\<not> has_special (fst (input_attr_view mode (string_attr kv)))"
proof -
  note k = simple_text_facts [OF assms(1)] and v = simple_text_facts [OF assms(2)]
  show n: "attr_name (string_attr kv) = fst kv" using k(3) by (simp add: string_attr_def attr_name_def key_mem_def)
  show "valid_attr (string_attr kv)"
    using k v assms(3) by (simp add: string_attr_def valid_attr_def valid_text_def valid_value_def limit_defs)
  show "attr_text_size (string_attr kv) \<le> 200"
    using k(2,3) v(2) by (simp add: string_attr_def attr_text_size_def value_text_size_def key_mem_def strlen_def)
  have "\<not> has_special IJ_REDACTED_LITERAL" by (simp add: has_special_def json_special_def IJ_REDACTED_LITERAL_def)
  then show "value_plain (snd (input_attr_view mode (string_attr kv)))"
    using v(5) by (simp add: input_attr_view_def string_attr_def)
  show "\<not> has_special (fst (input_attr_view mode (string_attr kv)))" using n k(5) by (simp add: input_attr_view_def)
qed

lemma simple_event_loggable:
  assumes as: "event_attributes ev = map string_attr kvs" "list_all (\<lambda>kv. simple_text (fst kv) \<and> simple_text (snd kv) \<and> length (fst kv) \<le> 64) kvs"
      "distinct (map fst kvs)" "length kvs \<le> 4"
    and fr: "valid_event_frame ev" "valid_event_fields ev" "fields_text_size ev \<le> 1000"
    and tx: "simple_text (text_of (ev_event_name ev))" "simple_text (text_of (ev_message ev))" "opt_text (ev_logger ev) = Some l" "simple_text l"
    and "ij_level_is_enabled (cfg_min_level config) (ev_level ev)" "timestamp_ok (ev_timestamp ev)"
  shows "loggable config ev"
proof -
  have a: "valid_attr (string_attr kv) \<and> attr_name (string_attr kv) = fst kv \<and> attr_text_size (string_attr kv) \<le> 200 \<and>
      value_plain (snd (input_attr_view mode (string_attr kv))) \<and> \<not> has_special (fst (input_attr_view mode (string_attr kv)))"
    if "kv \<in> set kvs" for kv mode
    using that as(2) simple_attr [of kv] by (simp add: list_all_iff)
  have names: "map (attr_name \<circ> string_attr) kvs = map fst kvs" by (rule map_cong [OF refl]) (use a in auto)
  have "distinct (map attr_name (event_attributes ev))" "\<forall>x\<in>set (event_attributes ev). valid_attr x"
    using as(3) a unfolding as(1) map_map names by auto
  moreover have "sum_list (map attr_text_size (event_attributes ev)) \<le> sum_list (map (\<lambda>_. 200) kvs)"
    unfolding as(1) map_map by (rule sum_list_mono) (use a in simp)
  ultimately have "valid_event ev"
    using as(4) fr by (simp add: valid_event_def limit_defs sum_list_triv)
  moreover have "view_plain (input_view mode ev)" for mode
    using a tx simple_text_facts(5) unfolding view_plain_def by (auto simp: input_view_def as(1))
  ultimately show ?thesis using assms by (simp add: loggable_def)
qed

lemma hot_timestamp: "timestamp_ok \<lparr>unix_seconds = 1710000000, nanoseconds = 123000000\<rparr>"
proof -
  have "tm_year (gmtime 1710000000) = 124" by code_simp
  then show ?thesis by (simp add: timestamp_ok_def)
qed

lemmas hot_event_defs = hot_console_event_def hot_medium_event_def hot_metadata_event_def

lemma hot_level: "ij_level_is_enabled IJ_LEVEL_TRACE IJ_LEVEL_INFO" "\<not> ij_level_is_enabled IJ_LEVEL_ERROR IJ_LEVEL_INFO"
  by (simp_all add: ij_level_is_enabled_def ij_level_is_valid_iff less_eq_ij_level_t_def)

lemma hot_event_frames:
  "valid_event_frame hot_console_event" "valid_event_frame hot_medium_event" "valid_event_frame hot_metadata_event"
  by (simp_all add: valid_event_frame_def hot_event_defs ij_level_is_valid_iff limit_defs)

lemma hot_event_fields:
  "valid_event_fields hot_console_event" "valid_event_fields hot_medium_event" "valid_event_fields hot_metadata_event"
  by (simp_all add: valid_event_fields_def hot_event_defs valid_text_def valid_optional_text_def c_text_def limit_defs is_utf8_ascii)

lemma hot_event_sizes:
  "fields_text_size hot_console_event \<le> 1000" "fields_text_size hot_medium_event \<le> 1000" "fields_text_size hot_metadata_event \<le> 1000"
  by (simp_all add: fields_text_size_def hot_event_defs opt_strlen_def strlen_def c_text_def)

lemma hot_events_accepted:
  "accepted_by hot_disabled_config hot_console_event" "accepted_by hot_console_config hot_console_event"
  "accepted_by hot_console_config hot_medium_event" "accepted_by hot_console_config hot_metadata_event"
proof -
  note defs = hot_event_defs hot_console_config_def hot_config_def
  note texts = simple_text_def text_of_def opt_text_def c_text_def event_attributes_def string_attr_def request_token_def
  show "accepted_by hot_disabled_config hot_console_event"
    using hot_level by (simp add: accepted_by_def hot_disabled_config_def hot_config_def hot_console_event_def)
  show "accepted_by hot_console_config hot_console_event" unfolding accepted_by_def
    by (rule disjI1, rule simple_event_loggable [OF _ _ _ _ hot_event_frames(1) hot_event_fields(1) hot_event_sizes(1),
          where kvs = "[(bytes ''request_id'', bytes ''req-bench-hot''), (bytes ''auth.token'', bytes ''bench-secret-token'')]"
          and l = "bytes ''bench.hot_path''"]) (simp_all add: texts defs hot_level hot_timestamp)
  show "accepted_by hot_console_config hot_medium_event" unfolding accepted_by_def
    by (rule disjI1, rule simple_event_loggable [OF _ _ _ _ hot_event_frames(2) hot_event_fields(2) hot_event_sizes(2),
          where kvs = "[]"
          and l = "bytes ''bench.hot_path.medium''"]) (simp_all add: texts defs hot_level hot_timestamp)
  show "accepted_by hot_console_config hot_metadata_event" unfolding accepted_by_def
    by (rule disjI1, rule simple_event_loggable [OF _ _ _ _ hot_event_frames(3) hot_event_fields(3) hot_event_sizes(3),
          where kvs = "[(bytes ''request_id'', bytes ''req-bench-meta''), (bytes ''service.name'', bytes ''iojournal-bench'')]"
          and l = "bytes ''bench.hot_path.medium_metadata''"]) (simp_all add: texts defs hot_level hot_timestamp)
qed

lemma hot_config_ok: "length (c_text name) \<le> IJ_LOGGER_NAME_MAX_LEN \<Longrightarrow> min_level \<in> {IJ_LEVEL_TRACE, IJ_LEVEL_ERROR} \<Longrightarrow> config_ok (hot_config min_level name)"
proof -
  assume "length (c_text name) \<le> IJ_LOGGER_NAME_MAX_LEN" "min_level \<in> {IJ_LEVEL_TRACE, IJ_LEVEL_ERROR}"
  moreover have "\<exists>k. 8 \<le> k \<and> k \<le> 16 \<and> IJ_QUEUE_CAPACITY_DEFAULT = 2 ^ k"
    by (intro exI [of _ 10]) (simp add: IJ_QUEUE_CAPACITY_DEFAULT_def)
  ultimately show ?thesis by (auto simp: config_ok_def sink_settings_ok_def hot_config_def)
qed

lemma hot_configs:
  "config_ok hot_disabled_config" "config_ok hot_console_config"
  "cfg_sink_kind hot_disabled_config = IJ_SINK_KIND_CONSOLE" "cfg_sink_kind hot_console_config = IJ_SINK_KIND_CONSOLE"
  by (simp_all add: hot_disabled_config_def hot_console_config_def hot_config_ok c_text_def limit_defs)
    (simp_all add: hot_config_def)

section \<open>Properties\<close>

text \<open>
  A scenario of the hot path benchmark with one thread, on a console logger and with standard output
  open, whatever fails: it ends; the descriptor table is afterwards the one from before without
  descriptor 0, which the shutdown closes, so that the descriptors of the redirection are all given back;
  only after exit status 1 may standard output still be the null device. With status 0 every iteration has
  written its line to the null device (or to standard output when it is not redirected), the row goes to
  standard output, and no memory is left. On a system on which nothing fails the status is 0.
\<close>

theorem hot_scenario_correct:
  assumes "cfg_sink_kind config = IJ_SINK_KIND_CONSOLE" "pr_fds p 1 = Some d" "pr_buffer p = []"
  shows "\<exists>r. ij_run_scenario cpu he name config event n mode suppress acc0 p = Some r \<and>
    scenario_result he p (if suppress then Null_Device else d) d (concat (replicate n (logged_line config event)))
      (hot_row mode name n) acc0 r \<and> (scenario_works he config event p \<longrightarrow> fst r = 0)"
  by (rule run_scenario_outcome [OF assms])

definition sample_hot :: hot_env where
  "sample_hot = \<lparr>he_os = short_writer, he_fd = working_fds, he_clock = sample_bench\<rparr>"

lemma sample_hot_works: "fds_work (he_fd sample_hot)" "console_works (he_os sample_hot)" "two_free (fe_limit (he_fd sample_hot)) (pr_fds sample_process)"
proof -
  show "fds_work (he_fd sample_hot)" by (simp add: fds_work_def sample_hot_def working_fds_def)
  show "console_works (he_os sample_hot)" by (simp add: console_works_def sample_hot_def short_writer_def sample_alloc_def)
  show "two_free (fe_limit (he_fd sample_hot)) (pr_fds sample_process)"
    unfolding two_free_def by (intro exI [of _ 3] exI [of _ 4]) (simp add: sample_hot_def working_fds_def sample_process_def)
qed

theorem hot_scenario_correct_witness:
  "\<exists>r. ij_run_scenario sample_cpu sample_hot (bytes ''medium_message'') hot_console_config hot_medium_event 3 OUTPUT_TSV True 0 sample_process =
       Some r \<and>
     scenario_result sample_hot sample_process Null_Device (Inherited 1)
       (concat (replicate 3 (logged_line hot_console_config hot_medium_event))) (hot_row OUTPUT_TSV (bytes ''medium_message'') 3) 0 r \<and>
     fst r = 0"
proof -
  have "pr_fds sample_process 1 = Some (Inherited 1)" "pr_buffer sample_process = []" by (simp_all add: sample_process_def)
  moreover have "scenario_works sample_hot hot_console_config hot_medium_event sample_process"
    using sample_hot_works hot_configs hot_events_accepted by (simp add: scenario_works_def)
  ultimately show ?thesis
    using hot_scenario_correct [OF hot_configs(4), of sample_process "Inherited 1" sample_cpu sample_hot "bytes ''medium_message''"
        hot_medium_event 3 OUTPUT_TSV True 0] by simp
qed

end
