(* ===== verification/Bench_Contention.thy ===== *)
theory Bench_Contention
  imports Bench_Hot_Path
begin

text \<open>
  The scenario of \<open>bench/bench_hot_path.c\<close> with several producer threads: \<open>ij_run_contention_scenario\<close> shares the
  iterations among four workers on one console logger, starts them, joins them and reports. The main
  thread and the workers are actors; a schedule is a list of actors, each of which makes one step. A step
  of a worker is one pass through its loop, with the call of \<open>ij_logger_log\<close> as a whole (the writes inside
  it are interleaved in \<open>Console_Threads\<close>); an actor that cannot move, such as a join of a running thread,
  stays where it is.

  For every schedule the call keeps the contract of a scenario, and when it answers 0 every share has been
  logged. No schedule prefix leads into a deadlock. When a thread cannot be started the logger is shut down
  under the workers that already run, and a worker uses it after it was freed.
\<close>

section \<open>Threads\<close>

datatype thread = Unborn | Running | Exited int

text \<open>
  The worker of the source with the index of its loop and its thread. The pointer to the logger is the
  same for all of them and is kept in the state below.
\<close>

record ij_contention_worker_t =
  cw_event :: "ij_event_t option"
  cw_iterations :: size_t
  cw_status_sum :: "64 word"
  cw_first_failure :: ij_status_t
  cw_i :: size_t
  cw_thread :: thread

datatype main_pc = Creating nat | Joining nat | Returned int

datatype actor = Main | Worker nat

text \<open>The answers of \<open>thrd_create\<close> and \<open>thrd_join\<close> for each thread.\<close>

record thread_env =
  te_create :: "nat \<Rightarrow> bool"
  te_join :: "nat \<Rightarrow> bool"

text \<open>\<open>ct_bad\<close>: a worker has used the logger after it was freed.\<close>

record contention =
  ct_pc :: main_pc
  ct_workers :: "ij_contention_worker_t list"
  ct_remainder :: "64 word"
  ct_sink :: "64 word"
  ct_logger :: "ij_logger option"
  ct_live :: "block list"
  ct_start :: "64 word"
  ct_saved :: int
  ct_process :: process
  ct_bad :: bool

definition IJ_CONTENTION_PRODUCER_COUNT :: nat where
  "IJ_CONTENTION_PRODUCER_COUNT = 4"

definition producer_iterations :: "size_t \<Rightarrow> nat \<Rightarrow> size_t" where
  "producer_iterations iterations i =
     iterations div IJ_CONTENTION_PRODUCER_COUNT + (if i < iterations mod IJ_CONTENTION_PRODUCER_COUNT then 1 else 0)"

definition set_worker :: "nat \<Rightarrow> ij_contention_worker_t \<Rightarrow> contention \<Rightarrow> contention" where
  "set_worker t x s = s\<lparr>ct_workers := (ct_workers s)[t := x]\<rparr>"

section \<open>The workers\<close>

definition ij_contention_worker_main :: "cpu \<Rightarrow> hot_env \<Rightarrow> nat \<Rightarrow> contention \<Rightarrow> contention" where
  "ij_contention_worker_main cpu he t s =
     (let x = ct_workers s ! t in
      if \<not> t < length (ct_workers s) \<or> cw_thread x \<noteq> Running then s
      else if ct_logger s = None \<or> cw_event x = None then set_worker t (x\<lparr>cw_thread := Exited 1\<rparr>) s
      else if \<not> cw_i x < cw_iterations x then set_worker t (x\<lparr>cw_thread := Exited 0\<rparr>) s
      else if LOGGER \<notin> set (ct_live s) then s\<lparr>ct_bad := True\<rparr>
      else
        case ij_logger_log cpu (he_os he) (ct_logger s) (cw_event x) (pr_world (ct_process s)) of
          None \<Rightarrow> s\<lparr>ct_bad := True\<rparr>
        | Some (status, logger, w, _) \<Rightarrow>
            let s = s\<lparr>ct_logger := logger, ct_process := absorb w (ct_process s)\<rparr>;
                x = x\<lparr>cw_status_sum := cw_status_sum x + of_nat (status_value status)\<rparr>
            in if status \<noteq> IJ_STATUS_OK then set_worker t (x\<lparr>cw_first_failure := status, cw_thread := Exited 1\<rparr>) s
               else set_worker t (x\<lparr>cw_i := cw_i x + 1\<rparr>) s)"

section \<open>The main thread\<close>

definition return_with :: "(int \<times> block list \<times> 64 word \<times> process) option \<Rightarrow> contention \<Rightarrow> contention" where
  "return_with result s =
     (case result of
        None \<Rightarrow> s\<lparr>ct_bad := True\<rparr>
      | Some (code, live, sink, p) \<Rightarrow> s\<lparr>ct_pc := Returned code, ct_live := live, ct_sink := sink, ct_process := p\<rparr>)"

definition contention_quit :: "hot_env \<Rightarrow> contention \<Rightarrow> contention" where
  "contention_quit he s = return_with (hot_quit he (ct_saved s) (ct_logger s) (ct_live s) (ct_sink s) (ct_process s)) s"

definition create_step :: "hot_env \<Rightarrow> thread_env \<Rightarrow> nat \<Rightarrow> contention \<Rightarrow> contention" where
  "create_step he te i s =
     (if i < IJ_CONTENTION_PRODUCER_COUNT then
        if \<not> te_create te i then contention_quit he s
        else set_worker i ((ct_workers s ! i)\<lparr>cw_thread := Running\<rparr>) (s\<lparr>ct_pc := Creating (i + 1)\<rparr>)
      else s\<lparr>ct_pc := Joining 0\<rparr>)"

definition join_step :: "hot_env \<Rightarrow> thread_env \<Rightarrow> byte list \<Rightarrow> size_t \<Rightarrow> output_mode_t \<Rightarrow> nat \<Rightarrow> contention \<Rightarrow> contention" where
  "join_step he te scenario_name iterations mode i s =
     (if i < IJ_CONTENTION_PRODUCER_COUNT then
        let x = ct_workers s ! i in
        if \<not> te_join te i then contention_quit he s
        else
          case cw_thread x of
            Exited thread_rc \<Rightarrow>
              if thread_rc \<noteq> 0 then contention_quit he s
              else
                let s = s\<lparr>ct_remainder := ct_remainder s - of_nat (cw_iterations x), ct_sink := ct_sink s + cw_status_sum x\<rparr>
                in if cw_first_failure x \<noteq> IJ_STATUS_OK then contention_quit he s else s\<lparr>ct_pc := Joining (i + 1)\<rparr>
          | _ \<Rightarrow> s
      else if ct_remainder s \<noteq> 0 then contention_quit he s
      else return_with (hot_finish he scenario_name iterations mode (ct_saved s) (ct_logger s) (ct_live s) (ct_start s)
             (ct_sink s) (ct_process s)) s)"

definition contention_step ::
  "cpu \<Rightarrow> hot_env \<Rightarrow> thread_env \<Rightarrow> byte list \<Rightarrow> size_t \<Rightarrow> output_mode_t \<Rightarrow> actor \<Rightarrow> contention \<Rightarrow> contention" where
  "contention_step cpu he te scenario_name iterations mode a s =
     (case a of
        Worker t \<Rightarrow> ij_contention_worker_main cpu he t s
      | Main \<Rightarrow>
          (case ct_pc s of
             Creating i \<Rightarrow> create_step he te i s
           | Joining i \<Rightarrow> join_step he te scenario_name iterations mode i s
           | Returned _ \<Rightarrow> s))"

definition contention_run ::
  "cpu \<Rightarrow> hot_env \<Rightarrow> thread_env \<Rightarrow> byte list \<Rightarrow> size_t \<Rightarrow> output_mode_t \<Rightarrow> actor list \<Rightarrow> contention \<Rightarrow> contention" where
  "contention_run cpu he te scenario_name iterations mode sched = fold (contention_step cpu he te scenario_name iterations mode) sched"

definition start_worker :: "ij_event_t \<Rightarrow> size_t \<Rightarrow> nat \<Rightarrow> ij_contention_worker_t" where
  "start_worker event iterations i =
     \<lparr>cw_event = Some event, cw_iterations = producer_iterations iterations i, cw_status_sum = 0,
      cw_first_failure = IJ_STATUS_OK, cw_i = 0, cw_thread = Unborn\<rparr>"

text \<open>The part before the threads: an early return, or the state in which the first of them is started.\<close>

definition contention_begin ::
  "hot_env \<Rightarrow> ij_logger_config_t \<Rightarrow> ij_event_t \<Rightarrow> size_t \<Rightarrow> 64 word \<Rightarrow> process \<Rightarrow>
     ((int \<times> block list \<times> 64 word \<times> process) option + contention)" where
  "contention_begin he config event iterations status_sink p =
     (case ij_logger_init (he_os he) True (Some config) (pr_world p) of
        None \<Rightarrow> Inl None
      | Some (status, logger, live, w) \<Rightarrow>
          let p = absorb w p in
          if status \<noteq> IJ_STATUS_OK then Inl (Some (1, live, status_sink, p))
          else
            let (r, saved, p) = ij_redirect_stdout_to_devnull (he_fd he) True p in
            if r \<noteq> 0 then Inl (hot_quit he (- 1) logger live status_sink p)
            else
              let (start_ns, p) = hot_time he p
              in Inr \<lparr>ct_pc = Creating 0,
                      ct_workers = map (start_worker event iterations) [0..<IJ_CONTENTION_PRODUCER_COUNT],
                      ct_remainder = of_nat iterations, ct_sink = status_sink, ct_logger = logger, ct_live = live,
                      ct_start = start_ns, ct_saved = deref saved (- 1), ct_process = p, ct_bad = False\<rparr>)"

text \<open>\<open>None\<close>: the call has not returned when the schedule ends.\<close>

definition ij_run_contention_scenario ::
  "cpu \<Rightarrow> hot_env \<Rightarrow> thread_env \<Rightarrow> actor list \<Rightarrow> byte list \<Rightarrow> ij_logger_config_t \<Rightarrow> ij_event_t \<Rightarrow> size_t \<Rightarrow> output_mode_t \<Rightarrow> 64 word \<Rightarrow>
     process \<Rightarrow> (int \<times> block list \<times> 64 word \<times> process) option" where
  "ij_run_contention_scenario cpu he te sched scenario_name config event iterations mode status_sink p =
     (case contention_begin he config event iterations status_sink p of
        Inl result \<Rightarrow> result
      | Inr s \<Rightarrow>
          let s = contention_run cpu he te scenario_name iterations mode sched s
          in case ct_pc s of
               Returned code \<Rightarrow> Some (code, ct_live s, ct_sink s, ct_process s)
             | _ \<Rightarrow> None)"

section \<open>The shares\<close>

lemma shares_sum: "(\<Sum>i<4. producer_iterations n i) = n"
proof -
  define q r where "q = n div 4" and "r = n mod 4"
  have n: "n = 4 * q + r" "r < 4" by (simp_all add: q_def r_def)
  have "{..<4 :: nat} = {0, 1, 2, 3}" by auto
  then have "(\<Sum>i<4. producer_iterations n i) = (\<Sum>i\<in>{0, 1, 2, 3}. q + (if i < r then 1 else 0))"
    by (simp add: producer_iterations_def IJ_CONTENTION_PRODUCER_COUNT_def q_def r_def)
  also have "\<dots> = n" using n by (auto split: if_splits)
  finally show ?thesis .
qed

section \<open>The invariant\<close>

text \<open>What is fixed during the run: the call's arguments and the process when the first thread is started.\<close>

record contention_call =
  cc_event :: ij_event_t
  cc_iterations :: size_t
  cc_logger :: ij_logger
  cc_live :: "block list"
  cc_saved :: int
  cc_old :: description
  cc_back :: fd_table
  cc_sink :: "64 word"
  cc_process :: process

definition clean :: "ij_contention_worker_t \<Rightarrow> bool" where
  "clean x \<longleftrightarrow> cw_status_sum x = 0 \<and> cw_first_failure x = IJ_STATUS_OK"

definition worker_inv :: "contention_call \<Rightarrow> nat \<Rightarrow> ij_contention_worker_t \<Rightarrow> bool" where
  "worker_inv c i x \<longleftrightarrow> cw_event x = Some (cc_event c) \<and> cw_iterations x = producer_iterations (cc_iterations c) i \<and>
     cw_i x \<le> cw_iterations x \<and>
     (case cw_thread x of
        Unborn \<Rightarrow> cw_i x = 0 \<and> clean x
      | Running \<Rightarrow> clean x
      | Exited rc \<Rightarrow> if rc = 0 then cw_i x = cw_iterations x \<and> clean x else cw_first_failure x \<noteq> IJ_STATUS_OK)"

definition logged :: "contention \<Rightarrow> nat" where
  "logged s = sum_list (map cw_i (ct_workers s))"

text \<open>The process has changed only in what the null device has received.\<close>

definition process_inv :: "contention_call \<Rightarrow> contention \<Rightarrow> bool" where
  "process_inv c s \<longleftrightarrow> (\<exists>bs. pr_fds (ct_process s) = pr_fds (cc_process c) \<and> pr_buffer (ct_process s) = [] \<and>
     pr_out (ct_process s) = (pr_out (cc_process c))(Null_Device := pr_out (cc_process c) Null_Device @ bs) \<and>
     (list_all (\<lambda>x. cw_first_failure x = IJ_STATUS_OK) (ct_workers s) \<longrightarrow>
        bs = concat (replicate (logged s) (logged_line (lg_config (cc_logger c)) (cc_event c)))))"

definition pc_inv :: "contention_call \<Rightarrow> contention \<Rightarrow> bool" where
  "pc_inv c s \<longleftrightarrow>
     (case ct_pc s of
        Creating i \<Rightarrow> i \<le> 4 \<and> ct_remainder s = of_nat (cc_iterations c) \<and> (\<forall>j<4. cw_thread (ct_workers s ! j) = Unborn \<longleftrightarrow> i \<le> j)
      | Joining i \<Rightarrow> i \<le> 4 \<and> (\<forall>j<4. cw_thread (ct_workers s ! j) \<noteq> Unborn) \<and> (\<forall>j<i. cw_thread (ct_workers s ! j) = Exited 0) \<and>
          ct_remainder s + of_nat (\<Sum>j<i. producer_iterations (cc_iterations c) j) = of_nat (cc_iterations c)
      | Returned _ \<Rightarrow> False)"

definition active_inv :: "contention_call \<Rightarrow> contention \<Rightarrow> bool" where
  "active_inv c s \<longleftrightarrow> \<not> ct_bad s \<and> ct_logger s = Some (cc_logger c) \<and> ct_live s = cc_live c \<and> ct_saved s = cc_saved c \<and>
     ct_sink s = cc_sink c \<and> length (ct_workers s) = 4 \<and> (\<forall>i<4. worker_inv c i (ct_workers s ! i)) \<and> process_inv c s \<and> pc_inv c s"

definition call_inv :: "contention_call \<Rightarrow> bool" where
  "call_inv c \<longleftrightarrow> console_built (cc_logger c) (cc_live c) \<and>
     kept_stdout (cc_saved c) (cc_old c) (cc_process c) (cc_back c) Null_Device"

definition done_inv :: "hot_env \<Rightarrow> byte list \<Rightarrow> output_mode_t \<Rightarrow> contention_call \<Rightarrow> contention \<Rightarrow> bool" where
  "done_inv he name mode c s \<longleftrightarrow> (\<exists>code. ct_pc s = Returned code \<and> ct_live s = [] \<and>
     hot_ends (cc_saved c) (pr_fds (cc_process c)) (cc_back c) code (ct_process s) \<and>
     (code = 0 \<longrightarrow> \<not> ct_bad s \<and> length (ct_workers s) = 4 \<and> (\<forall>i<4. cw_thread (ct_workers s ! i) = Exited 0 \<and>
        cw_i (ct_workers s ! i) = producer_iterations (cc_iterations c) i) \<and> ct_sink s = cc_sink c \<and>
        (\<exists>e. measured (pr_out (cc_process c)) (concat (replicate (cc_iterations c) (logged_line (lg_config (cc_logger c)) (cc_event c))))
          (hot_row mode name (cc_iterations c) e) Null_Device (cc_old c) (ct_process s)) \<and>
        ((\<forall>k. fe_fflush (he_fd he) k) \<longrightarrow> pr_buffer (ct_process s) = [])))"

lemma set_worker_sel [simp]:
  "ct_pc (set_worker t x s) = ct_pc s" "ct_workers (set_worker t x s) = (ct_workers s)[t := x]"
  "ct_remainder (set_worker t x s) = ct_remainder s" "ct_sink (set_worker t x s) = ct_sink s"
  "ct_logger (set_worker t x s) = ct_logger s" "ct_live (set_worker t x s) = ct_live s" "ct_saved (set_worker t x s) = ct_saved s"
  "ct_process (set_worker t x s) = ct_process s" "ct_bad (set_worker t x s) = ct_bad s"
  by (simp_all add: set_worker_def)

lemma sum_map_update:
  assumes "t < length xs"
  shows "sum_list (map f (xs[t := x])) + f (xs ! t) = sum_list (map f xs) + (f x :: nat)"
proof -
  have "f (xs ! t) \<le> sum_list (map f xs)" using assms by (intro member_le_sum_list) simp_all
  then show ?thesis using assms by (simp add: map_update sum_list_update)
qed

lemma logged_set:
  "t < length (ct_workers s) \<Longrightarrow> logged (set_worker t x s) + cw_i (ct_workers s ! t) = logged s + cw_i x"
  using sum_map_update [of t "ct_workers s" cw_i x] by (simp add: logged_def)

section \<open>A step of a worker\<close>

text \<open>A worker whose thread ends or whose index moves keeps the facts about the main thread.\<close>

lemma pc_inv_worker:
  assumes "pc_inv c s" "cw_thread (ct_workers s ! t) = Running" "cw_thread x \<noteq> Unborn" "t < length (ct_workers s)"
    and "length (ct_workers s) = 4" "ct_pc s' = ct_pc s" "ct_remainder s' = ct_remainder s" "ct_workers s' = (ct_workers s)[t := x]"
  shows "pc_inv c s'"
  using assms by (auto simp: pc_inv_def nth_list_update split: main_pc.splits)

lemma kept_process:
  assumes "call_inv c" "process_inv c s"
  shows "kept_stdout (cc_saved c) (cc_old c) (ct_process s) (cc_back c) Null_Device"
  using assms by (auto simp: call_inv_def process_inv_def kept_stdout_def)

lemma log_absorb:
  assumes "console_built logger live" "pr_fds p 1 = Some d"
  obtains st w cp bs where "ij_logger_log cpu os (Some logger) (Some event) (pr_world p) = Some (st, Some logger, w, cp)"
    "absorb w p = p\<lparr>pr_world := w, pr_out := (pr_out p)(d := pr_out p d @ bs)\<rparr>"
    "st = IJ_STATUS_OK \<longrightarrow> bs = logged_line (lg_config logger) event"
proof -
  have a: "lg_active logger" "cfg_sink_kind (lg_config logger) = IJ_SINK_KIND_CONSOLE" using assms(1) by (simp_all add: console_built_def)
  from log_console [OF a, of cpu os event "pr_world p"] obtain st w cp bs where
    g: "ij_logger_log cpu os (Some logger) (Some event) (pr_world p) = Some (st, Some logger, w, cp)"
    "w_stdout w = w_stdout (pr_world p) @ bs" "st = IJ_STATUS_OK \<longrightarrow> bs = logged_line (lg_config logger) event" by auto
  show thesis using that [OF g(1) absorb_output [OF console_log_closed [OF a g(1)] g(2) assms(2)] g(3)] .
qed

lemma worker_step_active:
  assumes c: "call_inv c" and a: "active_inv c s"
  shows "active_inv c (ij_contention_worker_main cpu he t s)"
proof (cases "t < length (ct_workers s) \<and> cw_thread (ct_workers s ! t) = Running")
  case False
  then show ?thesis using a by (auto simp: ij_contention_worker_main_def Let_def)
next
  case True
  let ?x = "ct_workers s ! t" and ?p = "ct_process s" and ?lg = "cc_logger c"
  have t: "t < length (ct_workers s)" "cw_thread ?x = Running" using True by simp_all
  have w: "worker_inv c t ?x" and len: "length (ct_workers s) = 4" and lg: "ct_logger s = Some ?lg" and pi: "process_inv c s"
    and pc: "pc_inv c s" and lv: "ct_live s = cc_live c"
    using a t(1) by (simp_all add: active_inv_def)
  have b: "console_built ?lg (cc_live c)" using c by (simp add: call_inv_def)
  have live: "LOGGER \<in> set (ct_live s)" using b lv by (simp add: console_built_def)
  have ev: "cw_event ?x = Some (cc_event c)" and cl: "clean ?x" using w t(2) by (simp_all add: worker_inv_def)
  have keep: "active_inv c s'" if s': "ct_pc s' = ct_pc s" "ct_workers s' = (ct_workers s)[t := x]" "ct_remainder s' = ct_remainder s"
      "ct_sink s' = ct_sink s" "ct_logger s' = ct_logger s" "ct_live s' = ct_live s" "ct_saved s' = ct_saved s" "ct_bad s' = ct_bad s"
    and x: "worker_inv c t x" "cw_thread x \<noteq> Unborn" and p: "process_inv c s'" for s' x
    using a x p t(1) pc_inv_worker [OF pc t(2) x(2) t(1) len s'(1,3,2)] unfolding active_inv_def s' by (auto simp: nth_list_update)
  show ?thesis
  proof (cases "cw_i ?x < cw_iterations ?x")
    case False
    let ?y = "?x\<lparr>cw_thread := Exited 0\<rparr>"
    have y: "worker_inv c t ?y" "cw_thread ?y \<noteq> Unborn" using w t(2) False cl by (auto simp: worker_inv_def clean_def)
    have "logged (set_worker t ?y s) = logged s" using logged_set [OF t(1), of ?y] by simp
    moreover have "list_all (\<lambda>x. cw_first_failure x = IJ_STATUS_OK) (ct_workers (set_worker t ?y s)) \<longleftrightarrow>
        list_all (\<lambda>x. cw_first_failure x = IJ_STATUS_OK) (ct_workers s)"
      using t(1) by (auto simp: list_all_length nth_list_update)
    ultimately have "process_inv c (set_worker t ?y s)" using pi by (simp add: process_inv_def)
    with keep [of "set_worker t ?y s" ?y] y have "active_inv c (set_worker t ?y s)" by simp
    then show ?thesis using True False lg ev by (simp add: ij_contention_worker_main_def Let_def)
  next
    case more: True
    have one: "pr_fds ?p 1 = Some Null_Device" using kept_process [OF c pi] by (simp add: kept_stdout_def)
    obtain st v cp bs where g: "ij_logger_log cpu (he_os he) (Some ?lg) (Some (cc_event c)) (pr_world ?p) = Some (st, Some ?lg, v, cp)"
      "absorb v ?p = ?p\<lparr>pr_world := v, pr_out := (pr_out ?p)(Null_Device := pr_out ?p Null_Device @ bs)\<rparr>"
      "st = IJ_STATUS_OK \<longrightarrow> bs = logged_line (lg_config ?lg) (cc_event c)"
      using log_absorb [OF b one] by metis
    define y where "y = (let y = ?x\<lparr>cw_status_sum := cw_status_sum ?x + of_nat (status_value st)\<rparr> in
      if st \<noteq> IJ_STATUS_OK then y\<lparr>cw_first_failure := st, cw_thread := Exited 1\<rparr> else y\<lparr>cw_i := cw_i y + 1\<rparr>)"
    define s' where "s' = set_worker t y (s\<lparr>ct_process := absorb v ?p\<rparr>)"
    have same: "s\<lparr>ct_logger := Some ?lg, ct_process := q\<rparr> = s\<lparr>ct_process := q\<rparr>" for q using lg by (cases s) simp
    have run: "ij_contention_worker_main cpu he t s = s'"
      using True more lg live ev g(1) by (simp add: ij_contention_worker_main_def Let_def s'_def y_def same)
    have ok: "status_value IJ_STATUS_OK = 0" by simp
    have y: "worker_inv c t y" "cw_thread y \<noteq> Unborn"
      using w t(2) more cl ok by (auto simp: y_def Let_def worker_inv_def clean_def)
    have "process_inv c s'"
    proof (cases "st = IJ_STATUS_OK")
      case False
      then have "\<not> list_all (\<lambda>x. cw_first_failure x = IJ_STATUS_OK) (ct_workers s')"
        using t(1) by (auto simp: s'_def y_def Let_def list_all_length intro!: exI [of _ t])
      then show ?thesis using pi by (auto simp: process_inv_def s'_def g(2))
    next
      case True
      have "logged s' + cw_i ?x = logged s + (cw_i ?x + 1)"
        using logged_set [of t "s\<lparr>ct_process := absorb v ?p\<rparr>" y] t(1) True by (simp add: s'_def y_def Let_def logged_def)
      moreover have "list_all (\<lambda>x. cw_first_failure x = IJ_STATUS_OK) (ct_workers s') \<longleftrightarrow>
          list_all (\<lambda>x. cw_first_failure x = IJ_STATUS_OK) (ct_workers s)"
        using t(1) True by (auto simp: s'_def y_def Let_def list_all_length nth_list_update)
      ultimately show ?thesis
        using pi g(3) True by (auto simp: process_inv_def s'_def g(2) simp flip: replicate_append_same)
    qed
    then show ?thesis unfolding run using y by (intro keep) (simp_all add: s'_def)
  qed
qed

section \<open>A step of the main thread\<close>

lemma quit_done:
  assumes "call_inv c" "process_inv c s" "ct_logger s = Some (cc_logger c)" "ct_live s = cc_live c" "ct_saved s = cc_saved c"
  shows "done_inv he name mode c (contention_quit he s)"
proof -
  have b: "console_built (cc_logger c) (cc_live c)" using assms(1) by (simp add: call_inv_def)
  have f: "pr_fds (ct_process s) = pr_fds (cc_process c)" using assms(2) by (auto simp: process_inv_def)
  from hot_quit_outcome [OF b kept_process [OF assms(1,2)], of he "ct_sink s"] obtain p' where
    q: "hot_quit he (cc_saved c) (Some (cc_logger c)) (cc_live c) (ct_sink s) (ct_process s) = Some (1, [], ct_sink s, p')"
    "pr_fds p' = (cc_back c)(0 := None) \<or> 0 < cc_saved c \<and> pr_fds p' = (pr_fds (ct_process s))(cc_saved c := None, 0 := None)"
    by blast
  then show ?thesis using assms(3-5) f by (auto simp: done_inv_def contention_quit_def return_with_def hot_ends_def)
qed

lemma joined_all:
  assumes a: "active_inv c s" "ct_pc s = Joining 4"
  shows "ct_remainder s = 0" "logged s = cc_iterations c" "list_all (\<lambda>x. cw_first_failure x = IJ_STATUS_OK) (ct_workers s)"
    "\<forall>i<4. cw_thread (ct_workers s ! i) = Exited 0 \<and> cw_i (ct_workers s ! i) = producer_iterations (cc_iterations c) i"
proof -
  have pc: "\<forall>j<4. cw_thread (ct_workers s ! j) = Exited 0"
    "ct_remainder s + of_nat (\<Sum>j<4. producer_iterations (cc_iterations c) j) = of_nat (cc_iterations c)"
    using a by (simp_all add: active_inv_def pc_inv_def)
  have len: "length (ct_workers s) = 4" and w: "\<forall>i<4. worker_inv c i (ct_workers s ! i)" using a(1) by (simp_all add: active_inv_def)
  show "ct_remainder s = 0" using pc(2) by (simp add: shares_sum)
  show all: "\<forall>i<4. cw_thread (ct_workers s ! i) = Exited 0 \<and> cw_i (ct_workers s ! i) = producer_iterations (cc_iterations c) i"
    using pc(1) w by (auto simp: worker_inv_def)
  show "list_all (\<lambda>x. cw_first_failure x = IJ_STATUS_OK) (ct_workers s)"
    using pc(1) w len by (auto simp: list_all_length worker_inv_def clean_def)
  have "logged s = (\<Sum>i<4. cw_i (ct_workers s ! i))"
    using len by (simp add: logged_def sum_list_sum_nth atLeast0LessThan)
  also have "\<dots> = (\<Sum>i<4. producer_iterations (cc_iterations c) i)" using all by (intro sum.cong) auto
  finally show "logged s = cc_iterations c" by (simp add: shares_sum)
qed

lemma finish_done:
  assumes c: "call_inv c" and a: "active_inv c s" "ct_pc s = Joining 4"
  shows "done_inv he name mode c (join_step he te name (cc_iterations c) mode 4 s)"
proof -
  let ?p = "ct_process s" and ?n = "cc_iterations c"
  note j = joined_all [OF a]
  have b: "console_built (cc_logger c) (cc_live c)" using c by (simp add: call_inv_def)
  have pi: "process_inv c s" and s: "ct_logger s = Some (cc_logger c)" "ct_live s = cc_live c" "ct_saved s = cc_saved c"
    "ct_sink s = cc_sink c" "\<not> ct_bad s" "length (ct_workers s) = 4" using a(1) by (simp_all add: active_inv_def)
  have p: "pr_fds ?p = pr_fds (cc_process c)" "pr_out ?p = (pr_out (cc_process c))(Null_Device := pr_out (cc_process c) Null_Device @
      concat (replicate ?n (logged_line (lg_config (cc_logger c)) (cc_event c))))"
    using pi j(2,3) by (auto simp: process_inv_def)
  have "join_step he te name ?n mode 4 s = return_with (hot_finish he name ?n mode (cc_saved c) (Some (cc_logger c)) (cc_live c)
      (ct_start s) (cc_sink c) ?p) s"
    using j(1) s by (simp add: join_step_def IJ_CONTENTION_PRODUCER_COUNT_def)
  moreover from hot_finish_outcome [OF b kept_process [OF c pi], of he name ?n mode "ct_start s" "cc_sink c"] obtain code p' where
    "hot_finish he name ?n mode (cc_saved c) (Some (cc_logger c)) (cc_live c) (ct_start s) (cc_sink c) ?p = Some (code, [], cc_sink c, p')"
    "hot_ends (cc_saved c) (pr_fds ?p) (cc_back c) code p'"
    "code = 0 \<longrightarrow> (\<exists>e. measured (pr_out ?p) [] (hot_row mode name ?n e) Null_Device (cc_old c) p') \<and>
       ((\<forall>c. fe_fflush (he_fd he) c) \<longrightarrow> pr_buffer p' = [])" by blast
  ultimately show ?thesis
    using s(5,6) j(4) p measured_after by (simp add: done_inv_def return_with_def)
qed

text \<open>A step that leaves everything but the main thread and one worker as it is.\<close>

lemma active_inv_cong:
  assumes "active_inv c s" "ct_logger s' = ct_logger s" "ct_live s' = ct_live s" "ct_saved s' = ct_saved s" "ct_bad s' = ct_bad s"
    and "ct_process s' = ct_process s" "ct_sink s' = ct_sink s" "pc_inv c s'"
    and "ct_workers s' = (ct_workers s)[i := x]" "worker_inv c i x"
    and "cw_i x = cw_i (ct_workers s ! i)" "cw_first_failure x = cw_first_failure (ct_workers s ! i)"
  shows "active_inv c s'"
proof (cases "i < 4")
  case True
  then have len: "i < length (ct_workers s)" using assms(1) by (simp add: active_inv_def)
  have "logged s' = logged s" using logged_set [OF len, of x] assms(9,11) by (simp add: logged_def)
  moreover have "list_all (\<lambda>x. cw_first_failure x = IJ_STATUS_OK) (ct_workers s') \<longleftrightarrow>
      list_all (\<lambda>x. cw_first_failure x = IJ_STATUS_OK) (ct_workers s)"
    using len assms(9,12) by (auto simp: list_all_length nth_list_update)
  ultimately have "process_inv c s'" using assms(1,6) by (simp add: active_inv_def process_inv_def)
  then show ?thesis using assms len unfolding active_inv_def by (auto simp: nth_list_update)
next
  case False
  then have "length (ct_workers s) \<le> i" using assms(1) by (simp add: active_inv_def)
  then have "ct_workers s' = ct_workers s" using assms(9) by (simp add: list_update_beyond)
  then show ?thesis using assms by (simp add: active_inv_def process_inv_def logged_def)
qed

lemma create_step_inv:
  assumes c: "call_inv c" and a: "active_inv c s" "ct_pc s = Creating i"
  shows "active_inv c (create_step he te i s) \<or> done_inv he name mode c (create_step he te i s)"
proof -
  have pc: "i \<le> 4" "\<forall>j<4. cw_thread (ct_workers s ! j) = Unborn \<longleftrightarrow> i \<le> j" "ct_remainder s = of_nat (cc_iterations c)"
    and len: "length (ct_workers s) = 4" using a by (simp_all add: active_inv_def pc_inv_def)
  consider "i = 4" | "i < 4" "te_create te i" | "i < 4" "\<not> te_create te i" using pc(1) by linarith
  then show ?thesis
  proof cases
    case 1
    then have "create_step he te i s = s\<lparr>ct_pc := Joining 0\<rparr>" by (simp add: create_step_def IJ_CONTENTION_PRODUCER_COUNT_def)
    moreover have "active_inv c (s\<lparr>ct_pc := Joining 0\<rparr>)"
      using a(1) pc 1 by (simp add: active_inv_def process_inv_def logged_def pc_inv_def)
    ultimately show ?thesis by simp
  next
    case 2
    let ?x = "(ct_workers s ! i)\<lparr>cw_thread := Running\<rparr>"
    let ?s = "set_worker i ?x (s\<lparr>ct_pc := Creating (i + 1)\<rparr>)"
    have "worker_inv c i (ct_workers s ! i)" using a(1) 2(1) by (simp add: active_inv_def)
    moreover have "cw_thread (ct_workers s ! i) = Unborn" using pc(2) 2(1) by simp
    ultimately have w: "worker_inv c i ?x" by (simp add: worker_inv_def clean_def)
    have "pc_inv c ?s" using pc 2(1) len by (auto simp: pc_inv_def nth_list_update)
    from active_inv_cong [OF a(1), of ?s i ?x] this w have "active_inv c ?s" by simp
    with 2 show ?thesis by (simp add: create_step_def IJ_CONTENTION_PRODUCER_COUNT_def)
  next
    case 3
    then have "create_step he te i s = contention_quit he s" by (simp add: create_step_def IJ_CONTENTION_PRODUCER_COUNT_def)
    with quit_done [OF c, of s] a(1) show ?thesis by (simp add: active_inv_def)
  qed
qed

lemma join_step_inv:
  assumes c: "call_inv c" and a: "active_inv c s" "ct_pc s = Joining i"
  shows "active_inv c (join_step he te name (cc_iterations c) mode i s) \<or>
    done_inv he name mode c (join_step he te name (cc_iterations c) mode i s)"
proof -
  let ?x = "ct_workers s ! i"
  have pc: "i \<le> 4" "\<forall>j<4. cw_thread (ct_workers s ! j) \<noteq> Unborn" "\<forall>j<i. cw_thread (ct_workers s ! j) = Exited 0"
    "ct_remainder s + of_nat (\<Sum>j<i. producer_iterations (cc_iterations c) j) = of_nat (cc_iterations c)"
    using a by (simp_all add: active_inv_def pc_inv_def)
  have quit: "done_inv he name mode c (contention_quit he s)" using quit_done [OF c, of s] a(1) by (simp add: active_inv_def)
  consider "i = 4" | "i < 4" "te_join te i" "cw_thread ?x = Exited 0" | "i < 4" "te_join te i" "cw_thread ?x = Running"
    | "i < 4" "\<not> te_join te i \<or> (\<exists>rc. rc \<noteq> 0 \<and> cw_thread ?x = Exited rc)"
    using pc(1,2) by (cases "cw_thread ?x") (auto simp: le_less)
  then show ?thesis
  proof cases
    case 1
    then show ?thesis using finish_done [OF c a(1)] a(2) by simp
  next
    case 2
    have w: "worker_inv c i ?x" using a(1) 2(1) by (simp add: active_inv_def)
    then have x: "cw_status_sum ?x = 0" "cw_first_failure ?x = IJ_STATUS_OK" "cw_iterations ?x = producer_iterations (cc_iterations c) i"
      using 2(3) by (simp_all add: worker_inv_def clean_def)
    let ?s = "s\<lparr>ct_remainder := ct_remainder s - of_nat (cw_iterations ?x), ct_sink := ct_sink s, ct_pc := Joining (i + 1)\<rparr>"
    have "pc_inv c ?s" using pc 2 x(3) by (auto simp: pc_inv_def less_Suc_eq algebra_simps)
    from active_inv_cong [OF a(1), of ?s i ?x] this w have "active_inv c ?s" by simp
    with 2 x show ?thesis by (simp add: join_step_def IJ_CONTENTION_PRODUCER_COUNT_def Let_def)
  next
    case 3
    then show ?thesis using a(1) by (simp add: join_step_def IJ_CONTENTION_PRODUCER_COUNT_def Let_def)
  next
    case 4
    then have "join_step he te name (cc_iterations c) mode i s = contention_quit he s"
      using pc(2) by (auto simp: join_step_def IJ_CONTENTION_PRODUCER_COUNT_def Let_def split: thread.splits)
    with quit show ?thesis by simp
  qed
qed

text \<open>After the call has returned with success no thread is left; after a failure some may still be running.\<close>

lemma worker_step_done: "done_inv he name mode c s \<Longrightarrow> done_inv he name mode c (ij_contention_worker_main cpu he t s)"
  by (auto simp: done_inv_def ij_contention_worker_main_def Let_def)

lemma contention_step_inv:
  assumes c: "call_inv c" and i: "active_inv c s \<or> done_inv he name mode c s"
  shows "active_inv c (contention_step cpu he te name (cc_iterations c) mode a s) \<or>
    done_inv he name mode c (contention_step cpu he te name (cc_iterations c) mode a s)"
proof (cases a)
  case (Worker t)
  then show ?thesis using i worker_step_active [OF c] worker_step_done by (auto simp: contention_step_def)
next
  case Main
  show ?thesis
  proof (cases "active_inv c s")
    case True
    then show ?thesis
      using Main create_step_inv [OF c True] join_step_inv [OF c True]
      by (cases "ct_pc s") (auto simp: contention_step_def active_inv_def pc_inv_def)
  next
    case False
    then show ?thesis using i Main by (auto simp: contention_step_def done_inv_def)
  qed
qed

lemma contention_run_inv:
  assumes "call_inv c" "active_inv c s \<or> done_inv he name mode c s"
  shows "active_inv c (contention_run cpu he te name (cc_iterations c) mode sched s) \<or>
    done_inv he name mode c (contention_run cpu he te name (cc_iterations c) mode sched s)"
  using assms(2)
proof (induction sched arbitrary: s)
  case (Cons a sched)
  from Cons.IH [OF contention_step_inv [OF assms(1) Cons.prems]] show ?case by (simp add: contention_run_def)
qed (simp add: contention_run_def)

section \<open>The whole call\<close>

text \<open>How the call and the process at the start of the first thread are related.\<close>

definition begun ::
  "cpu \<Rightarrow> hot_env \<Rightarrow> ij_logger_config_t \<Rightarrow> ij_event_t \<Rightarrow> size_t \<Rightarrow> 64 word \<Rightarrow> process \<Rightarrow> description \<Rightarrow> contention_call \<Rightarrow> bool" where
  "begun cpu he config event n acc0 p d c \<longleftrightarrow> call_inv c \<and> cc_event c = event \<and> cc_iterations c = n \<and> cc_sink c = acc0 \<and>
     cc_old c = d \<and> cc_back c = pr_fds p \<and> pr_out (cc_process c) = pr_out p \<and>
     (pr_fds (cc_process c))(cc_saved c := None) = (pr_fds p)(1 \<mapsto> Null_Device) \<and>
     logged_line (lg_config (cc_logger c)) = logged_line config \<and>
     (scenario_works he config event p \<longrightarrow> log_works cpu (he_os he) (cc_logger c) event)"

lemma contention_begin_cases:
  assumes "cfg_sink_kind config = IJ_SINK_KIND_CONSOLE" "pr_fds p 1 = Some d" "pr_buffer p = []"
  obtains (early) live p' where "contention_begin he config event n acc0 p = Inl (Some (1, live, acc0, p'))"
      "scenario_ends p 1 p'" "LOGGER \<notin> set live" "\<not> scenario_works he config event p"
  | (threads) s c where "contention_begin he config event n acc0 p = Inr s" "active_inv c s" "begun cpu he config event n acc0 p d c"
      "ct_pc s = Creating 0" "ct_workers s = map (start_worker event n) [0..<4]"
proof (cases rule: hot_init_cases [where os = "he_os he" and p = p and event = event and cpu = cpu, OF assms(1)])
  case (1 st l live w)
  then show thesis using init_failure [OF 1(1,2)] hot_init_works [OF _ assms(1) 1(1)]
    by (intro early [of live "p\<lparr>pr_world := w\<rparr>"]) (auto simp: contention_begin_def scenario_ends_def)
next
  case (2 logger live w)
  let ?p = "p\<lparr>pr_world := w\<rparr>"
  obtain r saved p1 where e: "ij_redirect_stdout_to_devnull (he_fd he) True ?p = (r, saved, p1)" by (metis prod_cases3)
  have pp: "pr_fds ?p 1 = Some d" "pr_buffer ?p = []" using assms(2,3) by simp_all
  from e pp show thesis
  proof (cases rule: redirect_kept)
    case fail
    then have "kept_stdout (- 1) d p1 (pr_fds p1) d" using pp by (simp add: kept_stdout_def same_but_fds_def)
    from hot_quit_outcome [OF 2(3) this, of he acc0] obtain p' where
      q: "hot_quit he (- 1) (Some logger) live acc0 p1 = Some (1, [], acc0, p')" "pr_fds p' = (pr_fds p1)(0 := None)" by auto
    have "\<not> scenario_works he config event p"
      using redirect_works [of "he_fd he" ?p d] e fail(1) pp(1) by (auto simp: scenario_works_def)
    then show thesis using q e fail(1,2) 2(1,2) by (intro early [of "[]" p']) (simp_all add: contention_begin_def scenario_ends_def)
  next
    case (ok k)
    obtain t where t: "hot_time he p1 = (t, p1\<lparr>pr_world := tick (pr_world p1)\<rparr>)" using hot_time_world by blast
    let ?q = "p1\<lparr>pr_world := tick (pr_world p1)\<rparr>"
    let ?c = "\<lparr>cc_event = event, cc_iterations = n, cc_logger = logger, cc_live = live, cc_saved = k, cc_old = d,
      cc_back = pr_fds p, cc_sink = acc0, cc_process = ?q\<rparr>"
    let ?s = "\<lparr>ct_pc = Creating 0, ct_workers = map (start_worker event n) [0..<4], ct_remainder = of_nat n, ct_sink = acc0,
      ct_logger = Some logger, ct_live = live, ct_start = t, ct_saved = k, ct_process = ?q, ct_bad = False\<rparr>"
    have "contention_begin he config event n acc0 p = Inr ?s"
      using e ok(1,2) 2(1,2) t by (simp add: contention_begin_def deref_def IJ_CONTENTION_PRODUCER_COUNT_def)
    moreover have "begun cpu he config event n acc0 p d ?c"
      using ok 2(3,4,5) by (simp add: begun_def call_inv_def kept_stdout_def scenario_works_def)
    moreover have "active_inv ?c ?s"
    proof -
      have "worker_inv ?c i (map (start_worker event n) [0..<4] ! i)" if "i < 4" for i
        using that by (simp add: worker_inv_def start_worker_def clean_def)
      moreover have "process_inv ?c ?s" using ok(4) by (simp add: process_inv_def kept_stdout_def logged_def start_worker_def upt_rec)
      moreover have "pc_inv ?c ?s" by (simp add: pc_inv_def start_worker_def)
      ultimately show ?thesis by (simp add: active_inv_def)
    qed
    ultimately show thesis using threads by simp
  qed
qed

lemma done_result:
  assumes "begun cpu he config event n acc0 p d c" "done_inv he name mode c s" "ct_pc s = Returned code"
  shows "scenario_result he p Null_Device d (concat (replicate n (logged_line config event))) (hot_row mode name n) acc0
    (code, ct_live s, ct_sink s, ct_process s)"
proof -
  have "hot_ends (cc_saved c) (pr_fds (cc_process c)) (pr_fds p) code (ct_process s)"
    using assms by (auto simp: done_inv_def begun_def)
  then have "scenario_ends p code (ct_process s)" by (rule hot_ends_scenario) (use assms(1) in \<open>simp add: begun_def\<close>)
  then show ?thesis using assms by (auto simp: scenario_result_def done_inv_def begun_def)
qed

section \<open>When nothing fails\<close>

definition healthy :: "contention \<Rightarrow> bool" where
  "healthy s \<longleftrightarrow> list_all (\<lambda>x. cw_first_failure x = IJ_STATUS_OK) (ct_workers s) \<and> (\<forall>code. ct_pc s = Returned code \<longrightarrow> code = 0)"

definition threads_work :: "thread_env \<Rightarrow> bool" where
  "threads_work te \<longleftrightarrow> (\<forall>i. te_create te i \<and> te_join te i)"

lemma list_all_update: "list_all P xs \<Longrightarrow> P x \<Longrightarrow> list_all P (xs[i := x])"
  by (auto simp: list_all_iff dest!: set_update_subset_insert [THEN subsetD])

lemma worker_step_healthy:
  assumes "healthy s" "active_inv c s" "log_works cpu (he_os he) (cc_logger c) (cc_event c)"
  shows "healthy (ij_contention_worker_main cpu he t s)"
proof (cases "t < length (ct_workers s)")
  case True
  then have w: "worker_inv c t (ct_workers s ! t)" and lg: "ct_logger s = Some (cc_logger c)" using assms(2) by (simp_all add: active_inv_def)
  have ff: "cw_first_failure (ct_workers s ! t) = IJ_STATUS_OK" using assms(1) True by (simp add: healthy_def list_all_length)
  obtain v cp where "ij_logger_log cpu (he_os he) (Some (cc_logger c)) (Some (cc_event c)) (pr_world (ct_process s)) =
      Some (IJ_STATUS_OK, Some (cc_logger c), v, cp)" using assms(3) unfolding log_works_def by blast
  with assms(1) w lg ff show ?thesis
    by (auto simp: ij_contention_worker_main_def Let_def healthy_def worker_inv_def intro!: list_all_update)
qed (use assms(1) in \<open>simp add: ij_contention_worker_main_def Let_def\<close>)

lemma main_step_healthy:
  assumes c: "call_inv c" and h: "healthy s" and a: "active_inv c s" and te: "threads_work te" and fd: "fds_work (he_fd he)"
  shows "healthy (contention_step cpu he te name (cc_iterations c) mode Main s)"
proof (cases "ct_pc s")
  case (Creating i)
  have "cw_first_failure (ct_workers s ! i) = IJ_STATUS_OK" if "i < length (ct_workers s)"
    using h that by (simp add: healthy_def list_all_length)
  moreover have "length (ct_workers s) = 4" using a by (simp add: active_inv_def)
  ultimately show ?thesis using h te Creating
    by (auto simp: contention_step_def create_step_def healthy_def threads_work_def IJ_CONTENTION_PRODUCER_COUNT_def intro!: list_all_update)
next
  case (Joining i)
  then have i: "i \<le> 4" and len: "length (ct_workers s) = 4" using a by (simp_all add: active_inv_def pc_inv_def)
  show ?thesis
  proof (cases "i = 4")
    case True
    have pi: "process_inv c s" and s: "ct_logger s = Some (cc_logger c)" "ct_live s = cc_live c" "ct_saved s = cc_saved c"
      using a by (simp_all add: active_inv_def)
    have b: "console_built (cc_logger c) (cc_live c)" using c by (simp add: call_inv_def)
    from hot_finish_outcome [OF b kept_process [OF c pi], of he name "cc_iterations c" mode "ct_start s" "ct_sink s"] fd
    obtain live acc p' where "hot_finish he name (cc_iterations c) mode (ct_saved s) (ct_logger s) (ct_live s) (ct_start s) (ct_sink s)
      (ct_process s) = Some (0, live, acc, p')" unfolding s by blast
    then show ?thesis using h joined_all(1) [OF a] Joining True
      by (simp add: contention_step_def join_step_def return_with_def healthy_def IJ_CONTENTION_PRODUCER_COUNT_def)
  next
    case False
    with i len have l: "i < 4" "i < length (ct_workers s)" by simp_all
    then have ff: "cw_first_failure (ct_workers s ! i) = IJ_STATUS_OK" and w: "worker_inv c i (ct_workers s ! i)"
      using h a by (simp_all add: healthy_def list_all_length active_inv_def)
    then have "rc = 0" if "cw_thread (ct_workers s ! i) = Exited rc" for rc using that by (auto simp: worker_inv_def split: if_splits)
    then show ?thesis using h te Joining l(1) ff
      by (auto simp: contention_step_def join_step_def healthy_def threads_work_def IJ_CONTENTION_PRODUCER_COUNT_def Let_def
          split: thread.split)
  qed
qed (use h in \<open>simp add: contention_step_def\<close>)

lemma contention_run_healthy:
  assumes c: "call_inv c" and te: "threads_work te" "fds_work (he_fd he)" "log_works cpu (he_os he) (cc_logger c) (cc_event c)"
  shows "active_inv c s \<or> done_inv he name mode c s \<Longrightarrow> healthy s \<Longrightarrow>
    healthy (contention_run cpu he te name (cc_iterations c) mode sched s)"
proof (induction sched arbitrary: s)
  case (Cons x sched)
  have "healthy (contention_step cpu he te name (cc_iterations c) mode x s)"
  proof (cases "active_inv c s")
    case True
    then show ?thesis
      using main_step_healthy [OF c Cons.prems(2) True te(1,2)] worker_step_healthy [OF Cons.prems(2) True te(3)]
      by (cases x) (simp_all add: contention_step_def)
  next
    case False
    with Cons.prems(1) obtain code where "ct_pc s = Returned code" "ct_live s = []" by (auto simp: done_inv_def)
    with Cons.prems(2) show ?thesis
      by (cases x) (auto simp: contention_step_def ij_contention_worker_main_def Let_def healthy_def list_all_length nth_list_update)
  qed
  with Cons.IH [OF contention_step_inv [OF c Cons.prems(1)]] show ?case by (simp add: contention_run_def)
qed (simp add: contention_run_def)

section \<open>No deadlock\<close>

fun worker_left :: "ij_contention_worker_t \<Rightarrow> nat" where
  "worker_left x =
     (case cw_thread x of Unborn \<Rightarrow> cw_iterations x + 1 | Running \<Rightarrow> cw_iterations x - cw_i x + 1 | Exited _ \<Rightarrow> 0)"

fun main_left :: "main_pc \<Rightarrow> nat" where
  "main_left (Creating i) = 10 - i"
| "main_left (Joining i) = 5 - i"
| "main_left (Returned _) = 0"

definition steps_left :: "contention \<Rightarrow> nat" where
  "steps_left s = main_left (ct_pc s) + sum_list (map worker_left (ct_workers s))"

lemma worker_progress:
  assumes c: "call_inv c" and a: "active_inv c s" and t: "t < 4" "cw_thread (ct_workers s ! t) = Running"
  shows "steps_left (ij_contention_worker_main cpu he t s) < steps_left s"
proof -
  let ?x = "ct_workers s ! t"
  have len: "t < length (ct_workers s)" and lg: "ct_logger s = Some (cc_logger c)" and w: "worker_inv c t ?x" and pi: "process_inv c s"
    and lv: "ct_live s = cc_live c" using a t(1) by (simp_all add: active_inv_def)
  have ev: "cw_event ?x = Some (cc_event c)" using w by (simp add: worker_inv_def)
  have b: "console_built (cc_logger c) (cc_live c)" using c by (simp add: call_inv_def)
  have live: "LOGGER \<in> set (ct_live s)" using b lv by (simp add: console_built_def)
  have one: "pr_fds (ct_process s) 1 = Some Null_Device" using kept_process [OF c pi] by (simp add: kept_stdout_def)
  obtain st v cp where g: "ij_logger_log cpu (he_os he) (Some (cc_logger c)) (Some (cc_event c)) (pr_world (ct_process s)) =
      Some (st, Some (cc_logger c), v, cp)" using log_absorb [OF b one] by metis
  have "\<exists>y s'. ij_contention_worker_main cpu he t s = set_worker t y s' \<and> ct_workers s' = ct_workers s \<and> ct_pc s' = ct_pc s \<and>
      worker_left y < worker_left ?x"
  proof (cases "cw_i ?x < cw_iterations ?x")
    case False
    then show ?thesis using len t(2) lg ev
      by (intro exI [of _ "?x\<lparr>cw_thread := Exited 0\<rparr>"] exI [of _ s]) (simp add: ij_contention_worker_main_def Let_def)
  next
    case True
    then show ?thesis
    proof (cases "st = IJ_STATUS_OK")
      case False
      then show ?thesis using True len t(2) lg ev live g by (fastforce simp: ij_contention_worker_main_def Let_def)
    next
      case ok: True
      let ?y = "?x\<lparr>cw_status_sum := cw_status_sum ?x + of_nat (status_value st), cw_i := cw_i ?x + 1\<rparr>"
      have "worker_left ?y < worker_left ?x" using True t(2) by simp
      then show ?thesis using ok True len t(2) lg ev live g
        by (intro exI [of _ ?y] exI [of _ "s\<lparr>ct_logger := Some (cc_logger c), ct_process := absorb v (ct_process s)\<rparr>"])
          (simp add: ij_contention_worker_main_def Let_def)
    qed
  qed
  then obtain y s' where y: "ij_contention_worker_main cpu he t s = set_worker t y s'" "ct_workers s' = ct_workers s" "ct_pc s' = ct_pc s"
    "worker_left y < worker_left ?x" by blast
  show ?thesis using sum_map_update [OF len, of worker_left y] y unfolding steps_left_def by simp
qed

lemma contention_progress:
  assumes c: "call_inv c" and a: "active_inv c s"
  obtains x where "done_inv he name mode c (contention_step cpu he te name (cc_iterations c) mode x s) \<or>
    active_inv c (contention_step cpu he te name (cc_iterations c) mode x s) \<and>
    steps_left (contention_step cpu he te name (cc_iterations c) mode x s) < steps_left s"
proof (cases "ct_pc s")
  case (Creating i)
  have i: "i \<le> 4" "i < 4 \<longrightarrow> cw_thread (ct_workers s ! i) = Unborn" and len: "length (ct_workers s) = 4"
    and w: "i < 4 \<longrightarrow> worker_inv c i (ct_workers s ! i)"
    using a Creating by (simp_all add: active_inv_def pc_inv_def)
  have quit: "done_inv he name mode c (contention_quit he s)" using quit_done [OF c, of s] a by (simp add: active_inv_def)
  consider "i < 4" "\<not> te_create te i" | "i < 4" "te_create te i" | "i = 4" using i(1) by linarith
  then have "done_inv he name mode c (create_step he te i s) \<or> steps_left (create_step he te i s) < steps_left s"
  proof cases
    case 1
    then show ?thesis using quit by (simp add: create_step_def IJ_CONTENTION_PRODUCER_COUNT_def)
  next
    case 2
    let ?x = "ct_workers s ! i"
    have "worker_left (?x\<lparr>cw_thread := Running\<rparr>) = worker_left ?x" using 2 i(2) w by (simp add: worker_inv_def)
    then show ?thesis using sum_map_update [of i "ct_workers s" worker_left "?x\<lparr>cw_thread := Running\<rparr>"] 2 len Creating
      by (intro disjI2) (simp add: create_step_def steps_left_def IJ_CONTENTION_PRODUCER_COUNT_def del: worker_left.simps)
  next
    case 3
    then show ?thesis using Creating by (simp add: create_step_def steps_left_def IJ_CONTENTION_PRODUCER_COUNT_def)
  qed
  with create_step_inv [OF c a Creating] Creating that [of Main] show thesis by (auto simp: contention_step_def)
next
  case (Joining i)
  have i: "i \<le> 4" "i < 4 \<longrightarrow> cw_thread (ct_workers s ! i) \<noteq> Unborn" using a Joining by (simp_all add: active_inv_def pc_inv_def)
  show thesis
  proof (cases "i < 4 \<and> te_join te i \<and> cw_thread (ct_workers s ! i) = Running")
    case True
    then show thesis using that [of "Worker i"] worker_progress [OF c a] worker_step_active [OF c a] by (simp add: contention_step_def)
  next
    case False
    let ?s = "join_step he te name (cc_iterations c) mode i s"
    have "done_inv he name mode c ?s \<or> steps_left ?s < steps_left s"
    proof (cases "ct_pc ?s = Joining (i + 1) \<and> ct_workers ?s = ct_workers s")
      case True
      then show ?thesis using i(1) Joining by (intro disjI2) (simp add: steps_left_def)
    next
      case moved: False
      have quit: "done_inv he name mode c (contention_quit he (s\<lparr>ct_remainder := r, ct_sink := k\<rparr>))" "done_inv he name mode c (contention_quit he s)" for r k
        using quit_done [OF c, of "s\<lparr>ct_remainder := r, ct_sink := k\<rparr>"] quit_done [OF c, of s] a
        by (simp_all add: active_inv_def process_inv_def logged_def)
      show ?thesis
      proof (cases "i = 4")
        case True
        then show ?thesis using finish_done [OF c a] Joining by simp
      next
        case False
        then have "i < 4" using i(1) by simp
        with moved \<open>\<not> (i < 4 \<and> te_join te i \<and> cw_thread (ct_workers s ! i) = Running)\<close> i(2) quit show ?thesis
          by (auto simp: join_step_def Let_def IJ_CONTENTION_PRODUCER_COUNT_def split: thread.splits if_splits)
      qed
    qed
    with join_step_inv [OF c a Joining] Joining that [of Main] show thesis by (auto simp: contention_step_def)
  qed
next
  case (Returned code)
  then show thesis using a by (simp add: active_inv_def pc_inv_def)
qed

lemma contention_run_append:
  "contention_run cpu he te name n mode (xs @ ys) s = contention_run cpu he te name n mode ys (contention_run cpu he te name n mode xs s)"
  by (simp add: contention_run_def)

lemma contention_returns_from:
  assumes c: "call_inv c"
  shows "active_inv c s \<or> done_inv he name mode c s \<Longrightarrow>
    \<exists>sched. done_inv he name mode c (contention_run cpu he te name (cc_iterations c) mode sched s)"
proof (induction "steps_left s" arbitrary: s rule: less_induct)
  case less
  show ?case
  proof (cases "active_inv c s")
    case False
    then show ?thesis using less.prems by (intro exI [of _ "[]"]) (simp add: contention_run_def)
  next
    case True
    from contention_progress [OF c True] obtain x where
      x: "done_inv he name mode c (contention_step cpu he te name (cc_iterations c) mode x s) \<or>
        active_inv c (contention_step cpu he te name (cc_iterations c) mode x s) \<and>
        steps_left (contention_step cpu he te name (cc_iterations c) mode x s) < steps_left s" by blast
    then have "\<exists>sched. done_inv he name mode c (contention_run cpu he te name (cc_iterations c) mode sched
        (contention_step cpu he te name (cc_iterations c) mode x s))"
    proof
      assume "done_inv he name mode c (contention_step cpu he te name (cc_iterations c) mode x s)"
      then show ?thesis by (intro exI [of _ "[]"]) (simp add: contention_run_def)
    qed (use less.hyps in blast)
    then obtain sched where "done_inv he name mode c (contention_run cpu he te name (cc_iterations c) mode sched
        (contention_step cpu he te name (cc_iterations c) mode x s))" ..
    then show ?thesis by (intro exI [of _ "x # sched"]) (simp add: contention_run_def)
  qed
qed

lemma contention_returns:
  assumes "cfg_sink_kind config = IJ_SINK_KIND_CONSOLE" "pr_fds p 1 = Some d" "pr_buffer p = []"
  shows "\<exists>sched' r. ij_run_contention_scenario cpu he te (sched @ sched') name config event n mode acc0 p = Some r"
proof (cases rule: contention_begin_cases [where he = he and event = event and n = n and ?acc0.0 = acc0 and cpu = cpu, OF assms])
  case (1 live p')
  then show ?thesis by (simp add: ij_run_contention_scenario_def)
next
  case (2 s c)
  have c: "call_inv c" "cc_iterations c = n" using 2(3) by (simp_all add: begun_def)
  let ?s = "contention_run cpu he te name n mode sched s"
  have "active_inv c ?s \<or> done_inv he name mode c ?s" using contention_run_inv [OF c(1), of s he name mode cpu te sched] 2(2) c(2) by simp
  from contention_returns_from [OF c(1) this, of cpu te] c(2) obtain sched' where
    "done_inv he name mode c (contention_run cpu he te name n mode sched' ?s)" by auto
  then obtain code where "ct_pc (contention_run cpu he te name n mode (sched @ sched') s) = Returned code"
    by (auto simp: done_inv_def contention_run_append)
  then show ?thesis using 2(1) by (intro exI [of _ sched']) (simp add: ij_run_contention_scenario_def Let_def)
qed

lemma contention_outcome:
  assumes "cfg_sink_kind config = IJ_SINK_KIND_CONSOLE" "pr_fds p 1 = Some d" "pr_buffer p = []"
    and "ij_run_contention_scenario cpu he te sched name config event n mode acc0 p = Some r"
  shows "scenario_result he p Null_Device d (concat (replicate n (logged_line config event))) (hot_row mode name n) acc0 r \<and>
    (scenario_works he config event p \<and> threads_work te \<longrightarrow> fst r = 0)"
proof (cases rule: contention_begin_cases [where he = he and event = event and n = n and ?acc0.0 = acc0 and cpu = cpu, OF assms(1-3)])
  case (1 live p')
  then show ?thesis using assms(4) by (auto simp: ij_run_contention_scenario_def scenario_result_def)
next
  case (2 s c)
  have c: "call_inv c" "cc_iterations c = n" using 2(3) by (simp_all add: begun_def)
  define s' where "s' = contention_run cpu he te name n mode sched s"
  have inv: "active_inv c s' \<or> done_inv he name mode c s'"
    using contention_run_inv [OF c(1), of s he name mode cpu te sched] 2(2) c(2) by (simp add: s'_def)
  obtain code where r: "ct_pc s' = Returned code" "r = (code, ct_live s', ct_sink s', ct_process s')"
    using assms(4) 2(1) by (auto simp: ij_run_contention_scenario_def s'_def [symmetric] split: main_pc.splits)
  then have "done_inv he name mode c s'" using inv by (auto simp: active_inv_def pc_inv_def)
  from done_result [OF 2(3) this r(1)] have "scenario_result he p Null_Device d (concat (replicate n (logged_line config event)))
    (hot_row mode name n) acc0 r" unfolding r(2) .
  moreover have "code = 0" if "scenario_works he config event p" "threads_work te"
  proof -
    have "fds_work (he_fd he)" "log_works cpu (he_os he) (cc_logger c) (cc_event c)"
      using that(1) 2(3) by (simp_all add: begun_def scenario_works_def)
    from contention_run_healthy [OF c(1) that(2) this, of s name mode sched] 2(2,4,5) c(2)
    have "healthy s'" by (simp add: s'_def healthy_def list_all_iff start_worker_def)
    then show ?thesis using r(1) by (simp add: healthy_def)
  qed
  ultimately show ?thesis using r(2) by simp
qed

section \<open>Properties\<close>


text \<open>
  The scenario never blocks: whatever the threads have done so far, and whatever fails, there is a way
  to go on in which the call returns.
\<close>

theorem contention_scenario_returns:
  assumes "cfg_sink_kind config = IJ_SINK_KIND_CONSOLE" "pr_fds p 1 = Some d" "pr_buffer p = []"
  shows "\<exists>sched' r. ij_run_contention_scenario cpu he te (sched @ sched') name config event n mode acc0 p = Some r"
  by (rule contention_returns [OF assms])

text \<open>
  C29. The logger and its workers, in every state of every schedule: as long as the call has not returned,
  and when it has returned 0, no worker has used the logger after it was freed; at status 0 every thread has
  ended and has logged its whole share, and the shares together are the requested iterations.
\<close>

theorem contention_workers_safe:
  assumes "cfg_sink_kind config = IJ_SINK_KIND_CONSOLE" "pr_fds p 1 = Some d" "pr_buffer p = []"
    and "contention_begin he config event n acc0 p = Inr s0" "s = contention_run cpu he te name n mode sched s0"
  shows "(ct_bad s \<longrightarrow> ct_pc s = Returned 1) \<and> (\<Sum>i<IJ_CONTENTION_PRODUCER_COUNT. producer_iterations n i) = n \<and>
    (ct_pc s = Returned 0 \<longrightarrow> map cw_thread (ct_workers s) = replicate IJ_CONTENTION_PRODUCER_COUNT (Exited 0) \<and>
       map cw_i (ct_workers s) = map (producer_iterations n) [0..<IJ_CONTENTION_PRODUCER_COUNT])"
proof (cases rule: contention_begin_cases [where he = he and event = event and n = n and ?acc0.0 = acc0 and cpu = cpu, OF assms(1-3)])
  case (1 live p')
  then show ?thesis using assms(4) by simp
next
  case (2 s1 c)
  have c: "call_inv c" "cc_iterations c = n" using 2(3) by (simp_all add: begun_def)
  have "active_inv c s \<or> done_inv he name mode c s"
    using contention_run_inv [OF c(1), of s1 he name mode cpu te sched] 2(1,2) c(2) assms(4,5) by simp
  then show ?thesis
  proof
    assume "active_inv c s"
    then show ?thesis by (auto simp: active_inv_def pc_inv_def shares_sum IJ_CONTENTION_PRODUCER_COUNT_def)
  next
    assume d: "done_inv he name mode c s"
    then obtain code where code: "ct_pc s = Returned code" "code \<in> {0, 1}" "code = 0 \<longrightarrow> \<not> ct_bad s \<and> length (ct_workers s) = 4 \<and>
      (\<forall>i<4. cw_thread (ct_workers s ! i) = Exited 0 \<and> cw_i (ct_workers s ! i) = producer_iterations n i)"
      using c(2) by (auto simp: done_inv_def hot_ends_def)
    have "map cw_thread (ct_workers s) = replicate 4 (Exited 0) \<and> map cw_i (ct_workers s) = map (producer_iterations n) [0..<4]"
      if "code = 0" using code(3) that by (auto intro: nth_equalityI)
    then show ?thesis using code by (auto simp: shares_sum IJ_CONTENTION_PRODUCER_COUNT_def)
  qed
qed

definition working_threads :: thread_env where
  "working_threads = \<lparr>te_create = (\<lambda>_. True), te_join = (\<lambda>_. True)\<rparr>"

lemma sample_scenario:
  "pr_fds sample_process 1 = Some (Inherited 1)" "pr_buffer sample_process = []"
  "scenario_works sample_hot hot_console_config hot_metadata_event sample_process" "threads_work working_threads"
  using sample_hot_works hot_configs hot_events_accepted
  by (simp_all add: sample_process_def scenario_works_def threads_work_def working_threads_def)

theorem contention_scenario_returns_witness:
  "\<exists>sched' r. ij_run_contention_scenario sample_cpu sample_hot working_threads ([Main, Worker 0] @ sched') (bytes ''contention_mpsc'')
     hot_console_config hot_metadata_event 10 OUTPUT_TSV 0 sample_process = Some r"
  by (rule contention_scenario_returns [OF hot_configs(4) sample_scenario(1,2)])


text \<open>The state in which the first thread is started, when nothing fails.\<close>

lemma sample_begin:
  obtains s c where "contention_begin sample_hot hot_console_config hot_metadata_event n 0 sample_process = Inr s"
    "active_inv c s" "call_inv c" "ct_pc s = Creating 0" "ct_workers s = map (start_worker hot_metadata_event n) [0..<4]"
proof (cases rule: contention_begin_cases [where he = sample_hot and event = hot_metadata_event and n = n and ?acc0.0 = 0
      and cpu = sample_cpu, OF hot_configs(4) sample_scenario(1,2)])
  case (1 live p')
  then show thesis using sample_scenario(3) by simp
next
  case (2 s c)
  then show thesis using that by (simp add: begun_def)
qed

theorem contention_workers_safe_witness:
  "\<exists>s0 sched s. contention_begin sample_hot hot_console_config hot_metadata_event 10 0 sample_process = Inr s0 \<and>
     s = contention_run sample_cpu sample_hot working_threads (bytes ''contention_mpsc'') 10 OUTPUT_TSV sched s0 \<and>
     ct_pc s = Returned 0 \<and> \<not> ct_bad s \<and> map cw_i (ct_workers s) = [3, 3, 2, 2]"
proof -
  obtain s0 where s0: "contention_begin sample_hot hot_console_config hot_metadata_event 10 0 sample_process = Inr s0"
    by (rule sample_begin)
  from contention_returns [OF hot_configs(4) sample_scenario(1,2), of sample_cpu sample_hot working_threads "[]"]
  obtain sched r where run: "ij_run_contention_scenario sample_cpu sample_hot working_threads sched (bytes ''contention_mpsc'')
      hot_console_config hot_metadata_event 10 OUTPUT_TSV 0 sample_process = Some r" by fastforce
  from contention_outcome [OF hot_configs(4) sample_scenario(1,2) this] sample_scenario(3,4) have "fst r = 0" by blast
  let ?s = "contention_run sample_cpu sample_hot working_threads (bytes ''contention_mpsc'') 10 OUTPUT_TSV sched s0"
  have pc: "ct_pc ?s = Returned 0"
    using run \<open>fst r = 0\<close> unfolding ij_run_contention_scenario_def s0 sum.case Let_def
    by (cases "ct_pc ?s") (auto simp del: bytes_Cons)
  have "map (producer_iterations 10) [0..<IJ_CONTENTION_PRODUCER_COUNT] = [3, 3, 2, 2]"
    by (simp add: producer_iterations_def IJ_CONTENTION_PRODUCER_COUNT_def upt_rec)
  with contention_workers_safe [OF hot_configs(4) sample_scenario(1,2) s0 refl, of sample_cpu working_threads
      "bytes ''contention_mpsc''" OUTPUT_TSV sched]
  have "\<not> ct_bad ?s \<and> map cw_i (ct_workers ?s) = [3, 3, 2, 2]" unfolding pc by (simp del: bytes_Cons)
  moreover define s where "s = ?s"
  ultimately have "contention_begin sample_hot hot_console_config hot_metadata_event 10 0 sample_process = Inr s0 \<and>
     s = contention_run sample_cpu sample_hot working_threads (bytes ''contention_mpsc'') 10 OUTPUT_TSV sched s0 \<and>
     ct_pc s = Returned 0 \<and> \<not> ct_bad s \<and> map cw_i (ct_workers s) = [3, 3, 2, 2]" using s0 pc by (simp del: bytes_Cons)
  then show ?thesis by - (rule exI [of _ s0], rule exI [of _ sched], rule exI [of _ s])
qed

text \<open>
  When the second thread cannot be started, the call shuts the logger down while the first is running: there
  is a schedule in which that thread uses the logger after it was freed.
\<close>

theorem contention_use_after_free:
  assumes "te_create te 0" "\<not> te_create te 1" "0 < n"
  shows "\<exists>s0. contention_begin sample_hot hot_console_config hot_metadata_event n 0 sample_process = Inr s0 \<and>
    ct_bad (contention_run cpu sample_hot te name n mode [Main, Main, Worker 0] s0)"
proof -
  obtain s0 c where s0: "contention_begin sample_hot hot_console_config hot_metadata_event n 0 sample_process = Inr s0"
    "active_inv c s0" "call_inv c" "ct_pc s0 = Creating 0" "ct_workers s0 = map (start_worker hot_metadata_event n) [0..<4]"
    by (rule sample_begin)
  let ?x = "(start_worker hot_metadata_event n 0)\<lparr>cw_thread := Running\<rparr>"
  let ?s1 = "set_worker 0 ?x (s0\<lparr>ct_pc := Creating 1\<rparr>)"
  have s1: "create_step sample_hot te 0 s0 = ?s1"
    using assms(1) s0(5) by (simp add: create_step_def IJ_CONTENTION_PRODUCER_COUNT_def upt_rec)
  have "active_inv c ?s1" using create_step_inv [OF s0(3,2,4), of sample_hot te name mode] unfolding s1 by (auto simp: done_inv_def)
  then have d: "done_inv sample_hot name mode c (contention_quit sample_hot ?s1)"
    by (intro quit_done [OF s0(3)]) (simp_all add: active_inv_def)
  have lg: "ct_logger s0 \<noteq> None" using s0(2) by (simp add: active_inv_def)
  let ?s2 = "contention_quit sample_hot ?s1"
  have w: "ct_workers ?s2 = ct_workers ?s1" "ct_logger ?s2 = ct_logger ?s1"
    by (simp_all add: contention_quit_def return_with_def split: option.split)
  have "producer_iterations n 0 > 0" using assms(3) by (simp add: producer_iterations_def IJ_CONTENTION_PRODUCER_COUNT_def) presburger
  then have "ct_bad (ij_contention_worker_main cpu sample_hot 0 ?s2)"
    using d lg w s0(5) by (auto simp: ij_contention_worker_main_def Let_def done_inv_def start_worker_def upt_rec)
  moreover have "create_step sample_hot te 1 ?s1 = ?s2" using assms(2) by (simp add: create_step_def IJ_CONTENTION_PRODUCER_COUNT_def)
  ultimately show ?thesis using s0(1,4) s1 by (simp add: contention_run_def contention_step_def)
qed

end
