(* ===== verification/Bench_Hot_Main.thy ===== *)
theory Bench_Hot_Main
  imports Bench_Contention
begin

text \<open>
  The main program of \<open>bench/bench_hot_path.c\<close>: it reads its arguments, prints a header, runs the selected
  scenarios one after the other until one fails, and prints a footer. The locale \<open>benchmark_scenarios\<close>
  states what the program relies on; the scenarios with one thread and with several provide it.
\<close>

section \<open>The main program\<close>

text \<open>The schedule is that of the threads of the last scenario.\<close>

definition hot_scenario ::
  "cpu \<Rightarrow> hot_env \<Rightarrow> thread_env \<Rightarrow> actor list \<Rightarrow>
     size_t \<Rightarrow> output_mode_t \<Rightarrow> scenario_mode_t \<Rightarrow> 64 word \<Rightarrow> process \<Rightarrow> (int \<times> block list \<times> 64 word \<times> process) option" where
  "hot_scenario cpu he te sched iterations mode scenario =
     (case scenario of
        SCENARIO_DISABLED_LEVEL \<Rightarrow>
          ij_run_scenario cpu he (bytes ''disabled_level'') hot_disabled_config hot_console_event iterations mode False
      | SCENARIO_ENABLED_CONSOLE \<Rightarrow>
          ij_run_scenario cpu he (bytes ''enabled_console'') hot_console_config hot_console_event iterations mode True
      | SCENARIO_MEDIUM_MESSAGE \<Rightarrow>
          ij_run_scenario cpu he (bytes ''medium_message'') hot_console_config hot_medium_event iterations mode True
      | SCENARIO_MEDIUM_MESSAGE_WITH_METADATA \<Rightarrow>
          ij_run_scenario cpu he (bytes ''medium_message_with_metadata'') hot_console_config hot_metadata_event iterations mode True
      | _ \<Rightarrow> ij_run_contention_scenario cpu he te sched (bytes ''contention_mpsc'') hot_console_config hot_metadata_event iterations mode)"

definition selected_scenarios :: "scenario_mode_t \<Rightarrow> scenario_mode_t list" where
  "selected_scenarios scenario =
     filter (\<lambda>s. scenario = s \<or> scenario = SCENARIO_ALL)
       [SCENARIO_DISABLED_LEVEL, SCENARIO_ENABLED_CONSOLE, SCENARIO_MEDIUM_MESSAGE,
        SCENARIO_MEDIUM_MESSAGE_WITH_METADATA, SCENARIO_CONTENTION_MPSC]"

fun run_selected ::
  "(scenario_mode_t \<Rightarrow> 64 word \<Rightarrow> process \<Rightarrow> (int \<times> block list \<times> 64 word \<times> process) option) \<Rightarrow> scenario_mode_t list \<Rightarrow>
     64 word \<Rightarrow> process \<Rightarrow> (bool \<times> 64 word \<times> process) option" where
  "run_selected run [] status_sink p = Some (True, status_sink, p)"
| "run_selected run (s # scenarios) status_sink p =
     (case run s status_sink p of
        None \<Rightarrow> None
      | Some (code, _, status_sink, p) \<Rightarrow>
          if code \<noteq> 0 then Some (False, status_sink, p) else run_selected run scenarios status_sink p)"

definition hot_path_main ::
  "cpu \<Rightarrow> hot_env \<Rightarrow> thread_env \<Rightarrow> actor list \<Rightarrow>
     byte list list \<Rightarrow> process \<Rightarrow> (int \<times> process) option" where
  "hot_path_main cpu he te sched argv p =
     (case parse_hot_arguments argv OUTPUT_HUMAN SCENARIO_ALL 50000 of
        None \<Rightarrow> Some (2, p)
      | Some (mode, scenario, iterations) \<Rightarrow>
          let p = ij_print_header he mode iterations p in
          case run_selected (hot_scenario cpu he te sched iterations mode) (selected_scenarios scenario) 0 p of
            None \<Rightarrow> None
          | Some (ok, status_sink, p) \<Rightarrow>
              if \<not> ok then Some (1, p)
              else Some (0, printf (he_fd he)
                     (if mode = OUTPUT_TSV then tsv [bytes ''meta'', bytes ''status_sink'', decimal (unat status_sink)]
                      else [0x0a] @ bytes ''status-sink: '' @ decimal (unat status_sink) @ [0x0a]) p))"

section \<open>What the program prints\<close>

definition scenario_label :: "scenario_mode_t \<Rightarrow> byte list" where
  "scenario_label s =
     (case s of SCENARIO_DISABLED_LEVEL \<Rightarrow> bytes ''disabled_level'' | SCENARIO_ENABLED_CONSOLE \<Rightarrow> bytes ''enabled_console''
      | SCENARIO_MEDIUM_MESSAGE \<Rightarrow> bytes ''medium_message''
      | SCENARIO_MEDIUM_MESSAGE_WITH_METADATA \<Rightarrow> bytes ''medium_message_with_metadata''
      | SCENARIO_CONTENTION_MPSC \<Rightarrow> bytes ''contention_mpsc'' | SCENARIO_ALL \<Rightarrow> bytes ''all'')"

definition hot_header :: "output_mode_t \<Rightarrow> size_t \<Rightarrow> byte list" where
  "hot_header mode n =
     (if mode = OUTPUT_TSV then
        tsv [bytes ''format'', bytes ''tsv'', bytes ''v1''] @ tsv [bytes ''meta'', bytes ''iterations'', decimal n] @
        tsv [bytes ''columns'', bytes ''benchmark'', bytes ''scenario'', bytes ''iterations'', bytes ''elapsed_ns'', bytes ''ns_per_op'']
      else bytes ''iojournal benchmark: hot path'' @ [0x0a] @ bytes ''iterations: '' @ decimal n @ [0x0a, 0x0a])"

definition hot_footer :: "output_mode_t \<Rightarrow> byte list" where
  "hot_footer mode =
     (if mode = OUTPUT_TSV then tsv [bytes ''meta'', bytes ''status_sink'', decimal 0]
      else [0x0a] @ bytes ''status-sink: '' @ decimal 0 @ [0x0a])"

text \<open>What has been printed, whether or not stdio has passed it on.\<close>

definition printed :: "description \<Rightarrow> process \<Rightarrow> byte list" where
  "printed d p = pr_out p d @ pr_buffer p"

lemma spill_printed:
  assumes "pr_fds p 1 = Some d"
  shows "printed d (spill k p) = printed d p"
  unfolding printed_def spill_out [OF assms] by simp

lemma printf_effect:
  assumes "pr_fds p 1 = Some d"
  shows "printed d (printf env s p) = printed d p @ s" "pr_fds (printf env s p) = pr_fds p"
proof -
  let ?q = "p\<lparr>pr_buffer := pr_buffer p @ s\<rparr>"
  have "printed d (printf env s p) = printed d ?q" using spill_printed [of ?q d] assms by (simp add: printf_def)
  then show "printed d (printf env s p) = printed d p @ s" by (simp add: printed_def)
  show "pr_fds (printf env s p) = pr_fds p" by (simp add: printf_def)
qed

lemma fflush_effect:
  assumes "pr_fds p 1 = Some d"
  shows "printed d (snd (fflush_stdout env p)) = printed d p" "pr_fds (snd (fflush_stdout env p)) = pr_fds p"
    "(\<And>c. fe_fflush env c) \<Longrightarrow> pr_buffer (snd (fflush_stdout env p)) = []"
  using spill_printed [OF assms] by (simp_all add: fflush_stdout_def)

lemma header_effect:
  assumes "pr_fds p 1 = Some d"
  shows "printed d (ij_print_header he mode n p) = printed d p @ hot_header mode n" "pr_fds (ij_print_header he mode n p) = pr_fds p"
    "(\<And>c. fe_fflush (he_fd he) c) \<Longrightarrow> pr_buffer (ij_print_header he mode n p) = []"
  using assms by (simp_all add: ij_print_header_def Let_def fflush_effect [of _ d] printf_effect [of _ d] hot_header_def
      del: bytes_Cons)

section \<open>Scenarios in sequence\<close>

text \<open>
  A list of scenarios of which each keeps the contract on the descriptor table and prints one of its
  \<open>rows\<close>; \<open>good\<close> is a condition on the process under which none fails.
\<close>

locale benchmark_scenarios =
  fixes run :: "scenario_mode_t \<Rightarrow> 64 word \<Rightarrow> process \<Rightarrow> (int \<times> block list \<times> 64 word \<times> process) option"
    and rows :: "scenario_mode_t \<Rightarrow> byte list set"
    and good :: "process \<Rightarrow> bool"
    and flushes :: bool
  assumes run_ends: "pr_fds p 1 = Some d \<Longrightarrow> pr_buffer p = [] \<Longrightarrow> run s acc p = Some (code, live, acc', p') \<Longrightarrow> scenario_ends p code p'"
    and run_prints: "flushes \<Longrightarrow> pr_fds p 1 = Some d \<Longrightarrow> d \<noteq> Null_Device \<Longrightarrow> pr_buffer p = [] \<Longrightarrow> run s acc p = Some (0, live, acc', p') \<Longrightarrow>
      acc' = acc \<and> pr_buffer p' = [] \<and> (\<exists>row\<in>rows s. pr_out p' d = pr_out p d @ row)"
    and run_good: "good p \<Longrightarrow> pr_fds p 1 = Some d \<Longrightarrow> pr_buffer p = [] \<Longrightarrow> run s acc p = Some (code, live, acc', p') \<Longrightarrow> code = 0"
    and good_next: "good p \<Longrightarrow> pr_fds p' = (pr_fds p)(0 := None) \<Longrightarrow> good p'"
begin

lemma run_one:
  assumes "flushes" "pr_fds p 1 = Some d" "d \<noteq> Null_Device" "pr_buffer p = []" "run s acc p = Some (0, live, acc', p')"
  obtains row where "acc' = acc" "pr_buffer p' = []" "row \<in> rows s" "pr_out p' d = pr_out p d @ row"
    "pr_fds p' = (pr_fds p)(0 := None)" "pr_fds p' 1 = Some d" "good p \<Longrightarrow> good p'"
proof -
  have "pr_fds p' = (pr_fds p)(0 := None)" using run_ends [OF assms(2,4,5)] by (simp add: scenario_ends_def)
  with run_prints [OF assms] assms(2) good_next that show thesis by auto
qed

lemma run_selected_ends:
  assumes "flushes" "d \<noteq> Null_Device"
  shows "run_selected run ss acc p = Some (ok, acc', p') \<Longrightarrow> pr_fds p 1 = Some d \<Longrightarrow> pr_buffer p = [] \<Longrightarrow>
    (good p \<longrightarrow> ok) \<and> (ok \<longrightarrow> acc' = acc \<and> pr_buffer p' = [] \<and> pr_fds p' = (if ss = [] then pr_fds p else (pr_fds p)(0 := None)) \<and>
      (\<exists>rs. list_all2 (\<lambda>s row. row \<in> rows s) ss rs \<and> pr_out p' d = pr_out p d @ concat rs))"
proof (induction ss arbitrary: acc p)
  case (Cons s ss)
  obtain code live acc1 p1 where r: "run s acc p = Some (code, live, acc1, p1)"
    using Cons.prems(1) by (auto split: option.splits)
  show ?case
  proof (cases "code = 0")
    case False
    then show ?thesis using r Cons.prems run_good [OF _ Cons.prems(2,3) r] by auto
  next
    case True
    from run_one [OF assms(1) Cons.prems(2) assms(2) Cons.prems(3) r [unfolded True]] obtain row where
      one: "acc1 = acc" "pr_buffer p1 = []" "row \<in> rows s" "pr_out p1 d = pr_out p d @ row"
      "pr_fds p1 = (pr_fds p)(0 := None)" "pr_fds p1 1 = Some d" "good p \<Longrightarrow> good p1" by metis
    have "run_selected run ss acc1 p1 = Some (ok, acc', p')" using Cons.prems(1) r True by simp
    from Cons.IH [OF this one(6,2)] have ih: "good p1 \<longrightarrow> ok"
      "ok \<longrightarrow> acc' = acc1 \<and> pr_buffer p' = [] \<and> pr_fds p' = (if ss = [] then pr_fds p1 else (pr_fds p1)(0 := None)) \<and>
        (\<exists>rs. list_all2 (\<lambda>s row. row \<in> rows s) ss rs \<and> pr_out p' d = pr_out p1 d @ concat rs)" by blast+
    have "\<exists>rs. list_all2 (\<lambda>s row. row \<in> rows s) (s # ss) rs \<and> pr_out p' d = pr_out p d @ concat rs" if o: ok
    proof -
      obtain rs where "list_all2 (\<lambda>s row. row \<in> rows s) ss rs" "pr_out p' d = pr_out p1 d @ concat rs" using ih(2) o by blast
      with one(3,4) show ?thesis by (intro exI [of _ "row # rs"]) simp
    qed
    with ih one show ?thesis by (auto simp: fun_eq_iff)
  qed
qed simp

end

text \<open>The scenarios of the program.\<close>

definition row_label :: "scenario_mode_t \<Rightarrow> byte list" where
  "row_label s = scenario_label (if s = SCENARIO_ALL then SCENARIO_CONTENTION_MPSC else s)"

definition hot_rows :: "output_mode_t \<Rightarrow> size_t \<Rightarrow> scenario_mode_t \<Rightarrow> byte list set" where
  "hot_rows mode n s = range (hot_row mode (row_label s) n)"

definition hot_good :: "hot_env \<Rightarrow> thread_env \<Rightarrow> process \<Rightarrow> bool" where
  "hot_good he te p \<longleftrightarrow> fds_work (he_fd he) \<and> console_works (he_os he) \<and> threads_work te \<and> two_free (fe_limit (he_fd he)) (pr_fds p)"

lemma disabled_line: "logged_line hot_disabled_config hot_console_event = []"
  using hot_level(2) by (simp add: logged_line_def hot_disabled_config_def hot_config_def hot_console_event_def)

lemma hot_scenario_result:
  assumes "hot_scenario cpu he te sched n mode s acc p = Some r" "pr_fds p 1 = Some d" "pr_buffer p = []"
  shows "(\<exists>now lns. scenario_result he p now d lns (hot_row mode (row_label s) n) acc r \<and> (now = Null_Device \<or> lns = [])) \<and>
    (hot_good he te p \<longrightarrow> fst r = 0)"
proof -
  have single: ?thesis
    if run: "hot_scenario cpu he te sched n mode s acc p = ij_run_scenario cpu he (row_label s) config event n mode suppress acc p"
      and c: "config \<in> {hot_disabled_config, hot_console_config}" "accepted_by config event" "suppress \<or> logged_line config event = []"
    for config event suppress
  proof -
    have k: "cfg_sink_kind config = IJ_SINK_KIND_CONSOLE" "config_ok config" using c(1) hot_configs by auto
    from run_scenario_outcome [OF k(1) assms(2,3), of cpu he "row_label s" event n mode suppress acc] run assms(1)
    have r: "scenario_result he p (if suppress then Null_Device else d) d (concat (replicate n (logged_line config event)))
        (hot_row mode (row_label s) n) acc r" "scenario_works he config event p \<longrightarrow> fst r = 0" by auto
    have "(if suppress then Null_Device else d) = Null_Device \<or> concat (replicate n (logged_line config event)) = []" using c(3) by auto
    with r(1) have "\<exists>now lns. scenario_result he p now d lns (hot_row mode (row_label s) n) acc r \<and> (now = Null_Device \<or> lns = [])" by blast
    moreover have "hot_good he te p \<longrightarrow> scenario_works he config event p" using c(2) k(2) by (simp add: scenario_works_def hot_good_def)
    ultimately show ?thesis using r(2) by blast
  qed
  have threads: ?thesis if run: "hot_scenario cpu he te sched n mode s acc p =
      ij_run_contention_scenario cpu he te sched (row_label s) hot_console_config hot_metadata_event n mode acc p"
    using contention_outcome [OF hot_configs(4) assms(2,3), of cpu he te sched "row_label s" hot_metadata_event n mode acc r]
      run assms(1) hot_configs(2) hot_events_accepted(4) by (auto simp: scenario_works_def hot_good_def)
  show ?thesis
  proof (cases s)
    case SCENARIO_DISABLED_LEVEL
    then show ?thesis using single [of hot_disabled_config hot_console_event False] hot_events_accepted(1) disabled_line
      by (simp add: hot_scenario_def row_label_def scenario_label_def del: bytes_Cons)
  next
    case SCENARIO_ENABLED_CONSOLE
    then show ?thesis using single [of hot_console_config hot_console_event True] hot_events_accepted(2)
      by (simp add: hot_scenario_def row_label_def scenario_label_def del: bytes_Cons)
  next
    case SCENARIO_MEDIUM_MESSAGE
    then show ?thesis using single [of hot_console_config hot_medium_event True] hot_events_accepted(3)
      by (simp add: hot_scenario_def row_label_def scenario_label_def del: bytes_Cons)
  next
    case SCENARIO_MEDIUM_MESSAGE_WITH_METADATA
    then show ?thesis using single [of hot_console_config hot_metadata_event True] hot_events_accepted(4)
      by (simp add: hot_scenario_def row_label_def scenario_label_def del: bytes_Cons)
  qed (use threads in \<open>simp_all add: hot_scenario_def row_label_def scenario_label_def del: bytes_Cons\<close>)
qed

lemma two_free_close: "two_free limit t \<Longrightarrow> two_free limit (t(0 := None))"
proof -
  assume "two_free limit t"
  then obtain i j where "i < j" "j < limit" "t (int i) = None" "t (int j) = None" unfolding two_free_def by blast
  then show ?thesis unfolding two_free_def by (intro exI [of _ i] exI [of _ j]) simp
qed

lemma measured_flushed:
  assumes "measured out lns row now d p'" "pr_buffer p' = []" "d \<noteq> Null_Device" "now = Null_Device \<or> lns = []"
  shows "pr_out p' d = out d @ row"
  using assms by (auto simp: measured_def)

interpretation hot: benchmark_scenarios "hot_scenario cpu he te sched n mode" "hot_rows mode n" "hot_good he te"
    "\<forall>c. fe_fflush (he_fd he) c" for cpu he te sched n mode
proof
  fix p p' :: process and d s acc code live acc'
  assume p: "pr_fds p 1 = Some d" "pr_buffer p = []"
  {
    assume r: "hot_scenario cpu he te sched n mode s acc p = Some (code, live, acc', p')"
    show "scenario_ends p code p'" using hot_scenario_result [OF r p] by (auto simp: scenario_result_def)
    show "code = 0" if "hot_good he te p" using hot_scenario_result [OF r p] that by simp
  }
  assume f: "\<forall>c. fe_fflush (he_fd he) c" and d: "d \<noteq> Null_Device"
    and r: "hot_scenario cpu he te sched n mode s acc p = Some (0, live, acc', p')"
  from hot_scenario_result [OF r p] obtain now lns e where m: "acc' = acc" "now = Null_Device \<or> lns = []"
    "measured (pr_out p) lns (hot_row mode (row_label s) n e) now d p'" "pr_buffer p' = []"
    using f by (auto simp: scenario_result_def)
  from measured_flushed [OF m(3,4) d m(2)] m(1,4)
  show "acc' = acc \<and> pr_buffer p' = [] \<and> (\<exists>row\<in>hot_rows mode n s. pr_out p' d = pr_out p d @ row)"
    by (auto simp: hot_rows_def)
next
  fix p p' :: process assume "hot_good he te p" "pr_fds p' = (pr_fds p)(0 := None)"
  then show "hot_good he te p'" by (simp add: hot_good_def two_free_close)
qed

section \<open>The program returns\<close>

lemma hot_scenario_single: "s \<notin> {SCENARIO_CONTENTION_MPSC, SCENARIO_ALL} \<Longrightarrow> hot_scenario cpu he te sched n mode s = hot_scenario cpu he te sched' n mode s"
  by (cases s) (simp_all add: hot_scenario_def)

lemma hot_scenario_returns:
  assumes "pr_fds p 1 = Some d" "pr_buffer p = []"
  shows "\<exists>sched r. hot_scenario cpu he te sched n mode s acc p = Some r"
proof -
  have single: "\<exists>r. ij_run_scenario cpu he name config event n mode suppress acc p = Some r"
    if "config \<in> {hot_disabled_config, hot_console_config}" for name config event suppress
    using run_scenario_outcome [OF _ assms, of config cpu he name event n mode suppress acc] that hot_configs(3,4) by auto
  have threads: "\<exists>sched r. ij_run_contention_scenario cpu he te sched name hot_console_config event n mode acc p = Some r" for name event
    using contention_returns [OF hot_configs(4) assms, of cpu he te "[]"] by fastforce
  show ?thesis using single threads by (cases s) (simp_all add: hot_scenario_def del: bytes_Cons)
qed

lemma run_selected_returns:
  assumes "d \<noteq> Null_Device" "\<forall>c. fe_fflush (he_fd he) c"
  shows "set (butlast ss) \<inter> {SCENARIO_CONTENTION_MPSC, SCENARIO_ALL} = {} \<Longrightarrow> pr_fds p 1 = Some d \<Longrightarrow> pr_buffer p = [] \<Longrightarrow>
    \<exists>sched r. run_selected (hot_scenario cpu he te sched n mode) ss acc p = Some r"
proof (induction ss arbitrary: acc p)
  case (Cons s ss)
  obtain sched1 code live acc1 p1 where r: "hot_scenario cpu he te sched1 n mode s acc p = Some (code, live, acc1, p1)"
    using hot_scenario_returns [OF Cons.prems(2,3)] by (metis prod_cases4)
  show ?case
  proof (cases "code \<noteq> 0 \<or> ss = []")
    case True
    then show ?thesis using r by (intro exI [of _ sched1]) auto
  next
    case False
    then have s: "s \<notin> {SCENARIO_CONTENTION_MPSC, SCENARIO_ALL}" "set (butlast ss) \<inter> {SCENARIO_CONTENTION_MPSC, SCENARIO_ALL} = {}"
      "code = 0" using Cons.prems(1) by auto
    from hot.run_one [OF assms(2) Cons.prems(2) assms(1) Cons.prems(3) r [unfolded s(3)]]
    have "pr_buffer p1 = []" "pr_fds p1 1 = Some d" by blast+
    from Cons.IH [OF s(2) this(2,1)] obtain sched r2 where "run_selected (hot_scenario cpu he te sched n mode) ss acc1 p1 = Some r2" by blast
    with r s(3) hot_scenario_single [OF s(1), of cpu he te sched1 n mode sched] show ?thesis by (intro exI [of _ sched] exI [of _ r2]) simp
  qed
qed auto

lemma selected_last: "set (butlast (selected_scenarios scenario)) \<inter> {SCENARIO_CONTENTION_MPSC, SCENARIO_ALL} = {}"
  by (cases scenario) (simp_all add: selected_scenarios_def)

lemma hot_path_returns:
  assumes "pr_fds p 1 = Some d" "d \<noteq> Null_Device" "pr_buffer p = []" "\<forall>c. fe_fflush (he_fd he) c"
  shows "\<exists>sched code p'. hot_path_main cpu he te sched argv p = Some (code, p')"
proof (cases "parse_hot_arguments argv OUTPUT_HUMAN SCENARIO_ALL 50000")
  case None
  then show ?thesis by (simp add: hot_path_main_def)
next
  case (Some a)
  obtain mode scenario n where a: "a = (mode, scenario, n)" by (metis prod_cases3)
  note h = header_effect [OF assms(1), of he mode n]
  have p1: "pr_fds (ij_print_header he mode n p) 1 = Some d" "pr_buffer (ij_print_header he mode n p) = []" using h assms(1,4) by simp_all
  obtain sched r where "run_selected (hot_scenario cpu he te sched n mode) (selected_scenarios scenario) 0 (ij_print_header he mode n p) = Some r"
    using run_selected_returns [OF assms(2,4) selected_last p1] by blast
  then show ?thesis using Some a by (intro exI [of _ sched]) (cases r, auto simp: hot_path_main_def Let_def)
qed

section \<open>Properties\<close>

text \<open>The name of a scenario is read back as the scenario, and no other text is taken for one.\<close>

theorem parse_scenario_names:
  "ij_parse_scenario (Some s) (Some old) =
     (case find (\<lambda>m. strcmp_eq s (scenario_label m)) [SCENARIO_DISABLED_LEVEL, SCENARIO_ENABLED_CONSOLE, SCENARIO_MEDIUM_MESSAGE,
        SCENARIO_MEDIUM_MESSAGE_WITH_METADATA, SCENARIO_CONTENTION_MPSC, SCENARIO_ALL] of
        Some m \<Rightarrow> (True, Some m) | None \<Rightarrow> (False, Some old)) \<and>
   ij_parse_scenario (Some (scenario_label m)) (Some old) = (True, Some m)"
proof
  show "ij_parse_scenario (Some (scenario_label m)) (Some old) = (True, Some m)"
    by (cases m) (simp_all add: scenario_label_def strcmp_eq_def c_text_def)
qed (simp add: scenario_label_def del: bytes_Cons)



end
