(* ===== verification/Tier1_Common.thy ===== *)
theory Tier1_Common
  imports Bench_Hot_Main
begin

text \<open>
  The rest of \<open>bench/tier1/bench_tier1_common.h\<close>, the helpers of the drivers that measure other logging
  libraries: clock, arguments, report and temporary file. They repeat routines of \<open>bench/bench_hot_path.c\<close> with
  small differences; the theorems state where they agree. The redirection of descriptors is in \<open>Fd_Table\<close>.
\<close>

section \<open>Clock and arguments\<close>

definition bench_monotonic_ns :: "bench \<Rightarrow> world \<Rightarrow> 64 word \<times> world" where
  "bench_monotonic_ns bn w =
     (case bn_clock bn (w_calls w) of
        None \<Rightarrow> (0, tick w)
      | Some (tv_sec, tv_nsec) \<Rightarrow> (tv_sec * 1000000000 + tv_nsec, tick w))"

fun bench_parse_iterations :: "cstring \<Rightarrow> size_t option \<Rightarrow> bool \<times> size_t option" where
  "bench_parse_iterations None out_iterations = (False, out_iterations)"
| "bench_parse_iterations (Some _) None = (False, None)"
| "bench_parse_iterations (Some s) (Some out_iterations) =
     (let (parsed, end_offset) = strtoull s
      in if end_offset = 0 \<or> c_at s end_offset \<noteq> 0 \<or> parsed = 0 then (False, Some out_iterations)
         else (True, Some (unat parsed)))"

datatype tier1_scenario_t =
    TIER1_DISABLED_LEVEL | TIER1_ENABLED_CONSOLE | TIER1_MEDIUM_MESSAGE
  | TIER1_MEDIUM_MESSAGE_WITH_METADATA | TIER1_CONTENTION_MPSC | TIER1_APPEND_FILE | TIER1_ALL

fun bench_parse_scenario :: "cstring \<Rightarrow> tier1_scenario_t option \<Rightarrow> bool \<times> tier1_scenario_t option" where
  "bench_parse_scenario (Some s) (Some out_scenario) =
     (if strcmp_eq s (bytes ''disabled_level'') then (True, Some TIER1_DISABLED_LEVEL)
      else if strcmp_eq s (bytes ''enabled_console'') then (True, Some TIER1_ENABLED_CONSOLE)
      else if strcmp_eq s (bytes ''medium_message'') then (True, Some TIER1_MEDIUM_MESSAGE)
      else if strcmp_eq s (bytes ''medium_message_with_metadata'') then (True, Some TIER1_MEDIUM_MESSAGE_WITH_METADATA)
      else if strcmp_eq s (bytes ''contention_mpsc'') then (True, Some TIER1_CONTENTION_MPSC)
      else if strcmp_eq s (bytes ''append_file'') then (True, Some TIER1_APPEND_FILE)
      else if strcmp_eq s (bytes ''all'') then (True, Some TIER1_ALL)
      else (False, Some out_scenario))"
| "bench_parse_scenario _ out_scenario = (False, out_scenario)"

section \<open>Report\<close>

definition bench_print_header :: "fd_env \<Rightarrow> byte list \<Rightarrow> output_mode_t \<Rightarrow> size_t \<Rightarrow> process \<Rightarrow> process" where
  "bench_print_header env name mode iterations p =
     (if mode = OUTPUT_TSV then
        snd (fflush_stdout env
          (printf env (tsv [bytes ''columns'', bytes ''benchmark'', bytes ''scenario'', bytes ''iterations'', bytes ''elapsed_ns'', bytes ''ns_per_op''])
          (printf env (tsv [bytes ''meta'', bytes ''iterations'', decimal iterations])
          (printf env (tsv [bytes ''format'', bytes ''tsv'', bytes ''v1'']) p))))
      else
        snd (fflush_stdout env
          (printf env (bytes ''iterations: '' @ decimal iterations @ [0x0a, 0x0a])
          (printf env (c_text name @ bytes '' benchmark'' @ [0x0a]) p))))"

definition bench_print_result ::
  "fd_env \<Rightarrow> byte list \<Rightarrow> byte list \<Rightarrow> size_t \<Rightarrow> 64 word \<Rightarrow> output_mode_t \<Rightarrow> process \<Rightarrow> int \<times> process" where
  "bench_print_result env benchmark_name scenario_name iterations elapsed mode p =
     (let elapsed_ns = unat elapsed; q = (if iterations = 0 then (0, 1) else ns_per_op elapsed_ns iterations)
      in if mode = OUTPUT_TSV then
           (0, printf env (tsv_row (c_text benchmark_name) (c_text scenario_name) iterations elapsed_ns q) p)
         else (0, printf env (pad_right 28 (c_text scenario_name) @ human_row iterations elapsed_ns q) p))"

definition bench_console_message :: "byte list" where
  "bench_console_message = bytes ''benchmark event payload for normalized console scenario''"

definition bench_medium_message :: "byte list" where
  "bench_medium_message = bytes ''normalized medium message payload for shared comparison without metadata''"

definition bench_medium_message_with_metadata :: "byte list" where
  "bench_medium_message_with_metadata =
     bytes ''normalized medium message payload for shared comparison with metadata-like context''"

section \<open>Temporary file\<close>

text \<open>
  \<open>mkstemp\<close> refuses a template that does not end in six times X; otherwise it puts six characters of its
  choice in their place and opens the file. \<open>letters\<close> gives the choice by the number of the call.
\<close>

definition mkstemp :: "fd_env \<Rightarrow> (nat \<Rightarrow> byte list) \<Rightarrow> byte list \<Rightarrow> process \<Rightarrow> int \<times> byte list \<times> process" where
  "mkstemp env letters buffer p =
     (let template = c_text buffer; stem = take (length template - 6) template in
      if length template < 6 \<or> drop (length template - 6) template \<noteq> bytes ''XXXXXX'' then (- 1, buffer, set_fds (pr_fds p) p)
      else
        let path = stem @ letters (call_number p); (fd, p) = fd_open env (Opened_File path) p
        in (fd, path @ drop (length template) buffer, p))"

text \<open>The buffer is an output parameter; the prefix and the buffer may be null pointers.\<close>

definition bench_make_temp_path ::
  "fd_env \<Rightarrow> (nat \<Rightarrow> byte list) \<Rightarrow> cstring \<Rightarrow> byte list option \<Rightarrow> size_t \<Rightarrow> process \<Rightarrow> int \<times> byte list option \<times> process" where
  "bench_make_temp_path env letters prefix_text buffer buffer_size p =
     (case (prefix_text, buffer) of
        (Some pre, Some _) \<Rightarrow>
          if buffer_size < 32 then (- 1, buffer, p)
          else
            let (buffer, _) = snprintf buffer_size (bytes ''/tmp/'' @ c_text pre @ bytes ''-XXXXXX'');
                (fd, buffer, p) = mkstemp env letters buffer p in
            if fd < 0 then (- 1, Some buffer, p)
            else let (r, p) = fd_close env fd p in (r, Some buffer, p)
      | _ \<Rightarrow> (- 1, buffer, p))"

section \<open>Properties\<close>

text \<open>The copies agree with the routines of the hot path benchmark.\<close>

lemma tier1_copies:
  "bench_monotonic_ns = ij_monotonic_ns" "bench_parse_iterations s out = ij_parse_iterations s out"
  by (simp add: fun_eq_iff bench_monotonic_ns_def ij_monotonic_ns_def) (cases s; cases out; simp)

definition tier1_scenario :: "scenario_mode_t \<Rightarrow> tier1_scenario_t" where
  "tier1_scenario m =
     (case m of SCENARIO_DISABLED_LEVEL \<Rightarrow> TIER1_DISABLED_LEVEL | SCENARIO_ENABLED_CONSOLE \<Rightarrow> TIER1_ENABLED_CONSOLE
      | SCENARIO_MEDIUM_MESSAGE \<Rightarrow> TIER1_MEDIUM_MESSAGE
      | SCENARIO_MEDIUM_MESSAGE_WITH_METADATA \<Rightarrow> TIER1_MEDIUM_MESSAGE_WITH_METADATA
      | SCENARIO_CONTENTION_MPSC \<Rightarrow> TIER1_CONTENTION_MPSC | SCENARIO_ALL \<Rightarrow> TIER1_ALL)"

lemma tier1_parse_scenario:
  "bench_parse_scenario (Some s) (Some (tier1_scenario old)) =
     (if strcmp_eq s (bytes ''append_file'') then (True, Some TIER1_APPEND_FILE)
      else case ij_parse_scenario (Some s) (Some old) of (ok, out) \<Rightarrow> (ok, map_option tier1_scenario out))"
proof -
  have c: "c_text (bytes ''append_file'') = bytes ''append_file''" "c_text (bytes ''disabled_level'') = bytes ''disabled_level''"
    "c_text (bytes ''enabled_console'') = bytes ''enabled_console''" "c_text (bytes ''medium_message'') = bytes ''medium_message''"
    "c_text (bytes ''medium_message_with_metadata'') = bytes ''medium_message_with_metadata''"
    "c_text (bytes ''contention_mpsc'') = bytes ''contention_mpsc''" by (simp_all add: c_text_def)
  have d: "bytes ''append_file'' \<noteq> bytes ''disabled_level''" "bytes ''append_file'' \<noteq> bytes ''enabled_console''"
    "bytes ''append_file'' \<noteq> bytes ''medium_message''" "bytes ''append_file'' \<noteq> bytes ''medium_message_with_metadata''"
    "bytes ''append_file'' \<noteq> bytes ''contention_mpsc''" by simp_all
  show ?thesis using d by (simp add: strcmp_eq_def c tier1_scenario_def del: bytes_Cons)
qed

text \<open>The text of a template, cut or not, and when \<open>mkstemp\<close> takes it.\<close>

lemma cut_template:
  assumes "0x58 \<notin> set u" "t = u @ bytes ''XXXXXX''"
  shows "(6 \<le> length (take k t) \<and> drop (length (take k t) - 6) (take k t) = bytes ''XXXXXX'') \<longleftrightarrow> length t \<le> k"
proof
  have x: "length (bytes ''XXXXXX'') = 6" "hd (bytes ''XXXXXX'') = 0x58" by simp_all
  assume h: "6 \<le> length (take k t) \<and> drop (length (take k t) - 6) (take k t) = bytes ''XXXXXX''"
  let ?i = "length (take k t) - 6"
  have i: "?i < length (take k t)" using h by linarith
  then have "take k t ! ?i = 0x58" using h x(2) by (metis hd_drop_conv_nth)
  moreover have "?i < k" using i by simp
  ultimately have "t ! ?i = 0x58" by (metis nth_take)
  then have "length u \<le> ?i" using assms(1) unfolding assms(2) by (metis not_le_imp_less nth_append nth_mem)
  moreover have "length t = length u + 6" using x(1) by (simp add: assms(2))
  ultimately have "length t \<le> length (take k t)" using h by linarith
  then show "length t \<le> k" by simp
qed (simp add: assms(2))

text \<open>
  The temporary file of the comparison benchmarks: success means that the buffer holds the whole name,
  \<open>/tmp/\<close>, the prefix, a dash and the six letters that were chosen, ended by a zero byte, and that the name fits. The
  code does not look at the length of the text, but a name that was cut does not end in the six letters
  and is refused by \<open>mkstemp\<close>. Whatever happens, no descriptor is left open.
\<close>

theorem bench_make_temp_path_correct:
  assumes "0x58 \<notin> set pre" "c_text pre = pre"
    and "bench_make_temp_path env letters (Some pre) (Some buffer) buffer_size p = (r, buffer', p')"
  shows "pr_fds p' = pr_fds p \<and>
    (r = 0 \<longrightarrow> 32 \<le> buffer_size \<and> length pre + 12 < buffer_size \<and>
       (\<exists>c. buffer' = Some (bytes ''/tmp/'' @ pre @ [0x2d] @ letters c @ [0])))"
proof (cases "buffer_size < 32")
  case True
  then show ?thesis using assms(3) by (simp add: bench_make_temp_path_def)
next
  case False
  define u where "u = bytes ''/tmp/'' @ pre @ [0x2d]"
  define t where "t = u @ bytes ''XXXXXX''"
  have text_eq: "bytes ''/tmp/'' @ c_text pre @ bytes ''-XXXXXX'' = t" using assms(2) by (simp add: t_def u_def)
  have nz: "0 \<notin> set t" using c_text_nonzero [of 0 pre] assms(2) by (auto simp: t_def u_def)
  have nx: "0x58 \<notin> set u" using assms(1) by (simp add: u_def)
  let ?k = "buffer_size - 1"
  let ?b = "take ?k t @ [0]"
  have b: "snprintf buffer_size t = (?b, length t)" using False by (simp add: snprintf_def)
  have ct: "c_text ?b = take ?k t"
  proof -
    have "0 \<notin> set (take ?k t)" using nz by (meson in_set_takeD)
    then show ?thesis unfolding c_text_def by (subst takeWhile_append2) auto
  qed
  obtain fd b2 p1 where m: "mkstemp env letters ?b p = (fd, b2, p1)" by (metis prod_cases3)
  have run: "bench_make_temp_path env letters (Some pre) (Some buffer) buffer_size p =
      (if fd < 0 then (- 1, Some b2, p1) else (fst (fd_close env fd p1), Some b2, snd (fd_close env fd p1)))"
    unfolding bench_make_temp_path_def option.case prod.case text_eq using False b m by (simp add: Let_def case_prod_beta)
  note cut = cut_template [OF nx t_def, of ?k]
  show ?thesis
  proof (cases "length t \<le> ?k")
    case long: False
    with cut have "fd = - 1" "pr_fds p1 = pr_fds p" using m ct by (auto simp: mkstemp_def Let_def)
    with run assms(3) show ?thesis by auto
  next
    case True
    then have tk: "take ?k t = t" by simp
    have stem: "take (length t - 6) t = u" by (simp add: t_def)
    obtain fd0 p0 where o: "fd_open env (Opened_File (u @ letters (call_number p))) p = (fd0, p0)" by fastforce
    have m': "fd = fd0" "p1 = p0" "b2 = u @ letters (call_number p) @ [0]"
      using m o cut True ct unfolding tk by (simp_all add: mkstemp_def Let_def stem)
    obtain r2 p2 where cl: "fd_close env fd0 p0 = (r2, p2)" by fastforce
    have "pr_fds p' = pr_fds p"
    proof (cases rule: fd_open_cases [OF o])
      case 1
      then show ?thesis using run assms(3) m' by simp
    next
      case 2
      from lowest_free_some(1,2) [OF 2(1)] 2(2) fd_close_effect [OF cl] show ?thesis using run assms(3) m' cl by auto
    qed
    moreover have "buffer' = Some b2" "r = 0 \<Longrightarrow> length pre + 12 < buffer_size"
      using run assms(3) True False by (auto simp: t_def u_def split: if_splits)
    ultimately show ?thesis using False m'(3) by (auto simp: u_def)
  qed
qed

theorem bench_make_temp_path_correct_witness:
  "\<exists>buffer' p'. bench_make_temp_path working_fds (\<lambda>_. bytes ''a1b2c3'') (Some (bytes ''iojournal-tier1-zlog'')) (Some []) 128 sample_process =
     (0, Some buffer', p') \<and> buffer' = bytes ''/tmp/iojournal-tier1-zlog-a1b2c3'' @ [0] \<and> pr_fds p' = pr_fds sample_process"
proof -
  have r: "fst (bench_make_temp_path working_fds (\<lambda>_. bytes ''a1b2c3'') (Some (bytes ''iojournal-tier1-zlog'')) (Some []) 128 sample_process) = 0"
    by (simp add: bench_make_temp_path_def snprintf_def mkstemp_def c_text_def fd_open_def fd_close_def working_fds_def sample_process_def
        lowest_free_def upt_conv_Cons Let_def)
  obtain buffer' p' where e: "bench_make_temp_path working_fds (\<lambda>_. bytes ''a1b2c3'') (Some (bytes ''iojournal-tier1-zlog'')) (Some []) 128
      sample_process = (0, buffer', p')" using r by (metis prod.collapse)
  have "0x58 \<notin> set (bytes ''iojournal-tier1-zlog'')" "c_text (bytes ''iojournal-tier1-zlog'') = bytes ''iojournal-tier1-zlog''"
    by (simp_all add: c_text_def)
  from bench_make_temp_path_correct [OF this e] e show ?thesis by simp
qed

end
