(* ===== verification/Spec2Isabelle.thy ===== *)
theory Spec2Isabelle
  imports Syslog_Examples Line_Format Console_Threads Bench_Simd Bench_Syslog Tier1_Common
begin

text \<open>
  \<^bold>\<open>Verification of the iojournal logging library.\<close>

  iojournal is a C library that takes structured events (level, name, message, attributes) from an
  application, validates and copies them, redacts sensitive attribute values, encodes them as JSON
  or RFC 5424 lines and hands the lines to one sink: standard output, a rotating file, or a syslog
  server over UDP or TCP. \<open>ij_logger_log\<close> runs this path synchronously; the library also has a bounded
  event ring, which each logger creates and destroys but which the logging path does not use.

  \<^bold>\<open>Theories and the code they model\<close> (paths below \<open>src/\<close>):

  \<^item> \<open>Prelude\<close>: bytes, C strings (\<open>c_at\<close>, \<open>c_text\<close>, \<open>c_mem\<close>), \<open>size_t\<close> arithmetic, shared lemmas.
  \<^item> \<open>Simd\<close>: \<open>encoders/ij_simd_dispatch.h\<close> and the AVX2 and NEON intrinsics the vector code uses; the
    locale \<open>chunked_loop\<close> of a loop over vector blocks with a scalar tail.
  \<^item> \<open>Utf8\<close>, \<open>Json_Escape\<close>: \<open>core/ij_utf8_*.c\<close> and \<open>encoders/ij_json_escape_*.c\<close>; the scalar, AVX2 and
    NEON routines and the dispatchers, all equal to one reference.
  \<^item> \<open>Ij_Types\<close>, \<open>Level_Filter\<close>: the public headers and \<open>ij_internal.h\<close>, \<open>filters/ij_level_filter.c\<close>, the
    validity checks of \<open>core/ij_logger.c\<close>.
  \<^item> \<open>Redact\<close>: \<open>filters/ij_redact*.c\<close>; the denylist decision, scalar and vector matchers.
  \<^item> \<open>Event_Validate\<close>, \<open>Event_Copy\<close>: \<open>core/ij_event.c\<close>; validation, the scanning pass, the text arena
    and the writing pass with allocation failures. The view of a copy is the view of the input.
  \<^item> \<open>Timestamp\<close>, \<open>Json_Text\<close>, \<open>Double_Format\<close>, \<open>Json_Builder\<close>, \<open>Json_Encode\<close>:
    \<open>encoders/ij_json_console.c\<close> and \<open>encoders/ij_ndjson.c\<close>; \<open>Json_Text\<close> holds the JSON values, their
    printed form and a reader. \<open>json_appender\<close> is the contract of every appending routine.
  \<^item> \<open>Rfc5424\<close>: \<open>encoders/ij_rfc5424.c\<close>.
  \<^item> \<open>Queue\<close>: \<open>core/ij_queue.c\<close>; the operations, the locale \<open>bounded_fifo\<close> they implement, and threads as
    a step relation over the blocks between lock and unlock.
  \<^item> \<open>System\<close>: what the sinks call: the record \<open>os\<close> of all answers of the system, the record \<open>world\<close> of
    what was done, the locales \<open>record_sink\<close> and \<open>append_only_sink\<close>.
  \<^item> \<open>Console_Sink\<close>, \<open>Syslog_Sink\<close>, \<open>File_Backend\<close>, \<open>File_Sink\<close>: \<open>sinks/*.c\<close>; the locale \<open>file_backend\<close>
    is what the file sink relies on, interpreted for the stdio and the \<open>io_uring\<close> table.
  \<^item> \<open>Logger\<close>: \<open>core/ij_logger.c\<close>, \<open>core/ij_version.c\<close>.
  \<^item> \<open>Event_Path\<close>: lemmas on \<open>ij_logger_log\<close> as a whole and the locale \<open>event_log\<close> of histories of calls,
    interpreted for console, file and TCP loggers.
  \<^item> \<open>Examples\<close>: \<open>examples/basic_console.c\<close> and \<open>examples/file_sink.c\<close> as whole programs, and the golden
    files of the unit tests as values of the reference definitions.
  \<^item> \<open>Syslog_Examples\<close>: \<open>examples/syslog_tcp.c\<close> and \<open>examples/syslog_udp.c\<close>, client and server in one
    program; the sockets are answers of the system, what the server reads is what the client wrote.
  \<^item> \<open>Line_Format\<close>: the shape of every line the library writes: UTF-8, one line, a JSON object.
  \<^item> \<open>Console_Threads\<close>: threads that write to the console at the same time, as a step relation over the
    passes of the loop of \<open>ij_console_sink_write\<close>.
  \<^item> \<open>Bench_Common\<close>: what the drivers under \<open>bench/\<close> share: \<open>strtoull\<close> and the iteration count, the clock, the
    logging loop, the time per call as \<open>double\<close> and its text.
  \<^item> \<open>Bench_File\<close>, \<open>Bench_Simd\<close>, \<open>Bench_Syslog\<close>: \<open>bench/bench_file_sink.c\<close> with \<open>bench/bench_file_sink_uring.c\<close>,
    \<open>bench/bench_simd_scan.c\<close> and \<open>bench/bench_syslog_udp.c\<close> as whole programs.
  \<^item> \<open>Fd_Table\<close>: a descriptor table and stdio's buffer, and the routines of \<open>bench/bench_hot_path.c\<close> and
    \<open>bench/tier1/bench_tier1_common.h\<close> that redirect and restore a descriptor.
  \<^item> \<open>Bench_Hot_Path\<close>, \<open>Bench_Contention\<close>, \<open>Bench_Hot_Main\<close>: \<open>bench/bench_hot_path.c\<close>; the scenarios with one
    thread, the scenario with four producer threads under every schedule, and the main program over the
    locale \<open>benchmark_scenarios\<close>.
  \<^item> \<open>Tier1_Common\<close>: the rest of \<open>bench/tier1/bench_tier1_common.h\<close>.

  \<^bold>\<open>Conventions.\<close> A pointer that may be null is an \<open>option\<close>. An array is a list, and an access outside it
  is the result \<open>None\<close> of the operation, so that a theorem that a call gives \<open>Some\<close> is a memory-safety
  theorem. \<open>size_t\<close> values are natural numbers with the wrap-around written out where a sum can exceed
  them, counters that wrap are words. Failures are status codes as in the code. Every answer of the
  allocator, the mutex and the system is read from a record that is universally quantified: theorems
  hold for short writes, failing calls and every clock.

  \<^bold>\<open>What is shown.\<close> The vector routines equal their scalar references on every processor. Validation
  decides the documented limits. The copy of an accepted event lies in its arena and has the value of
  the input with sensitive strings replaced. The encoders stay inside their buffers and write exactly
  the reference line; a JSON reader gets the value back. The ring is a bounded first-in first-out
  queue, also under every interleaving of threads. Each sink brings complete records out in order or
  reports an error. The properties below compose these: what a call of \<open>ij_logger_log\<close> does on each
  sink, that it is memory safe and does nothing when it should not, what a reader of the log file or
  of the syslog connection gets after any history of accepted calls, and that a secret value cannot
  be told from the output. Every line is well formed. Threads on one console lose no byte; whole writes
  keep lines whole. The example programs are shown to leave exactly their line behind, and the benchmarks
  to do the work they report: exit status 0 means that all lines were written, temporary files,
  descriptors and memory were given back and the report was printed, for every schedule of the threads.

  \<^bold>\<open>Loops and fuel.\<close> Loops are total functions with measures (bytes or entries that remain). The only
  fuel is that of the JSON reader, for which the length of the line is enough. A schedule of the threads
  of the hot path benchmark is a list of actors; every list can be continued so that the call returns.

  \<^bold>\<open>What the proofs brought to light\<close> is stated as theorems on the code: shutdown of a console or file
  logger closes descriptor 0; a failed construction loses the copies of the logger name and the
  syslog host; a failed rename during rotation leaves the file sink dead; a TCP write that fails inside
  a frame leaves the connection in use and unreadable; a failed wait on \<open>io_uring\<close> leaves a completion
  that the next write takes for its own; a dequeue whose unlock fails hides the event it removed; with
  short writes lines of different threads mix on the console; a benchmark that cannot start all its
  threads frees the logger under the running ones; an iteration count may be negative.

  \<^bold>\<open>Not modelled.\<close> The tests, which call the library; the drivers \<open>bench/tier1/bench_stumpless.c\<close>,
  \<open>bench/tier1/bench_tinylog.c\<close> and \<open>bench/tier1/bench_zlog.c\<close>, which are loops over three other logging libraries that
  are not part of the repository; usage texts on the standard error stream; the inside of liburing, stdio,
  the C library's resolver and the kernel, which appear as the answers of \<open>os\<close>; signals (a \<open>SIGPIPE\<close> on a
  closed connection); other processes that change the log files. A logger and its sinks have no lock:
  threads are modelled for the ring, for the console, which is all they share with a console logger, and
  for the benchmark of producers; calls of several threads on one file or syslog logger are data races
  and are not given a meaning.
\<close>

section \<open>Properties of the whole library\<close>


text \<open>
  C2. A console logger: the call leaves the logger as it is; when it answers OK, standard output has
  grown by exactly the JSON line of the event with sensitive values redacted and a newline, or by
  nothing when the level is filtered out; when it fails, by a proper prefix of that line at most.
\<close>

theorem logger_log_console_correct:
  assumes "lg_active logger" and "cfg_sink_kind (lg_config logger) = IJ_SINK_KIND_CONSOLE"
  shows "\<exists>st w' cp more. ij_logger_log cpu os (Some logger) (Some event) w = Some (st, Some logger, w', cp) \<and>
           w_stdout w' = w_stdout w @ more \<and>
           (if st = IJ_STATUS_OK then more = logged_line (lg_config logger) event
            else strict_prefix more (logged_line (lg_config logger) event))"
  using log_console [OF assms, of cpu os event w] by blast

definition console_logger :: ij_logger where
  "console_logger = (zero_logger console_config)\<lparr>lg_active := True\<rparr>"

lemma console_logger_sel:
  "lg_active console_logger" "lg_config console_logger = console_config"
  "cfg_sink_kind console_config = IJ_SINK_KIND_CONSOLE"
  "cfg_redaction_mode console_config = IJ_REDACTION_MODE_ENABLED" "cfg_min_level console_config = IJ_LEVEL_TRACE"
  by (simp_all add: console_logger_def zero_logger_def console_config_def sample_config_def)

theorem logger_log_console_correct_witness:
  "\<exists>st w' cp more. ij_logger_log sample_cpu short_writer (Some console_logger) (Some sample_event) start_world =
       Some (st, Some console_logger, w', cp) \<and>
     w_stdout w' = more \<and>
     (if st = IJ_STATUS_OK then more = logged_line console_config sample_event
      else strict_prefix more (logged_line console_config sample_event))"
  using logger_log_console_correct [of console_logger sample_cpu short_writer sample_event start_world]
  unfolding console_logger_sel by (auto simp: console_logger_sel start_world_def)

text \<open>
  C3. A file logger whose sink is in a good state: an OK answer means that the sink is still in a
  good state and that the log, the remembered rotated files, the active file and the stream's
  buffer one after the other, has grown by exactly the line of the event. Without retention nothing
  else changes in the log; with it only whole oldest segments go.
\<close>

theorem logger_log_file_correct:
  assumes "lg_active logger" and "cfg_sink_kind (lg_config logger) = IJ_SINK_KIND_FILE"
    and "sink_inv os w (lg_file_sink logger)" and "sequence_room (lg_file_sink logger)"
    and "ij_logger_log cpu os (Some logger) (Some event) w = Some (IJ_STATUS_OK, logger', w', cp)"
  shows "\<exists>sink' k. logger' = Some (logger\<lparr>lg_file_sink := sink'\<rparr>) \<and> sink_inv os w' sink' \<and>
           sink_log w' sink' =
             concat (drop k (log_segments w (lg_file_sink logger))) @ logged_line (lg_config logger) event \<and>
           (sk_retention_files (lg_file_sink logger) = 0 \<longrightarrow>
              sink_log w' sink' = sink_log w (lg_file_sink logger) @ logged_line (lg_config logger) event)"
proof -
  obtain sink' k where r: "logger' = Some (logger\<lparr>lg_file_sink := sink'\<rparr>)" "sink_inv os w' sink'"
    "k \<le> retired (lg_file_sink logger)" "sink_log w' sink' =
      concat (drop k (log_segments w (lg_file_sink logger))) @ logged_line (lg_config logger) event"
    using log_file [OF assms(1-4), of cpu event] assms(5) by auto
  then have "k = 0" if "sk_retention_files (lg_file_sink logger) = 0" using that by (simp add: retired_def)
  with r show ?thesis by (auto simp: sink_log_def)
qed

definition roomy_sink :: ij_file_sink_t where
  "roomy_sink = small_sink\<lparr>sk_rotate_bytes := 0, sk_retention_files := 0\<rparr>"

lemma roomy_sink_inv: "sink_inv short_writer start_world roomy_sink" "sequence_room roomy_sink"
  by (simp_all add: roomy_sink_def small_sink_def sink_inv_def zero_file_sink_def sink_healthy_def
      sync_healthy_def sink_pending_def sync_pending_def names_ok_def sequence_room_def)

lemma roomy_sink_write:
  "0 < n \<Longrightarrow> fst (ij_file_sink_write short_writer (Some roomy_sink) (Some mem) n w) = IJ_STATUS_OK"
  by (simp add: ij_file_sink_write.simps ij_file_sink_rotation_due_def time_now_def roomy_sink_def small_sink_def
      zero_file_sink_def ij_file_sink_ops_def IJ_FILE_SINK_SYNC_OPS_def fwrite_def Let_def short_writer_def)

lemma roomy_sink_log: "sink_log start_world roomy_sink = [0x78]" "sk_retention_files roomy_sink = 0"
  by (simp_all add: sink_log_def log_segments_def roomy_sink_def small_sink_def zero_file_sink_def
      sink_pending_def sync_pending_def file_content_def start_world_def)

definition file_logger :: ij_logger where
  "file_logger = (zero_logger file_config)\<lparr>lg_active := True, lg_file_sink := roomy_sink\<rparr>"

lemma file_logger_sel:
  "lg_active file_logger" "lg_config file_logger = file_config" "cfg_sink_kind file_config = IJ_SINK_KIND_FILE"
  "lg_file_sink file_logger = roomy_sink" "cfg_redaction_mode file_config = IJ_REDACTION_MODE_ENABLED"
  "cfg_min_level file_config = IJ_LEVEL_TRACE"
  by (simp_all add: file_logger_def zero_logger_def file_config_def sample_config_def)

lemma sample_enabled: "ij_level_is_enabled IJ_LEVEL_TRACE (ev_level sample_event)"
  by (simp add: sample_event_def ij_level_is_enabled_trace ij_level_is_valid_iff)

lemma short_writer_alloc: "arena_ok (os_alloc short_writer c) \<and> attrs_ok (os_alloc short_writer c)"
  by (simp add: short_writer_def sample_alloc_def)

lemma file_logger_logs:
  "\<exists>logger' w' cp. ij_logger_log sample_cpu short_writer (Some file_logger) (Some sample_event) start_world =
     Some (IJ_STATUS_OK, logger', w', cp)"
proof -
  have "timestamp_ok (ev_timestamp sample_event)" using sample_event_time by (simp add: input_view_sel)
  then show ?thesis
    using log_file_works [of file_logger sample_event short_writer sample_cpu start_world]
    by (auto simp: file_logger_sel roomy_sink_write sample_enabled sample_event_valid sample_view_plain short_writer_alloc)
qed

theorem logger_log_file_correct_witness:
  "\<exists>logger' w' cp sink'. ij_logger_log sample_cpu short_writer (Some file_logger) (Some sample_event) start_world =
       Some (IJ_STATUS_OK, logger', w', cp) \<and> logger' = Some (file_logger\<lparr>lg_file_sink := sink'\<rparr>) \<and>
     sink_log w' sink' = 0x78 # event_line (input_view IJ_REDACTION_MODE_ENABLED sample_event) @ [0x0a]"
proof -
  obtain logger' w' cp where l: "ij_logger_log sample_cpu short_writer (Some file_logger) (Some sample_event) start_world =
     Some (IJ_STATUS_OK, logger', w', cp)" using file_logger_logs by blast
  from logger_log_file_correct [OF _ _ _ _ l] l show ?thesis
    by (auto simp: file_logger_sel roomy_sink_inv roomy_sink_log logged_line_def sample_enabled)
qed

text \<open>
  C4. A syslog logger and an event that passes the filter: over TCP on an open connection the answer
  is OK exactly when the whole octet-counted frame of the event's RFC 5424 line is on the
  connection, otherwise at most a proper prefix of it; over UDP an OK answer means one datagram
  with that line, at most 2048 bytes long.
\<close>

theorem logger_log_syslog_correct:
  assumes "lg_active logger" and "cfg_sink_kind (lg_config logger) = IJ_SINK_KIND_SYSLOG"
    and "ij_level_is_enabled (cfg_min_level (lg_config logger)) (ev_level event)"
    and "ij_logger_log cpu os (Some logger) (Some event) w = Some (st, logger', w', cp)"
  shows "logger' = Some logger \<and>
    (cfg_syslog_transport (lg_config logger) = IJ_SYSLOG_TRANSPORT_TCP \<and> 0 \<le> sl_fd (lg_syslog_sink logger) \<longrightarrow>
      (\<exists>more. w_streams w' (sl_fd (lg_syslog_sink logger)) = w_streams w (sl_fd (lg_syslog_sink logger)) @ more \<and>
        (if st = IJ_STATUS_OK then more = tcp_frame (logged_syslog (lg_config logger) event)
         else strict_prefix more (tcp_frame (logged_syslog (lg_config logger) event))))) \<and>
    (cfg_syslog_transport (lg_config logger) = IJ_SYSLOG_TRANSPORT_UDP \<and> st = IJ_STATUS_OK \<longrightarrow>
      w_datagrams w' = w_datagrams w @ [(sl_address (lg_syslog_sink logger), logged_syslog (lg_config logger) event)] \<and>
      length (logged_syslog (lg_config logger) event) \<le> 2048)"
  using assms
proof (cases rule: log_syslog)
  case unsent
  have "tcp_frame (logged_syslog (lg_config logger) event) \<noteq> []" by (simp add: tcp_frame_def)
  then have "strict_prefix [] (tcp_frame (logged_syslog (lg_config logger) event))" by (simp add: strict_prefix_def)
  with unsent show ?thesis by (simp add: tick_def)
next
  case (sent mem)
  let ?line = "logged_syslog (lg_config logger) event" and ?sink = "lg_syslog_sink logger"
  have tcp: "stream_outcome (\<lambda>w. w_streams w (sl_fd ?sink)) (w_streams w (sl_fd ?sink)) (tcp_frame ?line) (st, w')"
    if "cfg_syslog_transport (lg_config logger) = IJ_SYSLOG_TRANSPORT_TCP" "0 \<le> sl_fd ?sink"
    using tcp_write_outcome [OF sent(1) _ that(2), of "tick w" mem os] sent that(1)
    by (simp add: SIZE_MODULUS_def tick_def del: ij_syslog_tcp_write.simps)
  have udp: "w_datagrams w' = w_datagrams w @ [(sl_address ?sink, ?line)] \<and> length ?line \<le> 2048"
    if "cfg_syslog_transport (lg_config logger) = IJ_SYSLOG_TRANSPORT_UDP" "st = IJ_STATUS_OK"
    using udp_write_cases [of os ?sink mem "length ?line" "tick w" st w'] sent that
    by (simp add: tick_def del: ij_syslog_udp_write.simps)
  from tcp udp sent(3) show ?thesis by (auto simp: stream_outcome_def split: if_splits)
qed

definition tcp_config :: ij_logger_config_t where
  "tcp_config = sample_config\<lparr>cfg_syslog_transport := IJ_SYSLOG_TRANSPORT_TCP\<rparr>"

definition tcp_logger :: ij_logger where
  "tcp_logger = (zero_logger tcp_config)\<lparr>lg_active := True, lg_syslog_sink := sample_sink\<rparr>"

lemma tcp_logger_sel:
  "lg_active tcp_logger" "lg_config tcp_logger = tcp_config" "cfg_sink_kind tcp_config = IJ_SINK_KIND_SYSLOG"
  "lg_syslog_sink tcp_logger = sample_sink" "cfg_min_level tcp_config = IJ_LEVEL_TRACE" "sl_fd sample_sink = 3"
  "cfg_syslog_transport tcp_config = IJ_SYSLOG_TRANSPORT_TCP"
  by (simp_all add: tcp_logger_def zero_logger_def tcp_config_def sample_config_def sample_sink_def)

theorem logger_log_syslog_correct_witness:
  "\<exists>st logger' w' cp more. ij_logger_log sample_cpu short_writer (Some tcp_logger) (Some sample_event) start_world =
       Some (st, logger', w', cp) \<and> w_streams w' 3 = more \<and>
     (if st = IJ_STATUS_OK then more = tcp_frame (logged_syslog tcp_config sample_event)
      else strict_prefix more (tcp_frame (logged_syslog tcp_config sample_event)))"
proof -
  obtain st logger' w' cp where l: "ij_logger_log sample_cpu short_writer (Some tcp_logger) (Some sample_event) start_world =
       Some (st, logger', w', cp)" using log_safe by blast
  have "w_streams start_world 3 = []" by (simp add: start_world_def)
  with logger_log_syslog_correct [OF _ _ _ l] l show ?thesis by (auto simp: tcp_logger_sel sample_enabled split: if_splits)
qed

text \<open>
  C14. Calls that log nothing change nothing: a null pointer is an invalid argument, a logger that is
  not active an invalid state, and an event below the threshold, or with a level or threshold out of
  range, is accepted; in each case logger and world stay exactly as they are.
\<close>

theorem logger_log_unlogged:
  "ij_logger_log cpu os None event_ptr w = Some (IJ_STATUS_INVALID_ARGUMENT, None, w, zero_event_copy) \<and>
   ij_logger_log cpu os logger_ptr None w = Some (IJ_STATUS_INVALID_ARGUMENT, logger_ptr, w, zero_event_copy) \<and>
   ij_logger_log cpu os (Some (logger\<lparr>lg_active := False\<rparr>)) (Some event) w =
     Some (IJ_STATUS_INVALID_STATE, Some (logger\<lparr>lg_active := False\<rparr>), w, zero_event_copy) \<and>
   ij_logger_log cpu os (Some (logger\<lparr>lg_active := True\<rparr>)) (Some (event\<lparr>ev_level := IJ_LEVEL_OTHER n\<rparr>)) w =
     Some (IJ_STATUS_OK, Some (logger\<lparr>lg_active := True\<rparr>), w, zero_event_copy) \<and>
   (lg_active logger2 \<and> ev_level event < cfg_min_level (lg_config logger2) \<longrightarrow>
     ij_logger_log cpu os (Some logger2) (Some event) w = Some (IJ_STATUS_OK, Some logger2, w, zero_event_copy))"
  by (auto simp: ij_logger_log_def ij_level_is_enabled_def ij_level_is_valid_iff split: option.split)

theorem logger_log_unlogged_witness:
  "ij_logger_log sample_cpu short_writer (Some (console_logger\<lparr>lg_config := console_config\<lparr>cfg_min_level := IJ_LEVEL_WARN\<rparr>\<rparr>))
     (Some sample_event) start_world =
   Some (IJ_STATUS_OK, Some (console_logger\<lparr>lg_config := console_config\<lparr>cfg_min_level := IJ_LEVEL_WARN\<rparr>\<rparr>), start_world, zero_event_copy)"
  using logger_log_unlogged [where ?logger2.0 = "console_logger\<lparr>lg_config := console_config\<lparr>cfg_min_level := IJ_LEVEL_WARN\<rparr>\<rparr>"
      and event = sample_event and w = start_world and cpu = sample_cpu and os = short_writer]
  by (simp add: console_logger_sel sample_event_def less_ij_level_t_def)

text \<open>
  C15. Logging gets through: a valid event above the threshold whose texts need no escapes and whose
  timestamp can be written is logged by a console logger, whatever shares \<open>writev\<close> takes, as long as
  memory is available and \<open>writev\<close> makes progress.
\<close>

theorem logger_log_console_succeeds:
  assumes "lg_active logger" and "cfg_sink_kind (lg_config logger) = IJ_SINK_KIND_CONSOLE"
    and "ij_level_is_enabled (cfg_min_level (lg_config logger)) (ev_level event)"
    and "valid_event event" and "view_plain (input_view (cfg_redaction_mode (lg_config logger)) event)"
    and "timestamp_ok (ev_timestamp event)"
    and "\<And>c. arena_ok (os_alloc os c) \<and> attrs_ok (os_alloc os c)" and "\<And>c k. 0 < k \<Longrightarrow> 0 < os_writev os c k"
  shows "\<exists>w' cp. ij_logger_log cpu os (Some logger) (Some event) w = Some (IJ_STATUS_OK, Some logger, w', cp) \<and>
           w_stdout w' = w_stdout w @ event_line (input_view (cfg_redaction_mode (lg_config logger)) event) @ [0x0a]"
  using log_console_works [OF assms, of cpu w] log_console [OF assms(1,2), of cpu os event w]
  by (auto simp: logged_line_enabled(1) [OF assms(3)])

theorem logger_log_console_succeeds_witness:
  "\<exists>w' cp. ij_logger_log sample_cpu short_writer (Some console_logger) (Some sample_event) start_world =
       Some (IJ_STATUS_OK, Some console_logger, w', cp) \<and>
     w_stdout w' = event_line (input_view IJ_REDACTION_MODE_ENABLED sample_event) @ [0x0a]"
proof -
  have "w_stdout start_world = []" by (simp add: start_world_def)
  moreover have "timestamp_ok (ev_timestamp sample_event)" using sample_event_time by (simp add: input_view_sel)
  ultimately show ?thesis
    using logger_log_console_succeeds [of console_logger sample_event short_writer sample_cpu start_world]
    by (simp add: console_logger_sel sample_enabled sample_event_valid sample_view_plain short_writer_def sample_alloc_def)
qed



text \<open>
  C7. A TCP syslog logger over a history of accepted calls on a fresh connection: the receiver of the
  connection's bytes reads exactly the RFC 5424 lines of the events that pass the filter, in order.
\<close>

theorem tcp_logger_history:
  assumes "syslog_ready IJ_SYSLOG_TRANSPORT_TCP config sink (logger, w)" and "w_streams w (sl_fd sink) = []"
    and "event_log.log_all (log_step cpu os) events (logger, w) = Some (IJ_STATUS_OK, (logger', w'))"
  shows "read_frames (w_streams w' (sl_fd sink)) =
    Some (map (logged_syslog config)
      (filter (\<lambda>event. ij_level_is_enabled (cfg_min_level config) (ev_level event)) events))"
proof -
  have "w_streams w' (sl_fd sink) = concat (map (\<lambda>e. concat (map tcp_frame (when_enabled config (logged_syslog config) e))) events)"
    using tcp_log.log_all_ok [OF assms(1,3)] assms(2) by simp
  then show ?thesis
    unfolding when_enabled_concat using read_frames_frames [of "map (logged_syslog config)
      (filter (\<lambda>e. ij_level_is_enabled (cfg_min_level config) (ev_level e)) events)"] by (simp add: comp_def)
qed

theorem tcp_logger_history_witness:
  "\<exists>w'. event_log.log_all (log_step sample_cpu short_writer) [sample_event] (tcp_logger, start_world) =
       Some (IJ_STATUS_OK, (tcp_logger, w')) \<and>
     read_frames (w_streams w' 3) = Some [logged_syslog tcp_config sample_event]"
proof -
  have "timestamp_ok (ev_timestamp sample_event)" using sample_event_time by (simp add: input_view_sel)
  then obtain w' cp where "ij_logger_log sample_cpu short_writer (Some tcp_logger) (Some sample_event) start_world =
      Some (IJ_STATUS_OK, Some tcp_logger, w', cp)"
    using log_tcp_works [of tcp_logger sample_event short_writer sample_cpu start_world]
    by (auto simp: tcp_logger_sel sample_enabled sample_event_valid short_writer_def sample_alloc_def)
  then have l: "event_log.log_all (log_step sample_cpu short_writer) [sample_event] (tcp_logger, start_world) =
      Some (IJ_STATUS_OK, (tcp_logger, w'))" by (simp add: log_step_def)
  have "syslog_ready IJ_SYSLOG_TRANSPORT_TCP tcp_config sample_sink (tcp_logger, start_world)"
    "w_streams start_world (sl_fd sample_sink) = []"
    by (simp_all add: syslog_ready_def tcp_logger_sel start_world_def)
  from tcp_logger_history [OF this l] l show ?thesis by (simp add: tcp_logger_sel sample_enabled)
qed


definition secret_key :: "byte list" where
  "secret_key = bytes ''password''"

definition secret_event :: ij_event_t where
  "secret_event = sample_event\<lparr>ev_attributes := Some [\<lparr>attr_key = Some secret_key,
     attr_value = IJ_ATTR_VALUE_STRING (Some [0x78]) 1\<rparr>], ev_attribute_count := 1\<rparr>"

lemma secret_key_facts:
  "c_text secret_key = secret_key" "secret_key \<noteq> []" "length secret_key = 8" "\<not> has_special secret_key"
  by (simp_all add: secret_key_def c_text_def has_special_def json_special_def)

lemma secret_key_utf8: "is_utf8 secret_key"
  by (rule is_utf8_ascii) (simp add: secret_key_def)

lemma secret_key_sensitive: "sensitive secret_key"
proof -
  have "lower secret_key \<in> denylist" by (simp add: secret_key_def denylist_def lower_def tolower_def)
  then show ?thesis by (simp add: sensitive_def)
qed

lemma secret_name: "attr_name \<lparr>attr_key = Some secret_key, attr_value = v\<rparr> = secret_key"
  by (simp add: attr_name_def key_mem_def secret_key_facts)

lemma secret_attribute: "0 < length (event_attributes secret_event)"
    "sensitive (attr_name (event_attributes secret_event ! 0))"
  by (simp_all add: secret_event_def event_attributes_def secret_name secret_key_sensitive)

lemma set_secret:
  "set_value 0 v secret_event = sample_event\<lparr>ev_attributes := Some [\<lparr>attr_key = Some secret_key, attr_value = v\<rparr>],
     ev_attribute_count := 1\<rparr>"
  "event_attributes (set_value 0 v secret_event) = [\<lparr>attr_key = Some secret_key, attr_value = v\<rparr>]"
  by (simp_all add: set_value_def secret_event_def event_attributes_def)

lemma secret_valid:
  assumes "is_utf8 d" "length d \<le> 512"
  shows "valid_event (set_value 0 (IJ_ATTR_VALUE_STRING (Some d) (length d)) secret_event)"
proof -
  let ?v = "IJ_ATTR_VALUE_STRING (Some d) (length d)"
  let ?a = "\<lparr>attr_key = Some secret_key, attr_value = ?v\<rparr>"
  have a: "valid_attr ?a" "attr_text_size ?a \<le> 520"
    using assms c_mem_take [of "length d" d]
    by (simp_all add: valid_attr_def valid_text_def valid_value_def limit_defs attr_text_size_def value_text_size_def
        key_mem_def strlen_def secret_key_facts secret_key_utf8)
  have "valid_event_frame (set_value 0 ?v secret_event)" "valid_event_fields (set_value 0 ?v secret_event)"
    "fields_text_size (set_value 0 ?v secret_event) \<le> 100"
    using sample_event_valid unfolding set_secret(1)
    by (simp_all add: valid_event_def valid_event_frame_def valid_event_fields_def fields_text_size_def limit_defs
        sample_event_def opt_strlen_def strlen_def c_text_def)
  with a show ?thesis
    unfolding valid_event_def set_secret(2) by (simp add: limit_defs)
qed

lemma secret_logged:
  assumes "is_utf8 d" "length d \<le> 512"
  shows "\<exists>w' cp. ij_logger_log sample_cpu short_writer (Some console_logger)
      (Some (set_value 0 (IJ_ATTR_VALUE_STRING (Some d) (length d)) secret_event)) start_world =
      Some (IJ_STATUS_OK, Some console_logger, w', cp)"
proof -
  let ?e = "set_value 0 (IJ_ATTR_VALUE_STRING (Some d) (length d)) secret_event"
  have "v_attributes (input_view IJ_REDACTION_MODE_ENABLED ?e) = [(secret_key, VString IJ_REDACTED_LITERAL)]"
    "v_event_name (input_view IJ_REDACTION_MODE_ENABLED ?e) = v_event_name (input_view IJ_REDACTION_MODE_ENABLED sample_event)"
    "v_message (input_view IJ_REDACTION_MODE_ENABLED ?e) = v_message (input_view IJ_REDACTION_MODE_ENABLED sample_event)"
    "v_logger (input_view IJ_REDACTION_MODE_ENABLED ?e) = v_logger (input_view IJ_REDACTION_MODE_ENABLED sample_event)"
    unfolding input_view_def set_secret(2)
    by (simp_all add: set_secret(1) input_attr_view_def must_redact_def is_string_value_def secret_name secret_key_sensitive)
  then have plain: "view_plain (input_view IJ_REDACTION_MODE_ENABLED ?e)"
    using sample_view_plain secret_key_facts(4)
    by (simp add: view_plain_def IJ_REDACTED_LITERAL_def has_special_def json_special_def)
  have "timestamp_ok (ev_timestamp ?e)" "ij_level_is_enabled IJ_LEVEL_TRACE (ev_level ?e)"
    using sample_event_time sample_enabled by (simp_all add: set_secret(1) input_view_sel)
  then show ?thesis
    using log_console_works [of console_logger ?e short_writer sample_cpu start_world] secret_valid [OF assms] plain
    by (simp add: console_logger_sel short_writer_def sample_alloc_def)
qed




text \<open>
  The line and the syslog message say nothing of the trace context and the source position: an event has
  the same ones as the event without these fields.
\<close>

theorem line_omits_context:
  fixes event config
  defines "bare \<equiv> event\<lparr>ev_trace_id := None, ev_span_id := None, ev_trace_flags := 0, ev_has_trace_context := False,
     ev_source_file := None, ev_source_line := 0, ev_source_function := None\<rparr>"
  shows "logged_line config event = logged_line config bare \<and> logged_syslog config event = logged_syslog config bare"
proof -
  have "event_attributes bare = event_attributes event" by (simp add: bare_def event_attributes_def split: option.split)
  then have "v_timestamp (input_view mode bare) = v_timestamp (input_view mode event)"
    "v_level (input_view mode bare) = v_level (input_view mode event)"
    "v_event_name (input_view mode bare) = v_event_name (input_view mode event)"
    "v_message (input_view mode bare) = v_message (input_view mode event)"
    "v_logger (input_view mode bare) = v_logger (input_view mode event)"
    "v_attributes (input_view mode bare) = v_attributes (input_view mode event)" "ev_level bare = ev_level event" for mode
    by (simp_all add: input_view_def, simp_all add: bare_def)
  note same = this
  show ?thesis
    unfolding logged_line_def event_line_def event_json_def logged_syslog_def view_syslog_line_def view_app_def same by simp
qed

text \<open>
  A value that is no string is written even under a sensitive key.
\<close>

theorem numbers_not_redacted:
  "input_attr_view IJ_REDACTION_MODE_ENABLED \<lparr>attr_key = Some secret_key, attr_value = IJ_ATTR_VALUE_UNSIGNED n\<rparr> =
     (secret_key, VUnsigned n)"
  by (simp add: input_attr_view_def must_redact_def is_string_value_def secret_name)

end
